(* ===== verification/Prelude.thy ===== *)
theory Prelude
  imports Main "HOL-Library.Word" "HOL-Library.Monad_Syntax"
begin

unbundle bit_operations_syntax

text \<open>
  Shared vocabulary of the development: the C integer types as machine words, C arrays as
  lists with bounds-checked accesses, the byte order used on the wire, and the generic
  lemmas the components share.

  A C access outside its object is undefined behaviour. The model makes it visible: an
  operation that may leave an array returns an option, and \<open>None\<close> means "the code has read
  or written outside the object". Everything that returns \<open>Some\<close> has stayed inside.
\<close>

section \<open>C integers\<close>

type_synonym u8 = "8 word"
type_synonym u16 = "16 word"
type_synonym u32 = "32 word"

named_theorems config_defs \<open>the macros of the configuration headers\<close>
named_theorems bytes_simps \<open>facts about arrays and byte order\<close>

section \<open>Arrays with bounds checks\<close>

definition ld :: "'a list \<Rightarrow> nat \<Rightarrow> 'a option" where
  "ld xs i = (if i < length xs then Some (xs ! i) else None)"

definition st :: "'a list \<Rightarrow> nat \<Rightarrow> 'a \<Rightarrow> 'a list option" where
  "st xs i v = (if i < length xs then Some (xs[i := v]) else None)"

definition blit :: "'a list \<Rightarrow> nat \<Rightarrow> 'a list \<Rightarrow> 'a list" where
  "blit dst i src = take i dst @ src @ drop (i + length src) dst"

text \<open>\<open>memcpy (dst + di, src + si, n)\<close> and \<open>memset (dst + di, v, n)\<close> of the C library.\<close>

definition c_memcpy :: "'a list \<Rightarrow> nat \<Rightarrow> 'a list \<Rightarrow> nat \<Rightarrow> nat \<Rightarrow> 'a list option" where
  "c_memcpy dst di src si n =
     (if di + n \<le> length dst \<and> si + n \<le> length src
      then Some (blit dst di (take n (drop si src))) else None)"

definition c_memset :: "'a list \<Rightarrow> nat \<Rightarrow> 'a \<Rightarrow> nat \<Rightarrow> 'a list option" where
  "c_memset dst di v n =
     (if di + n \<le> length dst then Some (blit dst di (replicate n v)) else None)"

lemma ld_in [simp]: "i < length xs \<Longrightarrow> ld xs i = Some (xs ! i)"
  by (simp add: ld_def)

lemma ld_None [simp]: "ld xs i = None \<longleftrightarrow> length xs \<le> i"
  by (auto simp: ld_def)

lemma st_in [simp]: "i < length xs \<Longrightarrow> st xs i v = Some (xs[i := v])"
  by (simp add: st_def)

lemma st_None [simp]: "st xs i v = None \<longleftrightarrow> length xs \<le> i"
  by (auto simp: st_def)

lemma st_SomeD: "st xs i v = Some ys \<Longrightarrow> i < length xs \<and> ys = xs[i := v]"
  by (auto simp: st_def split: if_splits)

lemma ld_SomeD: "ld xs i = Some v \<Longrightarrow> i < length xs \<and> v = xs ! i"
  by (auto simp: ld_def split: if_splits)

lemma length_blit [simp]: "i + length src \<le> length dst \<Longrightarrow> length (blit dst i src) = length dst"
  by (simp add: blit_def)

lemma nth_blit:
  "i + length src \<le> length dst \<Longrightarrow> k < length dst \<Longrightarrow>
   blit dst i src ! k = (if i \<le> k \<and> k < i + length src then src ! (k - i) else dst ! k)"
  by (auto simp: blit_def nth_append min_def)

lemma blit_0_all [simp]: "length src = length dst \<Longrightarrow> blit dst 0 src = src"
  by (simp add: blit_def)

lemma take_drop_blit [simp]:
  "i + length src \<le> length dst \<Longrightarrow> take (length src) (drop i (blit dst i src)) = src"
  by (simp add: blit_def)

lemma c_memcpy_in [simp]:
  "di + n \<le> length dst \<Longrightarrow> si + n \<le> length src \<Longrightarrow>
   c_memcpy dst di src si n = Some (blit dst di (take n (drop si src)))"
  by (simp add: c_memcpy_def)

lemma c_memcpy_None [simp]:
  "c_memcpy dst di src si n = None \<longleftrightarrow> length dst < di + n \<or> length src < si + n"
  by (auto simp: c_memcpy_def)

lemma c_memset_in [simp]:
  "di + n \<le> length dst \<Longrightarrow> c_memset dst di v n = Some (blit dst di (replicate n v))"
  by (simp add: c_memset_def)

lemma c_memset_None [simp]: "c_memset dst di v n = None \<longleftrightarrow> length dst < di + n"
  by (auto simp: c_memset_def)

lemma c_memcpy_SomeD:
  "c_memcpy dst di src si n = Some d \<Longrightarrow>
   di + n \<le> length dst \<and> si + n \<le> length src \<and> d = blit dst di (take n (drop si src))"
  by (auto simp: c_memcpy_def split: if_splits)

section \<open>A byte-copying loop\<close>

text \<open>\<open>for (i = 0; i < n; i++) dst[di + i] = src[si + i];\<close>\<close>

fun copy_loop :: "nat \<Rightarrow> 'a list \<Rightarrow> nat \<Rightarrow> 'a list \<Rightarrow> nat \<Rightarrow> 'a list option" where
  "copy_loop 0 dst di src si = Some dst"
| "copy_loop (Suc n) dst di src si =
     do { v \<leftarrow> ld src si; d \<leftarrow> st dst di v; copy_loop n d (Suc di) src (Suc si) }"

lemma blit_Cons: "i < length dst \<Longrightarrow> blit dst i (x # xs) = blit (dst[i := x]) (Suc i) xs"
  by (simp add: blit_def take_Suc_conv_app_nth)

lemma copy_loop_in [simp]:
  "di + n \<le> length dst \<Longrightarrow> si + n \<le> length src \<Longrightarrow>
   copy_loop n dst di src si = Some (blit dst di (take n (drop si src)))"
proof (induction n arbitrary: dst di si)
  case 0
  then show ?case by (simp add: blit_def)
next
  case (Suc n)
  then have "take (Suc n) (drop si src) = src ! si # take n (drop (Suc si) src)"
    by (metis Cons_nth_drop_Suc Suc_le_lessD add_Suc_right less_add_Suc1 order_less_le_trans take_Suc_Cons)
  with Suc show ?case by (simp add: blit_Cons)
qed

lemma copy_loop_None:
  "copy_loop n dst di src si = None \<longleftrightarrow> 0 < n \<and> (length dst < di + n \<or> length src < si + n)"
proof (induction n arbitrary: dst di si)
  case 0
  then show ?case by simp
next
  case (Suc n)
  show ?case
  proof (cases "si < length src \<and> di < length dst")
    case True
    then show ?thesis by (auto simp: Suc.IH)
  next
    case False
    then show ?thesis by (auto simp: ld_def st_def)
  qed
qed

section \<open>Big-endian numbers in byte arrays\<close>

definition be16 :: "u16 \<Rightarrow> u8 list" where
  "be16 w = [ucast (drop_bit 8 w), ucast w]"

definition be32 :: "u32 \<Rightarrow> u8 list" where
  "be32 w = [ucast (drop_bit 24 w), ucast (drop_bit 16 w), ucast (drop_bit 8 w), ucast w]"

text \<open>\<open>for (i = 0; i < 4; i++) a[base + 3 - i] = w >> (8 * i);\<close>\<close>

definition put_be32 :: "u8 list \<Rightarrow> nat \<Rightarrow> u32 \<Rightarrow> u8 list" where
  "put_be32 a base w = fold (\<lambda>i a. a[base + 3 - i := ucast (drop_bit (8 * i) w)]) [0..<4] a"

lemma length_be [simp]: "length (be16 v) = 2" "length (be32 w) = 4"
  by (simp_all add: be16_def be32_def)

lemma upt_4: "[0..<4] = [0, 1, 2, 3]"
  by (simp add: upt_rec)

lemma length_put_be32 [simp]: "length (put_be32 a base w) = length a"
  by (simp add: put_be32_def upt_4)

lemma put_be32_blit: "base + 4 \<le> length a \<Longrightarrow> put_be32 a base w = blit a base (be32 w)"
  by (rule nth_equalityI)
    (auto simp: put_be32_def upt_4 be32_def nth_blit nth_list_update nth_Cons' numeral_eq_Suc)

text \<open>The number back from its two bytes.\<close>

definition from_be16 :: "u8 \<Rightarrow> u8 \<Rightarrow> u16" where
  "from_be16 h l = push_bit 8 (ucast h) OR ucast l"

lemma from_be16_be16 [simp]: "from_be16 (ucast (drop_bit 8 w)) (ucast w) = w"
  by (rule bit_word_eqI) (auto simp: from_be16_def bit_simps)

lemma be16_from_be16 [simp]: "be16 (from_be16 a b) = [a, b]"
  by (simp add: be16_def from_be16_def)
    (intro conjI; rule bit_word_eqI; auto simp: bit_simps dest: bit_imp_le_length)

section \<open>Machine integers\<close>

lemma unat_u8 [simp]: "unat (x :: u8) < 256"
  using unsigned_less [of x, where ?'a = nat] by simp

lemma unat_ucast_u8 [simp]: "unat (ucast (b :: u8) :: u32) = unat b" "unat (ucast (b :: u8) :: u16) = unat b"
  using unat_u8 [of b] less_trans [OF unat_u8 [of b], of "2 ^ 32"] less_trans [OF unat_u8 [of b], of "2 ^ 16"]
  by (simp_all add: unsigned_ucast_eq unsigned_take_bit_eq take_bit_nat_eq_self_iff del: unat_u8)

lemma of_nat_le_word:
  "n < 256 \<Longrightarrow> m < 256 \<Longrightarrow> (of_nat n :: u8) \<le> of_nat m \<longleftrightarrow> n \<le> m"
  "n < 65536 \<Longrightarrow> m < 65536 \<Longrightarrow> (of_nat n :: u16) \<le> of_nat m \<longleftrightarrow> n \<le> m"
  "n < 65536 \<Longrightarrow> m < 65536 \<Longrightarrow> (of_nat n :: u32) \<le> of_nat m \<longleftrightarrow> n \<le> m"
  by (simp_all add: word_le_nat_alt unat_of_nat)

lemmas of_nat_le_u8 = of_nat_le_word(1) and of_nat_le_u16 = of_nat_le_word(2)
  and of_nat_le_u32 = of_nat_le_word(3)

text \<open>The signed reading of a 32-bit word.\<close>

lemma sint_signed_take_bit: "sint (w :: u32) = signed_take_bit 31 (uint w)"
  unfolding sint_uint by simp

lemma sint_nonneg: "unat w < 2 ^ 31 \<Longrightarrow> sint (w :: u32) = int (unat w)"
proof -
  assume "unat w < 2 ^ 31"
  then have "int (unat w) < int (2 ^ 31)" by (simp only: of_nat_less_iff)
  then have "uint w < 2 ^ 31" unfolding uint_nat by (simp only: of_nat_power of_nat_numeral)
  moreover have "- (2 ^ 31) \<le> uint w" by (rule order_trans [OF _ uint_ge_0]) simp
  ultimately have "signed_take_bit 31 (uint w) = uint w" by (intro signed_take_bit_int_eq_self)
  then show ?thesis unfolding sint_signed_take_bit by (simp only: uint_nat)
qed

lemma sint_neg:
  "2 ^ 31 \<le> unat w \<Longrightarrow> sint (w :: u32) = int (unat w) - 2 ^ 32"
  "2 ^ 31 \<le> unat w \<Longrightarrow> sint w < 0"
proof -
  assume "2 ^ 31 \<le> unat w"
  then have "int (2 ^ 31) \<le> int (unat w)" by (simp only: of_nat_le_iff)
  then have w: "2 ^ 31 \<le> uint w" unfolding uint_nat by (simp only: of_nat_power of_nat_numeral)
  have lt: "uint w < 2 ^ 32" using uint_lt2p [of w] by simp
  have "take_bit (Suc 31) (uint w - 2 ^ 32) = take_bit (Suc 31) (uint w)"
    unfolding take_bit_eq_mod by (simp add: mod_diff_right_eq [symmetric])
  then have "signed_take_bit 31 (uint w) = signed_take_bit 31 (uint w - 2 ^ 32)"
    by (simp only: signed_take_bit_eq_iff_take_bit_eq)
  also have "\<dots> = uint w - 2 ^ 32"
    using w lt by (intro signed_take_bit_int_eq_self) simp_all
  finally have s: "sint w = uint w - 2 ^ 32" unfolding sint_signed_take_bit .
  then show "sint w = int (unat w) - 2 ^ 32" by (simp only: uint_nat)
  show "sint w < 0" unfolding s using lt by simp
qed

lemma unat_ucast_u16 [simp]: "unat (ucast (b :: u16) :: u32) = unat b"
proof -
  have "unat b < 2 ^ 32" using less_trans [OF unsigned_less [of b, where ?'a = nat], of "2 ^ 32"] by simp
  then show ?thesis by (simp add: unsigned_ucast_eq unsigned_take_bit_eq take_bit_nat_eq_self_iff)
qed

section \<open>Bits of a status byte\<close>

text \<open>\<open>SetBit\<close>, \<open>ClrBit\<close> and the test \<open>VAR & BIT(place)\<close> on an 8-bit variable.\<close>

definition SetBit :: "u8 \<Rightarrow> nat \<Rightarrow> u8" where
  "SetBit v p = v OR push_bit p 1"

definition ClrBit :: "u8 \<Rightarrow> nat \<Rightarrow> u8" where
  "ClrBit v p = v AND (push_bit p 1 XOR 255)"

definition HasBit :: "u8 \<Rightarrow> nat \<Rightarrow> bool" where
  "HasBit v p \<longleftrightarrow> v AND push_bit p 1 \<noteq> 0"

lemma bit_place: "p < 8 \<Longrightarrow> bit (2 ^ p :: u8) n \<longleftrightarrow> n = p"
  by (auto simp: bit_simps)

lemma bit_255_u8: "bit (255 :: u8) n \<longleftrightarrow> n < 8"
proof -
  have "bit (mask 8 :: u8) n \<longleftrightarrow> n < 8" by (simp add: bit_mask_iff del: mask_numeral)
  moreover have "(255 :: u8) = mask 8" by (simp add: mask_eq_exp_minus_1)
  ultimately show ?thesis by (simp only:)
qed

lemma HasBit_iff: "p < 8 \<Longrightarrow> HasBit v p \<longleftrightarrow> bit v p"
proof -
  assume p: "p < 8"
  have "v AND push_bit p 1 \<noteq> 0 \<longleftrightarrow> (\<exists>n. bit (v AND push_bit p 1) n)"
    using bit_eq_iff [of "v AND push_bit p 1" 0] by auto
  also have "\<dots> \<longleftrightarrow> bit v p"
    using p by (auto simp: bit_and_iff bit_place simp del: bit_exp_iff)
  finally show ?thesis by (simp add: HasBit_def)
qed

lemma bit_SetBit: "p < 8 \<Longrightarrow> bit (SetBit v p) n \<longleftrightarrow> n = p \<or> bit v n"
  by (auto simp: SetBit_def bit_or_iff bit_place)

lemma bit_ClrBit: "p < 8 \<Longrightarrow> bit (ClrBit v p) n \<longleftrightarrow> n \<noteq> p \<and> bit v n"
  using bit_imp_le_length [of v n]
  by (auto simp: ClrBit_def bit_and_iff bit_xor_iff bit_place bit_255_u8
      simp del: bit_numeral_word_iff)

lemma HasBit_SetBit [simp]: "p < 8 \<Longrightarrow> q < 8 \<Longrightarrow> HasBit (SetBit v p) q \<longleftrightarrow> p = q \<or> HasBit v q"
  by (auto simp: HasBit_iff bit_SetBit)

lemma HasBit_ClrBit [simp]: "p < 8 \<Longrightarrow> q < 8 \<Longrightarrow> HasBit (ClrBit v p) q \<longleftrightarrow> p \<noteq> q \<and> HasBit v q"
  by (auto simp: HasBit_iff bit_ClrBit)

end
