(* ===== verification/Config.thy ===== *)
theory Config
  imports Prelude
begin

text \<open>
  The macros of \<open>app/include/user_config.h\<close> and \<open>networking.h\<close>, as abbreviations with the
  header's names, and the sizes of the global arrays. The build under study is the one the
  header selects: \<open>SENSOR_TYPE\<close> is \<open>MP_503NEW\<close> and \<open>DEBUG\<close> is not defined.
\<close>

section \<open>Timing\<close>

text \<open>Ticks of the 50 ms LED timer (\<open>pwmad_cb\<close>), then multiples of the previous unit.\<close>

abbreviation (input) CNT_10S :: u8 where "CNT_10S \<equiv> 200"
abbreviation (input) CNT_MINITE :: u16 where "CNT_MINITE \<equiv> 2400"
abbreviation (input) CNT_HOUR :: u16 where "CNT_HOUR \<equiv> 30"
abbreviation (input) CNT_DAY :: u16 where "CNT_DAY \<equiv> 24"
abbreviation (input) CNT_60S :: u16 where "CNT_60S \<equiv> 1200"

section \<open>Bit positions\<close>

abbreviation (input) BIT_MINITE :: nat where "BIT_MINITE \<equiv> 0"
abbreviation (input) BIT_HOUR :: nat where "BIT_HOUR \<equiv> 1"
abbreviation (input) BIT_DAY :: nat where "BIT_DAY \<equiv> 2"
abbreviation (input) BIT_10S :: nat where "BIT_10S \<equiv> 3"
abbreviation (input) BIT_30S :: nat where "BIT_30S \<equiv> 4"

abbreviation (input) BIT_ALARMOFF :: nat where "BIT_ALARMOFF \<equiv> 6"
abbreviation (input) BIT_SELFTEST :: nat where "BIT_SELFTEST \<equiv> 5"
abbreviation (input) BIT_LOGINOK :: nat where "BIT_LOGINOK \<equiv> 3"
abbreviation (input) BIT_HASNET :: nat where "BIT_HASNET \<equiv> 1"
abbreviation (input) BIT_ONLINE :: nat where "BIT_ONLINE \<equiv> 0"

abbreviation (input) BIT_RED :: nat where "BIT_RED \<equiv> 0"
abbreviation (input) BIT_GREEN :: nat where "BIT_GREEN \<equiv> 1"
abbreviation (input) BIT_BLUE :: nat where "BIT_BLUE \<equiv> 2"
abbreviation (input) BIT_BEEP :: nat where "BIT_BEEP \<equiv> 3"

section \<open>Smart-config sub-modes\<close>

abbreviation (input) SMARTCONFIG_START :: u8 where "SMARTCONFIG_START \<equiv> 1"
abbreviation (input) SMARTCONFIG_WAIT :: u8 where "SMARTCONFIG_WAIT \<equiv> 2"
abbreviation (input) SMARTCONFIG_FINISH :: u8 where "SMARTCONFIG_FINISH \<equiv> 7"

section \<open>Sizes\<close>

abbreviation (input) LENGTH_DEV_ID :: nat where "LENGTH_DEV_ID \<equiv> 10"
abbreviation (input) LENGTH_DST_ID :: nat where "LENGTH_DST_ID \<equiv> 10"
abbreviation (input) LENGTH_SRC_ID :: nat where "LENGTH_SRC_ID \<equiv> 10"
abbreviation (input) LENGTH_PPM :: nat where "LENGTH_PPM \<equiv> 4"
abbreviation (input) MESMAX :: nat where "MESMAX \<equiv> 128"
abbreviation (input) RXMAX :: nat where "RXMAX \<equiv> 128"
abbreviation (input) PPM_MAX :: u32 where "PPM_MAX \<equiv> 3500"

section \<open>Encryption types\<close>

abbreviation (input) NONEKEY :: u8 where "NONEKEY \<equiv> 0"
abbreviation (input) OPENKEY :: u8 where "OPENKEY \<equiv> 1"
abbreviation (input) PRIMARYKEY :: u8 where "PRIMARYKEY \<equiv> 2"

section \<open>System modes, sensor modes, LED channels\<close>

abbreviation (input) Mode_Init :: u8 where "Mode_Init \<equiv> 0x01"
abbreviation (input) Mode_Wait :: u8 where "Mode_Wait \<equiv> 0x02"
abbreviation (input) Mode_Bias :: u8 where "Mode_Bias \<equiv> 0x03"
abbreviation (input) Mode_Config :: u8 where "Mode_Config \<equiv> 0x04"
abbreviation (input) Mode_Nomal :: u8 where "Mode_Nomal \<equiv> 0x08"
abbreviation (input) Mode_CreateSession :: u8 where "Mode_CreateSession \<equiv> 0x40"

abbreviation (input) Sensor_Init :: u8 where "Sensor_Init \<equiv> 0x01"
abbreviation (input) Sensor_Normal :: u8 where "Sensor_Normal \<equiv> 0x02"
abbreviation (input) Sensor_Test :: u8 where "Sensor_Test \<equiv> 0x03"
abbreviation (input) Sensor_Config :: u8 where "Sensor_Config \<equiv> 0x05"
abbreviation (input) Sensor_Test1 :: u8 where "Sensor_Test1 \<equiv> 0x07"
abbreviation (input) Sensor_ConnError :: u8 where "Sensor_ConnError \<equiv> 0x08"

abbreviation (input) LED_GREEN :: u8 where "LED_GREEN \<equiv> 0"
abbreviation (input) LED_BLUE :: u8 where "LED_BLUE \<equiv> 1"
abbreviation (input) LED_RED :: u8 where "LED_RED \<equiv> 2"
abbreviation (input) DUTYMAX :: u32 where "DUTYMAX \<equiv> 222222"
abbreviation (input) DUTYMIN :: u32 where "DUTYMIN \<equiv> 0"

section \<open>Protocol commands\<close>

abbreviation (input) COMMAND_READGAS :: u16 where "COMMAND_READGAS \<equiv> 0x3001"
abbreviation (input) COMMAND_READGASACK :: u16 where "COMMAND_READGASACK \<equiv> 0x3002"
abbreviation (input) COMMAND_WARNING :: u16 where "COMMAND_WARNING \<equiv> 0x3003"
abbreviation (input) COMMAND_HEARTRATE :: u16 where "COMMAND_HEARTRATE \<equiv> 0x3005"
abbreviation (input) COMMAND_HEARTRATEACK :: u16 where "COMMAND_HEARTRATEACK \<equiv> 0x3006"
abbreviation (input) COMMAND_UPDATEPPM :: u16 where "COMMAND_UPDATEPPM \<equiv> 0x3007"
abbreviation (input) COMMAND_GETNEWID :: u16 where "COMMAND_GETNEWID \<equiv> 0x300b"
abbreviation (input) COMMAND_NEWIDACK :: u16 where "COMMAND_NEWIDACK \<equiv> 0x300c"
abbreviation (input) COMMAND_LOGIN :: u16 where "COMMAND_LOGIN \<equiv> 0x300d"
abbreviation (input) COMMAND_LOGINACK :: u16 where "COMMAND_LOGINACK \<equiv> 0x300e"
abbreviation (input) COMMAND_SETPPM :: u16 where "COMMAND_SETPPM \<equiv> 0x300f"
abbreviation (input) COMMAND_SETPPMACK :: u16 where "COMMAND_SETPPMACK \<equiv> 0x3010"
abbreviation (input) COMMAND_MAPDATA :: u16 where "COMMAND_MAPDATA \<equiv> 0x3013"
abbreviation (input) COMMAND_LEDCOLOR :: u16 where "COMMAND_LEDCOLOR \<equiv> 0x2213"
abbreviation (input) COMMAND_LEDCOLORACK :: u16 where "COMMAND_LEDCOLORACK \<equiv> 0x2214"
abbreviation (input) COMMAND_SELFTEST :: u16 where "COMMAND_SELFTEST \<equiv> 0x2215"
abbreviation (input) COMMAND_SELFTESTACK :: u16 where "COMMAND_SELFTESTACK \<equiv> 0x2216"
abbreviation (input) COMMAND_STOPALARM :: u16 where "COMMAND_STOPALARM \<equiv> 0x2219"

section \<open>Text\<close>

text \<open>A C string literal as its bytes, without the terminator.\<close>

definition str :: "string \<Rightarrow> u8 list" where
  "str cs = map of_char cs"

lemma length_str [simp]: "length (str cs) = length cs"
  by (simp add: str_def)

end
