(* ===== verification/Rc4.thy ===== *)
theory Rc4
  imports Prelude
begin

text \<open>
  The stream cipher of \<open>app/user/networking.c\<close> (function \<open>RC4\<close>): key schedule, output
  loop, and the copy back into the message buffer. The interface the framing code relies on
  is the locale \<open>stream_cipher\<close>; it is interpreted by the model of the code. A textbook
  RC4 on functions over natural numbers is the reference.
\<close>

section \<open>The code\<close>

text \<open>\<open>temp = iS[i]; iS[i] = iS[j]; iS[j] = temp\<close>\<close>

definition rc4_swap :: "u8 list \<Rightarrow> nat \<Rightarrow> nat \<Rightarrow> u8 list" where
  "rc4_swap S i j = S[i := S ! j, j := S ! i]"

definition rc4_init :: "u8 list" where
  "rc4_init = map of_nat [0..<256]"

text \<open>One round of the key schedule; \<open>keylen\<close> is \<open>LENGTH_KEY\<close>, \<open>j\<close> a \<open>uint8_t\<close>.\<close>

definition LENGTH_KEY :: nat where
  "LENGTH_KEY = 16"

definition ksa_step :: "u8 list \<Rightarrow> nat \<Rightarrow> u8 list \<times> u8 \<Rightarrow> u8 list \<times> u8" where
  "ksa_step key i = (\<lambda>(S, j).
     let j' = j + S ! i + key ! (i mod LENGTH_KEY)
     in (rc4_swap S i (unat j'), j'))"

definition rc4_ksa :: "u8 list \<Rightarrow> u8 list" where
  "rc4_ksa key = fst (fold (ksa_step key) [0..<256] (rc4_init, 0))"

text \<open>One round of the output loop: the new state and the key byte \<open>iS[t]\<close>.\<close>

type_synonym rc4_state = "u8 list \<times> nat \<times> u8"

definition prga_step :: "rc4_state \<Rightarrow> rc4_state \<times> u8" where
  "prga_step = (\<lambda>(S, i, j).
     let i' = (i + 1) mod 256;
         j' = j + S ! i';
         S' = rc4_swap S i' (unat j');
         t = S' ! i' + S' ! unat j'
     in ((S', i', j'), S' ! unat t))"

text \<open>The output loop over \<open>x\<close>; \<open>iOutputChar\<close> has \<open>DataMax\<close> bytes.\<close>

definition DataMax :: nat where
  "DataMax = 128"

fun rc4_loop :: "nat \<Rightarrow> nat \<Rightarrow> rc4_state \<Rightarrow> u8 list \<Rightarrow> u8 list \<Rightarrow> u8 list option" where
  "rc4_loop 0 x q inp out = Some out"
| "rc4_loop (Suc n) x q inp out =
     (case prga_step q of (q', k) \<Rightarrow>
        do { c \<leftarrow> ld inp x;
             out' \<leftarrow> st out x (c XOR k);
             rc4_loop n (Suc x) q' inp out' })"

text \<open>
  \<open>RC4 (&buf[off], key, msglen)\<close>. The key schedule reads \<open>key[0..15]\<close> on every call, so
  a shorter key is an access out of bounds.
\<close>

definition RC4 :: "u8 list \<Rightarrow> nat \<Rightarrow> u8 list \<Rightarrow> u8 \<Rightarrow> u8 list option" where
  "RC4 buf off key msglen =
     (if length key < LENGTH_KEY then None
      else do {
        out \<leftarrow> rc4_loop (unat msglen) 0 (rc4_ksa key, 0, 0) (drop off buf) (replicate DataMax 0);
        cleared \<leftarrow> c_memset buf off 0 (unat msglen);
        c_memcpy cleared off out 0 (unat msglen) })"

section \<open>The permutation invariant\<close>

definition rc4_perm :: "u8 list \<Rightarrow> bool" where
  "rc4_perm S \<longleftrightarrow> length S = 256 \<and> distinct S"

lemma rc4_perm_init: "rc4_perm rc4_init"
  by (auto simp: rc4_perm_def rc4_init_def distinct_map inj_on_def unat_of_nat
      dest!: arg_cong [where f = unat])

lemma rc4_perm_swap: "rc4_perm S \<Longrightarrow> i < 256 \<Longrightarrow> j < 256 \<Longrightarrow> rc4_perm (rc4_swap S i j)"
  by (simp add: rc4_perm_def rc4_swap_def distinct_swap)

lemma ksa_step_perm: "rc4_perm (fst p) \<Longrightarrow> i < 256 \<Longrightarrow> rc4_perm (fst (ksa_step key i p))"
  by (cases p) (simp add: ksa_step_def Let_def rc4_perm_swap)

lemma fold_ksa_perm:
  "rc4_perm (fst p) \<Longrightarrow> \<forall>i \<in> set is. i < 256 \<Longrightarrow> rc4_perm (fst (fold (ksa_step key) is p))"
  by (induction "is" arbitrary: p) (simp_all add: ksa_step_perm)

lemma rc4_ksa_perm: "rc4_perm (rc4_ksa key)"
  by (simp add: rc4_ksa_def fold_ksa_perm rc4_perm_init)

lemma prga_step_perm: "rc4_perm (fst q) \<Longrightarrow> rc4_perm (fst (fst (prga_step q)))"
  by (cases q) (simp add: prga_step_def Let_def rc4_perm_swap)

text \<open>A permutation of all 256 byte values: every value occurs.\<close>

lemma rc4_perm_UNIV: "rc4_perm S \<Longrightarrow> set S = UNIV"
proof -
  assume "rc4_perm S"
  then have "card (set S) = 256" by (simp add: rc4_perm_def distinct_card)
  moreover have "card (UNIV :: u8 set) = 256" by (simp add: card_word)
  ultimately show ?thesis using card_subset_eq [of UNIV "set S"] by simp
qed

section \<open>The key stream\<close>

fun keystream_from :: "rc4_state \<Rightarrow> nat \<Rightarrow> u8 list" where
  "keystream_from q 0 = []"
| "keystream_from q (Suc n) = (case prga_step q of (q', k) \<Rightarrow> k # keystream_from q' n)"

definition rc4_keystream :: "u8 list \<Rightarrow> nat \<Rightarrow> u8 list" where
  "rc4_keystream key n = keystream_from (rc4_ksa key, 0, 0) n"

definition xor_bytes :: "u8 list \<Rightarrow> u8 list \<Rightarrow> u8 list" where
  "xor_bytes xs ks = map2 (XOR) xs ks"

lemma length_keystream_from [simp]: "length (keystream_from q n) = n"
  by (induction n arbitrary: q) (simp_all split: prod.split)

lemma length_rc4_keystream [simp]: "length (rc4_keystream key n) = n"
  by (simp add: rc4_keystream_def)

lemma length_xor_bytes [simp]: "length (xor_bytes xs ks) = min (length xs) (length ks)"
  by (simp add: xor_bytes_def)

lemma xor_bytes_involution: "length xs = length ks \<Longrightarrow> xor_bytes (xor_bytes xs ks) ks = xs"
proof (induction xs arbitrary: ks)
  case Nil
  then show ?case by (simp add: xor_bytes_def)
next
  case (Cons x xs)
  then show ?case
    by (cases ks) (simp_all add: xor_bytes_def xor.assoc)
qed

lemma rc4_loop_xor:
  "x + n \<le> length inp \<Longrightarrow> x + n \<le> length out \<Longrightarrow>
   rc4_loop n x q inp out = Some (blit out x (xor_bytes (take n (drop x inp)) (keystream_from q n)))"
proof (induction n arbitrary: x q out)
  case 0
  then show ?case by (simp add: blit_def xor_bytes_def)
next
  case (Suc n)
  obtain q' k where q: "prga_step q = (q', k)" by (cases "prga_step q")
  have "rc4_loop (Suc n) x q inp out = rc4_loop n (Suc x) q' inp (out[x := inp ! x XOR k])"
    using Suc.prems by (simp add: q)
  also have "\<dots> = Some (blit (out[x := inp ! x XOR k]) (Suc x)
      (xor_bytes (take n (drop (Suc x) inp)) (keystream_from q' n)))"
    using Suc.prems by (subst Suc.IH) simp_all
  also have "take (Suc n) (drop x inp) = inp ! x # take n (drop (Suc x) inp)"
    using Suc.prems by (metis Cons_nth_drop_Suc Suc_leD add_Suc_right less_eq_Suc_le
        linorder_not_less not_add_less1 order_trans take_Suc_Cons trans_le_add1)
  then have "blit (out[x := inp ! x XOR k]) (Suc x)
      (xor_bytes (take n (drop (Suc x) inp)) (keystream_from q' n)) =
      blit out x (xor_bytes (take (Suc n) (drop x inp)) (keystream_from q (Suc n)))"
    using Suc.prems
    by (simp add: q blit_def xor_bytes_def take_Suc_conv_app_nth)
  finally show ?case .
qed

text \<open>
  What a call computes: inside its bounds, the message is XORed with the key stream and
  nothing else changes; outside them it faults.
\<close>

lemma RC4_Some:
  assumes "LENGTH_KEY \<le> length key" and "unat n \<le> DataMax" and "off + unat n \<le> length buf"
  shows "RC4 buf off key n =
    Some (blit buf off (xor_bytes (take (unat n) (drop off buf)) (rc4_keystream key (unat n))))"
proof -
  have l: "rc4_loop (unat n) 0 (rc4_ksa key, 0, 0) (drop off buf) (replicate DataMax 0) =
    Some (blit (replicate DataMax 0) 0 (xor_bytes (take (unat n) (drop off buf)) (rc4_keystream key (unat n))))"
    using assms by (subst rc4_loop_xor) (simp_all add: rc4_keystream_def)
  show ?thesis
    using assms by (simp add: RC4_def l) (simp add: blit_def min_def)
qed

lemma rc4_loop_None:
  "rc4_loop n x q inp out = None \<longleftrightarrow> 0 < n \<and> (length inp < x + n \<or> length out < x + n)"
proof (induction n arbitrary: x q out)
  case 0
  then show ?case by simp
next
  case (Suc n)
  obtain q' k where q: "prga_step q = (q', k)" by (cases "prga_step q")
  show ?case
  proof (cases "x < length inp \<and> x < length out")
    case True
    then show ?thesis by (auto simp: q Suc.IH)
  next
    case False
    then have "length inp \<le> x \<or> length out \<le> x" by linarith
    then show ?thesis by (auto simp: q ld_def st_def)
  qed
qed

lemma RC4_None:
  "RC4 buf off key n = None \<longleftrightarrow>
   length key < LENGTH_KEY \<or> DataMax < unat n \<or> length buf < off + unat n"
proof (cases "LENGTH_KEY \<le> length key \<and> unat n \<le> DataMax \<and> off + unat n \<le> length buf")
  case True
  then show ?thesis by (auto simp: RC4_Some)
next
  case False
  have "RC4 buf off key n = None" if "DataMax < unat n \<or> length buf < off + unat n"
  proof (cases "rc4_loop (unat n) 0 (rc4_ksa key, 0, 0) (drop off buf) (replicate DataMax 0)")
    case None
    then show ?thesis by (simp add: RC4_def)
  next
    case (Some out)
    then have "rc4_loop (unat n) 0 (rc4_ksa key, 0, 0) (drop off buf) (replicate DataMax 0) \<noteq> None"
      by simp
    with that have "length buf < off + unat n" by (auto simp: rc4_loop_None)
    with Some show ?thesis by (auto simp: RC4_def c_memset_def)
  qed
  with False show ?thesis by (auto simp: RC4_def)
qed

section \<open>The cipher as an interface\<close>

locale stream_cipher =
  fixes crypt :: "u8 list \<Rightarrow> nat \<Rightarrow> u8 list \<Rightarrow> u8 \<Rightarrow> u8 list option"
    and stream :: "u8 list \<Rightarrow> nat \<Rightarrow> u8 list"
    and keysize :: nat
    and cap :: nat
  assumes stream_length: "length (stream key m) = m"
    and crypt_Some: "keysize \<le> length key \<Longrightarrow> unat n \<le> cap \<Longrightarrow> off + unat n \<le> length buf \<Longrightarrow>
      crypt buf off key n =
        Some (blit buf off (xor_bytes (take (unat n) (drop off buf)) (stream key (unat n))))"
    and crypt_None: "crypt buf off key n = None \<longleftrightarrow>
      length key < keysize \<or> cap < unat n \<or> length buf < off + unat n"
begin

lemma crypt_bounds:
  "crypt buf off key n = Some buf' \<Longrightarrow>
   keysize \<le> length key \<and> unat n \<le> cap \<and> off + unat n \<le> length buf"
  using crypt_None [of buf off key n] by (auto simp: not_less)

lemma crypt_eq:
  "crypt buf off key n = Some buf' \<Longrightarrow>
   buf' = blit buf off (xor_bytes (take (unat n) (drop off buf)) (stream key (unat n)))"
  using crypt_bounds crypt_Some by fastforce

lemma crypt_length: "crypt buf off key n = Some buf' \<Longrightarrow> length buf' = length buf"
  using crypt_bounds [of buf off key n buf'] crypt_eq [of buf off key n buf']
  by (auto simp: stream_length)

lemma crypt_frame:
  "crypt buf off key n = Some buf' \<Longrightarrow> k < length buf \<Longrightarrow> k < off \<or> off + unat n \<le> k \<Longrightarrow>
   buf' ! k = buf ! k"
  using crypt_bounds [of buf off key n buf'] crypt_eq [of buf off key n buf']
  by (auto simp: nth_blit stream_length)

lemma crypt_slice:
  "crypt buf off key n = Some buf' \<Longrightarrow>
   take (unat n) (drop off buf') = xor_bytes (take (unat n) (drop off buf)) (stream key (unat n))"
proof -
  assume enc: "crypt buf off key n = Some buf'"
  note b = crypt_bounds [OF enc]
  have "length (xor_bytes (take (unat n) (drop off buf)) (stream key (unat n))) = unat n"
    using b by (auto simp: stream_length min_def)
  then show ?thesis
    using b take_drop_blit [of off "xor_bytes (take (unat n) (drop off buf)) (stream key (unat n))" buf]
    by (simp add: crypt_eq [OF enc])
qed

text \<open>
  Decryption is the same call, wherever the receiver keeps the message: if \<open>buf2\<close> holds at
  \<open>off2\<close> the bytes that the sender's call left at \<open>off\<close>, the receiver's call puts the
  sender's clear text there.
\<close>

lemma crypt_transport:
  assumes enc: "crypt buf off key n = Some buf'"
    and same: "take (unat n) (drop off2 buf2) = take (unat n) (drop off buf')"
    and fits: "off2 + unat n \<le> length buf2"
  shows "crypt buf2 off2 key n = Some (blit buf2 off2 (take (unat n) (drop off buf)))"
proof -
  note b = crypt_bounds [OF enc]
  have "take (unat n) (drop off2 buf2) =
      xor_bytes (take (unat n) (drop off buf)) (stream key (unat n))"
    using same crypt_slice [OF enc] by simp
  moreover have "length (take (unat n) (drop off buf)) = length (stream key (unat n))"
    using b by (auto simp: stream_length min_def)
  ultimately show ?thesis
    using b fits by (simp add: crypt_Some xor_bytes_involution)
qed

lemma crypt_involution:
  assumes enc: "crypt buf off key n = Some buf'"
  shows "crypt buf' off key n = Some buf"
proof -
  note b = crypt_bounds [OF enc]
  have "crypt buf' off key n = Some (blit buf' off (take (unat n) (drop off buf)))"
    using b by (intro crypt_transport [OF enc]) (simp_all add: crypt_length [OF enc])
  also have "blit buf' off (take (unat n) (drop off buf)) = buf"
    using b by (simp add: crypt_eq [OF enc] blit_def stream_length min_def)
      (metis append_take_drop_id drop_drop add.commute)
  finally show ?thesis .
qed

end

interpretation rc4: stream_cipher RC4 rc4_keystream LENGTH_KEY DataMax
  by unfold_locales (simp_all add: RC4_Some RC4_None)

section \<open>Textbook RC4\<close>

text \<open>The cipher as the literature states it, on functions over numbers below 256.\<close>

definition tb_swap :: "(nat \<Rightarrow> nat) \<Rightarrow> nat \<Rightarrow> nat \<Rightarrow> nat \<Rightarrow> nat" where
  "tb_swap S i j = S(i := S j, j := S i)"

definition tb_ksa_step :: "nat list \<Rightarrow> nat \<Rightarrow> (nat \<Rightarrow> nat) \<times> nat \<Rightarrow> (nat \<Rightarrow> nat) \<times> nat" where
  "tb_ksa_step key i = (\<lambda>(S, j).
     let j' = (j + S i + key ! (i mod length key)) mod 256 in (tb_swap S i j', j'))"

definition tb_ksa :: "nat list \<Rightarrow> nat \<Rightarrow> nat" where
  "tb_ksa key = fst (fold (tb_ksa_step key) [0..<256] (\<lambda>k. k, 0))"

fun tb_stream :: "(nat \<Rightarrow> nat) \<Rightarrow> nat \<Rightarrow> nat \<Rightarrow> nat \<Rightarrow> nat list" where
  "tb_stream S i j 0 = []"
| "tb_stream S i j (Suc n) =
     (let i' = (i + 1) mod 256; j' = (j + S i') mod 256; S' = tb_swap S i' j'
      in S' ((S' i' + S' j') mod 256) # tb_stream S' i' j' n)"

definition rc4_textbook :: "nat list \<Rightarrow> nat \<Rightarrow> nat list" where
  "rc4_textbook key n = tb_stream (tb_ksa key) 0 0 n"

text \<open>The abstraction: the byte list as a function on indices.\<close>

definition sbox_abs :: "u8 list \<Rightarrow> (nat \<Rightarrow> nat) \<Rightarrow> bool" where
  "sbox_abs S f \<longleftrightarrow> length S = 256 \<and> (\<forall>k<256. unat (S ! k) = f k)"

lemma unat_add_u8: "unat ((a :: u8) + b) = (unat a + unat b) mod 256"
  by (simp add: unat_word_ariths)

lemma sbox_abs_nth: "sbox_abs S f \<Longrightarrow> k < 256 \<Longrightarrow> unat (S ! k) = f k"
  by (simp add: sbox_abs_def)

lemma sbox_abs_swap:
  "sbox_abs S f \<Longrightarrow> i < 256 \<Longrightarrow> j < 256 \<Longrightarrow> sbox_abs (rc4_swap S i j) (tb_swap f i j)"
  by (auto simp: sbox_abs_def rc4_swap_def tb_swap_def nth_list_update)

lemma sbox_abs_init: "sbox_abs rc4_init (\<lambda>k. k)"
  by (simp add: sbox_abs_def rc4_init_def unat_of_nat)

lemma ksa_step_refines:
  assumes "sbox_abs S f" and "i < 256" and "LENGTH_KEY \<le> length key"
  shows "sbox_abs (fst (ksa_step key i (S, j)))
           (fst (tb_ksa_step (map unat (take LENGTH_KEY key)) i (f, unat j)))"
    and "unat (snd (ksa_step key i (S, j))) =
           snd (tb_ksa_step (map unat (take LENGTH_KEY key)) i (f, unat j))"
proof -
  have k: "map unat (take LENGTH_KEY key) ! (i mod LENGTH_KEY) = unat (key ! (i mod LENGTH_KEY))"
    using assms by (simp add: LENGTH_KEY_def)
  have j: "unat (j + S ! i + key ! (i mod LENGTH_KEY)) =
      (unat j + f i + unat (key ! (i mod LENGTH_KEY))) mod 256"
    using assms by (simp add: unat_add_u8 sbox_abs_nth mod_simps)
  have l: "length (map unat (take LENGTH_KEY key)) = LENGTH_KEY"
    using assms by simp
  show "unat (snd (ksa_step key i (S, j))) =
      snd (tb_ksa_step (map unat (take LENGTH_KEY key)) i (f, unat j))"
    by (simp only: ksa_step_def tb_ksa_step_def Let_def split j l k snd_conv)
  show "sbox_abs (fst (ksa_step key i (S, j)))
      (fst (tb_ksa_step (map unat (take LENGTH_KEY key)) i (f, unat j)))"
    using assms(1,2)
    by (simp only: ksa_step_def tb_ksa_step_def Let_def split j l k fst_conv)
      (simp add: sbox_abs_swap)
qed

lemma fold_ksa_refines:
  "sbox_abs S f \<Longrightarrow> \<forall>i \<in> set is. i < 256 \<Longrightarrow> LENGTH_KEY \<le> length key \<Longrightarrow>
   sbox_abs (fst (fold (ksa_step key) is (S, j)))
     (fst (fold (tb_ksa_step (map unat (take LENGTH_KEY key))) is (f, unat j)))"
proof (induction "is" arbitrary: S f j)
  case Nil
  then show ?case by simp
next
  case (Cons i "is")
  obtain S' j' where s: "ksa_step key i (S, j) = (S', j')"
    by (cases "ksa_step key i (S, j)")
  obtain f' m where t: "tb_ksa_step (map unat (take LENGTH_KEY key)) i (f, unat j) = (f', m)"
    by (cases "tb_ksa_step (map unat (take LENGTH_KEY key)) i (f, unat j)")
  have "sbox_abs S' f'" and "m = unat j'"
    using ksa_step_refines [of S f i key j] Cons.prems by (simp_all add: s t)
  then show ?case
    using Cons.IH [of S' f' j'] Cons.prems by (simp add: s t)
qed

lemma rc4_ksa_refines:
  "LENGTH_KEY \<le> length key \<Longrightarrow>
   sbox_abs (rc4_ksa key) (tb_ksa (map unat (take LENGTH_KEY key)))"
  using fold_ksa_refines [OF sbox_abs_init, of "[0..<256]" key 0]
  by (simp add: rc4_ksa_def tb_ksa_def)

lemma keystream_from_refines:
  "sbox_abs S f \<Longrightarrow> i < 256 \<Longrightarrow>
   map unat (keystream_from (S, i, j) n) = tb_stream f i (unat j) n"
proof (induction n arbitrary: S f i j)
  case 0
  then show ?case by simp
next
  case (Suc n)
  let ?i = "(i + 1) mod 256"
  let ?j = "j + S ! ?i"
  let ?S = "rc4_swap S ?i (unat ?j)"
  have j: "unat ?j = (unat j + f ?i) mod 256"
    using Suc.prems by (simp add: unat_add_u8 sbox_abs_nth)
  have S': "sbox_abs ?S (tb_swap f ?i (unat ?j))"
    using Suc.prems by (intro sbox_abs_swap) simp_all
  have t: "unat (?S ! unat (?S ! ?i + ?S ! unat ?j)) =
      tb_swap f ?i (unat ?j) ((tb_swap f ?i (unat ?j) ?i + tb_swap f ?i (unat ?j) (unat ?j)) mod 256)"
    using S' by (simp add: sbox_abs_nth unat_add_u8)
  have "map unat (keystream_from (S, i, j) (Suc n)) =
      unat (?S ! unat (?S ! ?i + ?S ! unat ?j)) # map unat (keystream_from (?S, ?i, ?j) n)"
    by (simp add: prga_step_def Let_def)
  also have "map unat (keystream_from (?S, ?i, ?j) n) =
      tb_stream (tb_swap f ?i (unat ?j)) ?i (unat ?j) n"
    using S' by (intro Suc.IH) simp_all
  finally show ?case
    by (simp only: t tb_stream.simps Let_def j [symmetric])
qed

lemma rc4_keystream_textbook:
  "LENGTH_KEY \<le> length key \<Longrightarrow>
   map unat (rc4_keystream key n) = rc4_textbook (map unat (take LENGTH_KEY key)) n"
  unfolding rc4_keystream_def rc4_textbook_def
  using keystream_from_refines [OF rc4_ksa_refines, of key 0 0] by simp

section \<open>Properties\<close>

text \<open>
  C23: the code's RC4 is RC4. Inside the bounds of its buffers it replaces the \<open>msglen\<close> bytes
  at the message pointer by their exclusive or with the textbook key stream of the first
  sixteen key bytes, and changes no other byte.
\<close>

theorem RC4_is_textbook_RC4:
  assumes "LENGTH_KEY \<le> length key" and "unat n \<le> DataMax" and "off + unat n \<le> length buf"
  shows "RC4 buf off key n = Some (blit buf off
    (map2 (XOR) (take (unat n) (drop off buf))
      (map of_nat (rc4_textbook (map unat (take LENGTH_KEY key)) (unat n)))))"
proof -
  have "map of_nat (rc4_textbook (map unat (take LENGTH_KEY key)) (unat n)) = rc4_keystream key (unat n)"
    using assms(1) by (simp add: rc4_keystream_textbook [symmetric] comp_def)
  then show ?thesis
    using assms by (simp add: RC4_Some xor_bytes_def)
qed

lemma RC4_is_textbook_RC4_witness:
  "RC4 [1, 2, 3] 1 (replicate 16 7) 2 = Some (blit [1, 2, 3] 1
     (map2 (XOR) [2, 3] (map of_nat (rc4_textbook (replicate 16 7) 2))))"
  using RC4_is_textbook_RC4 [of "replicate 16 7" 2 1 "[1, 2, 3]"]
  by (simp add: LENGTH_KEY_def DataMax_def)

text \<open>
  Decryption is encryption. A second call with the same key on the same bytes restores
  the buffer.
\<close>

theorem RC4_involution:
  assumes "RC4 buf off key n = Some buf'"
  shows "RC4 buf' off key n = Some buf"
  using assms by (rule rc4.crypt_involution)

lemma RC4_involution_witness:
  "\<exists>buf'. RC4 [1, 2, 3] 1 (replicate 16 7) 2 = Some buf' \<and>
     RC4 buf' 1 (replicate 16 7) 2 = Some [1, 2, 3]"
proof -
  have "RC4 [1, 2, 3] 1 (replicate 16 7) 2 \<noteq> None"
    by (simp add: RC4_None LENGTH_KEY_def DataMax_def)
  then obtain buf' where "RC4 [1, 2, 3] 1 (replicate 16 7) 2 = Some buf'" by blast
  then show ?thesis using RC4_involution by blast
qed

fun prga_run :: "nat \<Rightarrow> rc4_state \<Rightarrow> rc4_state" where
  "prga_run 0 q = q"
| "prga_run (Suc n) q = prga_run n (fst (prga_step q))"

lemma prga_run_perm: "rc4_perm (fst q) \<Longrightarrow> rc4_perm (fst (prga_run n q))"
  by (induction n arbitrary: q) (simp_all add: prga_step_perm)

text \<open>
  The state of the cipher is a permutation of the 256 byte values after the key schedule
  and after any number of output rounds, for every key.
\<close>

theorem RC4_state_permutation:
  "distinct (fst (prga_run n (rc4_ksa key, 0, 0))) \<and>
   set (fst (prga_run n (rc4_ksa key, 0, 0))) = UNIV"
  using prga_run_perm [of "(rc4_ksa key, 0, 0)" n] rc4_ksa_perm [of key] rc4_perm_UNIV
  by (auto simp: rc4_perm_def)

text \<open>
  The bounds of RC4. The call leaves its objects exactly when the key is shorter than
  sixteen bytes, the length exceeds the 128 bytes of \<open>iOutputChar\<close> (the 8-bit length
  parameter allows 255), or the message does not lie in its buffer.
\<close>

theorem RC4_out_of_bounds_iff:
  "RC4 buf off key n = None \<longleftrightarrow>
   length key < LENGTH_KEY \<or> DataMax < unat n \<or> length buf < off + unat n"
  by (rule RC4_None)

end
