(* ===== verification/Firmware.thy ===== *)
theory Firmware
  imports Config Rc4
begin

text \<open>
  The global state of the application (\<open>app/user/*.c\<close>) as one record, and the log of the
  calls the application makes into the SDK. The SDK is binary: the model gives its calls no
  effect of their own but records them, with their arguments and in order, in the field
  \<open>trace\<close>. What the SDK returns (ADC samples, pin levels, the station address) is an
  argument of the operation that reads it. The diagnostic output of \<open>os_printf\<close> is not
  modelled.
\<close>

section \<open>Data\<close>

record data_format =
  DST_ID :: "u8 list"
  SRC_ID :: "u8 list"
  mems :: "u8 list"
  encrypt :: u8
  idx :: u16
  payloadlength :: u16
  command :: u16

record map_format =
  city_code :: u32
  map_x :: "u8 list"
  map_y :: "u8 list"
  map_addr :: "u8 list"

record startup_config =
  Dev_id :: "u8 list"
  adoffset :: u32

text \<open>
  \<open>Typdef_ProgramPara\<close>. The unions of a 32-bit number and its four bytes (\<open>Alarm_H\<close>, the
  version numbers) are kept as the number; \<open>set_byte\<close> is a write through the byte view of
  a little-endian machine.
\<close>

record program_para =
  Cnt_ERROR :: u16
  Cnt_Minite :: u16
  Cnt_Hour :: u16
  Cnt_Day :: u16
  Cnt_Key :: u16
  Cnt_Warning0 :: u8
  Cnt_Warning1 :: u8
  Cnt_Warning2 :: u8
  Cnt_Warning3 :: u8
  SubMode :: u8
  flag_Time :: u8
  init_flag_time :: u8
  Led_Cnt_second :: u16
  Status :: u8
  Flag_Test :: u8
  flag_Alarm :: u8
  Dev_ID :: "u8 list"
  PPM_H :: u32
  PPM_Updata :: u32
  PPM_Updata0 :: u32
  PPM_Updata1 :: u32
  PPM_Updata2 :: u32
  Alarm_H :: u32
  HWVersion :: u32
  SWVersion :: u32
  Key_Type :: u8

definition set_byte :: "u32 \<Rightarrow> nat \<Rightarrow> u8 \<Rightarrow> u32" where
  "set_byte w i b = (w AND NOT (push_bit (8 * i) 0xFF)) OR push_bit (8 * i) (ucast b)"

section \<open>Calls into the SDK\<close>

datatype conn = websocket_tcp_conn | http_tcp_conn | baidumap_tcp_conn | airkissdpudpconn | PhoneConn

datatype callback =
    CB_gas_main_cb | CB_pwmad_cb | CB_airkiss_wifilan_time | CB_key_5s nat | CB_key_50ms nat
  | CB_websocket_connect | CB_websocket_recv | CB_websocket_discon | CB_websocket_recon
  | CB_http_connect | CB_http_recv | CB_http_sent | CB_http_discon
  | CB_map_connect | CB_map_recv | CB_airkiss_wifilan_recv
  | CB_websocket_dns_found | CB_map_dns_found | CB_smartconfig_done

datatype timer = gas_main | led_main | ssdp_time_serv | key_5s nat | key_50ms nat

datatype sdk =
    pwm_init u32 "u32 list" u32 "u32 list list"
  | pwm_set_duty u32 u8
  | pwm_start
  | espconn_send conn "u8 list"
  | espconn_sendto conn "u8 list"
  | espconn_connect conn
  | espconn_disconnect conn
  | espconn_create conn
  | espconn_delete conn
  | espconn_regist conn callback
  | espconn_gethostbyname conn string callback
  | os_timer_disarm timer
  | os_timer_setfn timer callback
  | os_timer_arm timer nat bool
  | smartconfig_set_type
  | smartconfig_start callback
  | smartconfig_stop
  | wifi_set_opmode_station
  | wifi_station_set_config "u8 list" "u8 list"
  | wifi_station_set_config_ptr
  | wifi_station_connect
  | wifi_station_disconnect
  | spi_flash_erase_sector nat
  | spi_flash_write nat startup_config
  | uart_init nat nat
  | system_set_os_print nat
  | UART_SetPrintPort nat
  | drv_Switch_Init
  | system_update_cpu_freq nat
  | os_delay_us nat
  | stack_overrun string

section \<open>The state\<close>

record esp_conn =
  remote_ip :: u32
  remote_port :: u16
  local_port :: u16

record firmware =
  PP :: program_para
  DF :: data_format
  MF :: map_format
  Mode :: u8
  Mode1 :: u8
  SensorMode :: u8
  SensorMode1 :: u8
  WebSocketOK :: u8
  HttpOK :: u8
  Receive :: u8
  Cnt_second :: u8
  Cnt_10second :: u8
  rxcount :: u8
  ubWebRxBuf :: "u8 list"
  DatePackege :: "u8 list"
  primaryKey :: "u8 list"
  gassmartconfig :: u8
  map_addlen :: u8
  map_v :: "u8 list"
  config :: startup_config
  configcmp :: startup_config
  dir :: u8
  greenpwm_duty :: u32
  led_test_i :: u8
  led_test_status :: u8
  led_test1_i :: u8
  led_test1_status :: u8
  SmartACK :: "u8 list"
  udp_sent_cnt :: u8
  tcp_server_ip :: u32
  http_server_ip :: u32
  baidumap_server_ip :: u32
  tcp_of :: "conn \<Rightarrow> esp_conn"
  trace :: "sdk list"

text \<open>Sequencing of state changes in the order of the C statements.\<close>

definition call :: "sdk \<Rightarrow> firmware \<Rightarrow> firmware" where
  "call e s = s\<lparr>trace := trace s @ [e]\<rparr>"

definition calls :: "sdk list \<Rightarrow> firmware \<Rightarrow> firmware" where
  "calls es s = s\<lparr>trace := trace s @ es\<rparr>"

text \<open>The sizes of the global arrays: a type invariant of the C program.\<close>

definition wf_arrays :: "firmware \<Rightarrow> bool" where
  "wf_arrays s \<longleftrightarrow>
     length (DST_ID (DF s)) = 10 \<and> length (SRC_ID (DF s)) = 10 \<and> length (mems (DF s)) = MESMAX \<and>
     length (map_x (MF s)) = 16 \<and> length (map_y (MF s)) = 16 \<and> length (map_addr (MF s)) = 48 \<and>
     length (Dev_ID (PP s)) = 10 \<and>
     length (ubWebRxBuf s) = RXMAX \<and> length (DatePackege s) = DataMax \<and>
     length (primaryKey s) = LENGTH_KEY \<and> length (map_v s) = 48 \<and>
     length (Dev_id (config s)) = 12 \<and> length (Dev_id (configcmp s)) = 12 \<and>
     length (SmartACK s) = 18"

lemma wf_arraysD [dest]:
  assumes "wf_arrays s"
  shows "length (DST_ID (DF s)) = 10" and "length (SRC_ID (DF s)) = 10"
    and "length (mems (DF s)) = 128" and "length (Dev_ID (PP s)) = 10"
    and "length (ubWebRxBuf s) = 128" and "length (DatePackege s) = DataMax"
    and "length (primaryKey s) = LENGTH_KEY"
    and "length (map_x (MF s)) = 16" and "length (map_y (MF s)) = 16"
    and "length (map_addr (MF s)) = 48" and "length (map_v s) = 48"
    and "length (Dev_id (config s)) = 12" and "length (Dev_id (configcmp s)) = 12"
    and "length (SmartACK s) = 18"
  using assms by (simp_all add: wf_arrays_def)

text \<open>The state the C runtime starts in: every global zero but those with an initialiser.\<close>

definition zero_para :: program_para where
  "zero_para = \<lparr>Cnt_ERROR = 0, Cnt_Minite = 0, Cnt_Hour = 0, Cnt_Day = 0, Cnt_Key = 0,
     Cnt_Warning0 = 0, Cnt_Warning1 = 0, Cnt_Warning2 = 0, Cnt_Warning3 = 0, SubMode = 0,
     flag_Time = 0, init_flag_time = 0, Led_Cnt_second = 0, Status = 0, Flag_Test = 0,
     flag_Alarm = 0, Dev_ID = replicate 10 0, PPM_H = 0, PPM_Updata = 0, PPM_Updata0 = 0,
     PPM_Updata1 = 0, PPM_Updata2 = 0, Alarm_H = 0, HWVersion = 0, SWVersion = 0, Key_Type = 0\<rparr>"

definition zero_config :: startup_config where
  "zero_config = \<lparr>Dev_id = replicate 12 0, adoffset = 0\<rparr>"

definition boot :: firmware where
  "boot = \<lparr>PP = zero_para,
     DF = \<lparr>DST_ID = replicate 10 0, SRC_ID = replicate 10 0, mems = replicate MESMAX 0,
       encrypt = 0, idx = 0, payloadlength = 0, command = 0\<rparr>,
     MF = \<lparr>city_code = 0, map_x = replicate 16 0, map_y = replicate 16 0, map_addr = replicate 48 0\<rparr>,
     Mode = 0, Mode1 = 0, SensorMode = 0, SensorMode1 = 0, WebSocketOK = 0, HttpOK = 0,
     Receive = 0, Cnt_second = 0, Cnt_10second = 0, rxcount = 0,
     ubWebRxBuf = replicate RXMAX 0, DatePackege = replicate DataMax 0,
     primaryKey = replicate LENGTH_KEY 0, gassmartconfig = 0, map_addlen = 0,
     map_v = replicate 48 0, config = zero_config, configcmp = zero_config, dir = 1,
     greenpwm_duty = 0, led_test_i = 0, led_test_status = 0, led_test1_i = 0,
     led_test1_status = 0, SmartACK = str ''smartok,'' @ replicate 10 0, udp_sent_cnt = 0,
     tcp_server_ip = 0, http_server_ip = 0, baidumap_server_ip = 0,
     tcp_of = (\<lambda>_. \<lparr>remote_ip = 0, remote_port = 0, local_port = 0\<rparr>), trace = []\<rparr>"

lemma wf_boot: "wf_arrays boot"
  by (simp add: wf_arrays_def boot_def zero_para_def zero_config_def)

declare call_def [simp] calls_def [simp]

end
