(* ===== verification/Frame.thy ===== *)
theory Frame
  imports Firmware
begin

text \<open>
  The packet layer of \<open>app/user/networking.c\<close>: \<open>Reflash\<close>, \<open>ProcessPackege\<close>,
  \<open>WebSocket_Data\<close> (build a frame in \<open>DatePackege\<close>) and \<open>WebRecvData_Proc\<close> (take a frame
  apart in \<open>ubWebRxBuf\<close>). The round trips between the two are in theory \<open>Roundtrip\<close>.
\<close>

section \<open>The code\<close>

text \<open>The built-in key that both directions use before and during the login.\<close>

definition open_key :: "u8 list" where
  "open_key = str ''Ftl_201207166688'' @ [0]"

definition Reflash :: "u16 \<Rightarrow> u8 \<Rightarrow> firmware \<Rightarrow> firmware" where
  "Reflash cmd recv s = s\<lparr>DF := (DF s)\<lparr>command := cmd\<rparr>, Receive := recv,
     ubWebRxBuf := replicate RXMAX 0\<rparr>"

definition ProcessPackege :: "u8 list \<Rightarrow> u8 list \<Rightarrow> u8 \<Rightarrow> u16 \<Rightarrow> u16 \<Rightarrow> firmware \<Rightarrow> firmware" where
  "ProcessPackege dst src enc len cmd s = s\<lparr>DF := (DF s)\<lparr>
     DST_ID := take LENGTH_DST_ID dst, SRC_ID := take LENGTH_SRC_ID src, encrypt := enc,
     payloadlength := len, command := cmd\<rparr>\<rparr>"

text \<open>\<open>DatePackege[i] |= b\<close> on the cleared package.\<close>

definition or_at :: "u8 list \<Rightarrow> nat \<Rightarrow> u8 \<Rightarrow> u8 list" where
  "or_at p i b = p[i := p ! i OR b]"

text \<open>The header: web-socket opcode, zero mask, flag, addresses, encryption, sequence, length, command.\<close>

definition frame_header :: "data_format \<Rightarrow> u8 list option" where
  "frame_header df = do {
     let p = (replicate DataMax 0)[0 := 0x82, 2 := 0, 3 := 0, 4 := 0, 5 := 0, 6 := of_char CHR ''F''];
     p \<leftarrow> c_memcpy p 7 (DST_ID df) 0 LENGTH_DST_ID;
     p \<leftarrow> c_memcpy p 17 (SRC_ID df) 0 LENGTH_SRC_ID;
     let p = p[27 := encrypt df];
     let p = or_at (or_at p 28 (ucast (drop_bit 8 (idx df)))) 29 (ucast (idx df));
     let p = or_at (or_at p 30 (ucast (drop_bit 8 (payloadlength df)))) 31 (ucast (payloadlength df));
     Some (or_at (or_at p 32 (ucast (drop_bit 8 (command df)))) 33 (ucast (command df))) }"

text \<open>
  The loop bound \<open>payloadlength - 2\<close> is a signed difference: no iteration when the length is
  below 2. The payload is encrypted in place, the command included; \<open>sendlen\<close> is a
  \<open>uint8_t\<close>, and the web-socket length byte counts everything behind the mask.
\<close>

definition encrypt_payload :: "u8 \<Rightarrow> u8 list \<Rightarrow> u8 list \<Rightarrow> u16 \<Rightarrow> u8 list option" where
  "encrypt_payload enc pkey p len =
     (if enc = 1 then RC4 p 32 open_key (ucast len)
      else if enc = 2 then RC4 p 32 pkey (ucast len)
      else Some p)"

definition WebSocket_Data :: "firmware \<Rightarrow> (firmware \<times> u8) option" where
  "WebSocket_Data s = do {
     let df = (DF s)\<lparr>idx := idx (DF s) + 1\<rparr>;
     p \<leftarrow> frame_header df;
     p \<leftarrow> copy_loop (unat (payloadlength df) - 2) p 34 (mems df) 0;
     p \<leftarrow> encrypt_payload (encrypt df) (primaryKey s) p (payloadlength df);
     let sendlen = 34 + ucast (payloadlength df);
     let p = p[1 := 0x80 OR (sendlen - 8)];
     Some (s\<lparr>DF := df, DatePackege := p\<rparr>, sendlen - 2) }"

text \<open>
  The receiver. Its buffer is \<open>ubWebRxBuf\<close> itself (its only caller passes it), so the
  in-place decryption and the final \<open>memset\<close> act on the same array.
\<close>

definition decrypt_payload :: "u8 \<Rightarrow> u8 list \<Rightarrow> u8 list \<Rightarrow> nat \<Rightarrow> u16 \<Rightarrow> u8 list option" where
  "decrypt_payload enc pkey buf i len =
     (if enc = 1 then RC4 buf i open_key (ucast len)
      else if enc = 3 then RC4 buf i pkey (ucast len)
      else Some buf)"

definition receive_code :: "u16 \<Rightarrow> u8 \<Rightarrow> u8" where
  "receive_code cmd old =
     (if cmd = COMMAND_NEWIDACK then 0x02
      else if cmd = COMMAND_LOGINACK then 0x08
      else if cmd = COMMAND_READGAS then 0x10
      else if cmd = COMMAND_SETPPM then 0x20
      else if cmd = COMMAND_LEDCOLOR then 0x30
      else old)"

definition recv_mems :: "u8 list \<Rightarrow> u8 list \<Rightarrow> nat \<Rightarrow> u16 \<Rightarrow> u8 list option" where
  "recv_mems m buf i len =
     (if unat len \<le> MESMAX + 2 \<and> 2 < unat len then c_memcpy m 0 buf i (unat len - 2) else Some m)"

definition WebRecvData_Proc :: "u8 \<Rightarrow> firmware \<Rightarrow> firmware option" where
  "WebRecvData_Proc index s = do {
     let i = unat index + 3;
     let buf = ubWebRxBuf s;
     dst \<leftarrow> c_memcpy (DST_ID (DF s)) 0 buf i 10;
     src \<leftarrow> c_memcpy (SRC_ID (DF s)) 0 buf (i + 10) 10;
     enc \<leftarrow> ld buf (i + 20);
     ih \<leftarrow> ld buf (i + 21);
     il \<leftarrow> ld buf (i + 22);
     lh \<leftarrow> ld buf (i + 23);
     ll \<leftarrow> ld buf (i + 24);
     let len = from_be16 lh ll;
     buf \<leftarrow> decrypt_payload enc (primaryKey s) buf (i + 25) len;
     ch \<leftarrow> ld buf (i + 25);
     cl \<leftarrow> ld buf (i + 26);
     let cmd = from_be16 ch cl;
     m \<leftarrow> recv_mems (mems (DF s)) buf (i + 27) len;
     Some (s\<lparr>rxcount := 0,
       DF := (DF s)\<lparr>DST_ID := dst, SRC_ID := src, encrypt := enc, idx := from_be16 ih il,
         payloadlength := len, command := cmd, mems := m\<rparr>,
       ubWebRxBuf := replicate RXMAX 0,
       Receive := receive_code cmd (Receive s)\<rparr>) }"

end
