(* ===== verification/Roundtrip.thy ===== *)
theory Roundtrip
  imports Frame
begin

text \<open>
  What the packet layer promises: the byte layout of a frame as an explicit list
  (\<open>wire_body\<close>), the sender producing it, the receiver reading it, the bounds of both, and
  the round trip between them.
\<close>

lemma unat_ucast_u16_u8: "unat (ucast (x :: u16) :: u8) = unat x mod 256"
  by (simp add: unsigned_ucast_eq take_bit_eq_mod)

section \<open>The layout\<close>

definition clear_payload :: "data_format \<Rightarrow> u8 list" where
  "clear_payload df = be16 (command df) @ take (unat (payloadlength df) - 2) (mems df)"

definition wire_body :: "u8 list \<Rightarrow> data_format \<Rightarrow> u8 list" where
  "wire_body ks df = of_char CHR ''F'' # DST_ID df @ SRC_ID df @ [encrypt df] @ be16 (idx df) @
     be16 (payloadlength df) @ xor_bytes (clear_payload df) ks"

text \<open>The key streams of the two directions: encryption types 1 and 2 send, 1 and 3 receive.\<close>

definition tx_stream :: "u8 \<Rightarrow> u8 list \<Rightarrow> nat \<Rightarrow> u8 list" where
  "tx_stream enc pkey n =
     (if enc = 1 then rc4_keystream open_key n
      else if enc = 2 then rc4_keystream pkey n else replicate n 0)"

definition rx_stream :: "u8 \<Rightarrow> u8 list \<Rightarrow> nat \<Rightarrow> u8 list" where
  "rx_stream enc pkey n =
     (if enc = 1 then rc4_keystream open_key n
      else if enc = 3 then rc4_keystream pkey n else replicate n 0)"

definition wf_packet :: "data_format \<Rightarrow> bool" where
  "wf_packet df \<longleftrightarrow> length (DST_ID df) = 10 \<and> length (SRC_ID df) = 10 \<and> length (mems df) = 128"

lemma xor_bytes_zero [simp]: "length xs = n \<Longrightarrow> xor_bytes xs (replicate n 0) = xs"
  by (induction xs arbitrary: n) (auto simp: xor_bytes_def)

lemma length_streams [simp]: "length (tx_stream enc k n) = n" "length (rx_stream enc k n) = n"
  by (simp_all add: tx_stream_def rx_stream_def)

lemma length_open_key [simp]: "length open_key = 17"
  by (simp add: open_key_def)

lemma length_clear_payload:
  "wf_packet df \<Longrightarrow> 2 \<le> unat (payloadlength df) \<Longrightarrow> unat (payloadlength df) \<le> 130 \<Longrightarrow>
   length (clear_payload df) = unat (payloadlength df)"
  by (simp add: clear_payload_def wf_packet_def)

lemma blit_append: "length a = i \<Longrightarrow> length m = length src \<Longrightarrow> blit (a @ m @ c) i src = a @ src @ c"
  by (simp add: blit_def)

lemma update_append: "length a = i \<Longrightarrow> (a @ x # c)[i := v] = a @ v # c"
  by (simp add: list_update_append)

lemma nth_append_here: "length a = i \<Longrightarrow> (a @ x # c) ! i = x"
  by (simp add: nth_append)

section \<open>The sender\<close>

text \<open>The bytes before the payload, with the length byte still zero.\<close>

definition header_bytes :: "u8 \<Rightarrow> data_format \<Rightarrow> u8 list" where
  "header_bytes l df = [0x82, l, 0, 0, 0, 0, of_char CHR ''F''] @ DST_ID df @ SRC_ID df @ [encrypt df] @
     be16 (idx df) @ be16 (payloadlength df)"

lemma length_header [simp]: "wf_packet df \<Longrightarrow> length (header_bytes l df) = 32"
  by (simp add: header_bytes_def wf_packet_def)

lemma replicate_package:
  "replicate DataMax (0 :: u8) = [0, 0, 0, 0, 0, 0, 0] @ replicate 10 0 @ replicate 10 0 @
     [0] @ [0, 0] @ [0, 0] @ [0, 0] @ replicate 94 0"
  by (simp add: DataMax_def replicate_add [symmetric] numeral_eq_Suc)

lemma frame_header_layout:
  assumes "wf_packet df"
  shows "frame_header df = Some (header_bytes 0 df @ be16 (command df) @ replicate 94 0)"
proof -
  have l: "length (DST_ID df) = 10" "length (SRC_ID df) = 10"
    using assms by (simp_all add: wf_packet_def)
  let ?h = "[0x82, 0, 0, 0, 0, 0, of_char CHR ''F''] :: u8 list"
  let ?z = "[0] @ [0, 0] @ [0, 0] @ [0, 0] @ replicate 94 (0 :: u8)"
  have p0: "(replicate DataMax (0 :: u8))[0 := 0x82, 2 := 0, 3 := 0, 4 := 0, 5 := 0, 6 := of_char CHR ''F'']
      = ?h @ replicate 10 0 @ replicate 10 0 @ ?z"
    by (simp only: replicate_package) (simp add: numeral_eq_Suc)
  have p1: "c_memcpy (?h @ replicate 10 0 @ replicate 10 0 @ ?z) 7 (DST_ID df) 0 10 =
      Some (?h @ DST_ID df @ replicate 10 0 @ ?z)"
    using l blit_append [of ?h 7 "replicate 10 0" "DST_ID df" "replicate 10 0 @ ?z"]
    by (subst c_memcpy_in) simp_all
  have p2: "c_memcpy (?h @ DST_ID df @ replicate 10 0 @ ?z) 17 (SRC_ID df) 0 10 =
      Some ((?h @ DST_ID df) @ SRC_ID df @ ?z)"
    using l blit_append [of "?h @ DST_ID df" 17 "replicate 10 0" "SRC_ID df" ?z]
    by (subst c_memcpy_in) simp_all
  let ?a = "(?h @ DST_ID df) @ SRC_ID df"
  have a: "length ?a = 27" using l by simp
  show ?thesis
    using a
    by (simp only: frame_header_def Let_def p0 p1 p2 Option.bind.simps)
      (simp add: or_at_def header_bytes_def be16_def list_update_append nth_append l
        numeral_eq_Suc)
qed


lemma encrypt_payload_stream:
  assumes "length pkey = LENGTH_KEY" and "length pre = 32" and "length cl = unat len"
    and "unat len \<le> 96" and "unat len + length post = 96"
  shows "encrypt_payload enc pkey (pre @ cl @ post) len =
    Some (pre @ xor_bytes cl (tx_stream enc pkey (unat len)) @ post)"
proof -
  have u: "unat (ucast len :: u8) = unat len"
    using assms(4) by (simp add: unat_ucast_u16_u8)
  have b: "blit (pre @ cl @ post) 32 (xor_bytes cl ks) = pre @ xor_bytes cl ks @ post"
    if "length ks = unat len" for ks
    using that assms by (intro blit_append) simp_all
  show ?thesis
    using assms
    by (auto simp: encrypt_payload_def tx_stream_def RC4_Some u b LENGTH_KEY_def DataMax_def)
qed

lemma WebSocket_Data_Some:
  assumes wf: "wf_arrays s" and len: "2 \<le> unat (payloadlength (DF s))" "unat (payloadlength (DF s)) \<le> 96"
  defines "df \<equiv> (DF s)\<lparr>idx := idx (DF s) + 1\<rparr>" and "n \<equiv> unat (payloadlength (DF s))"
  shows "WebSocket_Data s = Some (s\<lparr>DF := df, DatePackege :=
      header_bytes (0x80 OR (26 + ucast (payloadlength df))) df @
      xor_bytes (clear_payload df) (tx_stream (encrypt df) (primaryKey s) n) @
      replicate (96 - n) 0\<rparr>, 32 + ucast (payloadlength df))"
proof -
  have p: "wf_packet df" "length (primaryKey s) = LENGTH_KEY" "payloadlength df = payloadlength (DF s)"
    using wf by (auto simp: df_def wf_packet_def)
  have n: "unat (payloadlength df) = n" "2 \<le> n" "n \<le> 96"
    using len by (simp_all add: n_def df_def)
  have m: "n - 2 \<le> length (mems df)" using p n by (simp add: wf_packet_def)
  have c: "length (clear_payload df) = n"
    using p(1) n by (simp add: length_clear_payload)
  have copy: "copy_loop (n - 2) (header_bytes 0 df @ be16 (command df) @ replicate 94 0) 34 (mems df) 0 =
      Some (header_bytes 0 df @ clear_payload df @ replicate (96 - n) 0)"
  proof -
    have r: "replicate 94 (0::u8) = replicate (n - 2) 0 @ replicate (96 - n) 0"
      using n by (simp add: replicate_add [symmetric])
    have "blit ((header_bytes 0 df @ be16 (command df)) @ replicate (n - 2) 0 @ replicate (96 - n) 0) 34
        (take (n - 2) (mems df)) =
      (header_bytes 0 df @ be16 (command df)) @ take (n - 2) (mems df) @ replicate (96 - n) 0"
      using p m by (intro blit_append) simp_all
    then show ?thesis
      using p(1) n m by (subst copy_loop_in) (simp_all add: r clear_payload_def n)
  qed
  have enc: "encrypt_payload (encrypt df) (primaryKey s)
      (header_bytes 0 df @ clear_payload df @ replicate (96 - n) 0) (payloadlength df) =
      Some (header_bytes 0 df @ xor_bytes (clear_payload df) (tx_stream (encrypt df) (primaryKey s) n) @
        replicate (96 - n) 0)"
    using p n c by (subst encrypt_payload_stream) (simp_all)
  have l: "(header_bytes 0 df @ r)[1 := v] = header_bytes v df @ r" for r v
    by (simp add: header_bytes_def)
  show ?thesis
    unfolding WebSocket_Data_def
    by (simp only: df_def [symmetric] Let_def frame_header_layout [OF p(1)] Option.bind.simps n(1) copy enc l)
      simp
qed


lemma WebSocket_Data_None:
  assumes wf: "wf_arrays s"
  shows "WebSocket_Data s = None \<longleftrightarrow> 96 < unat (payloadlength (DF s))"
proof -
  define df where "df = (DF s)\<lparr>idx := idx (DF s) + 1\<rparr>"
  define len where "len = payloadlength (DF s)"
  have p: "wf_packet df" "length (primaryKey s) = LENGTH_KEY" "payloadlength df = len"
    using wf by (auto simp: df_def wf_packet_def len_def)
  let ?h = "header_bytes 0 df @ be16 (command df) @ replicate 94 0"
  have lh: "length ?h = 128" "length (mems df) = 128"
    using p by (simp_all add: wf_packet_def)
  show ?thesis
  proof (cases "unat len \<le> 96")
    case True
    have u: "unat (ucast len :: u8) = unat len" using True by (simp add: unat_ucast_u16_u8)
    obtain d where d: "copy_loop (unat len - 2) ?h 34 (mems df) 0 = Some d" "length d = 128"
      using True lh by simp
    have "RC4 d 32 k (ucast len) \<noteq> None" if "LENGTH_KEY \<le> length k" for k
      using True d that by (simp only: RC4_None u DataMax_def) simp
    then have "encrypt_payload (encrypt df) (primaryKey s) d len \<noteq> None"
      using p(2) by (auto simp: encrypt_payload_def LENGTH_KEY_def simp del: not_None_eq)
    then have "WebSocket_Data s \<noteq> None"
      by (auto simp: WebSocket_Data_def df_def [symmetric] Let_def frame_header_layout [OF p(1)] p(3) d(1))
    with True show ?thesis by (simp add: len_def)
  next
    case False
    then have "copy_loop (unat len - 2) ?h 34 (mems df) 0 = None"
      using lh by (simp add: copy_loop_None)
    then have "WebSocket_Data s = None"
      by (simp add: WebSocket_Data_def df_def [symmetric] Let_def frame_header_layout [OF p(1)] p(3))
    with False show ?thesis by (simp add: len_def)
  qed
qed

section \<open>The receiver\<close>

lemma decrypt_payload_stream:
  assumes "length pkey = LENGTH_KEY" and "length pre = 28" and "length cl = unat len"
    and "unat len \<le> 100"
  shows "decrypt_payload enc pkey (pre @ xor_bytes cl (rx_stream enc pkey (unat len)) @ post) 28 len =
    Some (pre @ cl @ post)"
proof -
  have u: "unat (ucast len :: u8) = unat len"
    using assms(4) by (simp add: unat_ucast_u16_u8)
  have b: "RC4 (pre @ xor_bytes cl (rc4_keystream k (unat len)) @ post) 28 k (ucast len) =
      Some (pre @ cl @ post)" if "LENGTH_KEY \<le> length k" for k
    using that assms
    by (simp add: RC4_Some u DataMax_def xor_bytes_involution blit_append)
  show ?thesis
    using assms by (auto simp: decrypt_payload_def rx_stream_def b LENGTH_KEY_def)
qed

lemma WebRecvData_Proc_Some:
  assumes wf: "wf_arrays r" and pk: "wf_packet df"
    and len: "2 \<le> unat (payloadlength df)" "unat (payloadlength df) \<le> 100"
    and buf: "ubWebRxBuf r = [0x82, l] @
      wire_body (rx_stream (encrypt df) (primaryKey r) (unat (payloadlength df))) df @ rest"
  defines "n \<equiv> unat (payloadlength df)"
  shows "WebRecvData_Proc 0 r = Some (r\<lparr>rxcount := 0,
    DF := df\<lparr>mems := blit (mems (DF r)) 0 (take (n - 2) (mems df))\<rparr>,
    ubWebRxBuf := replicate RXMAX 0, Receive := receive_code (command df) (Receive r)\<rparr>)"
proof -
  have k: "length (primaryKey r) = LENGTH_KEY" "length (ubWebRxBuf r) = 128"
    "length (DST_ID (DF r)) = 10" "length (SRC_ID (DF r)) = 10" "length (mems (DF r)) = 128"
    using wf by auto
  have d: "length (DST_ID df) = 10" "length (SRC_ID df) = 10" "length (mems df) = 128"
    using pk by (simp_all add: wf_packet_def)
  have n: "unat (payloadlength df) = n" "2 \<le> n" "n \<le> 100"
    using len by (simp_all add: n_def)
  have c: "length (clear_payload df) = n"
    using pk n by (simp add: length_clear_payload)
  let ?ks = "rx_stream (encrypt df) (primaryKey r) n"
  let ?x = "xor_bytes (clear_payload df) ?ks"
  define pre where "pre = [0x82, l, of_char CHR ''F''] @ DST_ID df @ SRC_ID df @ [encrypt df] @
      be16 (idx df) @ be16 (payloadlength df)"
  have pre: "length pre = 28" using d by (simp add: pre_def)
  have b: "ubWebRxBuf r = pre @ ?x @ rest"
    using buf by (simp add: pre_def wire_body_def n)
  have rl: "length rest = 100 - n"
    using k(2) c pre n(3) by (simp add: b)
  have dst: "c_memcpy (DST_ID (DF r)) 0 (pre @ ?x @ rest) 3 10 = Some (DST_ID df)"
    using k d pre by (subst c_memcpy_in) (simp_all add: pre_def)
  have src: "c_memcpy (SRC_ID (DF r)) 0 (pre @ ?x @ rest) 13 10 = Some (SRC_ID df)"
    using k d pre by (subst c_memcpy_in) (simp_all add: pre_def)
  have bytes: "ld (pre @ ?x @ rest) 23 = Some (encrypt df)"
    "ld (pre @ ?x @ rest) 24 = Some (ucast (drop_bit 8 (idx df)))"
    "ld (pre @ ?x @ rest) 25 = Some (ucast (idx df))"
    "ld (pre @ ?x @ rest) 26 = Some (ucast (drop_bit 8 (payloadlength df)))"
    "ld (pre @ ?x @ rest) 27 = Some (ucast (payloadlength df))"
    using pre d by (simp_all add: pre_def be16_def nth_append)
  have dec: "decrypt_payload (encrypt df) (primaryKey r) (pre @ ?x @ rest) 28 (payloadlength df) =
      Some (pre @ clear_payload df @ rest)"
    using decrypt_payload_stream [OF k(1) pre, of "clear_payload df" "payloadlength df"] c n by simp
  have cmd: "ld (pre @ clear_payload df @ rest) 28 = Some (ucast (drop_bit 8 (command df)))"
    "ld (pre @ clear_payload df @ rest) 29 = Some (ucast (command df))"
    using pre by (simp_all add: clear_payload_def be16_def nth_append)
  have m: "recv_mems (mems (DF r)) (pre @ clear_payload df @ rest) 30 (payloadlength df) =
      Some (blit (mems (DF r)) 0 (take (n - 2) (mems df)))"
  proof (cases "n = 2")
    case True
    then show ?thesis by (simp add: recv_mems_def n blit_def)
  next
    case False
    have t: "drop 2 (clear_payload df) = take (n - 2) (mems df)"
      using n by (simp add: clear_payload_def be16_def)
    show ?thesis
      using False n k(5) pre c rl d(3) by (simp add: recv_mems_def t)
  qed
  have fields: "(DF r)\<lparr>DST_ID := DST_ID df, SRC_ID := SRC_ID df, encrypt := encrypt df, idx := idx df,
      payloadlength := payloadlength df, command := command df, mems := v\<rparr> = df\<lparr>mems := v\<rparr>" for v
    by (rule data_format.equality) simp_all
  show ?thesis
    unfolding WebRecvData_Proc_def
    by (simp add: b dst src bytes dec cmd m fields Let_def)
qed


lemma decrypt_payload_cases:
  assumes "length pkey = LENGTH_KEY" and "length buf = 128"
  shows "decrypt_payload enc pkey buf 28 len = None \<longleftrightarrow> (enc = 1 \<or> enc = 3) \<and> 100 < unat len mod 256"
    and "decrypt_payload enc pkey buf 28 len = Some d \<Longrightarrow> length d = 128"
proof -
  have "RC4 buf 28 k (ucast len) = None \<longleftrightarrow> 100 < unat len mod 256" if "LENGTH_KEY \<le> length k" for k
    using that assms by (simp add: RC4_None unat_ucast_u16_u8 DataMax_def) linarith
  then show "decrypt_payload enc pkey buf 28 len = None \<longleftrightarrow> (enc = 1 \<or> enc = 3) \<and> 100 < unat len mod 256"
    using assms by (auto simp: decrypt_payload_def LENGTH_KEY_def simp del: not_None_eq)
  show "decrypt_payload enc pkey buf 28 len = Some d \<Longrightarrow> length d = 128"
    using assms by (auto simp: decrypt_payload_def rc4.crypt_length split: if_splits)
qed

lemma WebRecvData_Proc_None:
  assumes wf: "wf_arrays r"
  defines "enc \<equiv> ubWebRxBuf r ! 23"
    and "len \<equiv> unat (from_be16 (ubWebRxBuf r ! 26) (ubWebRxBuf r ! 27))"
  shows "WebRecvData_Proc 0 r = None \<longleftrightarrow>
    (100 < len \<and> len \<le> 130) \<or> ((enc = 1 \<or> enc = 3) \<and> 100 < len mod 256)"
proof -
  let ?l = "from_be16 (ubWebRxBuf r ! 26) (ubWebRxBuf r ! 27)"
  have k: "length (primaryKey r) = LENGTH_KEY" "length (ubWebRxBuf r) = 128"
    "length (DST_ID (DF r)) = 10" "length (SRC_ID (DF r)) = 10" "length (mems (DF r)) = 128"
    using wf by auto
  note dc = decrypt_payload_cases [OF k(1,2), of enc ?l]
  show ?thesis
  proof (cases "decrypt_payload enc (primaryKey r) (ubWebRxBuf r) 28 ?l")
    case None
    then show ?thesis
      using dc(1) k by (simp add: WebRecvData_Proc_def enc_def len_def)
  next
    case (Some d)
    have m: "recv_mems (mems (DF r)) d 30 ?l = None \<longleftrightarrow> 100 < len \<and> len \<le> 130"
      using dc(2) [OF Some] k(5) by (auto simp: recv_mems_def len_def)
    have "WebRecvData_Proc 0 r = None \<longleftrightarrow> recv_mems (mems (DF r)) d 30 ?l = None"
      using Some dc(2) [OF Some] k
      by (cases "recv_mems (mems (DF r)) d 30 ?l") (simp_all add: WebRecvData_Proc_def enc_def Let_def)
    then show ?thesis
      using m dc(1) Some by (auto simp: len_def)
  qed
qed

lemma WebSocket_Data_layout_aux:
  assumes "wf_arrays s" and "2 \<le> unat (payloadlength (DF s))" and "unat (payloadlength (DF s)) \<le> 96"
  shows "\<exists>s' n. WebSocket_Data s = Some (s', n) \<and> unat n = 32 + unat (payloadlength (DF s)) \<and>
    DF s' = (DF s)\<lparr>idx := idx (DF s) + 1\<rparr> \<and>
    take (unat n) (DatePackege s') = [0x82, 0x80 OR (n - 6), 0, 0, 0, 0] @
      wire_body (tx_stream (encrypt (DF s)) (primaryKey s) (unat (payloadlength (DF s)))) (DF s') \<and>
    unat ((0x80 OR (n - 6)) AND 0x7F) = unat n - 6"
proof -
  let ?n = "unat (payloadlength (DF s))"
  let ?df = "(DF s)\<lparr>idx := idx (DF s) + 1\<rparr>"
  let ?v = "32 + ucast (payloadlength (DF s)) :: u8"
  have w: "wf_packet ?df" using assms(1) by (auto simp: wf_packet_def)
  have v: "unat ?v = 32 + ?n"
    using assms by (simp add: unat_add_u8 unat_ucast_u16_u8)
  have v6: "unat (?v - 6) = ?n + 26"
    using v assms(3) by (subst unat_sub) (simp_all add: word_le_nat_alt)
  have "(0x80 OR (?v - 6)) AND 0x7F = ?v - 6"
  proof -
    have small: "?v - 6 = take_bit 7 (?v - 6)"
      using assms(3)
      by (simp only: word_unat_eq_iff unsigned_take_bit_eq v6) (simp add: take_bit_nat_eq_self)
    have "(0x80 OR take_bit 7 x) AND 0x7F = take_bit 7 x" for x :: u8
    proof (rule bit_word_eqI)
      fix k assume "k < LENGTH(8)"
      then have "k \<in> {0, 1, 2, 3, 4, 5, 6, 7}" by auto
      then show "bit ((0x80 OR take_bit 7 x) AND 0x7F) k = bit (take_bit 7 x) k"
        by (auto simp: bit_and_iff bit_or_iff bit_take_bit_iff)
    qed
    then show ?thesis using small by metis
  qed
  then have mask: "unat ((0x80 OR (?v - 6)) AND 0x7F) = unat ?v - 6"
    using v v6 by simp
  have c: "length (clear_payload ?df) = ?n" using assms w by (simp add: length_clear_payload)
  let ?x = "xor_bytes (clear_payload ?df) (tx_stream (encrypt (DF s)) (primaryKey s) ?n)"
  have t: "take (unat ?v) (header_bytes (0x80 OR (?v - 6)) ?df @ ?x @ replicate (96 - ?n) 0) =
      header_bytes (0x80 OR (?v - 6)) ?df @ ?x"
    using w c v by simp
  have h: "header_bytes (0x80 OR (?v - 6)) ?df @ ?x = [0x82, 0x80 OR (?v - 6), 0, 0, 0, 0] @
      wire_body (tx_stream (encrypt (DF s)) (primaryKey s) ?n) ?df"
    by (simp add: header_bytes_def wire_body_def)
  let ?s = "s\<lparr>DF := ?df, DatePackege :=
      header_bytes (0x80 OR (?v - 6)) ?df @ ?x @ replicate (96 - ?n) 0\<rparr>"
  have "WebSocket_Data s = Some (?s, ?v)"
    using WebSocket_Data_Some [OF assms] by simp
  moreover have "take (unat ?v) (DatePackege ?s) = [0x82, 0x80 OR (?v - 6), 0, 0, 0, 0] @
      wire_body (tx_stream (encrypt (DF s)) (primaryKey s) ?n) (DF ?s)"
    using t h by simp
  moreover have "DF ?s = ?df" by simp
  ultimately show ?thesis
    using mask v by blast
qed

section \<open>Properties\<close>

text \<open>
  The layout of a sent frame. For a payload length between 2 and 96, \<open>WebSocket_Data\<close>
  returns the frame's size (32 bytes and the payload), and the package holds a masked binary
  web-socket frame with a zero mask, whose length byte counts the bytes behind the mask and
  whose body is the documented layout with the next sequence number; the command and the
  data are encrypted under the key the encryption type selects.
\<close>

theorem WebSocket_Data_layout:
  assumes "wf_arrays s" and "2 \<le> unat (payloadlength (DF s))" and "unat (payloadlength (DF s)) \<le> 96"
  shows "\<exists>s' n. WebSocket_Data s = Some (s', n) \<and> unat n = 32 + unat (payloadlength (DF s)) \<and>
    DF s' = (DF s)\<lparr>idx := idx (DF s) + 1\<rparr> \<and>
    take (unat n) (DatePackege s') = [0x82, 0x80 OR (n - 6), 0, 0, 0, 0] @
      wire_body (tx_stream (encrypt (DF s)) (primaryKey s) (unat (payloadlength (DF s)))) (DF s') \<and>
    unat ((0x80 OR (n - 6)) AND 0x7F) = unat n - 6"
  using assms by (rule WebSocket_Data_layout_aux)

lemma set_df_boot: "wf_arrays (boot\<lparr>DF := (DF boot)\<lparr>payloadlength := l, encrypt := e\<rparr>\<rparr>)"
  using wf_boot by (simp add: wf_arrays_def)

lemma WebSocket_Data_layout_witness:
  "\<exists>s' n. WebSocket_Data (boot\<lparr>DF := (DF boot)\<lparr>payloadlength := 10, encrypt := 1\<rparr>\<rparr>) = Some (s', n) \<and>
     unat n = 42 \<and> idx (DF s') = 1"
proof -
  let ?s = "boot\<lparr>DF := (DF boot)\<lparr>payloadlength := 10, encrypt := 1\<rparr>\<rparr>"
  have "2 \<le> unat (payloadlength (DF ?s))" "unat (payloadlength (DF ?s)) \<le> 96" by simp_all
  from WebSocket_Data_layout [OF set_df_boot this] show ?thesis by (auto simp: boot_def)
qed

text \<open>
  The sender's bound. \<open>WebSocket_Data\<close> leaves the 128-byte package exactly when the
  payload length exceeds 96.
\<close>

theorem WebSocket_Data_faults_iff:
  assumes "wf_arrays s"
  shows "WebSocket_Data s = None \<longleftrightarrow> 96 < unat (payloadlength (DF s))"
  using assms by (rule WebSocket_Data_None)

lemma WebSocket_Data_faults_iff_witness:
  "WebSocket_Data (boot\<lparr>DF := (DF boot)\<lparr>payloadlength := 97, encrypt := 1\<rparr>\<rparr>) = None"
  using WebSocket_Data_faults_iff [OF set_df_boot, of 1 97] by simp

text \<open>
  C33: the receiver's bound. A frame can drive \<open>WebRecvData_Proc\<close> out of the receive
  buffer: its length field is not checked against the buffer. This happens exactly for a
  length from 101 to 130 (the copy into \<open>mems\<close>), and for an encrypted frame whenever the
  low byte of the length exceeds 100 (the decryption).
\<close>

theorem WebRecvData_Proc_faults_iff:
  assumes "wf_arrays r"
  shows "WebRecvData_Proc 0 r = None \<longleftrightarrow>
    (let enc = ubWebRxBuf r ! 23; len = unat (from_be16 (ubWebRxBuf r ! 26) (ubWebRxBuf r ! 27))
     in (100 < len \<and> len \<le> 130) \<or> ((enc = 1 \<or> enc = 3) \<and> 100 < len mod 256))"
  using WebRecvData_Proc_None [OF assms] by (simp add: Let_def)

lemma WebRecvData_Proc_faults_iff_witness:
  "WebRecvData_Proc 0 (boot\<lparr>ubWebRxBuf := (replicate RXMAX 0)[23 := 1, 27 := 200]\<rparr>) = None"
proof -
  have "wf_arrays (boot\<lparr>ubWebRxBuf := (replicate RXMAX 0)[23 := 1, 27 := 200]\<rparr>)"
    using wf_boot by (simp add: wf_arrays_def)
  from WebRecvData_Proc_faults_iff [OF this] show ?thesis
    by (simp add: from_be16_def Let_def nth_list_update)
qed

text \<open>
  The receiver reads the documented layout. From a buffer that holds an unmasked frame
  with payload length 2 to 100, encrypted as the encryption type says for this direction
  (1 under the built-in key, 3 under the session key), it recovers every field, writes the
  data to the front of \<open>mems\<close>, clears the buffer and its counter, and sets \<open>Receive\<close> to the
  code of the command.
\<close>

theorem WebRecvData_Proc_decodes:
  assumes "wf_arrays r" and "wf_packet df"
    and "2 \<le> unat (payloadlength df)" and "unat (payloadlength df) \<le> 100"
    and "ubWebRxBuf r = [0x82, l] @
      wire_body (rx_stream (encrypt df) (primaryKey r) (unat (payloadlength df))) df @ rest"
  shows "WebRecvData_Proc 0 r = Some (r\<lparr>rxcount := 0,
    DF := df\<lparr>mems := blit (mems (DF r)) 0 (take (unat (payloadlength df) - 2) (mems df))\<rparr>,
    ubWebRxBuf := replicate RXMAX 0, Receive := receive_code (command df) (Receive r)\<rparr>)"
  using assms by (rule WebRecvData_Proc_Some)

definition example_packet :: data_format where
  "example_packet = \<lparr>DST_ID = str ''HTF1234567'', SRC_ID = str ''SSFFFFFFFF'', mems = replicate 128 7,
     encrypt = 3, idx = 5, payloadlength = 6, command = COMMAND_SETPPM\<rparr>"

lemma example_wire_length: "length (wire_body ks example_packet) = 26 + min 6 (length ks)"
  by (simp add: wire_body_def example_packet_def clear_payload_def)

lemma WebRecvData_Proc_decodes_witness:
  "\<exists>r'. WebRecvData_Proc 0 (boot\<lparr>ubWebRxBuf := [0x82, 32] @
      wire_body (rx_stream 3 (replicate 16 0) 6) example_packet @ replicate 94 0\<rparr>) = Some r' \<and>
     Receive r' = 0x20 \<and> command (DF r') = COMMAND_SETPPM"
proof -
  let ?r = "boot\<lparr>ubWebRxBuf := [0x82, 32] @
      wire_body (rx_stream 3 (replicate 16 0) 6) example_packet @ replicate 94 0\<rparr>"
  have 1: "wf_arrays ?r"
    using wf_boot by (simp add: wf_arrays_def example_wire_length)
  have 2: "wf_packet example_packet" by (simp add: wf_packet_def example_packet_def)
  have 3: "primaryKey ?r = replicate 16 0" "encrypt example_packet = 3" "payloadlength example_packet = 6"
    by (simp_all add: boot_def example_packet_def LENGTH_KEY_def)
  show ?thesis
    using WebRecvData_Proc_decodes [OF 1 2, of 32 "replicate 94 0"] 3
    by (simp add: receive_code_def example_packet_def)
qed

definition unmask :: "u8 list \<Rightarrow> u8 list" where
  "unmask f = [f ! 0, f ! 1 AND 0x7F] @ drop 6 f"

text \<open>
  C1: sender and receiver agree. A frame that one device builds, with no encryption or under
  the built-in key, and that reaches another with its (zero) mask removed, is read back as
  the packet that was sent, with the sender's sequence number.
\<close>

theorem send_receive_roundtrip:
  assumes "wf_arrays s" and "wf_arrays r"
    and "encrypt (DF s) = NONEKEY \<or> encrypt (DF s) = OPENKEY"
    and "2 \<le> unat (payloadlength (DF s))" and "unat (payloadlength (DF s)) \<le> 96"
    and "WebSocket_Data s = Some (s', n)"
    and "ubWebRxBuf r = unmask (take (unat n) (DatePackege s')) @ rest"
  shows "\<exists>r'. WebRecvData_Proc 0 r = Some r' \<and>
    DF r' = (DF s)\<lparr>idx := idx (DF s) + 1,
      mems := blit (mems (DF r)) 0 (take (unat (payloadlength (DF s)) - 2) (mems (DF s)))\<rparr>"
proof -
  let ?n = "unat (payloadlength (DF s))"
  let ?df = "(DF s)\<lparr>idx := idx (DF s) + 1\<rparr>"
  obtain l where t: "DF s' = ?df" "take (unat n) (DatePackege s') = [0x82, l, 0, 0, 0, 0] @
      wire_body (tx_stream (encrypt (DF s)) (primaryKey s) ?n) ?df"
    using WebSocket_Data_layout_aux [OF assms(1,4,5)] assms(6) by auto
  have st: "tx_stream (encrypt (DF s)) (primaryKey s) ?n = rx_stream (encrypt ?df) (primaryKey r) ?n"
    using assms(3) by (auto simp: tx_stream_def rx_stream_def)
  have b: "ubWebRxBuf r = [0x82, l AND 0x7F] @
      wire_body (rx_stream (encrypt ?df) (primaryKey r) (unat (payloadlength ?df))) ?df @ rest"
    by (simp add: assms(7) t(2) unmask_def st)
  have w: "wf_packet ?df" using assms(1) by (auto simp: wf_packet_def)
  have n: "2 \<le> unat (payloadlength ?df)" "unat (payloadlength ?df) \<le> 100" using assms by simp_all
  show ?thesis
    using WebRecvData_Proc_Some [OF assms(2) w n b] by simp
qed

lemma example_transfer:
  "\<exists>s' n. WebSocket_Data (boot\<lparr>DF := (DF boot)\<lparr>payloadlength := 10, encrypt := e\<rparr>\<rparr>) = Some (s', n) \<and>
     wf_arrays (boot\<lparr>ubWebRxBuf := unmask (take (unat n) (DatePackege s')) @ replicate 90 0\<rparr>)"
proof -
  let ?s = "boot\<lparr>DF := (DF boot)\<lparr>payloadlength := 10, encrypt := e\<rparr>\<rparr>"
  have l: "2 \<le> unat (payloadlength (DF ?s))" "unat (payloadlength (DF ?s)) \<le> 96" by simp_all
  obtain v where w: "WebSocket_Data ?s = Some v"
    using WebSocket_Data_None [OF set_df_boot, of e 10] by auto
  obtain s' n where v: "v = (s', n)" by (cases v)
  have p: "wf_packet ((DF ?s)\<lparr>idx := idx (DF ?s) + 1\<rparr>)"
    by (simp add: boot_def wf_packet_def)
  have "unat n = 42 \<and> DF s' = (DF ?s)\<lparr>idx := idx (DF ?s) + 1\<rparr> \<and> length (DatePackege s') = 128"
    using WebSocket_Data_Some [OF set_df_boot l] w v p
    by (auto simp: length_clear_payload)
  then have "length (unmask (take (unat n) (DatePackege s'))) = 38"
    by (simp add: unmask_def)
  then show ?thesis
    using w v wf_boot by (auto simp: wf_arrays_def)
qed

lemma send_receive_roundtrip_witness:
  "\<exists>s' n r'. WebSocket_Data (boot\<lparr>DF := (DF boot)\<lparr>payloadlength := 10, encrypt := 1\<rparr>\<rparr>) = Some (s', n) \<and>
     WebRecvData_Proc 0 (boot\<lparr>ubWebRxBuf :=
       unmask (take (unat n) (DatePackege s')) @ replicate 90 0\<rparr>) = Some r' \<and>
     idx (DF r') = 1 \<and> payloadlength (DF r') = 10"
proof -
  let ?s = "boot\<lparr>DF := (DF boot)\<lparr>payloadlength := 10, encrypt := 1\<rparr>\<rparr>"
  have l: "2 \<le> unat (payloadlength (DF ?s))" "unat (payloadlength (DF ?s)) \<le> 96"
    and enc: "encrypt (DF ?s) = NONEKEY \<or> encrypt (DF ?s) = OPENKEY" by simp_all
  obtain s' n where w: "WebSocket_Data ?s = Some (s', n)"
    and "wf_arrays (boot\<lparr>ubWebRxBuf := unmask (take (unat n) (DatePackege s')) @ replicate 90 0\<rparr>)"
    using example_transfer by blast
  from send_receive_roundtrip [OF set_df_boot this(2) enc l w] show ?thesis
    using w by (fastforce simp: boot_def)
qed

text \<open>
  The two directions use different encryption types. A frame sent under the session key
  (type 2, \<open>PRIMARYKEY\<close>) is not decrypted by this receiver, which knows the session key as
  type 3: what it takes for the command is the cipher text of the command.
\<close>

theorem primary_key_types_differ:
  assumes "wf_arrays s" and "wf_arrays r" and "encrypt (DF s) = PRIMARYKEY"
    and "2 \<le> unat (payloadlength (DF s))" and "unat (payloadlength (DF s)) \<le> 96"
    and "WebSocket_Data s = Some (s', n)"
    and "ubWebRxBuf r = unmask (take (unat n) (DatePackege s')) @ rest"
  shows "\<exists>r'. WebRecvData_Proc 0 r = Some r' \<and>
    be16 (command (DF r')) =
      xor_bytes (be16 (command (DF s))) (take 2 (rc4_keystream (primaryKey s) (unat (payloadlength (DF s)))))"
proof -
  let ?n = "unat (payloadlength (DF s))"
  let ?df = "(DF s)\<lparr>idx := idx (DF s) + 1\<rparr>"
  let ?cl = "xor_bytes (clear_payload ?df) (rc4_keystream (primaryKey s) ?n)"
  define c where "c = from_be16 (?cl ! 0) (?cl ! 1)"
  define df where "df = ?df\<lparr>command := c, mems := drop 2 ?cl @ replicate (130 - ?n) 0\<rparr>"
  have w: "wf_packet ?df" using assms(1) by (auto simp: wf_packet_def)
  have lc: "length ?cl = ?n" using assms(4,5) w by (simp add: length_clear_payload)
  then obtain a b cs where cl: "?cl = a # b # cs" "length cs = ?n - 2"
    using assms(4) by (cases ?cl; cases "tl ?cl") auto
  have cb: "be16 c = [a, b]"
    by (simp add: c_def cl(1))
  have p: "clear_payload df = ?cl"
    using cl assms(4) by (simp add: clear_payload_def df_def cb)
  have wd: "wf_packet df"
    using w lc assms(4,5) by (auto simp: wf_packet_def df_def)
  obtain l where t: "DF s' = ?df" "take (unat n) (DatePackege s') = [0x82, l, 0, 0, 0, 0] @
      wire_body (tx_stream (encrypt (DF s)) (primaryKey s) ?n) ?df"
    using WebSocket_Data_layout_aux [OF assms(1,4,5)] assms(6) by auto
  have body: "wire_body (tx_stream (encrypt (DF s)) (primaryKey s) ?n) ?df =
      wire_body (rx_stream (encrypt df) (primaryKey r) ?n) df"
    using assms(3) lc by (simp add: wire_body_def p tx_stream_def rx_stream_def) (simp add: df_def)
  have buf: "ubWebRxBuf r = [0x82, l AND 0x7F] @
      wire_body (rx_stream (encrypt df) (primaryKey r) (unat (payloadlength df))) df @ rest"
    using body by (simp add: assms(7) t(2) unmask_def df_def)
  have n: "2 \<le> unat (payloadlength df)" "unat (payloadlength df) \<le> 100"
    using assms(4,5) by (simp_all add: df_def)
  have "xor_bytes (be16 (command (DF s))) (take 2 (rc4_keystream (primaryKey s) ?n)) = take 2 ?cl"
    by (simp add: clear_payload_def xor_bytes_def take_map take_zip be16_def)
  then show ?thesis
    using WebRecvData_Proc_Some [OF assms(2) wd n buf] by (simp add: df_def cb cl(1))
qed

lemma primary_key_types_differ_witness:
  "\<exists>s' n r'. WebSocket_Data (boot\<lparr>DF := (DF boot)\<lparr>payloadlength := 10, encrypt := 2\<rparr>\<rparr>) = Some (s', n) \<and>
     WebRecvData_Proc 0 (boot\<lparr>ubWebRxBuf :=
       unmask (take (unat n) (DatePackege s')) @ replicate 90 0\<rparr>) = Some r' \<and>
     be16 (command (DF r')) = xor_bytes [0, 0] (take 2 (rc4_keystream (replicate 16 0) 10))"
proof -
  let ?s = "boot\<lparr>DF := (DF boot)\<lparr>payloadlength := 10, encrypt := 2\<rparr>\<rparr>"
  have l: "2 \<le> unat (payloadlength (DF ?s))" "unat (payloadlength (DF ?s)) \<le> 96"
    and enc: "encrypt (DF ?s) = PRIMARYKEY" by simp_all
  obtain s' n where w: "WebSocket_Data ?s = Some (s', n)"
    and "wf_arrays (boot\<lparr>ubWebRxBuf := unmask (take (unat n) (DatePackege s')) @ replicate 90 0\<rparr>)"
    using example_transfer by blast
  from primary_key_types_differ [OF set_df_boot this(2) enc l w] show ?thesis
    using w by (fastforce simp: boot_def be16_def LENGTH_KEY_def)
qed

end
