(* ===== verification/Monitor.thy ===== *)
theory Monitor
  imports Roundtrip
begin

text \<open>
  The command interpreter \<open>ESP8266_Monitor\<close>, the registration post \<open>Post_Id\<close> and the
  periodic \<open>networking\<close> of \<open>app/user/networking.c\<close>: one definition per branch of the
  interpreter's switch, each a state change that may send a packet.
\<close>

section \<open>The registration post\<close>

definition crlf :: "u8 list" where
  "crlf = [13, 10]"

text \<open>
  \<open>postdata1[33]\<close>: 23 characters of text and the ten of the device ID, which fill the array:
  no terminator remains. \<open>%s\<close> prints it up to the first zero byte.
\<close>

definition post_data :: "u8 list \<Rightarrow> u8 list" where
  "post_data dev = blit (str ''action=saveDevid&devid='' @ replicate 10 0) 23 (take 10 dev)"

definition post_request :: "u8 list \<Rightarrow> u8 list" where
  "post_request postdata = str ''POST /baas/tianhesm HTTP/1.1'' @ crlf @
     str ''Accept: */*'' @ crlf @ str ''Content-Length: 33'' @ crlf @
     str ''Content-Type: application/x-www-form-urlencoded'' @ crlf @
     str ''Host: flytronlink.net'' @ crlf @ str ''Connection: Keep-Alive'' @ crlf @ crlf @
     takeWhile (\<lambda>b. b \<noteq> 0) postdata"

text \<open>
  \<open>sprintf\<close> into \<open>pbuf[194]\<close>, then all 194 bytes are sent. A text of 194 characters leaves
  no room for the terminator: the call writes behind the local array (\<open>stack_overrun\<close>).
\<close>

definition post_id_calls :: "u8 list \<Rightarrow> sdk list" where
  "post_id_calls dev =
     (let txt = post_request (post_data dev)
      in (if 194 \<le> length txt then [stack_overrun ''pbuf''] else []) @
         [espconn_send http_tcp_conn (take 194 (txt @ replicate 194 0))])"

definition Post_Id :: "firmware \<Rightarrow> firmware" where
  "Post_Id s = calls (post_id_calls (Dev_ID (PP s))) s"

section \<open>The command interpreter\<close>

definition broadcast_id :: "u8 list" where
  "broadcast_id = str ''SSFFFFFFFF''"

text \<open>The first switch: a received code replaces the pending command.\<close>

definition received_command :: "u8 \<Rightarrow> u16 \<Rightarrow> u16" where
  "received_command recv cmd =
     (if recv = 0x01 then COMMAND_GETNEWID
      else if recv = 0x02 then COMMAND_NEWIDACK
      else if recv = 0x04 then COMMAND_LOGIN
      else if recv = 0x08 then COMMAND_LOGINACK
      else if recv = 0x10 then COMMAND_READGAS
      else if recv = 0x11 then COMMAND_READGASACK
      else if recv = 0x20 then COMMAND_SETPPM
      else if recv = 0x30 then COMMAND_LEDCOLOR
      else if recv = 0x40 then COMMAND_SELFTEST
      else if recv = 0x50 then COMMAND_SELFTESTACK
      else if recv = 0x60 then COMMAND_MAPDATA
      else cmd)"

text \<open>\<open>length = WebSocket_Data(); Reflash(0, 0xFF, 0); espconn_send(&websocket_tcp_conn, DatePackege, length)\<close>\<close>

definition send_package :: "u8 \<Rightarrow> firmware \<Rightarrow> firmware" where
  "send_package n s = call (espconn_send websocket_tcp_conn (take (unat n) (DatePackege s))) s"

definition build_and_send :: "firmware \<Rightarrow> firmware option" where
  "build_and_send s = do {
     (s, n) \<leftarrow> WebSocket_Data s;
     Some (send_package n (Reflash 0 0xFF s)) }"

definition set_mems :: "(u8 list \<Rightarrow> u8 list) \<Rightarrow> firmware \<Rightarrow> firmware" where
  "set_mems f s = s\<lparr>DF := (DF s)\<lparr>mems := f (mems (DF s))\<rparr>\<rparr>"

definition mon_MAPDATA :: "firmware \<Rightarrow> firmware option" where
  "mon_MAPDATA s = do {
     let s = ProcessPackege broadcast_id (Dev_ID (PP s)) PRIMARYKEY 88 COMMAND_MAPDATA s;
     let s = set_mems (\<lambda>m. put_be32 m 0 (city_code (MF s))) s;
     let s = set_mems (\<lambda>m. blit (blit m 4 (map_x (MF s))) 20 (map_y (MF s))) s;
     m \<leftarrow> copy_loop (unat (map_addlen s)) (mems (DF s)) 36 (map_addr (MF s)) 0;
     build_and_send (set_mems (\<lambda>_. m) s) }"

definition mon_READGAS :: "firmware \<Rightarrow> firmware option" where
  "mon_READGAS s = Some (Reflash COMMAND_READGASACK 0x11 s)"

definition mon_READGASACK :: "firmware \<Rightarrow> firmware option" where
  "mon_READGASACK s =
     (let dst = take 10 (SRC_ID (DF s));
          s = ProcessPackege dst (Dev_ID (PP s)) PRIMARYKEY 0x000a COMMAND_READGASACK s
      in build_and_send (set_mems (\<lambda>m. put_be32 (put_be32 m 0 (PPM_Updata (PP s))) 4 (Alarm_H (PP s))) s))"

definition mon_WARNING :: "firmware \<Rightarrow> firmware option" where
  "mon_WARNING s =
     (let s = ProcessPackege broadcast_id (Dev_ID (PP s)) PRIMARYKEY 0x0006 COMMAND_WARNING s
      in build_and_send (set_mems (\<lambda>m. put_be32 m 0 (PPM_H (PP s))) s))"

text \<open>The heart beat clears the command but not \<open>Receive\<close>.\<close>

definition mon_HEARTRATE :: "firmware \<Rightarrow> firmware option" where
  "mon_HEARTRATE s = do {
     (s, n) \<leftarrow> WebSocket_Data
       (ProcessPackege broadcast_id (Dev_ID (PP s)) PRIMARYKEY 0x0002 COMMAND_HEARTRATE s);
     Some (send_package n (s\<lparr>DF := (DF s)\<lparr>command := 0\<rparr>, ubWebRxBuf := replicate RXMAX 0\<rparr>)) }"

definition mon_HEARTRATEACK :: "firmware \<Rightarrow> firmware option" where
  "mon_HEARTRATEACK s = Some (Reflash 0 0xFF (s\<lparr>PP := (PP s)\<lparr>Cnt_ERROR := 1800\<rparr>\<rparr>))"

definition mon_UPDATEPPM :: "firmware \<Rightarrow> firmware option" where
  "mon_UPDATEPPM s =
     (let s = s\<lparr>PP := (PP s)\<lparr>Cnt_ERROR := 1800\<rparr>\<rparr>;
          s = ProcessPackege broadcast_id (Dev_ID (PP s)) PRIMARYKEY 0x0006 COMMAND_UPDATEPPM s
      in build_and_send (set_mems (\<lambda>m. put_be32 m 0 (PPM_Updata (PP s))) s))"

definition mon_GETNEWID :: "firmware \<Rightarrow> firmware option" where
  "mon_GETNEWID s =
     (let s = ProcessPackege broadcast_id (Dev_ID (PP s)) OPENKEY 0x000c COMMAND_GETNEWID s
      in build_and_send (set_mems (\<lambda>m. blit m 0 (take LENGTH_DEV_ID (Dev_ID (PP s)))) s))"

text \<open>The two copies of the configuration go to flash sectors \<open>0x7C\<close> and \<open>0x7D\<close>.\<close>

definition save_config :: "firmware \<Rightarrow> firmware" where
  "save_config s = calls
     [spi_flash_erase_sector 0x7C, spi_flash_write (0x7C * 4096) (config s),
      spi_flash_erase_sector 0x7D, spi_flash_write (0x7D * 4096) (configcmp s)] s"

definition set_dev_id :: "u8 list \<Rightarrow> startup_config \<Rightarrow> startup_config" where
  "set_dev_id dev c = c\<lparr>Dev_id := blit (Dev_id c) 0 (take 10 dev)\<rparr>"

definition mon_NEWIDACK :: "firmware \<Rightarrow> firmware option" where
  "mon_NEWIDACK s =
     (let dev = take 10 (mems (DF s));
          s = s\<lparr>PP := (PP s)\<lparr>Dev_ID := dev\<rparr>, config := set_dev_id dev (config s),
            configcmp := set_dev_id dev (configcmp s)\<rparr>;
          s = (if gassmartconfig s = 1 then Post_Id s else s)
      in Some (Reflash COMMAND_LOGIN 0x04 (save_config s)))"

definition hardversion :: u32 where
  "hardversion = 0x03"

definition softversion :: u32 where
  "softversion = 180326"

definition mon_LOGIN :: "firmware \<Rightarrow> firmware option" where
  "mon_LOGIN s =
     (let s = ProcessPackege broadcast_id (Dev_ID (PP s)) OPENKEY 0x000A COMMAND_LOGIN s;
          s = s\<lparr>PP := (PP s)\<lparr>HWVersion := hardversion, SWVersion := softversion\<rparr>\<rparr>
      in build_and_send (set_mems (\<lambda>m. put_be32 (put_be32 m 0 (HWVersion (PP s))) 4 (SWVersion (PP s))) s))"

definition mon_LOGINACK :: "firmware \<Rightarrow> firmware option" where
  "mon_LOGINACK s =
     (let s = s\<lparr>primaryKey := take LENGTH_KEY (mems (DF s)),
            PP := (PP s)\<lparr>Status := SetBit (Status (PP s)) BIT_LOGINOK\<rparr>\<rparr>
      in Some (Reflash 0 0xFF s))"

text \<open>The alarm threshold arrives big-endian and is written through the byte view of the union.\<close>

definition alarm_from_mems :: "u32 \<Rightarrow> u8 list \<Rightarrow> u32" where
  "alarm_from_mems old m = fold (\<lambda>i w. set_byte w i (m ! (3 - i))) [0..<4] old"

definition mon_SETPPM :: "firmware \<Rightarrow> firmware option" where
  "mon_SETPPM s =
     (let dst = take 10 (SRC_ID (DF s));
          a = alarm_from_mems (Alarm_H (PP s)) (mems (DF s));
          a = (if PPM_MAX < a then PPM_MAX else a);
          s = s\<lparr>PP := (PP s)\<lparr>Alarm_H := a\<rparr>\<rparr>
      in build_and_send (ProcessPackege dst (Dev_ID (PP s)) PRIMARYKEY 0x0002 COMMAND_SETPPMACK s))"

definition led_test_flag :: "u8 list \<Rightarrow> u8 \<Rightarrow> u8" where
  "led_test_flag m old =
     (if m ! 2 = 0xff then
        (if m ! 1 = 0xff then (if m ! 0 = 0xff then SetBit 0 BIT_BEEP else old)
         else SetBit 0 BIT_BLUE)
      else if m ! 1 = 0xff then SetBit 0 BIT_GREEN
      else SetBit 0 BIT_RED)"

definition mon_LEDCOLOR :: "firmware \<Rightarrow> firmware option" where
  "mon_LEDCOLOR s = do {
     let dst = take 10 (SRC_ID (DF s));
     let s = s\<lparr>PP := (PP s)\<lparr>Flag_Test := led_test_flag (mems (DF s)) (Flag_Test (PP s))\<rparr>\<rparr>;
     (s, n) \<leftarrow> WebSocket_Data (ProcessPackege dst (Dev_ID (PP s)) PRIMARYKEY 0x0002 COMMAND_LEDCOLORACK s);
     let s = Reflash 0 0xFF s;
     let s = s\<lparr>PP := (PP s)\<lparr>Status := ClrBit (Status (PP s)) BIT_SELFTEST\<rparr>\<rparr>;
     Some (send_package n s) }"

definition mon_STOPALARM :: "firmware \<Rightarrow> firmware option" where
  "mon_STOPALARM s =
     (let s = s\<lparr>PP := (PP s)\<lparr>Status := SetBit (Status (PP s)) BIT_ALARMOFF,
            flag_Time := ClrBit (flag_Time (PP s)) BIT_MINITE, Cnt_Minite := 0\<rparr>\<rparr>
      in Some (Reflash 0 0xFF s))"

definition run_command :: "u16 \<Rightarrow> firmware \<Rightarrow> firmware option" where
  "run_command c s =
     (if c = COMMAND_MAPDATA then mon_MAPDATA s
      else if c = COMMAND_READGAS then mon_READGAS s
      else if c = COMMAND_READGASACK then mon_READGASACK s
      else if c = COMMAND_WARNING then mon_WARNING s
      else if c = COMMAND_HEARTRATE then mon_HEARTRATE s
      else if c = COMMAND_HEARTRATEACK then mon_HEARTRATEACK s
      else if c = COMMAND_UPDATEPPM then mon_UPDATEPPM s
      else if c = COMMAND_GETNEWID then mon_GETNEWID s
      else if c = COMMAND_NEWIDACK then mon_NEWIDACK s
      else if c = COMMAND_LOGIN then mon_LOGIN s
      else if c = COMMAND_LOGINACK then mon_LOGINACK s
      else if c = COMMAND_SETPPM then mon_SETPPM s
      else if c = COMMAND_LEDCOLOR then mon_LEDCOLOR s
      else if c = COMMAND_STOPALARM then mon_STOPALARM s
      else Some s)"

definition ESP8266_Monitor :: "firmware \<Rightarrow> firmware option" where
  "ESP8266_Monitor s =
     (let c = received_command (Receive s) (command (DF s))
      in run_command c (s\<lparr>DF := (DF s)\<lparr>command := c\<rparr>\<rparr>))"

section \<open>The periodic task\<close>

text \<open>\<open>Cnt_ERROR\<close> has run out on an open session: drop it.\<close>

definition clear_init_flags :: "program_para \<Rightarrow> program_para" where
  "clear_init_flags p = p\<lparr>init_flag_time := ClrBit (ClrBit (init_flag_time p) BIT_10S) BIT_30S\<rparr>"

definition net_timeout :: "firmware \<Rightarrow> firmware" where
  "net_timeout s = calls [espconn_disconnect websocket_tcp_conn, pwm_start]
     (s\<lparr>PP := clear_init_flags ((PP s)\<lparr>Cnt_ERROR := 180, Led_Cnt_second := 0\<rparr>),
       Cnt_second := 0, Cnt_10second := 0, WebSocketOK := 0, HttpOK := 0, Mode := Mode_Bias\<rparr>)"

definition net_not_logged_in :: "firmware \<Rightarrow> firmware" where
  "net_not_logged_in s =
     (if 0 < Cnt_ERROR (PP s) then s\<lparr>PP := (PP s)\<lparr>Cnt_ERROR := Cnt_ERROR (PP s) - 1\<rparr>\<rparr>
      else call (espconn_disconnect websocket_tcp_conn)
        (s\<lparr>PP := clear_init_flags ((PP s)\<lparr>Led_Cnt_second := 0, Cnt_ERROR := 180\<rparr>),
          Cnt_second := 0, Cnt_10second := 0, WebSocketOK := 0, HttpOK := 0, Mode := Mode_Bias\<rparr>))"

text \<open>The elapsed periods become commands for the next call.\<close>

definition net_logged_in :: "firmware \<Rightarrow> firmware" where
  "net_logged_in s =
     (let s = (if HasBit (flag_Time (PP s)) BIT_MINITE
               then s\<lparr>PP := (PP s)\<lparr>flag_Time := ClrBit (flag_Time (PP s)) BIT_MINITE\<rparr>,
                      DF := (DF s)\<lparr>command := COMMAND_HEARTRATE\<rparr>\<rparr> else s);
          s = (if HasBit (flag_Time (PP s)) BIT_HOUR
               then s\<lparr>PP := (PP s)\<lparr>flag_Time := ClrBit (flag_Time (PP s)) BIT_HOUR\<rparr>,
                      DF := (DF s)\<lparr>command := COMMAND_UPDATEPPM\<rparr>\<rparr> else s)
      in if HasBit (flag_Time (PP s)) BIT_DAY
         then s\<lparr>PP := (PP s)\<lparr>flag_Time := ClrBit (flag_Time (PP s)) BIT_DAY\<rparr>\<rparr> else s)"

definition net_offline :: "firmware \<Rightarrow> firmware" where
  "net_offline s =
     (if HasBit (Status (PP s)) BIT_HASNET then
        (if 0 < Cnt_ERROR (PP s) then s\<lparr>PP := (PP s)\<lparr>Cnt_ERROR := Cnt_ERROR (PP s) - 1\<rparr>\<rparr>
         else call pwm_start
           (s\<lparr>PP := (clear_init_flags (PP s))\<lparr>Cnt_ERROR := 1800\<rparr>,
             Cnt_second := 0, Cnt_10second := 0, WebSocketOK := 0, HttpOK := 0, Mode := Mode_Bias\<rparr>))
      else s)"

definition networking :: "firmware \<Rightarrow> firmware option" where
  "networking s =
     (if WebSocketOK s \<noteq> 0 then
        (if Cnt_ERROR (PP s) = 0 then Some (net_timeout s)
         else do {
           let s = s\<lparr>PP := (PP s)\<lparr>Cnt_ERROR := Cnt_ERROR (PP s) - 1\<rparr>\<rparr>;
           let s = (if gassmartconfig s = 1 \<and> Dev_ID (PP s) ! 2 \<noteq> of_char CHR ''F'' then Post_Id s else s);
           s \<leftarrow> ESP8266_Monitor s;
           Some (if HasBit (Status (PP s)) BIT_LOGINOK then net_logged_in s else net_not_logged_in s) })
      else Some (net_offline s))"

end
