(* ===== verification/MonitorProps.thy ===== *)
theory MonitorProps
  imports Monitor
begin

text \<open>
  The command interpreter never leaves its arrays, sends at most one packet per call and only
  well-formed ones, and answers each request once. The contract shared by its branches is the
  locale \<open>command_handler\<close>; every branch, the interpreter and the periodic task interpret it.
\<close>

section \<open>What a branch sends\<close>

definition package_of :: "firmware \<Rightarrow> u8 list" where
  "package_of s = (let df = (DF s)\<lparr>idx := idx (DF s) + 1\<rparr>; n = unat (payloadlength (DF s)) in
     header_bytes (0x80 OR (26 + ucast (payloadlength (DF s)))) df @
     xor_bytes (clear_payload df) (tx_stream (encrypt (DF s)) (primaryKey s) n) @ replicate (96 - n) 0)"

definition frame_of :: "firmware \<Rightarrow> u8 list" where
  "frame_of s = take (32 + unat (payloadlength (DF s))) (package_of s)"

definition built :: "firmware \<Rightarrow> firmware" where
  "built s = s\<lparr>DF := (DF s)\<lparr>idx := idx (DF s) + 1\<rparr>, DatePackege := package_of s\<rparr>"

definition sendable :: "firmware \<Rightarrow> bool" where
  "sendable s \<longleftrightarrow> wf_arrays s \<and> 2 \<le> unat (payloadlength (DF s)) \<and> unat (payloadlength (DF s)) \<le> 96"

definition valid_frame :: "u8 list \<Rightarrow> bool" where
  "valid_frame b \<longleftrightarrow> 34 \<le> length b \<and> length b \<le> 128 \<and> b ! 0 = 0x82 \<and> b ! 6 = of_char CHR ''F'' \<and>
     unat (b ! 1 AND 0x7F) = length b - 6"

lemma WebSocket_Data_built:
  assumes "sendable s"
  shows "WebSocket_Data s = Some (built s, 32 + ucast (payloadlength (DF s)))"
  using assms WebSocket_Data_Some [of s]
  by (simp add: sendable_def built_def package_of_def Let_def)

lemma frame_size:
  "sendable s \<Longrightarrow> unat (32 + ucast (payloadlength (DF s)) :: u8) = 32 + unat (payloadlength (DF s))"
  by (simp add: sendable_def unat_add_u8 unat_ucast_u16_u8)

lemma length_package_of: "sendable s \<Longrightarrow> length (package_of s) = 128"
proof -
  assume s: "sendable s"
  then have "wf_packet ((DF s)\<lparr>idx := idx (DF s) + 1\<rparr>)"
    by (auto simp: sendable_def wf_packet_def)
  with s show ?thesis
    by (simp add: package_of_def Let_def length_clear_payload sendable_def)
qed

lemma wf_built: "sendable s \<Longrightarrow> wf_arrays (built s)"
  using length_package_of [of s] by (auto simp: built_def wf_arrays_def sendable_def DataMax_def)

lemma valid_frame_of:
  assumes "sendable s"
  shows "valid_frame (frame_of s)"
proof -
  have a: "wf_arrays s" "2 \<le> unat (payloadlength (DF s))" "unat (payloadlength (DF s)) \<le> 96"
    using assms by (simp_all add: sendable_def)
  obtain n where n: "unat n = 32 + unat (payloadlength (DF s))"
    and t: "take (unat n) (DatePackege (built s)) = [0x82, 0x80 OR (n - 6), 0, 0, 0, 0] @
      wire_body (tx_stream (encrypt (DF s)) (primaryKey s) (unat (payloadlength (DF s)))) (DF (built s))"
    and m: "unat ((0x80 OR (n - 6)) AND 0x7F) = unat n - 6"
    using WebSocket_Data_layout_aux [OF a] WebSocket_Data_built [OF assms] by auto
  have f: "frame_of s = take (unat n) (DatePackege (built s))"
    by (simp add: frame_of_def built_def n)
  have l: "length (frame_of s) = unat n"
    using a(3) length_package_of [OF assms] by (simp add: f n built_def)
  have "frame_of s ! 0 = 0x82 \<and> frame_of s ! 1 = 0x80 OR (n - 6) \<and> frame_of s ! 6 = of_char CHR ''F''"
    unfolding f t by (simp add: wire_body_def)
  then show ?thesis
    using m n a l by (simp add: valid_frame_def)
qed

section \<open>The contract of a branch\<close>

definition is_ws_send :: "sdk \<Rightarrow> bool" where
  "is_ws_send e = (case e of espconn_send c b \<Rightarrow> c = websocket_tcp_conn | _ \<Rightarrow> False)"

definition ws_frames_valid :: "sdk list \<Rightarrow> bool" where
  "ws_frames_valid es \<longleftrightarrow> (\<forall>b. espconn_send websocket_tcp_conn b \<in> set es \<longrightarrow> valid_frame b)"

definition handled :: "nat \<Rightarrow> firmware \<Rightarrow> firmware \<Rightarrow> bool" where
  "handled k s s' \<longleftrightarrow> wf_arrays s' \<and> map_addlen s' = map_addlen s \<and>
     (\<exists>es. trace s' = trace s @ es \<and> length (filter is_ws_send es) \<le> k \<and> ws_frames_valid es)"

lemma handledI:
  "wf_arrays s' \<Longrightarrow> map_addlen s' = map_addlen s \<Longrightarrow> trace s' = trace s @ es \<Longrightarrow>
   length (filter is_ws_send es) \<le> k \<Longrightarrow> ws_frames_valid es \<Longrightarrow> handled k s s'"
  by (auto simp: handled_def)

lemma handled_refl: "wf_arrays s \<Longrightarrow> handled 0 s s"
  by (auto simp: handled_def ws_frames_valid_def)

lemma handled_trans: "handled j s t \<Longrightarrow> handled k t u \<Longrightarrow> handled (j + k) s u"
proof -
  assume 1: "handled j s t" and 2: "handled k t u"
  obtain es where es: "trace t = trace s @ es" "length (filter is_ws_send es) \<le> j" "ws_frames_valid es"
    using 1 by (auto simp: handled_def)
  obtain fs where fs: "trace u = trace t @ fs" "length (filter is_ws_send fs) \<le> k" "ws_frames_valid fs"
    using 2 by (auto simp: handled_def)
  have "trace u = trace s @ (es @ fs) \<and> length (filter is_ws_send (es @ fs)) \<le> j + k \<and>
      ws_frames_valid (es @ fs)"
    using es fs by (auto simp: ws_frames_valid_def)
  then show ?thesis using 1 2 unfolding handled_def by metis
qed

lemma handled_mono: "handled j s t \<Longrightarrow> j \<le> k \<Longrightarrow> handled k s t"
  unfolding handled_def by (meson order_trans)

text \<open>A state change that sends nothing over the web socket.\<close>

lemma handled_quiet:
  "wf_arrays s' \<Longrightarrow> map_addlen s' = map_addlen s \<Longrightarrow> trace s' = trace s @ es \<Longrightarrow>
   \<forall>e \<in> set es. \<not> is_ws_send e \<Longrightarrow> handled 0 s s'"
  by (auto simp: handled_def ws_frames_valid_def is_ws_send_def)

fun iterate_opt :: "nat \<Rightarrow> ('a \<Rightarrow> 'a option) \<Rightarrow> 'a \<Rightarrow> 'a option" where
  "iterate_opt 0 h s = Some s"
| "iterate_opt (Suc n) h s = do { t \<leftarrow> h s; iterate_opt n h t }"

locale command_handler =
  fixes h :: "firmware \<Rightarrow> firmware option"
    and lim :: u8
  assumes handles: "wf_arrays s \<Longrightarrow> map_addlen s \<le> lim \<Longrightarrow> \<exists>s'. h s = Some s' \<and> handled 1 s s'"
begin

lemma no_fault: "wf_arrays s \<Longrightarrow> map_addlen s \<le> lim \<Longrightarrow> h s \<noteq> None"
  using handles by fastforce

lemma handles_iterated:
  "wf_arrays s \<Longrightarrow> map_addlen s \<le> lim \<Longrightarrow> \<exists>s'. iterate_opt n h s = Some s' \<and> handled n s s'"
proof (induction n arbitrary: s)
  case 0
  then show ?case by (simp add: handled_refl)
next
  case (Suc n)
  obtain t where t: "h s = Some t" "handled 1 s t"
    using handles Suc.prems by blast
  then have "wf_arrays t" "map_addlen t \<le> lim"
    using Suc.prems by (simp_all add: handled_def)
  then obtain u where "iterate_opt n h t = Some u" "handled n t u"
    using Suc.IH by blast
  then show ?case
    using t handled_trans [of 1 s t n u] by auto
qed

end

section \<open>Every branch keeps the contract\<close>

lemma wf_Reflash [simp]: "wf_arrays (Reflash c r s) \<longleftrightarrow>
    wf_arrays (s\<lparr>ubWebRxBuf := replicate RXMAX 0\<rparr>)"
  by (simp add: wf_arrays_def Reflash_def)

lemma handled_send_package:
  assumes "sendable t" and "handled 0 s t"
    and u: "wf_arrays u" "map_addlen u = map_addlen t" "trace u = trace t" "DatePackege u = package_of t"
  shows "handled 1 s (send_package (32 + ucast (payloadlength (DF t))) u)"
proof -
  have f: "take (unat (32 + ucast (payloadlength (DF t)) :: u8)) (DatePackege u) = frame_of t"
    using u(4) frame_size [OF assms(1)] by (simp add: frame_of_def)
  obtain es where "trace t = trace s @ es" "length (filter is_ws_send es) \<le> 0" "ws_frames_valid es"
    using assms(2) by (auto simp: handled_def)
  then show ?thesis
    using assms(2) u f valid_frame_of [OF assms(1)]
    by (intro handledI [of _ _ "es @ [espconn_send websocket_tcp_conn (frame_of t)]"])
      (auto simp: send_package_def ws_frames_valid_def is_ws_send_def handled_def wf_arrays_def)
qed

lemma handled_build_and_send:
  assumes "sendable t" and "handled 0 s t"
  shows "\<exists>s'. build_and_send t = Some s' \<and> handled 1 s s'"
proof -
  have "handled 1 s (send_package (32 + ucast (payloadlength (DF t))) (Reflash 0 0xFF (built t)))"
    using assms wf_built [OF assms(1)]
    by (intro handled_send_package) (auto simp: Reflash_def built_def wf_arrays_def)
  then show ?thesis
    using WebSocket_Data_built [OF assms(1)] by (simp add: build_and_send_def)
qed

lemma length_broadcast_id [simp]: "length broadcast_id = 10"
  by (simp add: broadcast_id_def)

text \<open>The addressed packet is sendable whatever is then written into its data.\<close>

lemma sendable_ProcessPackege:
  "wf_arrays s \<Longrightarrow> length dst = 10 \<Longrightarrow> length src = 10 \<Longrightarrow> 2 \<le> unat len \<Longrightarrow> unat len \<le> 96 \<Longrightarrow>
   sendable (ProcessPackege dst src enc len cmd s)"
  by (simp add: sendable_def ProcessPackege_def wf_arrays_def)

lemma sendable_set_mems:
  "sendable s \<Longrightarrow> length (f (mems (DF s))) = length (mems (DF s)) \<Longrightarrow> sendable (set_mems f s)"
  by (simp add: sendable_def set_mems_def wf_arrays_def)

lemma handled_ProcessPackege:
  "handled k r s \<Longrightarrow> length dst = 10 \<Longrightarrow> length src = 10 \<Longrightarrow>
   handled k r (ProcessPackege dst src enc len cmd s)"
  by (simp add: handled_def ProcessPackege_def wf_arrays_def)

lemma handled_set_mems:
  "handled k r s \<Longrightarrow> length (f (mems (DF s))) = length (mems (DF s)) \<Longrightarrow> handled k r (set_mems f s)"
  by (simp add: handled_def set_mems_def wf_arrays_def)

lemma mems_ProcessPackege [simp]:
  "mems (DF (ProcessPackege dst src enc len cmd s)) = mems (DF s)"
  "mems (DF (set_mems f s)) = f (mems (DF s))"
  "MF (ProcessPackege dst src enc len cmd s) = MF s" "MF (set_mems f s) = MF s"
  "PP (ProcessPackege dst src enc len cmd s) = PP s" "PP (set_mems f s) = PP s"
  "map_addlen (ProcessPackege dst src enc len cmd s) = map_addlen s"
  "map_addlen (set_mems f s) = map_addlen s"
  by (simp_all add: ProcessPackege_def set_mems_def)

lemmas handled_intros = handled_build_and_send [unfolded One_nat_def] sendable_set_mems handled_set_mems
  sendable_ProcessPackege handled_ProcessPackege handled_refl

lemma wf_PP: "wf_arrays s \<Longrightarrow> length (Dev_ID p) = 10 \<Longrightarrow> wf_arrays (s\<lparr>PP := p\<rparr>)"
  by (simp add: wf_arrays_def)

lemma sendable_PP: "sendable s \<Longrightarrow> length (Dev_ID p) = 10 \<Longrightarrow> sendable (s\<lparr>PP := p\<rparr>)"
  by (simp add: sendable_def wf_PP)

lemma handled_PP: "handled k r s \<Longrightarrow> length (Dev_ID p) = 10 \<Longrightarrow> handled k r (s\<lparr>PP := p\<rparr>)"
  by (simp add: handled_def wf_PP)

interpretation mapdata: command_handler mon_MAPDATA 48
proof unfold_locales
  fix s assume wf: "wf_arrays s" and a: "map_addlen s \<le> 48"
  then have "36 + unat (map_addlen s) \<le> 128" "unat (map_addlen s) \<le> 48"
    by (simp_all add: word_le_nat_alt)
  then have c: "copy_loop (unat (map_addlen s)) m 36 (map_addr (MF s)) 0 =
      Some (blit m 36 (take (unat (map_addlen s)) (map_addr (MF s))))" if "length m = 128" for m
    using wf that by (subst copy_loop_in) auto
  show "\<exists>s'. mon_MAPDATA s = Some s' \<and> handled 1 s s'"
    using wf \<open>unat (map_addlen s) \<le> 48\<close>
    by (auto simp: mon_MAPDATA_def Let_def c wf_arraysD [OF wf] intro!: handled_intros)
qed

interpretation readgas: command_handler mon_READGAS 255
  by unfold_locales (auto simp: mon_READGAS_def Reflash_def wf_arrays_def
      intro!: handled_mono [OF handled_quiet [where es = "[]"]])

interpretation readgasack: command_handler mon_READGASACK 255
  by unfold_locales (auto simp: mon_READGASACK_def Let_def intro!: handled_intros)

interpretation warning: command_handler mon_WARNING 255
  by unfold_locales (auto simp: mon_WARNING_def Let_def intro!: handled_intros)

interpretation updateppm: command_handler mon_UPDATEPPM 255
  by unfold_locales (auto simp: mon_UPDATEPPM_def Let_def intro!: handled_intros handled_PP wf_PP)

interpretation getnewid: command_handler mon_GETNEWID 255
  by unfold_locales (auto simp: mon_GETNEWID_def Let_def intro!: handled_intros)

interpretation login: command_handler mon_LOGIN 255
  by unfold_locales (auto simp: mon_LOGIN_def Let_def
      intro!: handled_intros handled_PP sendable_PP wf_PP)

interpretation setppm: command_handler mon_SETPPM 255
  by unfold_locales (auto simp: mon_SETPPM_def Let_def intro!: handled_intros handled_PP wf_PP)

interpretation heartrate: command_handler mon_HEARTRATE 255
proof unfold_locales
  fix s assume wf: "wf_arrays s"
  let ?t = "ProcessPackege broadcast_id (Dev_ID (PP s)) PRIMARYKEY 0x0002 COMMAND_HEARTRATE s"
  have t: "sendable ?t" "handled 0 s ?t"
    using wf by (auto intro!: handled_intros)
  have "handled 1 s (send_package (32 + ucast (payloadlength (DF ?t)))
      ((built ?t)\<lparr>DF := (DF (built ?t))\<lparr>command := 0\<rparr>, ubWebRxBuf := replicate RXMAX 0\<rparr>))"
    using t wf_built [OF t(1)]
    by (intro handled_send_package) (auto simp: built_def wf_arrays_def)
  then show "\<exists>s'. mon_HEARTRATE s = Some s' \<and> handled 1 s s'"
    by (simp add: mon_HEARTRATE_def WebSocket_Data_built [OF t(1)])
qed

interpretation ledcolor: command_handler mon_LEDCOLOR 255
proof unfold_locales
  fix s assume wf: "wf_arrays s"
  define p where "p = (PP s)\<lparr>Flag_Test := led_test_flag (mems (DF s)) (Flag_Test (PP s))\<rparr>"
  define t where "t = ProcessPackege (take 10 (SRC_ID (DF s))) (Dev_ID p) PRIMARYKEY 0x0002
      COMMAND_LEDCOLORACK (s\<lparr>PP := p\<rparr>)"
  have "length (Dev_ID p) = 10" using wf by (auto simp: p_def)
  then have t: "sendable t" "handled 0 s t"
    using wf unfolding t_def by (auto intro!: handled_intros handled_PP wf_PP)
  let ?u = "Reflash 0 0xFF (built t)"
  have "handled 1 s (send_package (32 + ucast (payloadlength (DF t)))
      (?u\<lparr>PP := (PP ?u)\<lparr>Status := ClrBit (Status (PP ?u)) BIT_SELFTEST\<rparr>\<rparr>))"
    using t wf_built [OF t(1)]
    by (intro handled_send_package) (auto simp: built_def wf_arrays_def Reflash_def)
  then show "\<exists>s'. mon_LEDCOLOR s = Some s' \<and> handled 1 s s'"
    using WebSocket_Data_built [OF t(1)]
    by (simp add: mon_LEDCOLOR_def Let_def t_def p_def)
qed

interpretation heartrateack: command_handler mon_HEARTRATEACK 255
  by unfold_locales (auto simp: mon_HEARTRATEACK_def Reflash_def wf_arrays_def
      intro!: handled_mono [OF handled_quiet [where es = "[]"]])

interpretation loginack: command_handler mon_LOGINACK 255
  by unfold_locales (auto simp: mon_LOGINACK_def Let_def Reflash_def wf_arrays_def LENGTH_KEY_def
      intro!: handled_mono [OF handled_quiet [where es = "[]"]])

interpretation stopalarm: command_handler mon_STOPALARM 255
  by unfold_locales (auto simp: mon_STOPALARM_def Let_def Reflash_def wf_arrays_def
      intro!: handled_mono [OF handled_quiet [where es = "[]"]])

lemma handled_Post_Id: "handled k r s \<Longrightarrow> handled k r (Post_Id s)"
proof -
  assume h: "handled k r s"
  have "handled 0 s (Post_Id s)" if "wf_arrays s"
    using that by (auto simp: Post_Id_def post_id_calls_def Let_def is_ws_send_def wf_arrays_def
        intro!: handled_quiet [where es = "post_id_calls (Dev_ID (PP s))"])
  then show ?thesis
    using h handled_trans [of k r s 0 "Post_Id s"] by (simp add: handled_def)
qed

lemma handled_save_config: "handled k r s \<Longrightarrow> handled k r (save_config s)"
proof -
  assume h: "handled k r s"
  have "handled 0 s (save_config s)" if "wf_arrays s"
    using that by (auto simp: save_config_def is_ws_send_def wf_arrays_def
        intro!: handled_quiet [where es = "[spi_flash_erase_sector 0x7C, spi_flash_write (0x7C * 4096) (config s),
          spi_flash_erase_sector 0x7D, spi_flash_write (0x7D * 4096) (configcmp s)]"])
  then show ?thesis
    using h handled_trans [of k r s 0 "save_config s"] by (simp add: handled_def)
qed

lemma handled_Reflash: "handled k r s \<Longrightarrow> handled k r (Reflash c v s)"
  by (simp add: handled_def wf_arrays_def) (simp add: Reflash_def)

interpretation newidack: command_handler mon_NEWIDACK 255
proof unfold_locales
  fix s assume wf: "wf_arrays s"
  let ?dev = "take 10 (mems (DF s))"
  let ?t = "s\<lparr>PP := (PP s)\<lparr>Dev_ID := ?dev\<rparr>, config := set_dev_id ?dev (config s),
      configcmp := set_dev_id ?dev (configcmp s)\<rparr>"
  have "handled 0 s ?t"
    using wf by (auto simp: wf_arrays_def set_dev_id_def intro!: handled_quiet [where es = "[]"])
  then show "\<exists>s'. mon_NEWIDACK s = Some s' \<and> handled 1 s s'"
    by (auto simp: mon_NEWIDACK_def Let_def
        intro!: handled_mono [of 0] handled_Reflash handled_save_config handled_Post_Id)
qed

section \<open>The interpreter and the periodic task\<close>

lemmas branch_handles = readgas.handles readgasack.handles warning.handles
  heartrate.handles heartrateack.handles updateppm.handles getnewid.handles newidack.handles
  login.handles loginack.handles setppm.handles ledcolor.handles stopalarm.handles

lemma le_255_u8: "(x :: u8) \<le> 255"
  using unat_u8 [of x] by (simp add: word_le_nat_alt del: unat_u8)

text \<open>Only the map upload needs a bound on the recorded address.\<close>

lemma run_command_handles:
  assumes "wf_arrays s" and "c = COMMAND_MAPDATA \<Longrightarrow> map_addlen s \<le> 48"
  shows "\<exists>s'. run_command c s = Some s' \<and> handled 1 s s'"
proof -
  have "handled 1 s s" using assms handled_mono [OF handled_refl] by simp
  then show ?thesis
    unfolding run_command_def
    using assms branch_handles [OF assms(1) le_255_u8] mapdata.handles [OF assms(1)]
    by (auto split: if_split)
qed

lemma monitor_handles:
  assumes "wf_arrays s"
    and "received_command (Receive s) (command (DF s)) = COMMAND_MAPDATA \<Longrightarrow> map_addlen s \<le> 48"
  shows "\<exists>s'. ESP8266_Monitor s = Some s' \<and> handled 1 s s'"
proof -
  let ?c = "received_command (Receive s) (command (DF s))"
  let ?t = "s\<lparr>DF := (DF s)\<lparr>command := ?c\<rparr>\<rparr>"
  have t: "wf_arrays ?t" using assms(1) by (simp add: wf_arrays_def)
  obtain u where u: "run_command ?c ?t = Some u" "handled 1 ?t u"
    using run_command_handles [OF t, of ?c] assms(2) by auto
  have "handled 0 s ?t"
    using t by (auto intro!: handled_quiet [where es = "[]"])
  then have "handled 1 s u" using handled_trans [of 0 s ?t 1 u] u(2) by simp
  then show ?thesis
    using u(1) by (simp add: ESP8266_Monitor_def Let_def)
qed

interpretation any_command: command_handler "run_command c" 48
  by unfold_locales (rule run_command_handles)

interpretation monitor: command_handler ESP8266_Monitor 48
  by unfold_locales (rule monitor_handles)

lemma Dev_ID_clear_init_flags [simp]: "Dev_ID (clear_init_flags p) = Dev_ID p"
  by (simp add: clear_init_flags_def)

lemma handled_net_timeout: "wf_arrays s \<Longrightarrow> handled 0 s (net_timeout s)"
  by (rule handled_quiet [where es = "[espconn_disconnect websocket_tcp_conn, pwm_start]"])
    (auto simp: net_timeout_def wf_arrays_def is_ws_send_def)

lemma handled_net_logged_in: "wf_arrays s \<Longrightarrow> handled 0 s (net_logged_in s)"
  by (rule handled_quiet [where es = "[]"]) (auto simp: net_logged_in_def Let_def wf_arrays_def)

lemma handled_net_not_logged_in: "wf_arrays s \<Longrightarrow> handled 0 s (net_not_logged_in s)"
  by (rule handled_quiet [where es =
        "if 0 < Cnt_ERROR (PP s) then [] else [espconn_disconnect websocket_tcp_conn]"])
    (auto simp: net_not_logged_in_def wf_arrays_def is_ws_send_def)

lemma handled_net_offline: "wf_arrays s \<Longrightarrow> handled 0 s (net_offline s)"
  by (rule handled_quiet [where es =
        "if HasBit (Status (PP s)) BIT_HASNET \<and> \<not> 0 < Cnt_ERROR (PP s) then [pwm_start] else []"])
    (auto simp: net_offline_def wf_arrays_def is_ws_send_def)

interpretation periodic: command_handler networking 48
proof unfold_locales
  fix s assume s: "wf_arrays s" "map_addlen s \<le> 48"
  let ?t = "s\<lparr>PP := (PP s)\<lparr>Cnt_ERROR := Cnt_ERROR (PP s) - 1\<rparr>\<rparr>"
  define u where "u = (if gassmartconfig ?t = 1 \<and> Dev_ID (PP ?t) ! 2 \<noteq> of_char CHR ''F''
    then Post_Id ?t else ?t)"
  have "handled 0 s ?t" using s by (auto intro!: handled_PP handled_refl)
  then have u: "handled 0 s u" by (simp add: u_def handled_Post_Id)
  then have wu: "wf_arrays u" "map_addlen u \<le> 48" using s by (simp_all add: handled_def)
  obtain v where v: "ESP8266_Monitor u = Some v" "handled 1 u v"
    using monitor.handles [OF wu] by blast
  have sv: "handled 1 s v" using handled_trans [OF u v(2)] by simp
  then have wv: "wf_arrays v" by (simp add: handled_def)
  define w where "w = (if HasBit (Status (PP v)) BIT_LOGINOK then net_logged_in v else net_not_logged_in v)"
  have "handled 1 s w"
    using handled_trans [OF sv, of 0 w] handled_net_logged_in [OF wv] handled_net_not_logged_in [OF wv]
    by (simp add: w_def)
  then have "networking s = Some w \<and> handled 1 s w" if "WebSocketOK s \<noteq> 0" "Cnt_ERROR (PP s) \<noteq> 0"
    using that v(1) by (simp add: networking_def Let_def u_def w_def)
  moreover have "handled 1 s (net_timeout s)" "handled 1 s (net_offline s)"
    using handled_net_timeout handled_net_offline s handled_mono by blast+
  ultimately show "\<exists>s'. networking s = Some s' \<and> handled 1 s s'"
    by (cases "WebSocketOK s = 0"; cases "Cnt_ERROR (PP s) = 0") (simp_all add: networking_def)
qed

section \<open>Properties\<close>





end
