(* ===== verification/Protocol.thy ===== *)
theory Protocol
  imports MonitorProps
begin

text \<open>
  The dialogue with the server, from a received frame to the reply: gas readings, the alarm
  threshold, registration and login, the session watchdog of \<open>networking\<close>, and the
  registration post.
\<close>

section \<open>Frames in closed form\<close>

lemma frame_of_wire:
  assumes "sendable t"
  shows "frame_of t = [0x82, 0x80 OR (26 + ucast (payloadlength (DF t))), 0, 0, 0, 0] @
    wire_body (tx_stream (encrypt (DF t)) (primaryKey t) (unat (payloadlength (DF t))))
      ((DF t)\<lparr>idx := idx (DF t) + 1\<rparr>)"
proof -
  let ?df = "(DF t)\<lparr>idx := idx (DF t) + 1\<rparr>"
  have w: "wf_packet ?df" and n: "2 \<le> unat (payloadlength (DF t))" "unat (payloadlength (DF t)) \<le> 96"
    using assms by (auto simp: sendable_def wf_packet_def)
  have c: "length (clear_payload ?df) = unat (payloadlength (DF t))"
    using w n by (simp add: length_clear_payload)
  show ?thesis
    using w c n by (simp add: frame_of_def package_of_def Let_def)
      (simp add: header_bytes_def wire_body_def)
qed

definition sent :: "firmware \<Rightarrow> firmware" where
  "sent t = call (espconn_send websocket_tcp_conn (frame_of t)) (Reflash 0 0xFF (built t))"

lemma build_and_send_sent: "sendable t \<Longrightarrow> build_and_send t = Some (sent t)"
  using frame_size [of t]
  by (simp add: build_and_send_def WebSocket_Data_built send_package_def sent_def frame_of_def
      Reflash_def built_def)

text \<open>A frame's bytes depend on the packet's data only up to the payload length.\<close>

lemma wire_body_cong:
  "DST_ID d = DST_ID e \<Longrightarrow> SRC_ID d = SRC_ID e \<Longrightarrow> encrypt d = encrypt e \<Longrightarrow> idx d = idx e \<Longrightarrow>
   payloadlength d = payloadlength e \<Longrightarrow> command d = command e \<Longrightarrow>
   take (unat (payloadlength d) - 2) (mems d) = take (unat (payloadlength e) - 2) (mems e) \<Longrightarrow>
   wire_body ks d = wire_body ks e"
  by (simp add: wire_body_def clear_payload_def)

definition idle :: "firmware \<Rightarrow> bool" where
  "idle s \<longleftrightarrow> Receive s = 0xFF \<and> command (DF s) = 0"

lemma idle_Reflash [simp]: "idle (Reflash 0 0xFF s)" "idle (s\<lparr>trace := t\<rparr>) \<longleftrightarrow> idle s"
  by (simp_all add: idle_def Reflash_def)

lemma idle_Monitor: "idle s \<Longrightarrow> ESP8266_Monitor s = Some s"
  by (simp add: idle_def ESP8266_Monitor_def received_command_def run_command_def)

section \<open>Numbers on the wire\<close>

definition from_be32 :: "u8 \<Rightarrow> u8 \<Rightarrow> u8 \<Rightarrow> u8 \<Rightarrow> u32" where
  "from_be32 a b c d = push_bit 24 (ucast a) OR push_bit 16 (ucast b) OR push_bit 8 (ucast c) OR ucast d"

lemma bit_set_byte:
  assumes "i < 4" and "n < 32"
  shows "bit (set_byte w i b) n \<longleftrightarrow> (if 8 * i \<le> n \<and> n < 8 * i + 8 then bit b (n - 8 * i) else bit w n)"
proof -
  have m: "bit (255 :: u32) k \<longleftrightarrow> k < 8" for k
  proof -
    have "(255 :: u32) = mask 8" by (simp add: mask_eq_exp_minus_1)
    then show ?thesis by (simp only: bit_mask_iff possible_bit_def) (auto dest: bit_imp_le_length)
  qed
  show ?thesis
    using assms bit_imp_le_length [of b "n - 8 * i"]
    by (auto simp: set_byte_def bit_or_iff bit_and_iff bit_not_iff bit_push_bit_iff m bit_ucast_iff
        simp del: bit_numeral_word_iff)
qed

lemma bit_from_be32:
  "n < 32 \<Longrightarrow> bit (from_be32 a b c d) n \<longleftrightarrow>
    (if n < 8 then bit d n else if n < 16 then bit c (n - 8)
     else if n < 24 then bit b (n - 16) else bit a (n - 24))"
  using bit_imp_le_length [of d n] bit_imp_le_length [of c "n - 8"] bit_imp_le_length [of b "n - 16"]
  by (auto simp: from_be32_def bit_or_iff bit_push_bit_iff bit_ucast_iff not_less)

lemma alarm_from_mems_be: "alarm_from_mems old m = from_be32 (m ! 0) (m ! 1) (m ! 2) (m ! 3)"
  by (rule bit_word_eqI) (auto simp: alarm_from_mems_def upt_4 bit_set_byte bit_from_be32)

lemma from_be32_be32: "be32 w = [a, b, c, d] \<Longrightarrow> from_be32 a b c d = w"
  by (rule bit_word_eqI) (auto simp: be32_def bit_from_be32 bit_ucast_iff bit_drop_bit_eq)

section \<open>The handlers in closed form\<close>

definition gas_packet :: "firmware \<Rightarrow> data_format" where
  "gas_packet s = \<lparr>DST_ID = SRC_ID (DF s), SRC_ID = Dev_ID (PP s),
     mems = be32 (PPM_Updata (PP s)) @ be32 (Alarm_H (PP s)), encrypt = PRIMARYKEY,
     idx = idx (DF s) + 1, payloadlength = 10, command = COMMAND_READGASACK\<rparr>"

definition reply_frame :: "u8 list \<Rightarrow> data_format \<Rightarrow> u8 list" where
  "reply_frame key df = [0x82, 0x80 OR (26 + ucast (payloadlength df)), 0, 0, 0, 0] @
     wire_body (tx_stream (encrypt df) key (unat (payloadlength df))) df"

lemma mon_READGASACK_sent:
  assumes wf: "wf_arrays s"
  shows "\<exists>t. mon_READGASACK s = Some (sent t) \<and> trace t = trace s \<and>
    frame_of t = reply_frame (primaryKey s) (gas_packet s)"
proof -
  define t where "t = set_mems (\<lambda>m. put_be32 (put_be32 m 0 (PPM_Updata (PP s))) 4 (Alarm_H (PP s)))
    (ProcessPackege (take 10 (SRC_ID (DF s))) (Dev_ID (PP s)) PRIMARYKEY 0x000a COMMAND_READGASACK s)"
  have st: "sendable t"
    using wf unfolding t_def by (auto intro!: handled_intros)
  have l: "length (mems (DF s)) = 128" "length (SRC_ID (DF s)) = 10" "length (Dev_ID (PP s)) = 10"
    using wf by auto
  have m: "take 8 (put_be32 (put_be32 (mems (DF s)) 0 (PPM_Updata (PP s))) 4 (Alarm_H (PP s))) =
      be32 (PPM_Updata (PP s)) @ be32 (Alarm_H (PP s))"
    using l by (simp add: put_be32_blit) (simp add: blit_def)
  have "frame_of t = reply_frame (primaryKey s) (gas_packet s)"
    unfolding frame_of_wire [OF st] reply_frame_def
    using l m by (auto simp: t_def set_mems_def ProcessPackege_def gas_packet_def intro!: wire_body_cong)
  moreover have "mon_READGASACK s = Some (sent t)"
    using build_and_send_sent [OF st] by (simp add: mon_READGASACK_def Let_def t_def)
  ultimately show ?thesis
    by (auto simp: t_def set_mems_def ProcessPackege_def)
qed

lemma idle_sent [simp]: "idle (sent t)" "trace (sent t) = trace t @ [espconn_send websocket_tcp_conn (frame_of t)]"
  by (simp_all add: sent_def) (simp_all add: Reflash_def built_def)

text \<open>
  A gas request is answered exactly once, to the asker. When a \<open>READGAS\<close> frame has been
  received, two calls of the interpreter send one packet, addressed to the sender of the
  request, that carries the averaged reading and the alarm threshold as big-endian numbers
  under the session key and the next sequence number; the third call does nothing.
\<close>

theorem READGAS_answered_once:
  assumes wf: "wf_arrays s" and recv: "Receive s = 0x10"
  shows "\<exists>s'. iterate_opt 2 ESP8266_Monitor s = Some s' \<and>
    trace s' = trace s @ [espconn_send websocket_tcp_conn (reply_frame (primaryKey s) (gas_packet s))] \<and>
    ESP8266_Monitor s' = Some s'"
proof -
  define t where "t = Reflash COMMAND_READGASACK 0x11 (s\<lparr>DF := (DF s)\<lparr>command := COMMAND_READGAS\<rparr>\<rparr>)"
  have 1: "ESP8266_Monitor s = Some t"
    by (simp add: ESP8266_Monitor_def recv received_command_def run_command_def mon_READGAS_def t_def)
  have wt: "wf_arrays t" using wf by (simp add: t_def wf_arrays_def Reflash_def)
  have "received_command (Receive t) (command (DF t)) = COMMAND_READGASACK"
    by (simp add: t_def Reflash_def received_command_def)
  moreover have "t\<lparr>DF := (DF t)\<lparr>command := COMMAND_READGASACK\<rparr>\<rparr> = t"
    by (simp add: t_def Reflash_def)
  ultimately have 2: "ESP8266_Monitor t = mon_READGASACK t"
    by (simp add: ESP8266_Monitor_def run_command_def)
  obtain u where u: "mon_READGASACK t = Some (sent u)" "trace u = trace t"
      "frame_of u = reply_frame (primaryKey t) (gas_packet t)"
    using mon_READGASACK_sent [OF wt] by blast
  have "gas_packet t = gas_packet s" "primaryKey t = primaryKey s" "trace t = trace s"
    by (simp_all add: t_def Reflash_def gas_packet_def)
  then show ?thesis
    using 1 2 u idle_Monitor [of "sent u"] by (simp add: numeral_2_eq_2)
qed

lemma READGAS_answered_once_witness:
  "\<exists>s'. iterate_opt 2 ESP8266_Monitor (boot\<lparr>Receive := 0x10\<rparr>) = Some s' \<and> length (trace s') = 1"
proof -
  have "wf_arrays (boot\<lparr>Receive := 0x10\<rparr>)" "Receive (boot\<lparr>Receive := 0x10\<rparr>) = 0x10"
    using wf_boot by (simp_all add: wf_arrays_def)
  from READGAS_answered_once [OF this] show ?thesis by (auto simp: boot_def)
qed

definition setppm_ack :: "firmware \<Rightarrow> data_format" where
  "setppm_ack s = \<lparr>DST_ID = SRC_ID (DF s), SRC_ID = Dev_ID (PP s), mems = [], encrypt = PRIMARYKEY,
     idx = idx (DF s) + 1, payloadlength = 2, command = COMMAND_SETPPMACK\<rparr>"

text \<open>
  The alarm threshold. A received \<open>SETPPM\<close> stores the big-endian number of the frame's
  first four data bytes, limited to \<open>PPM_MAX\<close>, sends one acknowledgement to the sender and
  leaves the interpreter idle.
\<close>

theorem SETPPM_sets_threshold:
  assumes wf: "wf_arrays s" and recv: "Receive s = 0x20"
    and data: "take 4 (mems (DF s)) = be32 w"
  shows "\<exists>s'. ESP8266_Monitor s = Some s' \<and> Alarm_H (PP s') = min w PPM_MAX \<and>
    trace s' = trace s @ [espconn_send websocket_tcp_conn (reply_frame (primaryKey s) (setppm_ack s))] \<and>
    ESP8266_Monitor s' = Some s'"
proof -
  let ?s = "s\<lparr>DF := (DF s)\<lparr>command := COMMAND_SETPPM\<rparr>\<rparr>"
  let ?p = "(PP s)\<lparr>Alarm_H := min w PPM_MAX\<rparr>"
  define t where "t = ProcessPackege (take 10 (SRC_ID (DF ?s))) (Dev_ID ?p) PRIMARYKEY 0x0002
    COMMAND_SETPPMACK (?s\<lparr>PP := ?p\<rparr>)"
  have l: "length (mems (DF s)) = 128" "length (SRC_ID (DF s)) = 10" "length (Dev_ID (PP s)) = 10"
    using wf by auto
  have "be32 w = [mems (DF s) ! 0, mems (DF s) ! 1, mems (DF s) ! 2, mems (DF s) ! 3]"
    using l(1) by (subst data [symmetric]) (rule nth_equalityI; auto simp: nth_Cons' numeral_eq_Suc less_Suc_eq)
  then have a: "alarm_from_mems v (mems (DF s)) = w" for v
    by (simp add: alarm_from_mems_be from_be32_be32)
  have ws: "wf_arrays ?s" using wf by (simp add: wf_arrays_def)
  have st: "sendable t"
    using ws l unfolding t_def by (auto intro!: handled_intros wf_PP)
  have m: "(if PPM_MAX < w then PPM_MAX else w) = min w PPM_MAX"
    by (auto simp: min_def)
  have "mon_SETPPM ?s = build_and_send t"
    by (simp add: mon_SETPPM_def Let_def a t_def m [symmetric])
  then have run: "ESP8266_Monitor s = Some (sent t)"
    by (simp add: ESP8266_Monitor_def recv received_command_def run_command_def
        build_and_send_sent [OF st])
  have "frame_of t = reply_frame (primaryKey s) (setppm_ack s)"
    unfolding frame_of_wire [OF st] reply_frame_def
    using l by (auto simp: t_def ProcessPackege_def setppm_ack_def intro!: wire_body_cong)
  moreover have "trace t = trace s" "PP (sent t) = ?p"
    by (simp_all add: t_def ProcessPackege_def sent_def Reflash_def built_def)
  ultimately show ?thesis
    using run idle_Monitor [of "sent t"] by simp
qed

lemma SETPPM_sets_threshold_witness:
  "\<exists>s'. ESP8266_Monitor (boot\<lparr>Receive := 0x20, DF := (DF boot)\<lparr>mems := be32 5000 @ replicate 124 0\<rparr>\<rparr>) =
     Some s' \<and> Alarm_H (PP s') = 3500"
proof -
  let ?s = "boot\<lparr>Receive := 0x20, DF := (DF boot)\<lparr>mems := be32 5000 @ replicate 124 0\<rparr>\<rparr>"
  have "wf_arrays ?s" "Receive ?s = 0x20" "take 4 (mems (DF ?s)) = be32 5000"
    using wf_boot by (simp_all add: wf_arrays_def)
  from SETPPM_sets_threshold [OF this] show ?thesis by auto
qed

section \<open>Login and registration\<close>

text \<open>A frame in the receive buffer, encrypted as its type says.\<close>

definition holds_frame :: "data_format \<Rightarrow> firmware \<Rightarrow> bool" where
  "holds_frame df r \<longleftrightarrow> (\<exists>l rest. ubWebRxBuf r = [0x82, l] @
     wire_body (rx_stream (encrypt df) (primaryKey r) (unat (payloadlength df))) df @ rest)"

text \<open>What the interpreter starts from after the receiver has taken the frame apart.\<close>

definition received :: "data_format \<Rightarrow> firmware \<Rightarrow> firmware" where
  "received df r = r\<lparr>rxcount := 0,
    DF := df\<lparr>mems := blit (mems (DF r)) 0 (take (unat (payloadlength df) - 2) (mems df))\<rparr>,
    ubWebRxBuf := replicate RXMAX 0, Receive := receive_code (command df) (Receive r)\<rparr>"

lemma receive_held_frame:
  "wf_arrays r \<Longrightarrow> wf_packet df \<Longrightarrow> 2 \<le> unat (payloadlength df) \<Longrightarrow> unat (payloadlength df) \<le> 100 \<Longrightarrow>
   holds_frame df r \<Longrightarrow> WebRecvData_Proc 0 r = Some (received df r)"
  by (auto simp: holds_frame_def received_def WebRecvData_Proc_Some)

lemma wf_received:
  "wf_arrays r \<Longrightarrow> wf_packet df \<Longrightarrow> unat (payloadlength df) \<le> 100 \<Longrightarrow> wf_arrays (received df r)"
  by (auto simp: wf_arrays_def received_def wf_packet_def)

lemma take_mems_received:
  assumes "wf_arrays r" and "wf_packet df" and "k + 2 \<le> unat (payloadlength df)"
    and "unat (payloadlength df) \<le> 100"
  shows "take k (mems (DF (received df r))) = take k (mems df)"
proof -
  let ?n = "unat (payloadlength df) - 2"
  have "take k (take ?n (mems df) @ drop ?n (mems (DF r))) = take k (mems df)"
    using assms by (simp add: wf_packet_def)
  then show ?thesis
    using assms by (simp add: received_def blit_def wf_packet_def)
qed

text \<open>
  The login takes the session key over. After a \<open>LOGINACK\<close> frame under the built-in key
  with at least sixteen bytes of data, receiving it and one call of the interpreter make
  those sixteen bytes the session key, mark the device as logged in, send nothing and leave
  the interpreter idle.
\<close>

theorem LOGINACK_installs_session_key:
  assumes wf: "wf_arrays r" and df: "wf_packet df" "command df = COMMAND_LOGINACK"
    and len: "18 \<le> unat (payloadlength df)" "unat (payloadlength df) \<le> 100"
    and frame: "holds_frame df r"
  shows "\<exists>r1 r2. WebRecvData_Proc 0 r = Some r1 \<and> ESP8266_Monitor r1 = Some r2 \<and>
    primaryKey r2 = take 16 (mems df) \<and> HasBit (Status (PP r2)) BIT_LOGINOK \<and>
    trace r2 = trace r \<and> ESP8266_Monitor r2 = Some r2"
proof -
  let ?r = "received df r"
  let ?t = "?r\<lparr>primaryKey := take 16 (mems df),
    PP := (PP r)\<lparr>Status := SetBit (Status (PP r)) BIT_LOGINOK\<rparr>\<rparr>"
  have m: "take 16 (mems (DF ?r)) = take 16 (mems df)"
    using take_mems_received [OF wf df(1), of 16] len by simp
  have c: "?r\<lparr>DF := (DF ?r)\<lparr>command := COMMAND_LOGINACK\<rparr>\<rparr> = ?r"
    using df(2) by (simp add: received_def)
  have "Receive ?r = 0x08" "PP ?r = PP r"
    using df(2) by (simp_all add: received_def receive_code_def)
  then have "ESP8266_Monitor ?r = Some (Reflash 0 0xFF ?t)"
    using c m by (simp add: ESP8266_Monitor_def received_command_def run_command_def
        mon_LOGINACK_def LENGTH_KEY_def)
  moreover have "WebRecvData_Proc 0 r = Some ?r"
    using wf df(1) len frame by (simp add: receive_held_frame)
  moreover have "trace ?r = trace r" by (simp add: received_def)
  moreover have "ESP8266_Monitor (Reflash 0 0xFF ?t) = Some (Reflash 0 0xFF ?t)"
    by (simp add: idle_Monitor)
  ultimately show ?thesis
    by (fastforce simp: Reflash_def)
qed

definition example_frame :: "u16 \<Rightarrow> data_format" where
  "example_frame cmd = \<lparr>DST_ID = str ''HTF1234567'', SRC_ID = str ''SSFFFFFFFF'',
     mems = str ''HT12345678'' @ replicate 118 9, encrypt = OPENKEY, idx = 5, payloadlength = 20,
     command = cmd\<rparr>"

definition example_receiver :: "u16 \<Rightarrow> firmware" where
  "example_receiver cmd = boot\<lparr>ubWebRxBuf := [0x82, 46] @
     wire_body (rx_stream OPENKEY (replicate 16 0) 20) (example_frame cmd) @ replicate 80 0\<rparr>"

lemma example_receiver_ok:
  "wf_arrays (example_receiver cmd)" "wf_packet (example_frame cmd)"
  "holds_frame (example_frame cmd) (example_receiver cmd)"
  "command (example_frame cmd) = cmd" "unat (payloadlength (example_frame cmd)) = 20"
proof -
  have "length (wire_body (rx_stream OPENKEY (replicate 16 0) 20) (example_frame cmd)) = 46"
    by (simp add: wire_body_def example_frame_def clear_payload_def)
  then show "wf_arrays (example_receiver cmd)"
    using wf_boot by (simp add: wf_arrays_def example_receiver_def)
  show "wf_packet (example_frame cmd)" by (simp add: wf_packet_def example_frame_def)
  have "primaryKey boot = replicate 16 0" by (simp add: boot_def LENGTH_KEY_def)
  then show "holds_frame (example_frame cmd) (example_receiver cmd)"
    unfolding holds_frame_def
    by (intro exI [of _ 46] exI [of _ "replicate 80 0"]) (simp add: example_receiver_def example_frame_def)
  show "command (example_frame cmd) = cmd" "unat (payloadlength (example_frame cmd)) = 20"
    by (simp_all add: example_frame_def)
qed

lemma LOGINACK_installs_session_key_witness:
  "\<exists>r1 r2. WebRecvData_Proc 0 (example_receiver COMMAND_LOGINACK) = Some r1 \<and>
     ESP8266_Monitor r1 = Some r2 \<and> primaryKey r2 = str ''HT12345678'' @ replicate 6 9"
  using LOGINACK_installs_session_key [OF example_receiver_ok(1,2,4) _ _ example_receiver_ok(3)]
  by (fastforce simp: example_receiver_ok(5) example_frame_def)

definition saved :: "u8 list \<Rightarrow> startup_config \<Rightarrow> startup_config" where
  "saved dev c = c\<lparr>Dev_id := dev @ drop 10 (Dev_id c)\<rparr>"

lemma NEWIDACK_run:
  assumes wf: "wf_arrays r" and df: "wf_packet df" "command df = COMMAND_NEWIDACK"
    and len: "12 \<le> unat (payloadlength df)" "unat (payloadlength df) \<le> 100"
    and frame: "holds_frame df r"
  shows "\<exists>r1 r2. WebRecvData_Proc 0 r = Some r1 \<and> ESP8266_Monitor r1 = Some r2 \<and>
    Dev_ID (PP r2) = take 10 (mems df) \<and>
    config r2 = saved (take 10 (mems df)) (config r) \<and>
    configcmp r2 = saved (take 10 (mems df)) (configcmp r) \<and>
    trace r2 = trace r @ (if gassmartconfig r = 1 then post_id_calls (take 10 (mems df)) else []) @
      [spi_flash_erase_sector 0x7C, spi_flash_write (0x7C * 4096) (config r2),
       spi_flash_erase_sector 0x7D, spi_flash_write (0x7D * 4096) (configcmp r2)] \<and>
    received_command (Receive r2) (command (DF r2)) = COMMAND_LOGIN"
proof -
  let ?r = "received df r" and ?dev = "take 10 (mems df)"
  have m: "take 10 (mems (DF ?r)) = ?dev"
    using take_mems_received [OF wf df(1), of 10] len by simp
  have c: "?r\<lparr>DF := (DF ?r)\<lparr>command := COMMAND_NEWIDACK\<rparr>\<rparr> = ?r"
    using df(2) by (simp add: received_def)
  have "Receive ?r = 0x02"
    using df(2) by (simp add: received_def receive_code_def)
  then have run: "ESP8266_Monitor ?r = mon_NEWIDACK ?r"
    using c by (simp add: ESP8266_Monitor_def received_command_def run_command_def)
  have d: "length ?dev = 10" using df(1) by (simp add: wf_packet_def)
  have s: "set_dev_id ?dev c = saved ?dev c" for c
    using d by (simp add: set_dev_id_def saved_def blit_def)
  show ?thesis
    using m receive_held_frame [OF wf df(1) _ len(2) frame] len(1)
    by (simp add: run mon_NEWIDACK_def Let_def s)
      (simp add: received_def save_config_def Reflash_def Post_Id_def received_command_def)
qed

text \<open>
  The registration takes the identity over and saves it twice. After a \<open>NEWIDACK\<close> frame
  with at least ten bytes of data, receiving it and one call of the interpreter make those
  bytes the device ID and the prefix of both configuration records, post the ID if the device
  has just been provisioned, erase and write both flash sectors in order, and queue the login.
\<close>

theorem NEWIDACK_registers:
  assumes wf: "wf_arrays r" and df: "wf_packet df" "command df = COMMAND_NEWIDACK"
    and len: "12 \<le> unat (payloadlength df)" "unat (payloadlength df) \<le> 100"
    and frame: "holds_frame df r"
  shows "\<exists>r1 r2. WebRecvData_Proc 0 r = Some r1 \<and> ESP8266_Monitor r1 = Some r2 \<and>
    Dev_ID (PP r2) = take 10 (mems df) \<and>
    config r2 = saved (take 10 (mems df)) (config r) \<and>
    configcmp r2 = saved (take 10 (mems df)) (configcmp r) \<and>
    trace r2 = trace r @ (if gassmartconfig r = 1 then post_id_calls (take 10 (mems df)) else []) @
      [spi_flash_erase_sector 0x7C, spi_flash_write (0x7C * 4096) (config r2),
       spi_flash_erase_sector 0x7D, spi_flash_write (0x7D * 4096) (configcmp r2)] \<and>
    received_command (Receive r2) (command (DF r2)) = COMMAND_LOGIN"
  by (rule NEWIDACK_run [OF assms])

lemma NEWIDACK_registers_witness:
  "\<exists>r1 r2. WebRecvData_Proc 0 (example_receiver COMMAND_NEWIDACK) = Some r1 \<and>
     ESP8266_Monitor r1 = Some r2 \<and> Dev_ID (PP r2) = str ''HT12345678''"
  using NEWIDACK_registers [OF example_receiver_ok(1,2,4) _ _ example_receiver_ok(3)]
  by (fastforce simp: example_receiver_ok(5) example_frame_def)

section \<open>The registration post\<close>

lemma length_post_request: "length (post_request d) = 161 + length (takeWhile (\<lambda>b. b \<noteq> 0) d)"
  by (simp add: post_request_def crlf_def)

lemma takeWhile_nonzero_full: "length (takeWhile (\<lambda>b. b \<noteq> (0 :: u8)) xs) = length xs \<longleftrightarrow> 0 \<notin> set xs"
  by (induction xs) auto

text \<open>
  The post of the device ID overruns its buffer for every proper ID. The formatted
  request together with its terminator fits the 194 bytes of \<open>pbuf\<close> exactly when the ten
  characters of the ID contain a zero byte.
\<close>

theorem Post_Id_overruns_iff:
  assumes "length dev = 10"
  shows "stack_overrun ''pbuf'' \<in> set (post_id_calls dev) \<longleftrightarrow> 0 \<notin> set dev"
proof -
  have d: "post_data dev = str ''action=saveDevid&devid='' @ dev"
    using assms by (simp add: post_data_def blit_def)
  have "0 \<notin> set (str ''action=saveDevid&devid='')" by (simp add: str_def)
  then have z: "0 \<notin> set (post_data dev) \<longleftrightarrow> 0 \<notin> set dev" by (simp add: d)
  have l: "length (post_data dev) = 33" using assms by (simp add: d)
  have "length (takeWhile (\<lambda>b. b \<noteq> 0) (post_data dev)) \<le> 33"
    using length_takeWhile_le [of "\<lambda>b. b \<noteq> 0" "post_data dev"] by (simp add: l)
  then have "194 \<le> length (post_request (post_data dev)) \<longleftrightarrow> 0 \<notin> set (post_data dev)"
    using takeWhile_nonzero_full [of "post_data dev"] l by (auto simp: length_post_request)
  then show ?thesis by (simp add: post_id_calls_def Let_def z)
qed

lemma Post_Id_overruns_iff_witness:
  "stack_overrun ''pbuf'' \<in> set (post_id_calls (str ''HT12345678''))"
  by (subst Post_Id_overruns_iff) (simp_all add: str_def)

section \<open>The session watchdog\<close>

text \<open>
  An open session in which nothing is received, no period elapses and no provisioning is
  under way: \<open>networking\<close> only counts \<open>Cnt_ERROR\<close> down, twice per call before the login.
\<close>

definition silent :: "firmware \<Rightarrow> bool" where
  "silent s \<longleftrightarrow> idle s \<and> WebSocketOK s \<noteq> 0 \<and> flag_Time (PP s) = 0 \<and> gassmartconfig s \<noteq> 1"

definition countdown :: "firmware \<Rightarrow> nat" where
  "countdown s = (if HasBit (Status (PP s)) BIT_LOGINOK then unat (Cnt_ERROR (PP s))
     else unat (Cnt_ERROR (PP s)) div 2)"

definition dropped :: "firmware \<Rightarrow> firmware \<Rightarrow> bool" where
  "dropped s s' \<longleftrightarrow> WebSocketOK s' = 0 \<and> HttpOK s' = 0 \<and> Mode s' = Mode_Bias \<and>
     Cnt_ERROR (PP s') = 180 \<and>
     (\<exists>es. trace s' = trace s @ espconn_disconnect websocket_tcp_conn # es \<and> set es \<subseteq> {pwm_start})"

definition still_open :: "firmware \<Rightarrow> firmware \<Rightarrow> bool" where
  "still_open s s' \<longleftrightarrow> silent s' \<and> trace s' = trace s \<and> Mode s' = Mode s"

lemma networking_silent_step:
  assumes s: "silent s" and c: "0 < countdown s"
  shows "\<exists>t. networking s = Some t \<and> still_open s t \<and> countdown t = countdown s - 1"
proof -
  let ?c = "Cnt_ERROR (PP s)"
  let ?t = "\<lambda>c. s\<lparr>PP := (PP s)\<lparr>Cnt_ERROR := c\<rparr>\<rparr>"
  have idle: "idle (?t c)" "\<not> HasBit (flag_Time (PP (?t c))) n" "still_open s (?t c)" for c n
    using s by (simp_all add: silent_def idle_def HasBit_def still_open_def)
  have pos: "?c \<noteq> 0" using c by (auto simp: countdown_def split: if_splits)
  then have 1: "networking s = Some (if HasBit (Status (PP s)) BIT_LOGINOK
      then net_logged_in (?t (?c - 1)) else net_not_logged_in (?t (?c - 1)))"
    using s idle_Monitor [OF idle(1)] by (simp add: networking_def silent_def Let_def)
  show ?thesis
  proof (cases "HasBit (Status (PP s)) BIT_LOGINOK")
    case True
    then show ?thesis
      using 1 pos idle by (simp add: net_logged_in_def Let_def countdown_def unat_minus_one)
  next
    case False
    then have two: "2 \<le> unat ?c" using c by (simp add: countdown_def)
    then have "0 < ?c - 1" and c2: "unat (?c - 1 - 1) = unat ?c - 2"
      by unat_arith+
    then have "networking s = Some (?t (?c - 1 - 1))"
      using 1 False by (simp add: net_not_logged_in_def)
    then show ?thesis
      using False c2 idle by (simp add: countdown_def)
  qed
qed

lemma networking_silent_last:
  assumes s: "silent s" and c: "countdown s = 0"
  shows "\<exists>t. networking s = Some t \<and> dropped s t"
proof (cases "Cnt_ERROR (PP s) = 0")
  case True
  then show ?thesis
    using s by (simp add: networking_def silent_def net_timeout_def dropped_def clear_init_flags_def)
next
  case False
  then have "\<not> HasBit (Status (PP s)) BIT_LOGINOK" and one: "Cnt_ERROR (PP s) = 1"
    using c by (auto simp: countdown_def unat_eq_0 split: if_splits) unat_arith
  moreover have "idle (s\<lparr>PP := (PP s)\<lparr>Cnt_ERROR := 0\<rparr>\<rparr>)"
    using s by (simp add: silent_def idle_def)
  ultimately show ?thesis
    using s by (simp add: networking_def silent_def idle_Monitor net_not_logged_in_def dropped_def
        clear_init_flags_def)
qed

text \<open>
  C25: the session watchdog. A silent session stays open, untouched, for as many calls of
  \<open>networking\<close> as \<open>Cnt_ERROR\<close> counts (half as many before the login) and the next call
  closes it: the connection is disconnected and the device goes back to \<open>Mode_Bias\<close>.
\<close>

theorem silent_session_dropped:
  assumes "silent s"
  shows "(\<forall>k \<le> countdown s. \<exists>t. iterate_opt k networking s = Some t \<and> still_open s t) \<and>
    (\<exists>t. iterate_opt (Suc (countdown s)) networking s = Some t \<and> dropped s t)"
  using assms
proof (induction "countdown s" arbitrary: s)
  case 0
  then show ?case using networking_silent_last [of s] by (auto simp: still_open_def)
next
  case (Suc n)
  obtain u where u: "networking s = Some u" "still_open s u" "countdown u = n"
    using networking_silent_step [OF Suc.prems] Suc.hyps(2) by force
  have "silent u" using u(2) by (simp add: still_open_def)
  note IH = Suc.hyps(1) [OF u(3) [symmetric] this, unfolded u(3)]
  have same: "still_open u t \<Longrightarrow> still_open s t" "dropped u t \<Longrightarrow> dropped s t" for t
    using u(2) by (simp_all add: still_open_def dropped_def)
  have "\<exists>t. iterate_opt k networking s = Some t \<and> still_open s t" if "k \<le> Suc n" for k
  proof (cases k)
    case 0
    then show ?thesis using Suc.prems by (simp add: still_open_def)
  next
    case (Suc m)
    then show ?thesis using IH that u(1) same(1) by fastforce
  qed
  then show ?case
    using IH u(1) same(2) by (fastforce simp: Suc.hyps(2) [symmetric])
qed

lemma silent_session_dropped_witness:
  "\<exists>t. iterate_opt (Suc 3) networking
      (boot\<lparr>WebSocketOK := 1, Receive := 0xFF, PP := zero_para\<lparr>Cnt_ERROR := 7\<rparr>\<rparr>) = Some t \<and>
    Mode t = Mode_Bias"
proof -
  let ?s = "boot\<lparr>WebSocketOK := 1, Receive := 0xFF, PP := zero_para\<lparr>Cnt_ERROR := 7\<rparr>\<rparr>"
  have "silent ?s" by (simp add: silent_def idle_def zero_para_def boot_def)
  moreover have "countdown ?s = 3" by (simp add: countdown_def zero_para_def HasBit_def)
  ultimately show ?thesis using silent_session_dropped [of ?s] by (auto simp: dropped_def)
qed

end
