(* ===== verification/CString.thy ===== *)
theory CString
  imports Config
begin

text \<open>
  The string functions of the C library that the application calls, on memory as a list of
  bytes: \<open>strlen\<close>, \<open>strstr\<close>, \<open>atoi\<close>. A string without a terminator in its object is an
  out-of-bounds access (\<open>None\<close>); a search that fails is \<open>Some None\<close>.
\<close>

definition c_strlen :: "u8 list \<Rightarrow> nat \<Rightarrow> nat option" where
  "c_strlen m p =
     (if 0 \<in> set (drop p m) then Some (length (takeWhile (\<lambda>b. b \<noteq> 0) (drop p m))) else None)"

fun find_sub :: "u8 list \<Rightarrow> u8 list \<Rightarrow> nat option" where
  "find_sub pat [] = (if pat = [] then Some 0 else None)"
| "find_sub pat (x # xs) =
     (if take (length pat) (x # xs) = pat then Some 0 else map_option Suc (find_sub pat xs))"

definition c_strstr :: "u8 list \<Rightarrow> nat \<Rightarrow> u8 list \<Rightarrow> nat option option" where
  "c_strstr m p pat = do {
     n \<leftarrow> c_strlen m p;
     Some (map_option ((+) p) (find_sub pat (take n (drop p m)))) }"

definition is_digit :: "u8 \<Rightarrow> bool" where
  "is_digit b \<longleftrightarrow> of_char CHR ''0'' \<le> b \<and> b \<le> of_char CHR ''9''"

definition is_space :: "u8 \<Rightarrow> bool" where
  "is_space b \<longleftrightarrow> b = 32 \<or> (9 \<le> b \<and> b \<le> 13)"

definition digits_value :: "u8 list \<Rightarrow> int" where
  "digits_value ds = fold (\<lambda>d n. 10 * n + (uint d - 48)) ds 0"

definition c_atoi :: "u8 list \<Rightarrow> nat \<Rightarrow> int option" where
  "c_atoi m p = do {
     n \<leftarrow> c_strlen m p;
     let s = dropWhile is_space (take n (drop p m));
     Some (case s of [] \<Rightarrow> 0
       | c # cs \<Rightarrow>
           if c = of_char CHR ''-'' then - digits_value (takeWhile is_digit cs)
           else if c = of_char CHR ''+'' then digits_value (takeWhile is_digit cs)
           else digits_value (takeWhile is_digit s)) }"

section \<open>Searching\<close>

lemma find_sub_Some:
  "find_sub pat xs = Some i \<Longrightarrow> take (length pat) (drop i xs) = pat \<and> i + length pat \<le> length xs"
proof (induction xs arbitrary: i)
  case Nil
  then show ?case by (auto split: if_splits)
next
  case (Cons x xs)
  show ?case
  proof (cases "take (length pat) (x # xs) = pat")
    case True
    then have "length pat \<le> length (x # xs)" by (metis length_take min.cobounded1)
    with True Cons.prems show ?thesis by auto
  next
    case False
    then show ?thesis using Cons by auto
  qed
qed

lemma find_sub_None: "find_sub pat xs = None \<longleftrightarrow> \<not> (\<exists>i. i \<le> length xs \<and> take (length pat) (drop i xs) = pat)"
proof (induction xs)
  case (Cons x xs)
  have "(\<exists>i \<le> length (x # xs). take (length pat) (drop i (x # xs)) = pat) \<longleftrightarrow>
      take (length pat) (x # xs) = pat \<or> (\<exists>i \<le> length xs. take (length pat) (drop i xs) = pat)"
    (is "?L \<longleftrightarrow> ?R")
  proof
    assume ?L
    then obtain i where i: "i \<le> length (x # xs)" "take (length pat) (drop i (x # xs)) = pat" by blast
    then show ?R by (cases i) auto
  next
    assume ?R
    then show ?L
    proof
      assume "take (length pat) (x # xs) = pat"
      then show ?L by (intro exI [of _ 0]) simp
    next
      assume "\<exists>i \<le> length xs. take (length pat) (drop i xs) = pat"
      then obtain i where "i \<le> length xs" "take (length pat) (drop i xs) = pat" by blast
      then show ?L by (intro exI [of _ "Suc i"]) simp
    qed
  qed
  then show ?case using Cons.IH by auto
qed auto

lemma find_sub_here: "find_sub pat (pat @ xs) = Some 0"
proof -
  have "take (length pat) (pat @ xs) = pat" by simp
  then show ?thesis by (cases "pat @ xs") (simp_all only: find_sub.simps, auto)
qed

text \<open>A pattern is found at the end of a prefix that holds no occurrence starting in it.\<close>

lemma find_sub_after:
  "(\<And>i. i < length pre \<Longrightarrow> take (length pat) (drop i (pre @ pat @ xs)) \<noteq> pat) \<Longrightarrow>
   find_sub pat (pre @ pat @ xs) = Some (length pre)"
proof (induction pre)
  case Nil
  then show ?case by (simp add: find_sub_here)
next
  case (Cons a pre)
  have "take (length pat) (a # pre @ pat @ xs) \<noteq> pat" using Cons.prems [of 0] by simp
  moreover have "find_sub pat (pre @ pat @ xs) = Some (length pre)"
    using Cons.prems by (intro Cons.IH) (metis Suc_less_eq append_Cons drop_Suc_Cons length_Cons)
  ultimately show ?case by simp
qed

lemma c_strlen_terminated: "0 \<notin> set xs \<Longrightarrow> c_strlen (xs @ 0 # ys) 0 = Some (length xs)"
proof -
  assume "0 \<notin> set xs"
  then have "takeWhile (\<lambda>b. b \<noteq> 0) (xs @ 0 # ys) = xs"
    by (induction xs) auto
  then show ?thesis by (simp add: c_strlen_def)
qed

lemma c_strstr_terminated:
  "0 \<notin> set xs \<Longrightarrow> c_strstr (xs @ 0 # ys) 0 pat = Some (find_sub pat xs)"
  by (simp add: c_strstr_def c_strlen_terminated) (cases "find_sub pat xs"; simp)

end
