(* ===== verification/TcpUdp.thy ===== *)
theory TcpUdp
  imports CString Monitor
begin

text \<open>
  The connection callbacks of \<open>app/user/tcp_udp.c\<close>: the web-socket session, the HTTP post and
  the map query, and the start of the LED timer's first phase. A received segment is a
  pointer into memory (\<open>pusrdata\<close>, as the list of the bytes from there on) and a length; the
  searches of the code run to the first zero byte, not to the length.
\<close>

section \<open>Sensor warm-up\<close>

definition led_time_calcu_cb :: "firmware \<Rightarrow> firmware" where
  "led_time_calcu_cb s =
     (let s = s\<lparr>PP := (PP s)\<lparr>Led_Cnt_second := Led_Cnt_second (PP s) + 1\<rparr>\<rparr>
      in if 1800 \<le> Led_Cnt_second (PP s)
         then calls [pwm_set_duty DUTYMAX LED_BLUE, pwm_set_duty DUTYMAX LED_RED, pwm_start]
           (s\<lparr>SensorMode := Sensor_Normal, PP := (PP s)\<lparr>Led_Cnt_second := 0\<rparr>\<rparr>)
         else s)"

section \<open>Hexadecimal text\<close>

text \<open>One character, in 32-bit arithmetic; anything but a digit counts as zero.\<close>

definition hex_val :: "u8 \<Rightarrow> u32" where
  "hex_val c =
     (if c \<le> of_char CHR ''9'' \<and> of_char CHR ''0'' \<le> c then ucast c - 48
      else if c \<le> of_char CHR ''F'' \<and> of_char CHR ''A'' \<le> c then ucast c - 65 + 10
      else if c \<le> of_char CHR ''f'' \<and> of_char CHR ''a'' \<le> c then ucast c - 97 + 10
      else 0)"

definition hex_pair :: "u8 \<Rightarrow> u8 \<Rightarrow> u8" where
  "hex_pair hi lo = ucast (((push_bit 4 (hex_val hi)) AND 0xF0) OR (hex_val lo AND 0xF))"

text \<open>The loop reads two characters per step even when \<open>charlen\<close> is odd.\<close>

function hex_loop :: "u8 list \<Rightarrow> u8 list \<Rightarrow> nat \<Rightarrow> nat \<Rightarrow> nat \<Rightarrow> u8 list option" where
  "hex_loop chars hex hexpos charpos charlen =
     (if charpos < charlen then do {
        hi \<leftarrow> ld chars charpos;
        lo \<leftarrow> ld chars (charpos + 1);
        hex \<leftarrow> st hex hexpos (hex_pair hi lo);
        hex_loop chars hex (hexpos + 1) (charpos + 2) charlen }
      else Some hex)"
  by pat_completeness auto
termination
  by (relation "measure (\<lambda>(_, _, _, charpos, charlen). charlen - charpos)") auto

declare hex_loop.simps [simp del]

definition ChangeChar2Hex :: "u8 list \<Rightarrow> u8 list \<Rightarrow> u32 \<Rightarrow> u8 list option" where
  "ChangeChar2Hex chars hexbyte charlen = hex_loop chars hexbyte 0 0 (unat charlen)"

section \<open>The web-socket session\<close>

text \<open>The handshake is answered: log in with a proper ID, register otherwise.\<close>

definition session_open :: "firmware \<Rightarrow> firmware" where
  "session_open s =
     (let s = s\<lparr>WebSocketOK := 1, PP := (PP s)\<lparr>SubMode := SMARTCONFIG_FINISH\<rparr>, Mode := Mode_Nomal\<rparr>;
          dev = Dev_ID (PP s);
          s = (if dev ! 0 = of_char CHR ''H'' \<and> dev ! 1 = of_char CHR ''T'' then
                 (if dev ! 2 = of_char CHR ''F''
                  then s\<lparr>DF := (DF s)\<lparr>command := COMMAND_GETNEWID\<rparr>, Receive := 0x01\<rparr>
                  else s\<lparr>DF := (DF s)\<lparr>command := COMMAND_LOGIN\<rparr>, Receive := 0x04\<rparr>)
               else s\<lparr>DF := (DF s)\<lparr>command := COMMAND_GETNEWID\<rparr>, Receive := 0x01\<rparr>)
      in s\<lparr>rxcount := 0\<rparr>)"

text \<open>The segment is appended to the receive buffer; nothing compares its length with the room.\<close>

definition append_rx :: "u8 list \<Rightarrow> u16 \<Rightarrow> firmware \<Rightarrow> firmware option" where
  "append_rx pusrdata len s = do {
     buf \<leftarrow> c_memcpy (ubWebRxBuf s) (unat (rxcount s)) pusrdata 0 (unat len);
     Some (s\<lparr>ubWebRxBuf := buf, rxcount := rxcount s + ucast len\<rparr>) }"

definition websocket_tcp_recv_cb :: "u8 list \<Rightarrow> u16 \<Rightarrow> firmware \<Rightarrow> firmware option" where
  "websocket_tcp_recv_cb pusrdata len s = do {
     s \<leftarrow> append_rx pusrdata len s;
     hit \<leftarrow> c_strstr pusrdata 0 (str ''HTTP/1.1 101'');
     let s = (if hit \<noteq> None then session_open s else s);
     if WebSocketOK s \<noteq> 0 \<and> ubWebRxBuf s ! 0 = 0x82 \<and> 5 < rxcount s
     then WebRecvData_Proc 0 s
     else Some s }"

definition websocket_tcp_discon_cb :: "firmware \<Rightarrow> firmware" where
  "websocket_tcp_discon_cb s = s\<lparr>PP := clear_init_flags ((PP s)\<lparr>Led_Cnt_second := 0\<rparr>),
     Cnt_second := 0, Cnt_10second := 0, WebSocketOK := 0, HttpOK := 0, Mode := Mode_Bias\<rparr>"

definition websocketphead :: "u8 list" where
  "websocketphead = str ''GET /SmartHomeServer1/devws HTTP/1.1'' @ crlf @
     str ''Connection:Upgrade'' @ crlf @ str ''Host:dev.flytronlink.net:80'' @ crlf @
     str ''Origin: http://dev.flytronlink.net'' @ crlf @
     str ''Sec-WebSocket-Key:Rmx6dHJvbmxpbmswMjcxNg=='' @ crlf @
     str ''Sec-WebSocket-Version:13'' @ crlf @ str ''Upgrade:websocket'' @ crlf @ crlf"

definition websocket_sent_data :: "firmware \<Rightarrow> firmware" where
  "websocket_sent_data s = call (espconn_send websocket_tcp_conn websocketphead) s"

definition websocket_tcp_connect_cb :: "conn \<Rightarrow> firmware \<Rightarrow> firmware" where
  "websocket_tcp_connect_cb pespconn s = websocket_sent_data
     (calls [espconn_regist pespconn CB_websocket_recv, espconn_regist pespconn CB_websocket_discon] s)"

text \<open>Callbacks that only print.\<close>

definition websocket_tcp_sent_cb :: "firmware \<Rightarrow> firmware" where
  "websocket_tcp_sent_cb s = s"

definition websocket_tcp_recon_cb :: "firmware \<Rightarrow> firmware" where
  "websocket_tcp_recon_cb s = s"

section \<open>The HTTP post\<close>

definition http_tcp_recv_cb :: "u8 list \<Rightarrow> u16 \<Rightarrow> firmware \<Rightarrow> firmware option" where
  "http_tcp_recv_cb pusrdata len s = do {
     hit \<leftarrow> c_strstr pusrdata 0 (str ''HTTP/1.1 200'');
     let s = (if hit \<noteq> None then s\<lparr>HttpOK := 1\<rparr> else s);
     ok \<leftarrow> c_strstr pusrdata 0
       ([123, 34] @ str ''result'' @ [34, 58, 34] @ str ''ok'' @ [34, 125]);
     Some (if ok \<noteq> None
       then s\<lparr>Mode := Mode_Nomal, WebSocketOK := 1, gassmartconfig := 0, rxcount := 0\<rparr> else s) }"

definition http_sent_cb :: "firmware \<Rightarrow> firmware" where
  "http_sent_cb s = s"

definition http_discon_cb :: "firmware \<Rightarrow> firmware" where
  "http_discon_cb s = s"

definition http_connect_cb :: "conn \<Rightarrow> firmware \<Rightarrow> firmware" where
  "http_connect_cb pespconn s =
     (let s = calls [espconn_regist pespconn CB_http_recv, espconn_regist pespconn CB_http_sent,
                espconn_regist pespconn CB_http_discon] s
      in if gassmartconfig s = 1 \<and> Dev_ID (PP s) ! 2 \<noteq> of_char CHR ''F''
         then calls (post_id_calls (Dev_ID (PP s))) s else s)"

section \<open>Name resolution\<close>

definition NET_DOMAIN :: string where
  "NET_DOMAIN = ''dev.flytronlink.net''"

definition CheckIpStart :: "firmware \<Rightarrow> firmware" where
  "CheckIpStart s = call (espconn_gethostbyname websocket_tcp_conn NET_DOMAIN CB_websocket_dns_found)
     (s\<lparr>tcp_server_ip := 0, http_server_ip := 0\<rparr>)"

definition set_remote :: "conn \<Rightarrow> u32 \<Rightarrow> u16 \<Rightarrow> firmware \<Rightarrow> firmware" where
  "set_remote c ip port s = s\<lparr>tcp_of := (tcp_of s)
     (c := \<lparr>remote_ip = ip, remote_port = 80, local_port = port\<rparr>)\<rparr>"

text \<open>\<open>ipaddr\<close> is \<open>None\<close> for the null pointer; the ports are the results of \<open>espconn_port\<close>.\<close>

definition websocket_dns_found :: "u32 option \<Rightarrow> conn \<Rightarrow> u16 \<Rightarrow> u16 \<Rightarrow> firmware \<Rightarrow> firmware" where
  "websocket_dns_found ipaddr pespconn port1 port2 s =
     (case ipaddr of
        None \<Rightarrow> s
      | Some ip \<Rightarrow>
          if tcp_server_ip s = 0 \<and> ip \<noteq> 0
          then calls [espconn_regist pespconn CB_websocket_connect,
                 espconn_regist pespconn CB_websocket_recon, espconn_connect pespconn,
                 espconn_regist http_tcp_conn CB_http_connect, espconn_connect http_tcp_conn]
               (set_remote http_tcp_conn ip port2
                 (set_remote pespconn ip port1 (s\<lparr>tcp_server_ip := ip, http_server_ip := ip\<rparr>)))
          else s)"

end
