(* ===== verification/MapData.thy ===== *)
theory MapData
  imports TcpUdp
begin

text \<open>
  The map query of \<open>app/user/tcp_udp.c\<close>: the request to the map service and the scanner
  \<open>map_data\<close> of its JSON answer. The scanner walks a character pointer without a bound;
  here each read, and each write into the arrays \<open>v\<close>, \<open>x\<close>, \<open>MapFormat.x\<close> and
  \<open>MapFormat.y\<close>, is checked. (In this build the name lookup that starts the query is
  commented out in \<open>CheckIpStart\<close>.)
\<close>

section \<open>The request\<close>

definition AK :: "u8 list" where
  "AK = str ''ak=mESCOGnQvpVDm0E7WxrIhb71U5HhRQD0&coor=bd09ll''"

definition map_request :: "u8 list" where
  "map_request = str ''POST /location/ip HTTP/1.1'' @ crlf @
     str ''Accept: */*'' @ crlf @ str ''Content-Length: 47'' @ crlf @
     str ''Content-Type: application/x-www-form-urlencoded'' @ crlf @
     str ''Host: api.map.baidu.com'' @ crlf @ str ''Connection: Keep-Alive'' @ crlf @ crlf @ AK"

definition map_sent_data :: "firmware \<Rightarrow> firmware" where
  "map_sent_data s = call (espconn_send baidumap_tcp_conn map_request) s"

definition map_tcp_connect_cb :: "conn \<Rightarrow> firmware \<Rightarrow> firmware" where
  "map_tcp_connect_cb pespconn s = map_sent_data (call (espconn_regist pespconn CB_map_recv) s)"

definition map_tcp_discon_cb :: "firmware \<Rightarrow> firmware" where
  "map_tcp_discon_cb s = s"

definition map_dns_found :: "u32 option \<Rightarrow> conn \<Rightarrow> u16 \<Rightarrow> firmware \<Rightarrow> firmware" where
  "map_dns_found ipaddr pespconn port s =
     (case ipaddr of
        None \<Rightarrow> s
      | Some ip \<Rightarrow>
          if baidumap_server_ip s = 0 \<and> ip \<noteq> 0
          then calls [espconn_regist pespconn CB_map_connect, espconn_connect pespconn]
            (set_remote pespconn ip port (s\<lparr>baidumap_server_ip := ip\<rparr>))
          else s)"

section \<open>The scanner\<close>

definition quote :: u8 where "quote = 34"
definition comma :: u8 where "comma = 44"
definition backslash :: u8 where "backslash = 92"

text \<open>
  \<open>while(p[n] != '"' && p[n+1] != ',')\<close> with \<open>n\<close> the global \<open>map_addlen\<close>: a \<open>\\u\<close>
  is skipped, every other character goes to \<open>v[n]\<close>. \<open>n\<close> is a \<open>uint8_t\<close>, but the write into
  the 48 bytes of \<open>v\<close> fails long before it could wrap.
\<close>

function map_loop :: "u8 list \<Rightarrow> nat \<Rightarrow> nat \<Rightarrow> u8 list \<Rightarrow> (nat \<times> nat \<times> u8 list) option" where
  "map_loop m p n v = do {
     c \<leftarrow> ld m (p + n);
     if c = quote then Some (p, n, v)
     else do {
       d \<leftarrow> ld m (p + n + 1);
       if d = comma then Some (p, n, v)
       else do {
         let p = (if c = backslash \<and> d = of_char CHR ''u'' then p + 2 else p);
         e \<leftarrow> ld m (p + n);
         if n < length v then map_loop m p (n + 1) (v[n := e]) else None } } }"
  by pat_completeness auto
termination
  by (relation "measure (\<lambda>(m, p, n, v). length v - n)") auto

declare map_loop.simps [simp del]

text \<open>\<open>while(p[i] != stop) { dst[i] = p[i]; i++; }\<close>\<close>

function copy_until :: "u8 \<Rightarrow> u8 list \<Rightarrow> nat \<Rightarrow> nat \<Rightarrow> u8 list \<Rightarrow> u8 list option" where
  "copy_until stop m p i dst = do {
     c \<leftarrow> ld m (p + i);
     if c = stop then Some dst
     else if i < length dst then copy_until stop m p (i + 1) (dst[i := c]) else None }"
  by pat_completeness auto
termination
  by (relation "measure (\<lambda>(stop, m, p, i, dst). length dst - i)") auto

declare copy_until.simps [simp del]

text \<open>A search whose result is dereferenced: the null pointer is a fault.\<close>

definition found :: "u8 list \<Rightarrow> nat \<Rightarrow> u8 list \<Rightarrow> nat option" where
  "found m p pat = do { r \<leftarrow> c_strstr m p pat; r }"

definition key_address :: "u8 list" where
  "key_address = str '':{'' @ [quote] @ str ''address'' @ [quote] @ str '':''"

definition key_city :: "u8 list" where
  "key_city = [quote] @ str ''city_code''"

definition key_x :: "u8 list" where
  "key_x = str ''{'' @ [quote] @ str ''x''"

definition key_y :: "u8 list" where
  "key_y = [quote] @ str ''y'' @ [quote] @ str '':''"

definition map_data :: "u8 list \<Rightarrow> firmware \<Rightarrow> firmware option" where
  "map_data point s = do {
     p \<leftarrow> found point 0 key_address;
     (p, n, v) \<leftarrow> map_loop point (p + 13) (unat (map_addlen s)) (map_v s);
     addr \<leftarrow> ChangeChar2Hex v (map_addr (MF s)) (of_nat n);
     p \<leftarrow> found point 0 key_city;
     let p = p + 12;
     x \<leftarrow> copy_until comma point p 0 (replicate 10 0);
     city \<leftarrow> c_atoi x 0;
     p \<leftarrow> found point p key_x;
     mx \<leftarrow> copy_until quote point (p + 6) 0 (map_x (MF s));
     p \<leftarrow> found point (p + 6) key_y;
     my \<leftarrow> copy_until quote point (p + 5) 0 (map_y (MF s));
     Some (s\<lparr>map_addlen := of_nat n, map_v := v,
       MF := \<lparr>city_code = word_of_int city, map_x = mx, map_y = my, map_addr = addr\<rparr>\<rparr>) }"

definition map_tcp_recv_cb :: "u8 list \<Rightarrow> u16 \<Rightarrow> firmware \<Rightarrow> firmware option" where
  "map_tcp_recv_cb pusrdata len s = map_data pusrdata s"

end
