(* ===== verification/Session.thy ===== *)
theory Session
  imports Protocol MapData
begin

text \<open>
  Properties of the connection callbacks: the web-socket handshake and the login it starts,
  the receive buffer's bound, and what becomes of frames that do not arrive in one segment.
\<close>

section \<open>The handshake\<close>

definition http_101 :: "u8 list" where
  "http_101 = str ''HTTP/1.1 101''"

text \<open>The standard answer to the upgrade request, with the 28 characters of the accept key.\<close>

definition upgrade_response :: "u8 list \<Rightarrow> u8 list" where
  "upgrade_response accept_key = str ''HTTP/1.1 101 Switching Protocols'' @ crlf @
     str ''Upgrade: websocket'' @ crlf @ str ''Connection: Upgrade'' @ crlf @
     str ''Sec-WebSocket-Accept: '' @ accept_key @ crlf @ crlf"

lemma length_upgrade_response: "length (upgrade_response k) = 101 + length k"
  by (simp add: upgrade_response_def crlf_def)

text \<open>
  The handshake does not fit. The plain answer of a web-socket server to the upgrade
  request has 129 bytes; received in one segment, it is copied behind the end of the 128-byte
  receive buffer, whatever the state.
\<close>

theorem upgrade_response_overruns:
  assumes "wf_arrays s" and "length accept_key = 28"
  shows "length (upgrade_response accept_key) = 129 \<and>
    websocket_tcp_recv_cb (upgrade_response accept_key @ rest) 129 s = None"
proof -
  have "append_rx (upgrade_response accept_key @ rest) 129 s = None"
    using assms(1) by (simp add: append_rx_def c_memcpy_def wf_arraysD)
  then show ?thesis
    using assms(2) by (simp add: websocket_tcp_recv_cb_def length_upgrade_response)
qed

lemma upgrade_response_overruns_witness:
  "websocket_tcp_recv_cb (upgrade_response (replicate 28 65) @ []) 129 boot = None"
  using upgrade_response_overruns [OF wf_boot, of "replicate 28 65" "[]"] by simp

text \<open>A segment that fits and holds a C string.\<close>

definition segment_fits :: "u8 list \<Rightarrow> u16 \<Rightarrow> firmware \<Rightarrow> bool" where
  "segment_fits m n s \<longleftrightarrow> unat (rxcount s) + unat n \<le> RXMAX \<and> unat n \<le> length m \<and> 0 \<in> set m"

definition text_of :: "u8 list \<Rightarrow> u8 list" where
  "text_of m = takeWhile (\<lambda>b. b \<noteq> 0) m"

definition buffered :: "u8 list \<Rightarrow> u16 \<Rightarrow> firmware \<Rightarrow> firmware" where
  "buffered m n s = s\<lparr>ubWebRxBuf := blit (ubWebRxBuf s) (unat (rxcount s)) (take (unat n) m),
     rxcount := rxcount s + ucast n\<rparr>"

lemma append_rx_fits: "wf_arrays s \<Longrightarrow> segment_fits m n s \<Longrightarrow> append_rx m n s = Some (buffered m n s)"
  by (simp add: append_rx_def segment_fits_def buffered_def wf_arraysD)

lemma wf_buffered: "wf_arrays s \<Longrightarrow> segment_fits m n s \<Longrightarrow> wf_arrays (buffered m n s)"
  by (simp add: wf_arrays_def buffered_def segment_fits_def)

lemma c_strstr_text: "0 \<in> set m \<Longrightarrow> c_strstr m 0 pat = Some (find_sub pat (text_of m))"
proof -
  assume z: "0 \<in> set m"
  have "take (length (text_of m)) m = text_of m"
    unfolding text_of_def by (metis takeWhile_eq_take)
  then show ?thesis
    using z by (cases "find_sub pat (text_of m)")
      (simp_all add: c_strstr_def c_strlen_def flip: text_of_def)
qed

lemma recv_cb_fits:
  "wf_arrays s \<Longrightarrow> segment_fits m n s \<Longrightarrow> websocket_tcp_recv_cb m n s =
    (let t = buffered m n s;
         t = (if find_sub http_101 (text_of m) \<noteq> None then session_open t else t)
     in if WebSocketOK t \<noteq> 0 \<and> ubWebRxBuf t ! 0 = 0x82 \<and> 5 < rxcount t
        then WebRecvData_Proc 0 t else Some t)"
  by (simp add: websocket_tcp_recv_cb_def append_rx_fits c_strstr_text segment_fits_def
      http_101_def Let_def)

section \<open>The login\<close>

definition is_registered :: "u8 list \<Rightarrow> bool" where
  "is_registered dev \<longleftrightarrow> dev ! 0 = of_char CHR ''H'' \<and> dev ! 1 = of_char CHR ''T'' \<and> dev ! 2 \<noteq> of_char CHR ''F''"

definition login_packet :: "firmware \<Rightarrow> data_format" where
  "login_packet s = \<lparr>DST_ID = broadcast_id, SRC_ID = Dev_ID (PP s),
     mems = be32 hardversion @ be32 softversion, encrypt = OPENKEY,
     idx = idx (DF s) + 1, payloadlength = 10, command = COMMAND_LOGIN\<rparr>"

definition newid_packet :: "firmware \<Rightarrow> data_format" where
  "newid_packet s = \<lparr>DST_ID = broadcast_id, SRC_ID = Dev_ID (PP s), mems = Dev_ID (PP s),
     encrypt = OPENKEY, idx = idx (DF s) + 1, payloadlength = 12, command = COMMAND_GETNEWID\<rparr>"

lemma tx_stream_open: "tx_stream OPENKEY k n = tx_stream OPENKEY k' n"
  by (simp add: tx_stream_def)

definition same_session :: "firmware \<Rightarrow> firmware \<Rightarrow> bool" where
  "same_session s t \<longleftrightarrow> trace t = trace s \<and> WebSocketOK t = WebSocketOK s \<and> Mode t = Mode s \<and>
     rxcount t = rxcount s"

lemma mon_LOGIN_sent:
  assumes wf: "wf_arrays s"
  shows "\<exists>t. mon_LOGIN s = Some (sent t) \<and> same_session s t \<and>
    frame_of t = reply_frame (primaryKey s) (login_packet s)"
proof -
  define u where "u = ProcessPackege broadcast_id (Dev_ID (PP s)) OPENKEY 0x000A COMMAND_LOGIN s"
  define t where "t = set_mems (\<lambda>m. put_be32 (put_be32 m 0 hardversion) 4 softversion)
    (u\<lparr>PP := (PP u)\<lparr>HWVersion := hardversion, SWVersion := softversion\<rparr>\<rparr>)"
  have l: "length (mems (DF s)) = 128" "length (Dev_ID (PP s)) = 10" using wf by auto
  have "sendable u" using wf unfolding u_def by (intro handled_intros) auto
  then have st: "sendable t"
    using l unfolding t_def by (intro handled_intros sendable_PP) (auto simp: u_def)
  have m: "take 8 (put_be32 (put_be32 (mems (DF s)) 0 hardversion) 4 softversion) =
      be32 hardversion @ be32 softversion"
    using l by (simp add: put_be32_blit) (simp add: blit_def)
  have "frame_of t = reply_frame (primaryKey s) (login_packet s)"
    unfolding frame_of_wire [OF st] reply_frame_def
    using l m by (auto simp: t_def u_def set_mems_def ProcessPackege_def login_packet_def intro!: wire_body_cong)
  moreover have "mon_LOGIN s = Some (sent t)"
    using build_and_send_sent [OF st] by (simp add: mon_LOGIN_def Let_def t_def u_def ProcessPackege_def)
  ultimately show ?thesis
    by (auto simp: t_def u_def set_mems_def ProcessPackege_def same_session_def)
qed

lemma mon_GETNEWID_sent:
  assumes wf: "wf_arrays s"
  shows "\<exists>t. mon_GETNEWID s = Some (sent t) \<and> same_session s t \<and>
    frame_of t = reply_frame (primaryKey s) (newid_packet s)"
proof -
  define t where "t = set_mems (\<lambda>m. blit m 0 (Dev_ID (PP s)))
    (ProcessPackege broadcast_id (Dev_ID (PP s)) OPENKEY 0x000c COMMAND_GETNEWID s)"
  have l: "length (mems (DF s)) = 128" "length (Dev_ID (PP s)) = 10" using wf by auto
  have st: "sendable t"
    using wf l unfolding t_def by (intro handled_intros) auto
  have m: "take 10 (blit (mems (DF s)) 0 (Dev_ID (PP s))) = Dev_ID (PP s)"
    using l by (simp add: blit_def)
  have "frame_of t = reply_frame (primaryKey s) (newid_packet s)"
    unfolding frame_of_wire [OF st] reply_frame_def
    using l m by (auto simp: t_def set_mems_def ProcessPackege_def newid_packet_def intro!: wire_body_cong)
  moreover have "mon_GETNEWID s = Some (sent t)"
    using build_and_send_sent [OF st] l by (simp add: mon_GETNEWID_def Let_def t_def ProcessPackege_def)
  ultimately show ?thesis
    by (auto simp: t_def set_mems_def ProcessPackege_def same_session_def)
qed

text \<open>
  C11: the handshake starts the login. When a segment that fits the buffer carries the answer
  \<open>HTTP/1.1 101\<close>, the session is open and in normal operation, and the next call of the
  interpreter sends exactly one packet under the built-in key: the login with hardware and
  software version for a registered ID (\<open>HT\<close>, not \<open>HTF\<close>), the request for an ID otherwise.
\<close>

theorem handshake_starts_login:
  assumes wf: "wf_arrays s" and fits: "segment_fits m n s"
    and hit: "find_sub http_101 (text_of m) \<noteq> None"
  shows "\<exists>t u. websocket_tcp_recv_cb m n s = Some t \<and> ESP8266_Monitor t = Some u \<and>
    WebSocketOK u = 1 \<and> Mode u = Mode_Nomal \<and> rxcount u = 0 \<and>
    trace u = trace s @ [espconn_send websocket_tcp_conn (reply_frame (primaryKey s)
      (if is_registered (Dev_ID (PP s)) then login_packet s else newid_packet s))] \<and>
    ESP8266_Monitor u = Some u"
proof -
  define t where "t = session_open (buffered m n s)"
  have t: "websocket_tcp_recv_cb m n s = Some t"
    using recv_cb_fits [OF wf fits] hit
    by (simp add: t_def) (simp add: session_open_def Let_def)
  have f: "rxcount t = 0" "WebSocketOK t = 1" "Mode t = Mode_Nomal" "trace t = trace s"
      "primaryKey t = primaryKey s" "idx (DF t) = idx (DF s)" "Dev_ID (PP t) = Dev_ID (PP s)"
    by (simp_all add: t_def session_open_def buffered_def Let_def)
  have wt: "wf_arrays t"
    using wf_buffered [OF wf fits] by (simp add: t_def session_open_def wf_arrays_def Let_def)
  have same: "login_packet t = login_packet s" "newid_packet t = newid_packet s"
    using f by (simp_all add: login_packet_def newid_packet_def)
  have c: "command (DF t) = (if is_registered (Dev_ID (PP s)) then COMMAND_LOGIN else COMMAND_GETNEWID)"
      "received_command (Receive t) (command (DF t)) = command (DF t)"
    by (simp_all add: t_def session_open_def buffered_def is_registered_def received_command_def Let_def)
  have "t\<lparr>DF := (DF t)\<lparr>command := command (DF t)\<rparr>\<rparr> = t" by simp
  then have run: "ESP8266_Monitor t = (if is_registered (Dev_ID (PP s)) then mon_LOGIN t else mon_GETNEWID t)"
    by (simp add: ESP8266_Monitor_def c(2) Let_def) (simp add: run_command_def c(1))
  obtain v where "ESP8266_Monitor t = Some (sent v)" "same_session t v"
      "frame_of v = reply_frame (primaryKey s)
        (if is_registered (Dev_ID (PP s)) then login_packet s else newid_packet s)"
    using mon_LOGIN_sent [OF wt] mon_GETNEWID_sent [OF wt] unfolding run same f(5)
    by (cases "is_registered (Dev_ID (PP s))") auto
  moreover have "WebSocketOK (sent v) = WebSocketOK v" "Mode (sent v) = Mode v" "rxcount (sent v) = rxcount v"
    by (simp_all add: sent_def Reflash_def built_def)
  ultimately show ?thesis
    using t f idle_Monitor [of "sent v"] by (auto simp: same_session_def)
qed

lemma handshake_starts_login_witness:
  "\<exists>t u. websocket_tcp_recv_cb (http_101 @ [0]) 13 boot = Some t \<and> ESP8266_Monitor t = Some u \<and>
    Mode u = Mode_Nomal"
proof -
  have "text_of (http_101 @ [0]) = http_101"
    by (simp add: text_of_def http_101_def str_def)
  then have "find_sub http_101 (text_of (http_101 @ [0])) \<noteq> None"
    using find_sub_here [of http_101 "[]"] by simp
  moreover have "segment_fits (http_101 @ [0]) 13 boot"
    by (simp add: segment_fits_def boot_def http_101_def)
  ultimately show ?thesis
    using handshake_starts_login [OF wf_boot] by blast
qed

section \<open>Frames and segments\<close>

text \<open>
  A frame in one segment. With the session open and the buffer empty, a segment that is
  one encrypted frame (and does not look like the handshake) is taken apart at once: the
  interpreter's next step starts from the packet that was sent.
\<close>

theorem whole_frame_received:
  assumes wf: "wf_arrays s" and fits: "segment_fits m n s"
    and state: "WebSocketOK s \<noteq> 0" "rxcount s = 0"
    and no101: "find_sub http_101 (text_of m) = None"
    and df: "wf_packet df" "2 \<le> unat (payloadlength df)" "unat (payloadlength df) \<le> 100"
    and frame: "take (unat n) m = [0x82, l] @
      wire_body (rx_stream (encrypt df) (primaryKey s) (unat (payloadlength df))) df"
  shows "websocket_tcp_recv_cb m n s = Some (received df s)"
proof -
  let ?t = "buffered m n s"
  have len: "length (take (unat n) m) = 28 + unat (payloadlength df)"
    using df unfolding frame by (simp add: wire_body_def clear_payload_def wf_packet_def)
  have n: "unat n = 28 + unat (payloadlength df)"
    using len fits by (simp add: segment_fits_def)
  have "unat (ucast n :: u8) = unat n"
    using fits state(2) by (simp add: segment_fits_def unsigned_ucast_eq unsigned_take_bit_eq
        take_bit_nat_eq_self_iff)
  then have rx: "5 < rxcount ?t"
    using n state(2) by (simp add: buffered_def word_less_nat_alt)
  have buf: "ubWebRxBuf ?t = take (unat n) m @ drop (unat n) (ubWebRxBuf s)"
    using fits state(2) by (simp add: buffered_def blit_def segment_fits_def)
  have "holds_frame df ?t"
    unfolding holds_frame_def buf frame by (auto simp: buffered_def)
  then have "WebRecvData_Proc 0 ?t = Some (received df ?t)"
    using receive_held_frame [OF wf_buffered [OF wf fits] df] by blast
  moreover have "ubWebRxBuf ?t ! 0 = 0x82" unfolding buf frame by simp
  moreover have "received df ?t = received df s"
    by (simp add: received_def buffered_def)
  ultimately show ?thesis
    using recv_cb_fits [OF wf fits] no101 rx state(1) by (simp add: Let_def) (simp add: buffered_def)
qed

definition zero_packet :: data_format where
  "zero_packet = \<lparr>DST_ID = replicate 10 0, SRC_ID = replicate 10 0, mems = replicate 128 0,
     encrypt = NONEKEY, idx = 0, payloadlength = 2, command = COMMAND_READGAS\<rparr>"

lemma whole_frame_received_witness:
  "\<exists>r. websocket_tcp_recv_cb ([0x82, 28] @ wire_body (rx_stream 0 (replicate 16 0) 2) zero_packet) 30
     (boot\<lparr>WebSocketOK := 1\<rparr>) = Some r \<and> Receive r = 0x10"
proof -
  let ?m = "[0x82, 28] @ wire_body (rx_stream 0 (replicate 16 0) 2) zero_packet"
  let ?s = "boot\<lparr>WebSocketOK := 1\<rparr>"
  have m: "?m = [0x82, 28, 70] @ 0 # drop 4 ?m" "length ?m = 30"
    using replicate_Suc [of 9 "0 :: u8"]
    by (simp_all add: wire_body_def zero_packet_def clear_payload_def)
  have "text_of ?m = [0x82, 28, 70]"
    unfolding text_of_def by (subst m(1)) simp
  then have n: "find_sub http_101 (text_of ?m) = None" by (simp add: http_101_def str_def)
  have "0 \<in> set ?m" by (subst m(1)) simp
  then have "segment_fits ?m 30 ?s" using m(2) by (simp add: segment_fits_def boot_def)
  moreover have "wf_arrays ?s" using wf_boot by (simp add: wf_arrays_def)
  ultimately have "websocket_tcp_recv_cb ?m 30 ?s = Some (received zero_packet ?s)"
    using n m(2) by (intro whole_frame_received [of _ _ _ zero_packet 28])
      (simp_all add: boot_def wf_packet_def zero_packet_def LENGTH_KEY_def)
  then show ?thesis
    by (simp add: received_def receive_code_def zero_packet_def)
qed

text \<open>
  A receiver that has been left with bytes which do not begin a frame. Nothing but the
  handshake, or a frame taken apart, resets \<open>rxcount\<close>.
\<close>

definition deaf :: "firmware \<Rightarrow> bool" where
  "deaf s \<longleftrightarrow> wf_arrays s \<and> 0 < unat (rxcount s) \<and> unat (rxcount s) \<le> RXMAX \<and>
     ubWebRxBuf s ! 0 \<noteq> 0x82"

fun run_segments :: "(u8 list \<times> u16) list \<Rightarrow> firmware \<Rightarrow> firmware option" where
  "run_segments [] s = Some s"
| "run_segments ((m, n) # segs) s = do { s \<leftarrow> websocket_tcp_recv_cb m n s; run_segments segs s }"

definition plain_segment :: "u8 list \<times> u16 \<Rightarrow> bool" where
  "plain_segment = (\<lambda>(m, n). 0 \<in> set m \<and> unat n \<le> length m \<and> find_sub http_101 (text_of m) = None)"

lemma deaf_step:
  assumes d: "deaf s" and p: "plain_segment (m, n)"
  shows "if unat (rxcount s) + unat n \<le> RXMAX
    then \<exists>t. websocket_tcp_recv_cb m n s = Some t \<and> deaf t \<and> DF t = DF s \<and> Receive t = Receive s \<and>
      unat (rxcount t) = unat (rxcount s) + unat n
    else websocket_tcp_recv_cb m n s = None"
proof (cases "unat (rxcount s) + unat n \<le> RXMAX")
  case True
  then have fits: "segment_fits m n s" using p by (simp add: segment_fits_def plain_segment_def)
  have wf: "wf_arrays s" using d by (simp add: deaf_def)
  have "unat (ucast n :: u8) = unat n"
    using True by (simp add: unsigned_ucast_eq unsigned_take_bit_eq take_bit_nat_eq_self_iff)
  then have rx: "unat (rxcount s + ucast n) = unat (rxcount s) + unat n"
    using True by (simp add: unat_word_ariths)
  have pos: "0 < unat (rxcount s)" using d by (simp add: deaf_def)
  have "ubWebRxBuf (buffered m n s) ! 0 = ubWebRxBuf s ! 0"
    using fits wf pos by (simp add: buffered_def nth_blit segment_fits_def wf_arraysD)
  moreover from this have "websocket_tcp_recv_cb m n s = Some (buffered m n s)"
    using recv_cb_fits [OF wf fits] p d by (simp add: plain_segment_def deaf_def)
  moreover have "unat (rxcount (buffered m n s)) = unat (rxcount s) + unat n"
    using rx by (simp add: buffered_def)
  ultimately show ?thesis
    using True d pos wf_buffered [OF wf fits] rx by (auto simp: deaf_def buffered_def)
next
  case False
  then have "append_rx m n s = None"
    using d by (simp add: append_rx_def c_memcpy_def deaf_def wf_arraysD)
  then show ?thesis
    using False by (simp add: websocket_tcp_recv_cb_def)
qed



end
