(* ===== verification/IpAddr.thy ===== *)
theory IpAddr
  imports CString
begin

text \<open>
  The address functions of lwIP (\<open>core/ipv4/ip_addr.c\<close>, \<open>core/def.c\<close> of the bundled stack)
  that the application reaches through \<open>ipaddr_ntoa\<close>. A 32-bit address is kept as the machine
  word in network order: on this little-endian core its first octet is the lowest byte.
\<close>

section \<open>Byte order\<close>

definition lwip_htonl :: "u32 \<Rightarrow> u32" where
  "lwip_htonl n = push_bit 24 (n AND 0xff) OR push_bit 8 (n AND 0xff00) OR
     drop_bit 8 (n AND 0xff0000) OR drop_bit 24 (n AND 0xff000000)"

section \<open>Printing\<close>

text \<open>
  The \<open>do\<close>-\<open>while\<close> loop that divides one octet down; \<open>inv\<close> is filled from the last
  digit to the first.
\<close>

function inv_digits :: "u8 \<Rightarrow> u8 list" where
  "inv_digits a = (48 + a mod 10) # (if a div 10 \<noteq> 0 then inv_digits (a div 10) else [])"
  by pat_completeness auto
termination
proof (relation "measure unat")
  fix a :: u8
  assume "a div 10 \<noteq> 0"
  moreover have d: "unat (a div 10) = unat a div 10" by (simp add: unat_div)
  ultimately have "unat a div 10 \<noteq> 0" by (metis unat_eq_0)
  then show "(a div 10, a) \<in> measure unat" by (simp add: d)
qed simp

declare inv_digits.simps [simp del]

definition octet :: "u32 \<Rightarrow> nat \<Rightarrow> u8" where
  "octet ip i = ucast (drop_bit (8 * i) ip)"

text \<open>
  One character into the buffer; \<open>None\<close> is the null pointer the function returns when
  \<open>buflen\<close> characters are already there. The buffer is the list of the characters written so
  far, and \<open>buflen\<close> is the size of its array.
\<close>

definition put_char :: "nat \<Rightarrow> u8 \<Rightarrow> u8 list \<Rightarrow> u8 list option" where
  "put_char buflen c out = (if length out < buflen then Some (out @ [c]) else None)"

fun put_chars :: "nat \<Rightarrow> u8 list \<Rightarrow> u8 list \<Rightarrow> u8 list option" where
  "put_chars buflen [] out = Some out"
| "put_chars buflen (c # cs) out = do { out \<leftarrow> put_char buflen c out; put_chars buflen cs out }"

text \<open>Each octet's digits and a dot; the last dot becomes the terminator.\<close>

fun put_octets :: "nat \<Rightarrow> u8 list \<Rightarrow> u8 list \<Rightarrow> u8 list option" where
  "put_octets buflen [] out = Some out"
| "put_octets buflen (a # as) out = do {
     out \<leftarrow> put_chars buflen (rev (inv_digits a)) out;
     out \<leftarrow> put_char buflen (of_char CHR ''.'') out;
     put_octets buflen as out }"

definition ipaddr_ntoa_r :: "u32 \<Rightarrow> nat \<Rightarrow> u8 list option" where
  "ipaddr_ntoa_r ip buflen = do {
     out \<leftarrow> put_octets buflen (map (octet ip) [0..<4]) [];
     Some (butlast out @ [0]) }"

definition ipaddr_ntoa :: "u32 \<Rightarrow> u8 list option" where
  "ipaddr_ntoa ip = ipaddr_ntoa_r ip 16"

text \<open>\<open>strcmp(ipaddr_ntoa(&ip), "0.0.0.0") != 0\<close>\<close>

definition has_address :: "u32 \<Rightarrow> bool" where
  "has_address ip \<longleftrightarrow> ipaddr_ntoa ip \<noteq> Some (str ''0.0.0.0'' @ [0])"

section \<open>Parsing\<close>

definition in_range :: "u8 \<Rightarrow> u8 \<Rightarrow> u8 \<Rightarrow> bool" where
  "in_range c lo up \<longleftrightarrow> lo \<le> c \<and> c \<le> up"

definition islower :: "u8 \<Rightarrow> bool" where
  "islower c \<longleftrightarrow> in_range c (of_char CHR ''a'') (of_char CHR ''z'')"

definition isspace :: "u8 \<Rightarrow> bool" where
  "isspace c \<longleftrightarrow> c = 32 \<or> c = 12 \<or> c = 10 \<or> c = 13 \<or> c = 9 \<or> c = 11"

definition isxdigit :: "u8 \<Rightarrow> bool" where
  "isxdigit c \<longleftrightarrow> is_digit c \<or> in_range c (of_char CHR ''a'') (of_char CHR ''f'') \<or>
     in_range c (of_char CHR ''A'') (of_char CHR ''F'')"

text \<open>
  The digits of one part, from position \<open>p\<close>. The outer option is a read behind the string's
  object, the inner one the return value 0 (overflow of 32 bits).
\<close>

definition overflows :: "u32 \<Rightarrow> u32 \<Rightarrow> u8 \<Rightarrow> bool" where
  "overflows base val ch \<longleftrightarrow>
     (let cutoff = 0xffffffff div base; cutlim = 0xffffffff mod base
      in cutoff < val \<or> (val = cutoff \<and> cutlim < ucast ch))"

function aton_num :: "u8 list \<Rightarrow> nat \<Rightarrow> u32 \<Rightarrow> u32 \<Rightarrow> (nat \<times> u32) option option" where
  "aton_num m p base val =
     (if p < length m then
        (let c = m ! p in
         if is_digit c then
           (let ch = c - 48 in
            if overflows base val ch then Some None
            else aton_num m (p + 1) base (val * base + ucast ch))
         else if base = 16 \<and> isxdigit c then
           (let ch = c + 10 - (if islower c then 97 else 65) in
            if overflows base val ch then Some None
            else aton_num m (p + 1) base (push_bit 4 val OR ucast ch))
         else Some (Some (p, val)))
      else None)"
  by pat_completeness auto
termination
  by (relation "measure (\<lambda>(m, p, base, val). length m - p)") auto

declare aton_num.simps [simp del]

text \<open>The prefix of one part selects the base: \<open>0x\<close> 16, \<open>0\<close> 8, otherwise 10.\<close>

definition aton_base :: "u8 list \<Rightarrow> nat \<Rightarrow> (nat \<times> u32) option" where
  "aton_base m p = do {
     c \<leftarrow> ld m p;
     if c = of_char CHR ''0'' then do {
       d \<leftarrow> ld m (p + 1);
       Some (if d = of_char CHR ''x'' \<or> d = of_char CHR ''X'' then (p + 2, 16) else (p + 1, 8)) }
     else Some (p, 10) }"

function aton_parts :: "u8 list \<Rightarrow> nat \<Rightarrow> u32 list \<Rightarrow> (nat \<times> u32 list \<times> u32) option option" where
  "aton_parts m p parts = do {
     c \<leftarrow> ld m p;
     if \<not> is_digit c then Some None
     else do {
       (p, base) \<leftarrow> aton_base m p;
       r \<leftarrow> aton_num m p base 0;
       case r of
         None \<Rightarrow> Some None
       | Some (p, val) \<Rightarrow> do {
           c \<leftarrow> ld m p;
           if c = of_char CHR ''.'' then
             (if 3 \<le> length parts then Some None else aton_parts m (p + 1) (parts @ [val]))
           else Some (Some (p, parts, val)) } } }"
  by pat_completeness auto
termination
  by (relation "measure (\<lambda>(m, p, parts). 3 - length parts)") auto

declare aton_parts.simps [simp del]

definition aton_value :: "u32 list \<Rightarrow> u32 \<Rightarrow> u32 option" where
  "aton_value parts val =
     (case parts of
        [] \<Rightarrow> Some val
      | [a] \<Rightarrow> if 0xffffff < val \<or> 0xff < a then None else Some (val OR push_bit 24 a)
      | [a, b] \<Rightarrow> if 0xffff < val \<or> 0xff < a \<or> 0xff < b then None
          else Some (val OR (push_bit 24 a OR push_bit 16 b))
      | [a, b, c] \<Rightarrow> if 0xff < val \<or> 0xff < a \<or> 0xff < b \<or> 0xff < c then None
          else Some (val OR (push_bit 24 a OR push_bit 16 b OR push_bit 8 c))
      | _ \<Rightarrow> Some val)"

definition ipaddr_aton :: "u8 list \<Rightarrow> u32 option option" where
  "ipaddr_aton cp = do {
     r \<leftarrow> aton_parts cp 0 [];
     case r of
       None \<Rightarrow> Some None
     | Some (p, parts, val) \<Rightarrow> do {
         c \<leftarrow> ld cp p;
         Some (if c \<noteq> 0 \<and> \<not> isspace c then None
               else map_option lwip_htonl (aton_value parts val)) } }"

definition ipaddr_addr :: "u8 list \<Rightarrow> u32 option" where
  "ipaddr_addr cp = do {
     r \<leftarrow> ipaddr_aton cp;
     Some (case r of None \<Rightarrow> 0xffffffff | Some w \<Rightarrow> w) }"

section \<open>Masks and broadcast\<close>

lemma shift_less [termination_simp]: "w \<noteq> 0 \<Longrightarrow> unat (drop_bit 1 w) < unat (w :: u32)"
proof -
  assume "w \<noteq> 0"
  then have "unat w \<noteq> 0" by (metis unat_eq_0)
  then show ?thesis by (simp add: drop_bit_eq_div unat_div)
qed

text \<open>The two loops over the bits of the mask, from the highest.\<close>

function first_zero :: "u32 \<Rightarrow> u32 \<Rightarrow> u32" where
  "first_zero nm msk =
     (if msk \<noteq> 0 then (if nm AND msk = 0 then msk else first_zero nm (drop_bit 1 msk)) else msk)"
  by pat_completeness auto
termination
  by (relation "measure (\<lambda>(nm, msk). unat msk)") (use shift_less in auto)

function no_ones :: "u32 \<Rightarrow> u32 \<Rightarrow> bool" where
  "no_ones nm msk =
     (if msk \<noteq> 0 then (if nm AND msk \<noteq> 0 then False else no_ones nm (drop_bit 1 msk)) else True)"
  by pat_completeness auto
termination
  by (relation "measure (\<lambda>(nm, msk). unat msk)") (use shift_less in auto)

declare first_zero.simps [simp del] no_ones.simps [simp del]

definition ip4_addr_netmask_valid :: "u32 \<Rightarrow> bool" where
  "ip4_addr_netmask_valid netmask =
     (let nm = lwip_htonl netmask in no_ones nm (first_zero nm (push_bit 31 1)))"

record netif =
  netif_flags :: u8
  netif_ip :: u32
  netif_mask :: u32

definition ip4_addr_isbroadcast :: "u32 \<Rightarrow> netif \<Rightarrow> bool" where
  "ip4_addr_isbroadcast addr nif =
     (if NOT addr = 0 \<or> addr = 0 then True
      else if netif_flags nif AND 0x02 = 0 then False
      else if addr = netif_ip nif then False
      else addr AND netif_mask nif = netif_ip nif AND netif_mask nif \<and>
        addr AND NOT (netif_mask nif) = 0xffffffff AND NOT (netif_mask nif))"

section \<open>Printing and parsing back\<close>

text \<open>Decimal text of an octet, and the dotted text as the plain concatenation.\<close>

definition dec :: "u8 \<Rightarrow> u8 list" where
  "dec a = rev (inv_digits a)"

definition dotted :: "u8 list \<Rightarrow> u8 list" where
  "dotted as = concat (map (\<lambda>a. dec a @ [of_char CHR ''.'']) as)"

lemma put_chars_Some:
  "put_chars n cs out = (if cs = [] \<or> length out + length cs \<le> n then Some (out @ cs) else None)"
  by (induction cs arbitrary: out) (auto simp: put_char_def)

lemma put_octets_Some:
  "length out + length (dotted as) \<le> n \<Longrightarrow> put_octets n as out = Some (out @ dotted as)"
proof (induction as arbitrary: out)
  case (Cons a as)
  then show ?case by (simp add: dotted_def put_chars_Some put_char_def dec_def)
qed (simp add: dotted_def)

lemma length_dec: "length (dec a) \<le> 3" "dec a \<noteq> []"
proof -
  have "unat (a div 10 div 10 div 10) = 0"
    using unat_u8 [of a] by (simp add: unat_div div_mult2_eq [symmetric] del: unat_u8)
  then have z: "a div 10 div 10 div 10 = 0" by (metis unat_eq_0)
  show "length (dec a) \<le> 3" "dec a \<noteq> []"
    using z by (simp_all add: dec_def inv_digits.simps [of a] inv_digits.simps [of "a div 10"]
        inv_digits.simps [of "a div 10 div 10"])
qed

lemma dec_rec: "dec a = (if a div 10 \<noteq> 0 then dec (a div 10) else []) @ [48 + a mod 10]"
  by (simp add: dec_def inv_digits.simps [of a])

lemma unat_digit: "unat (48 + a mod 10 :: u8) = 48 + unat a mod 10"
proof -
  have "unat (a mod 10) = unat a mod 10" by (simp add: unat_mod)
  moreover have "unat a mod 10 < 10" by simp
  ultimately show ?thesis by (simp add: unat_word_ariths)
qed

definition dval :: "nat \<Rightarrow> u8 list \<Rightarrow> nat" where
  "dval v ds = foldl (\<lambda>v d. v * 10 + (unat d - 48)) v ds"

lemma dval_simps [simp]:
  "dval v [] = v" "dval v (d # ds) = dval (v * 10 + (unat d - 48)) ds"
  "dval v (xs @ [d]) = dval v xs * 10 + (unat d - 48)"
  by (simp_all add: dval_def)

lemma dval_mono: "v \<le> dval v ds"
proof (induction ds arbitrary: v)
  case (Cons d ds)
  show ?case using Cons [of "v * 10 + (unat d - 48)"] by simp
qed simp

lemma dval_dec: "dval 0 (dec a) = unat a"
proof (induction a rule: inv_digits.induct)
  case (1 a)
  have d: "unat (a div 10) = unat a div 10" by (simp add: unat_div)
  show ?case
  proof (cases "a div 10 = 0")
    case True
    then have "unat a div 10 = 0" by (metis d unat_0)
    then show ?thesis using True by (subst dec_rec) (simp add: unat_digit)
  next
    case False
    then show ?thesis using 1 by (subst dec_rec) (simp add: unat_digit d)
  qed
qed

lemma dec_digits: "d \<in> set (dec a) \<Longrightarrow> is_digit d"
proof (induction a rule: inv_digits.induct)
  case (1 a)
  have "is_digit (48 + a mod 10)"
    using unat_digit [of a] by (simp add: is_digit_def word_le_nat_alt)
  then show ?case using 1 dec_rec [of a] by (auto split: if_splits)
qed

lemma hd_dec: "a \<noteq> 0 \<Longrightarrow> hd (dec a) \<noteq> 48"
proof (induction a rule: inv_digits.induct)
  case (1 a)
  show ?case
  proof (cases "a div 10 = 0")
    case True
    have "unat (a div 10) = unat a div 10" by (simp add: unat_div)
    then have "unat a mod 10 = unat a" using True by simp
    moreover have "unat a \<noteq> 0" using 1 by (simp add: unat_eq_0)
    ultimately have ne: "unat (48 + a mod 10) \<noteq> 48" using unat_digit [of a] by simp
    have "48 + a mod 10 \<noteq> 48"
    proof
      assume h: "48 + a mod 10 = 48"
      show False using ne unfolding h by simp
    qed
    then show ?thesis using True by (subst dec_rec) simp
  next
    case False
    then show ?thesis using 1 length_dec(2) by (subst dec_rec) simp
  qed
qed

lemma dec_0: "dec 0 = [48]"
  by (subst dec_rec) simp

section \<open>Reading one part\<close>

lemma digit_value: "is_digit d \<Longrightarrow> unat (d - 48) = unat d - 48 \<and> unat d - 48 \<le> 9"
proof -
  assume d: "is_digit d"
  then have "48 \<le> d" "unat d \<le> 57" by (simp_all add: is_digit_def word_le_nat_alt)
  then show ?thesis by (simp add: unat_sub)
qed

lemma overflows_small: "unat v < 256 \<Longrightarrow> \<not> overflows 10 v ch" "\<not> overflows 8 0 ch"
  by (simp_all add: overflows_def Let_def word_less_nat_alt) auto

text \<open>A run of decimal digits whose value stays in a byte is read as that value.\<close>

lemma aton_num_digits:
  assumes "\<forall>d \<in> set ds. is_digit d" and "\<not> is_digit c" and "dval (unat v) ds < 256"
  shows "aton_num (pre @ ds @ c # post) (length pre) 10 v =
    Some (Some (length pre + length ds, of_nat (dval (unat v) ds)))"
  using assms
proof (induction ds arbitrary: pre v)
  case Nil
  then show ?case by (subst aton_num.simps) (simp add: Let_def)
next
  case (Cons d ds)
  let ?v = "v * 10 + ucast (d - 48)"
  have d: "unat (d - 48) = unat d - 48" "unat d - 48 \<le> 9"
    using Cons.prems(1) digit_value [of d] by simp_all
  have lt: "unat v * 10 + (unat d - 48) < 256"
    using Cons.prems(3) dval_mono [of "unat v * 10 + (unat d - 48)" ds] by simp
  have v: "unat ?v = unat v * 10 + (unat d - 48)"
    using lt d by (simp add: unat_word_ariths)
  have ov: "\<not> overflows 10 v (d - 48)" using lt by (intro overflows_small) simp
  have "aton_num ((pre @ [d]) @ ds @ c # post) (length (pre @ [d])) 10 ?v =
    Some (Some (length (pre @ [d]) + length ds, of_nat (dval (unat ?v) ds)))"
    using Cons.prems by (intro Cons.IH) (simp_all add: v)
  then show ?case
    using Cons.prems(1) ov by (subst aton_num.simps) (simp add: Let_def v)
qed

text \<open>An octet's text, followed by a dot or the end, is one part.\<close>

lemma aton_parts_dec:
  assumes c: "c = 46 \<or> c = 0"
  shows "aton_parts (pre @ dec a @ c # post) (length pre) parts =
    (if c = 46 then if 3 \<le> length parts then Some None
       else aton_parts (pre @ dec a @ c # post) (length pre + length (dec a) + 1) (parts @ [ucast a])
     else Some (Some (length pre + length (dec a), parts, ucast a)))"
proof -
  let ?m = "pre @ dec a @ c # post"
  have nd: "\<not> is_digit c" using c by (auto simp: is_digit_def)
  obtain d ds where d: "dec a = d # ds" using length_dec(2) [of a] by (cases "dec a") auto
  have ld: "ld ?m (length pre) = Some d" by (simp add: ld_def d)
  have dd: "is_digit d" using dec_digits [of d a] d by simp
  obtain p base where b: "aton_base ?m (length pre) = Some (p, base)"
      "aton_num ?m p base 0 = Some (Some (length pre + length (dec a), ucast a))"
  proof (cases "a = 0")
    case True
    then have "?m = pre @ [48, c] @ post" and l: "length (dec a) = 1" by (simp_all add: dec_0)
    then have 1: "aton_base ?m (length pre) = Some (length pre + 1, 8)"
      using c by (auto simp: aton_base_def ld_def nth_append)
    have "aton_num ?m (length pre + 1) 8 0 = Some (Some (length pre + 1, 0))"
      using nd \<open>?m = _\<close> by (subst aton_num.simps) (simp add: Let_def nth_append)
    then show thesis using that 1 l True by simp
  next
    case False
    then have "d \<noteq> 48" using hd_dec [of a] d by simp
    then have 1: "aton_base ?m (length pre) = Some (length pre, 10)"
      using ld by (simp add: aton_base_def)
    have v: "dval (unat (0 :: u32)) (dec a) = unat a" by (simp add: dval_dec)
    have "aton_num ?m (length pre) 10 0 =
        Some (Some (length pre + length (dec a), of_nat (dval (unat (0 :: u32)) (dec a))))"
      using nd unat_u8 [of a] by (intro aton_num_digits) (auto simp: dec_digits dval_dec)
    then show thesis using that 1 by (simp only: v) simp
  qed
  have e: "ld ?m (length pre + length (dec a)) = Some c" by (simp add: ld_def nth_append)
  show ?thesis
    using c by (subst aton_parts.simps) (auto simp: ld dd b e)
qed

lemma bit_masks:
  "bit (0xff :: u32) n \<longleftrightarrow> n < 8" "bit (0xff00 :: u32) n \<longleftrightarrow> 8 \<le> n \<and> n < 16"
  "bit (0xff0000 :: u32) n \<longleftrightarrow> 16 \<le> n \<and> n < 24" "bit (0xff000000 :: u32) n \<longleftrightarrow> 24 \<le> n \<and> n < 32"
proof -
  have e: "(0xff :: u32) = mask 8" "(0xff00 :: u32) = push_bit 8 (mask 8)"
      "(0xff0000 :: u32) = push_bit 16 (mask 8)" "(0xff000000 :: u32) = push_bit 24 (mask 8)"
    by (simp_all add: mask_eq_exp_minus_1)
  show "bit (0xff :: u32) n \<longleftrightarrow> n < 8" "bit (0xff00 :: u32) n \<longleftrightarrow> 8 \<le> n \<and> n < 16"
    "bit (0xff0000 :: u32) n \<longleftrightarrow> 16 \<le> n \<and> n < 24" "bit (0xff000000 :: u32) n \<longleftrightarrow> 24 \<le> n \<and> n < 32"
    unfolding e by (auto simp: bit_push_bit_iff bit_mask_iff simp del: mask_numeral push_bit_numeral)
qed

lemma bit_lwip_htonl:
  "n < 32 \<Longrightarrow> bit (lwip_htonl w) n \<longleftrightarrow>
    (if n < 8 then bit w (n + 24) else if n < 16 then bit w (n + 8)
     else if n < 24 then bit w (n - 8) else bit w (n - 24))"
  unfolding lwip_htonl_def bit_or_iff bit_and_iff bit_push_bit_iff bit_drop_bit_eq bit_masks comp_def
  by (auto simp: ac_simps dest: bit_imp_le_length)

section \<open>Properties\<close>

lemma lwip_htonl_octets:
  "lwip_htonl (ucast (octet ip 3) OR (push_bit 24 (ucast (octet ip 0)) OR
     push_bit 16 (ucast (octet ip 1)) OR push_bit 8 (ucast (octet ip 2)))) = ip"
  by (rule bit_word_eqI)
    (auto simp: bit_lwip_htonl octet_def bit_or_iff bit_push_bit_iff bit_ucast_iff bit_drop_bit_eq)

lemma ntoa_text:
  "ipaddr_ntoa ip = Some (dec (octet ip 0) @ 46 # dec (octet ip 1) @ 46 # dec (octet ip 2) @ 46 #
     dec (octet ip 3) @ [0])"
proof -
  have "length (dotted (map (octet ip) [0..<4])) \<le> 16"
    using length_dec(1) [of "octet ip 0"] length_dec(1) [of "octet ip 1"]
      length_dec(1) [of "octet ip 2"] length_dec(1) [of "octet ip 3"]
    by (simp add: dotted_def upt_4)
  then have "put_octets 16 (map (octet ip) [0..<4]) [] = Some (dotted (map (octet ip) [0..<4]))"
    by (simp add: put_octets_Some)
  then show ?thesis
    by (simp add: ipaddr_ntoa_def ipaddr_ntoa_r_def upt_4 dotted_def butlast_append)
qed

lemma aton_four:
  defines "t a b c d \<equiv> dec a @ 46 # dec b @ 46 # dec c @ 46 # dec d @ [0]"
  shows "aton_parts (t a b c d) 0 [] =
    Some (Some (length (t a b c d) - 1, [ucast a, ucast b, ucast c], ucast d))"
proof -
  let ?t = "t a b c d"
  have "aton_parts ?t 0 [] = aton_parts ?t (length (dec a @ [46])) [ucast a]"
    using aton_parts_dec [of 46 "[]" a] by (simp add: t_def)
  also have "\<dots> = aton_parts ?t (length (dec a @ 46 # dec b @ [46])) [ucast a, ucast b]"
    using aton_parts_dec [of 46 "dec a @ [46]" b] by (simp add: t_def)
  also have "\<dots> = aton_parts ?t (length (dec a @ 46 # dec b @ 46 # dec c @ [46])) [ucast a, ucast b, ucast c]"
    using aton_parts_dec [of 46 "dec a @ 46 # dec b @ [46]" c] by (simp add: t_def add.assoc)
  also have "\<dots> = Some (Some (length ?t - 1, [ucast a, ucast b, ucast c], ucast d))"
    using aton_parts_dec [of 0 "dec a @ 46 # dec b @ 46 # dec c @ [46]" d "[]"]
    by (simp add: t_def add.assoc)
  finally show ?thesis .
qed

lemma aton_ntoa: "ipaddr_ntoa ip = Some txt \<Longrightarrow> ipaddr_aton txt = Some (Some ip)"
proof -
  assume h: "ipaddr_ntoa ip = Some txt"
  have small: "\<not> 0xff < (ucast (x :: u8) :: u32)" for x
    using unat_u8 [of x] by (simp add: word_less_nat_alt not_less del: unat_u8)
  have "ld (dec a @ 46 # dec b @ 46 # dec c @ 46 # dec d @ [0])
      (length (dec a @ 46 # dec b @ 46 # dec c @ 46 # dec d @ [0]) - 1) = Some 0" for a b c d
    by (simp add: ld_def nth_append)
  then show ?thesis
    using h lwip_htonl_octets [of ip] unfolding ntoa_text
    by (auto simp: ipaddr_aton_def aton_four aton_value_def small simp del: length_append)
qed

lemma length_ntoa: "ipaddr_ntoa ip = Some txt \<Longrightarrow> length txt \<le> 16"
  using length_dec(1) [of "octet ip 0"] length_dec(1) [of "octet ip 1"] length_dec(1) [of "octet ip 2"]
    length_dec(1) [of "octet ip 3"]
  by (auto simp: ntoa_text)

text \<open>The test the mode machine makes on the text is a test on the word.\<close>

lemma ntoa_zero: "ipaddr_ntoa 0 = Some (str ''0.0.0.0'' @ [0])"
  by (simp add: ntoa_text octet_def dec_0 str_def)

lemma has_address_iff [simp]: "has_address ip \<longleftrightarrow> ip \<noteq> 0"
proof
  show "ip \<noteq> 0" if "has_address ip" using that ntoa_zero by (auto simp: has_address_def)
  show "has_address ip" if "ip \<noteq> 0"
    using that aton_ntoa [of ip] aton_ntoa [OF ntoa_zero] by (auto simp: has_address_def)
qed

text \<open>
  C32: an address survives its text. For every address \<open>ipaddr_ntoa\<close> fits its sixteen
  bytes, and \<open>ipaddr_aton\<close> reads the same address back from the text.
\<close>

theorem ipaddr_text_roundtrip:
  "\<exists>txt. ipaddr_ntoa ip = Some txt \<and> length txt \<le> 16 \<and> ipaddr_aton txt = Some (Some ip)"
  using ntoa_text [of ip] length_ntoa [of ip] aton_ntoa [of ip] by blast

end
