(* ===== verification/SmartConfig.thy ===== *)
theory SmartConfig
  imports TcpUdp
begin

text \<open>
  Provisioning, \<open>app/user/gassmartconfig.c\<close>: \<open>gas_smartconfig\<close> stops the main timer and
  starts the SDK's smart-config, \<open>smartconfig_done\<close> follows its progress, and the Airkiss
  functions announce the device on the local network. What the Airkiss library returns
  (a packed datagram, a recognised request) is an argument.
\<close>

section \<open>Airkiss announcement\<close>

abbreviation (input) DEFAULT_LAN_PORT :: u16 where "DEFAULT_LAN_PORT \<equiv> 12476"

text \<open>
  \<open>airkissdpudpconn.proto.udp\<close> points to \<open>ssdp_udp\<close>: both names stand for the entry of
  \<open>airkissdpudpconn\<close> in \<open>tcp_of\<close>.
\<close>

definition upd_conn :: "conn \<Rightarrow> (esp_conn \<Rightarrow> esp_conn) \<Rightarrow> firmware \<Rightarrow> firmware" where
  "upd_conn c f s = s\<lparr>tcp_of := (tcp_of s)(c := f (tcp_of s c))\<rparr>"

text \<open>
  \<open>packed\<close> is the datagram \<open>airkiss_lan_pack\<close> leaves in \<open>lan_buf\<close>, \<open>None\<close> unless it
  answers \<open>AIRKISS_LAN_PAKE_READY\<close>. The code also computes the broadcast address of the
  station's network from \<open>ip\<close> and \<open>netmask\<close>, into a local variable it never uses.
\<close>

definition broadcast_ip :: "u32 \<Rightarrow> u32 \<Rightarrow> u32" where
  "broadcast_ip ip netmask = ip OR NOT netmask"

definition airkiss_wifilan_time_callback :: "u8 list option \<Rightarrow> u16 \<Rightarrow> firmware \<Rightarrow> firmware" where
  "airkiss_wifilan_time_callback packed port s =
     (let s = (if 2 < udp_sent_cnt s then call (os_timer_disarm ssdp_time_serv) (s\<lparr>udp_sent_cnt := 0\<rparr>)
               else s\<lparr>udp_sent_cnt := udp_sent_cnt s + 1\<rparr>);
          s = upd_conn airkissdpudpconn
            (\<lambda>c. c\<lparr>remote_port := DEFAULT_LAN_PORT, local_port := port\<rparr>) s
      in case packed of
           None \<Rightarrow> s
         | Some buf \<Rightarrow>
             call (espconn_sendto airkissdpudpconn buf) (s\<lparr>PP := (PP s)\<lparr>flag_Time := 0\<rparr>\<rparr>))"

text \<open>\<open>req\<close>: the address and port of the asker when the datagram is an SSDP request.\<close>

definition airkiss_wifilan_recv_callbk ::
  "(u32 \<times> u16) option \<Rightarrow> u8 list option \<Rightarrow> firmware \<Rightarrow> firmware" where
  "airkiss_wifilan_recv_callbk req packed s =
     (case req of
        None \<Rightarrow> s
      | Some (ip, port) \<Rightarrow>
          let s = upd_conn airkissdpudpconn (\<lambda>c. c\<lparr>remote_port := port\<rparr>) s;
              s = upd_conn airkissdpudpconn (\<lambda>c. c\<lparr>remote_ip := ip\<rparr>) s;
              s = upd_conn airkissdpudpconn (\<lambda>c. c\<lparr>remote_port := DEFAULT_LAN_PORT\<rparr>) s
          in case packed of
               None \<Rightarrow> s
             | Some buf \<Rightarrow> call (espconn_sendto airkissdpudpconn buf) s)"

definition airkiss_start_discover :: "firmware \<Rightarrow> firmware" where
  "airkiss_start_discover s = calls
     [espconn_regist airkissdpudpconn CB_airkiss_wifilan_recv, espconn_create airkissdpudpconn,
      os_timer_disarm ssdp_time_serv, os_timer_setfn ssdp_time_serv CB_airkiss_wifilan_time,
      os_timer_arm ssdp_time_serv 5000 True]
     (upd_conn airkissdpudpconn (\<lambda>c. c\<lparr>local_port := DEFAULT_LAN_PORT\<rparr>) s)"

section \<open>Smart-config\<close>

text \<open>
  The status of the SDK with its data pointer: the phone's address, or null, at the end. The
  station configuration of \<open>SC_STATUS_LINK\<close> is handed on unread.
\<close>

datatype sc_status =
    SC_STATUS_WAIT
  | SC_STATUS_FIND_CHANNEL
  | SC_STATUS_GETTING_SSID_PSWD
  | SC_STATUS_LINK
  | SC_STATUS_LINK_OVER "u8 list option"

definition restart_main_timer :: "sdk list" where
  "restart_main_timer = [os_timer_setfn gas_main CB_gas_main_cb, os_timer_arm gas_main 100 True]"

text \<open>The reply goes to the phone's network: the last octet is replaced by 255.\<close>

definition phone_broadcast :: "u32 \<Rightarrow> u8 list \<Rightarrow> u32" where
  "phone_broadcast old phone_ip =
     set_byte (set_byte (set_byte (set_byte old 0 (phone_ip ! 0)) 1 (phone_ip ! 1)) 2 (phone_ip ! 2)) 3 255"

definition acknowledge_phone :: "u8 list \<Rightarrow> firmware \<Rightarrow> firmware" where
  "acknowledge_phone phone_ip s =
     calls (espconn_create PhoneConn # replicate 4 (espconn_sendto PhoneConn (SmartACK s)))
       (upd_conn PhoneConn (\<lambda>c. c\<lparr>remote_ip := phone_broadcast (remote_ip c) phone_ip\<rparr>) s)"

definition sc_getting :: "firmware \<Rightarrow> firmware" where
  "sc_getting s = s\<lparr>PP := (PP s)\<lparr>init_flag_time := ClrBit (init_flag_time (PP s)) BIT_30S,
     SubMode := SMARTCONFIG_WAIT\<rparr>\<rparr>"

definition sc_link :: "firmware \<Rightarrow> firmware" where
  "sc_link s = calls (os_delay_us 100 # restart_main_timer @
       [wifi_station_set_config_ptr, wifi_station_disconnect, wifi_station_connect])
     (s\<lparr>gassmartconfig := 1, Mode := Mode_CreateSession\<rparr>)"

definition sc_link_over :: "u8 list option \<Rightarrow> firmware \<Rightarrow> firmware" where
  "sc_link_over pdata s =
     (let s = (case pdata of Some phone_ip \<Rightarrow> acknowledge_phone phone_ip s
                           | None \<Rightarrow> airkiss_start_discover s);
          s = calls [pwm_set_duty DUTYMAX LED_BLUE, pwm_set_duty DUTYMIN LED_GREEN, pwm_start]
                (s\<lparr>SensorMode := Sensor_Init\<rparr>);
          s = s\<lparr>PP := (PP s)\<lparr>Status := SetBit (SetBit (Status (PP s)) BIT_ONLINE) BIT_HASNET,
                 SubMode := SMARTCONFIG_FINISH\<rparr>\<rparr>
      in calls [espconn_delete PhoneConn, smartconfig_stop] s)"

definition smartconfig_done :: "sc_status \<Rightarrow> firmware \<Rightarrow> firmware" where
  "smartconfig_done status s =
     (case status of
        SC_STATUS_WAIT \<Rightarrow> s
      | SC_STATUS_FIND_CHANNEL \<Rightarrow> s
      | SC_STATUS_GETTING_SSID_PSWD \<Rightarrow> sc_getting s
      | SC_STATUS_LINK \<Rightarrow> sc_link s
      | SC_STATUS_LINK_OVER pdata \<Rightarrow> sc_link_over pdata s)"

definition user_rf_pre_init :: "firmware \<Rightarrow> firmware" where
  "user_rf_pre_init s = s"

text \<open>\<open>port\<close> is the result of \<open>espconn_port\<close>.\<close>

definition gas_smartconfig :: "u16 \<Rightarrow> firmware \<Rightarrow> firmware" where
  "gas_smartconfig port s =
     (let s = calls [os_timer_disarm gas_main, pwm_set_duty DUTYMAX LED_RED,
                pwm_set_duty DUTYMAX LED_BLUE, pwm_set_duty DUTYMAX LED_GREEN, pwm_start,
                wifi_station_disconnect]
                (s\<lparr>PP := (PP s)\<lparr>Led_Cnt_second := 0\<rparr>, SensorMode := Sensor_Config\<rparr>);
          s = upd_conn PhoneConn (\<lambda>c. c\<lparr>local_port := port, remote_port := 18267\<rparr>) s;
          s = s\<lparr>SmartACK := blit (SmartACK s) 8 (take 10 (Dev_ID (PP s)))\<rparr>;
          s = s\<lparr>PP := (clear_init_flags (PP s))\<lparr>flag_Time := 0, SubMode := SMARTCONFIG_START\<rparr>\<rparr>
      in calls [wifi_station_disconnect, smartconfig_set_type, smartconfig_start CB_smartconfig_done] s)"

end
