(* ===== verification/MainLoop.thy ===== *)
theory MainLoop
  imports IpAddr SmartConfig
begin

text \<open>
  \<open>app/user/user_main.c\<close>: the 50 ms timer \<open>pwmad_cb\<close> (clock, sensor and LEDs), the 100 ms
  timer \<open>gas_main_cb\<close> (the mode machine) and \<open>user_init\<close>. What the hardware answers is an
  argument: \<open>adc\<close> for \<open>system_adc_read\<close>, \<open>ip\<close> for the station address of
  \<open>wifi_get_ip_info\<close>, \<open>port\<close> for \<open>espconn_port\<close>.
\<close>

section \<open>The clock\<close>

definition tick_key :: "program_para \<Rightarrow> program_para" where
  "tick_key p =
     (let p = p\<lparr>Cnt_Key := Cnt_Key p + 1\<rparr>
      in if 60 \<le> Cnt_Key p then p\<lparr>Key_Type := 0, Cnt_Key := 0\<rparr> else p)"

text \<open>Ten and twenty seconds of the start-up modes.\<close>

definition tick_startup :: "firmware \<Rightarrow> firmware" where
  "tick_startup s =
     (let s = s\<lparr>Cnt_second := Cnt_second s + 1\<rparr>
      in if CNT_10S \<le> Cnt_second s \<and> (Mode s = Mode_Init \<or> Mode s = Mode_Bias)
         then let s = s\<lparr>PP := (PP s)\<lparr>init_flag_time := SetBit (init_flag_time (PP s)) BIT_10S\<rparr>,
                Cnt_10second := Cnt_10second s + 1, Cnt_second := 0\<rparr>
              in if Cnt_10second s = 2
                 then s\<lparr>Cnt_10second := 0,
                   PP := (PP s)\<lparr>init_flag_time := SetBit (init_flag_time (PP s)) BIT_30S\<rparr>\<rparr>
                 else s
         else s)"

definition tick_day :: "program_para \<Rightarrow> program_para" where
  "tick_day p =
     (let p = p\<lparr>Cnt_Day := Cnt_Day p + 1\<rparr>
      in if CNT_DAY \<le> Cnt_Day p
         then p\<lparr>Cnt_Day := 0, flag_Time := SetBit (flag_Time p) BIT_DAY\<rparr> else p)"

definition tick_hour :: "program_para \<Rightarrow> program_para" where
  "tick_hour p =
     (let p = p\<lparr>Cnt_Hour := Cnt_Hour p + 1\<rparr>
      in if CNT_HOUR \<le> Cnt_Hour p
         then tick_day (p\<lparr>Cnt_Hour := 0, flag_Time := SetBit (flag_Time p) BIT_HOUR\<rparr>) else p)"

definition tick_minite :: "program_para \<Rightarrow> program_para" where
  "tick_minite p =
     (let p = p\<lparr>Cnt_Minite := Cnt_Minite p + 1\<rparr>
      in if CNT_MINITE \<le> Cnt_Minite p
         then tick_hour (p\<lparr>Cnt_Minite := 0, flag_Time := SetBit (flag_Time p) BIT_MINITE\<rparr>) else p)"

text \<open>Provisioning is given up after \<open>CNT_60S\<close> ticks.\<close>

definition smartconfig_timeout :: "firmware \<Rightarrow> firmware" where
  "smartconfig_timeout s =
     (if CNT_60S \<le> Cnt_Minite (PP s) \<and> SubMode (PP s) \<noteq> SMARTCONFIG_FINISH
      then calls ([smartconfig_stop, pwm_set_duty DUTYMAX LED_RED, pwm_set_duty DUTYMAX LED_BLUE,
               pwm_set_duty DUTYMIN LED_GREEN, pwm_start, os_timer_disarm gas_main] @ restart_main_timer)
             (s\<lparr>SensorMode := Sensor_Init, Mode := Mode_Nomal,
               PP := (PP s)\<lparr>Led_Cnt_second := 0, SubMode := SMARTCONFIG_FINISH\<rparr>\<rparr>)
      else s)"

definition time_calcu_cb :: "firmware \<Rightarrow> firmware" where
  "time_calcu_cb s =
     (let s = s\<lparr>PP := tick_key (PP s)\<rparr>;
          s = tick_startup s;
          s = s\<lparr>PP := tick_minite (PP s)\<rparr>
      in smartconfig_timeout s)"

section \<open>The LEDs and the sensor\<close>

definition tcpwm_init :: "firmware \<Rightarrow> firmware" where
  "tcpwm_init s = calls
     [pwm_init 10000 [DUTYMIN, DUTYMAX, DUTYMAX] 3
        [[0x60000804, 3, 12], [0x60000808, 3, 13], [0x6000080C, 3, 14]], pwm_start] s"

definition connect_test_wifi :: "firmware \<Rightarrow> firmware" where
  "connect_test_wifi s = calls
     [wifi_station_set_config (str ''dlink_edio'') (str ''epform020716''), wifi_station_connect] s"

definition leds :: "u32 \<Rightarrow> u32 \<Rightarrow> u32 \<Rightarrow> sdk list" where
  "leds green blue red =
     [pwm_set_duty green LED_GREEN, pwm_set_duty blue LED_BLUE, pwm_set_duty red LED_RED]"

text \<open>
  The self-test: one step every 21 ticks, through the thirteen values of its \<open>status\<close>. The
  state changes of one step, each with the calls it makes before the final \<open>pwm_start\<close>.
\<close>

definition led_test1_sample :: "u16 \<Rightarrow> firmware \<Rightarrow> firmware" where
  "led_test1_sample adc s =
     (let s = s\<lparr>dir := 0, led_test1_status := 4, PP := (PP s)\<lparr>PPM_H := ucast adc\<rparr>\<rparr>
      in if PPM_H (PP s) < 50 \<or> 700 < PPM_H (PP s)
         then calls (leds DUTYMAX DUTYMIN DUTYMAX @ [pwm_start]) s
         else let s = calls (leds DUTYMAX DUTYMAX DUTYMAX @ [pwm_start]) s;
                  s = s\<lparr>configcmp := (configcmp s)\<lparr>adoffset := 106\<rparr>,
                        config := (config s)\<lparr>adoffset := 106\<rparr>\<rparr>
              in connect_test_wifi (save_config s))"

definition led_test1_step :: "u16 \<Rightarrow> u32 \<Rightarrow> firmware \<Rightarrow> firmware" where
  "led_test1_step adc ip s =
     (let st = led_test1_status s in
      if st = 0 then calls [pwm_set_duty DUTYMAX LED_RED, pwm_set_duty DUTYMIN LED_BLUE,
          pwm_set_duty DUTYMAX LED_GREEN] (s\<lparr>led_test1_status := 1\<rparr>)
      else if st = 1 then calls [pwm_set_duty DUTYMAX LED_GREEN, pwm_set_duty DUTYMIN LED_RED,
          pwm_set_duty DUTYMAX LED_BLUE] (s\<lparr>led_test1_status := 2\<rparr>)
      else if st = 2 then calls (leds DUTYMIN DUTYMAX DUTYMAX) (s\<lparr>led_test1_status := 3\<rparr>)
      else if st = 3 then led_test1_sample adc s
      else if 4 \<le> st \<and> st \<le> 8 then s\<lparr>led_test1_status := st + 1\<rparr>
      else if st = 9 then
        (if has_address ip then CheckIpStart (s\<lparr>led_test1_status := 10\<rparr>)
         else calls (leds DUTYMAX DUTYMAX DUTYMAX)
           (s\<lparr>led_test1_status := 0, SensorMode := Sensor_ConnError\<rparr>))
      else if st = 10 then s\<lparr>led_test1_status := 11\<rparr>
      else if st = 11 then s\<lparr>led_test1_status := 12\<rparr>
      else if st = 12 then
        (if WebSocketOK s = 1
         then calls (leds DUTYMIN DUTYMAX DUTYMAX) (s\<lparr>led_test1_status := 0, SensorMode := Sensor_Init\<rparr>)
         else calls (leds DUTYMAX DUTYMAX DUTYMAX)
           (s\<lparr>led_test1_status := 0, SensorMode := Sensor_ConnError\<rparr>))
      else s)"

definition led_test1 :: "u16 \<Rightarrow> u32 \<Rightarrow> firmware \<Rightarrow> firmware" where
  "led_test1 adc ip s =
     (let s = s\<lparr>led_test1_i := led_test1_i s + 1\<rparr>
      in if 20 < led_test1_i s
         then call pwm_start (led_test1_step adc ip (s\<lparr>led_test1_i := 0\<rparr>)) else s)"

text \<open>
  The calibration. \<open>config.adoffset\<close> is unsigned, so the code's test for a negative value
  never holds.
\<close>

definition led_test_step :: "u16 \<Rightarrow> firmware \<Rightarrow> firmware" where
  "led_test_step adc s =
     (let st = led_test_status s in
      if st = 0 then calls [pwm_set_duty DUTYMAX LED_RED, pwm_set_duty DUTYMAX LED_BLUE,
          pwm_set_duty DUTYMIN LED_GREEN] (s\<lparr>led_test_status := 1\<rparr>)
      else if st = 1 then calls [pwm_set_duty DUTYMAX LED_GREEN, pwm_set_duty DUTYMIN LED_RED,
          pwm_set_duty DUTYMAX LED_BLUE] (s\<lparr>led_test_status := 2\<rparr>)
      else if st = 2 then calls (leds DUTYMAX DUTYMIN DUTYMAX) (s\<lparr>led_test_status := 3\<rparr>)
      else if st = 3 then
        (let s = calls (leds DUTYMAX DUTYMAX DUTYMAX) s;
             s = s\<lparr>dir := 0, greenpwm_duty := 0, config := (config s)\<lparr>adoffset := ucast adc\<rparr>\<rparr>;
             s = save_config (s\<lparr>configcmp := (configcmp s)\<lparr>adoffset := adoffset (config s)\<rparr>\<rparr>)
         in s\<lparr>led_test_status := 0, SensorMode := Sensor_Normal\<rparr>)
      else s)"

definition led_test :: "u16 \<Rightarrow> firmware \<Rightarrow> firmware" where
  "led_test adc s =
     (let s = s\<lparr>led_test_i := led_test_i s + 1\<rparr>
      in if 20 < led_test_i s
         then call pwm_start (led_test_step adc (s\<lparr>led_test_i := 0\<rparr>)) else s)"

text \<open>\<open>int adtranf = system_adc_read() - config.adoffset\<close>, clipped at zero.\<close>

definition detect_sample :: "u16 \<Rightarrow> firmware \<Rightarrow> u32" where
  "detect_sample adc s =
     (let adtranf = ucast adc - adoffset (config s) in if sint adtranf \<le> 0 then 0 else adtranf)"

definition detect_count :: "program_para \<Rightarrow> program_para" where
  "detect_count p =
     (if PPM_H p \<le> 300 then p\<lparr>Cnt_Warning0 := Cnt_Warning0 p + 1, PPM_Updata0 := PPM_H p\<rparr>
      else if 300 < PPM_H p \<and> PPM_H p \<le> 600
      then p\<lparr>PPM_Updata1 := PPM_H p, Cnt_Warning1 := Cnt_Warning1 p + 1\<rparr>
      else if 600 < PPM_H p then p\<lparr>PPM_Updata2 := PPM_H p, Cnt_Warning2 := Cnt_Warning2 p + 1\<rparr>
      else p)"

definition clear_warnings :: "program_para \<Rightarrow> program_para" where
  "clear_warnings p = p\<lparr>Cnt_Warning0 := 0, Cnt_Warning1 := 0, Cnt_Warning2 := 0\<rparr>"

definition detect_decide :: "firmware \<Rightarrow> firmware" where
  "detect_decide s =
     (let p = PP s in
      if 7 \<le> Cnt_Warning0 p
      then calls [pwm_set_duty DUTYMAX LED_RED, pwm_set_duty DUTYMAX LED_BLUE, pwm_start]
        (s\<lparr>PP := p\<lparr>PPM_Updata := PPM_Updata0 p * 5 div 10, flag_Alarm := 0\<rparr>\<rparr>)
      else if 7 \<le> Cnt_Warning1 p
      then call pwm_start (s\<lparr>PP := p\<lparr>PPM_Updata := PPM_Updata1 p * 5 div 10, flag_Alarm := 1\<rparr>\<rparr>)
      else if 7 \<le> Cnt_Warning2 p
      then calls [pwm_set_duty DUTYMAX LED_GREEN, pwm_set_duty DUTYMAX LED_BLUE, pwm_start]
        (s\<lparr>PP := p\<lparr>PPM_Updata := PPM_Updata2 p * 5 div 10, flag_Alarm := 2\<rparr>\<rparr>)
      else s\<lparr>PP := clear_warnings p\<rparr>)"

definition Detect :: "u16 \<Rightarrow> firmware \<Rightarrow> firmware" where
  "Detect adc s =
     (let s = s\<lparr>PP := (PP s)\<lparr>PPM_H := detect_sample adc s\<rparr>\<rparr>;
          s = s\<lparr>PP := (PP s)\<lparr>Cnt_Warning3 := Cnt_Warning3 (PP s) + 1\<rparr>\<rparr>
      in if Cnt_Warning3 (PP s) \<le> 10 then s\<lparr>PP := detect_count (PP s)\<rparr>
         else let s = detect_decide (s\<lparr>PP := (PP s)\<lparr>Cnt_Warning3 := 0\<rparr>\<rparr>)
              in s\<lparr>PP := clear_warnings (PP s)\<rparr>)"

text \<open>The breathing LED; \<open>greenpwm_duty\<close> is an \<open>int32\<close>.\<close>

definition breathe :: "firmware \<Rightarrow> firmware" where
  "breathe s =
     (let s = (if dir s = 1
               then let s = s\<lparr>greenpwm_duty := greenpwm_duty s + 4440\<rparr>
                    in if sint DUTYMAX \<le> sint (greenpwm_duty s) then s\<lparr>dir := 0\<rparr> else s
               else let s = s\<lparr>greenpwm_duty := greenpwm_duty s - 4440\<rparr>
                    in if sint (greenpwm_duty s) \<le> sint DUTYMIN then s\<lparr>dir := 1\<rparr> else s)
      in calls [pwm_set_duty (greenpwm_duty s) LED_GREEN, pwm_start] s)"

text \<open>A blink every 21 ticks: the calls and the next \<open>dir\<close> for either value of it.\<close>

definition blink :: "sdk list \<Rightarrow> sdk list \<Rightarrow> u8 \<Rightarrow> firmware \<Rightarrow> firmware" where
  "blink on off other s =
     (let s = s\<lparr>PP := (PP s)\<lparr>Led_Cnt_second := Led_Cnt_second (PP s) + 1\<rparr>\<rparr>
      in if 20 < Led_Cnt_second (PP s)
         then let s = s\<lparr>PP := (PP s)\<lparr>Led_Cnt_second := 0\<rparr>\<rparr>;
                  s = (if dir s = 1 then calls on (s\<lparr>dir := 0\<rparr>)
                       else if dir s = 0 then calls off (s\<lparr>dir := 1\<rparr>)
                       else s\<lparr>dir := other\<rparr>)
              in call pwm_start s
         else s)"

definition pwmad_run :: "firmware \<Rightarrow> firmware" where
  "pwmad_run s =
     (if flag_Alarm (PP s) = 0 then breathe s
      else if flag_Alarm (PP s) = 1
      then blink [pwm_set_duty 100000 LED_GREEN, pwm_set_duty DUTYMIN LED_RED]
        [pwm_set_duty DUTYMAX LED_GREEN, pwm_set_duty DUTYMAX LED_RED] (dir s) s
      else if flag_Alarm (PP s) = 2
      then blink [pwm_set_duty DUTYMIN LED_RED] [pwm_set_duty DUTYMAX LED_RED] (dir s)
        (call (pwm_set_duty DUTYMAX LED_GREEN) s)
      else s)"

definition led_config :: "firmware \<Rightarrow> firmware" where
  "led_config s = blink [pwm_set_duty DUTYMIN LED_BLUE] [pwm_set_duty DUTYMAX LED_BLUE] 1 s"

definition valid_sensor_mode :: "u8 \<Rightarrow> bool" where
  "valid_sensor_mode m \<longleftrightarrow> m = Sensor_Init \<or> m = Sensor_Test \<or> m = Sensor_Config \<or>
     m = Sensor_Normal \<or> m = Sensor_Test1 \<or> m = Sensor_ConnError"

text \<open>The switch over the sensor mode.\<close>

definition sensor_dispatch :: "u16 \<Rightarrow> u32 \<Rightarrow> firmware \<Rightarrow> firmware" where
  "sensor_dispatch adc ip s =
     (let keep = (\<lambda>s. s\<lparr>SensorMode1 := SensorMode s\<rparr>); m = SensorMode s
      in if m = Sensor_Init then keep (led_time_calcu_cb s)
         else if m = Sensor_Normal then keep (pwmad_run (Detect adc s))
         else if m = Sensor_Test then keep (led_test adc s)
         else if m = Sensor_Config then keep (led_config s)
         else if m = Sensor_Test1 then led_test1 adc ip s
         else if m = Sensor_ConnError then calls [pwm_set_duty DUTYMIN LED_RED, pwm_start] s
         else s\<lparr>SensorMode := Sensor_Init, PP := (PP s)\<lparr>Led_Cnt_second := 0\<rparr>\<rparr>)"

definition pwmad_cb :: "u16 \<Rightarrow> u32 \<Rightarrow> firmware \<Rightarrow> firmware" where
  "pwmad_cb adc ip s =
     (let s = time_calcu_cb s;
          s = (if valid_sensor_mode (SensorMode s) then s else s\<lparr>SensorMode := SensorMode1 s\<rparr>)
      in sensor_dispatch adc ip s)"

section \<open>The mode machine\<close>

definition Mode_init :: "u32 \<Rightarrow> firmware \<Rightarrow> firmware" where
  "Mode_init ip s =
     (if has_address ip \<and> HasBit (init_flag_time (PP s)) BIT_10S
      then s\<lparr>PP := (PP s)\<lparr>init_flag_time := ClrBit (init_flag_time (PP s)) BIT_10S\<rparr>, Mode := Mode_Bias\<rparr>
      else if HasBit (init_flag_time (PP s)) BIT_30S
      then s\<lparr>PP := (clear_init_flags (PP s))\<lparr>Led_Cnt_second := 0\<rparr>,
        SensorMode := Sensor_Config, Mode := Mode_Config\<rparr>
      else s)"

definition InitOK :: "firmware \<Rightarrow> firmware" where
  "InitOK s =
     (if HasBit (init_flag_time (PP s)) BIT_30S
      then s\<lparr>PP := clear_init_flags (PP s), Mode := Mode_CreateSession\<rparr> else s)"

definition valid_mode :: "u8 \<Rightarrow> bool" where
  "valid_mode m \<longleftrightarrow> m = Mode_Init \<or> m = Mode_Bias \<or> m = Mode_CreateSession \<or> m = Mode_Config \<or>
     m = Mode_Nomal \<or> m = Mode_Wait"

definition gas_main_cb :: "u32 \<Rightarrow> u16 \<Rightarrow> firmware \<Rightarrow> firmware option" where
  "gas_main_cb ip port s =
     (let s = (if valid_mode (Mode s) then s else s\<lparr>Mode := Mode1 s\<rparr>);
          keep = (\<lambda>s. s\<lparr>Mode1 := Mode s\<rparr>);
          m = Mode s
      in if m = Mode_Init then Some (keep (Mode_init ip s))
         else if m = Mode_Bias then Some (keep (InitOK s))
         else if m = Mode_CreateSession then Some (keep (CheckIpStart s))
         else if m = Mode_Config
         then Some (keep (gas_smartconfig port (s\<lparr>PP := (PP s)\<lparr>Cnt_Minite := 0\<rparr>\<rparr>)))
         else if m = Mode_Nomal then map_option keep (networking s)
         else if m = Mode_Wait then Some (keep s)
         else Some (s\<lparr>Mode := Mode_Init, Cnt_second := 0\<rparr>))"

section \<open>Start-up\<close>

definition default_id :: "u8 list" where
  "default_id = str ''HTFXXXXXXX''"

text \<open>
  \<open>flash\<close> is the content of the SPI flash at the two addresses read, \<open>gpio4\<close> the level of
  the key's pin.
\<close>

definition restore_id :: "startup_config \<Rightarrow> startup_config \<Rightarrow> u8 list" where
  "restore_id c c' =
     (if take 10 (Dev_id c) = take 10 (Dev_id c') \<and> Dev_id c' ! 0 = of_char CHR ''H'' \<and>
         Dev_id c ! 1 = of_char CHR ''T''
      then take 10 (Dev_id c) else default_id)"

definition start_timers :: "sdk list" where
  "start_timers = os_timer_disarm gas_main # restart_main_timer @
     [os_timer_disarm led_main, os_timer_setfn led_main CB_pwmad_cb, os_timer_arm led_main 50 True]"

definition user_init :: "(nat \<Rightarrow> startup_config) \<Rightarrow> bool \<Rightarrow> firmware \<Rightarrow> firmware" where
  "user_init flash gpio4 s =
     (let s = calls [uart_init 9600 9600, system_set_os_print 1, UART_SetPrintPort 0,
                wifi_set_opmode_station] s;
          s = calls [drv_Switch_Init, system_update_cpu_freq 160] (tcpwm_init s);
          s = s\<lparr>PP := (PP s)\<lparr>Cnt_ERROR := 1800\<rparr>, Mode := Mode_Init, SensorMode := Sensor_Init,
                config := flash (0x7C * 4096), configcmp := flash (0x7D * 4096)\<rparr>;
          s = s\<lparr>PP := (PP s)\<lparr>Dev_ID := restore_id (config s) (configcmp s)\<rparr>\<rparr>;
          s = (if gpio4 then s else s\<lparr>SensorMode := Sensor_Test1\<rparr>)
      in calls start_timers s)"

end
