(* ===== verification/Clock.thy ===== *)
theory Clock
  imports MainLoop
begin

text \<open>
  The clock of \<open>time_calcu_cb\<close>: its three counters are the digits of one number of 50 ms
  ticks, and the flags that \<open>networking\<close> turns into heart beats and uploads mark its
  multiples.
\<close>

section \<open>The counters as one number\<close>

definition clock_ok :: "program_para \<Rightarrow> bool" where
  "clock_ok p \<longleftrightarrow> Cnt_Minite p < CNT_MINITE \<and> Cnt_Hour p < CNT_HOUR \<and> Cnt_Day p < CNT_DAY"

definition clock :: "program_para \<Rightarrow> nat" where
  "clock p = unat (Cnt_Minite p) + 2400 * (unat (Cnt_Hour p) + 30 * unat (Cnt_Day p))"

text \<open>Ticks per heart beat, upload and day, by flag.\<close>

definition period_of :: "nat \<Rightarrow> nat" where
  "period_of b = (if b = BIT_MINITE then 2400 else if b = BIT_HOUR then 2400 * 30 else 2400 * 30 * 24)"

lemma u16_succ: "x < n \<Longrightarrow> unat (x + 1 :: u16) = unat x + 1"
  by unat_arith

lemma dvd_digit: "x < a \<Longrightarrow> a dvd x + a * k \<longleftrightarrow> x = (0 :: nat)"
  by (metis add.commute dvd_0_right dvd_add_triv_right_iff dvd_imp_le dvd_triv_left dvd_add_right_iff
      gr0I leD)

lemma dvd_units:
  "72000 dvd n \<Longrightarrow> 2400 dvd (n :: nat)" "1728000 dvd n \<Longrightarrow> 2400 dvd (n :: nat)"
  "1728000 dvd n \<Longrightarrow> 72000 dvd (n :: nat)"
  by (erule dvd_trans [rotated], simp)+

text \<open>One tick, by the digits that carry.\<close>

lemma tick_minite_cases:
  assumes ok: "clock_ok p"
  defines "m \<equiv> unat (Cnt_Minite p)" and "h \<equiv> unat (Cnt_Hour p)" and "d \<equiv> unat (Cnt_Day p)"
  obtains (minite) "m + 1 < 2400" "tick_minite p = p\<lparr>Cnt_Minite := Cnt_Minite p + 1\<rparr>"
    | (hour) "m + 1 = 2400" "h + 1 < 30" "tick_minite p = p\<lparr>Cnt_Minite := 0, Cnt_Hour := Cnt_Hour p + 1,
        flag_Time := SetBit (flag_Time p) BIT_MINITE\<rparr>"
    | (day) "m + 1 = 2400" "h + 1 = 30" "d + 1 < 24" "tick_minite p = p\<lparr>Cnt_Minite := 0, Cnt_Hour := 0,
        Cnt_Day := Cnt_Day p + 1, flag_Time := SetBit (SetBit (flag_Time p) BIT_MINITE) BIT_HOUR\<rparr>"
    | (wrap) "m + 1 = 2400" "h + 1 = 30" "d + 1 = 24" "tick_minite p = p\<lparr>Cnt_Minite := 0, Cnt_Hour := 0,
        Cnt_Day := 0,
        flag_Time := SetBit (SetBit (SetBit (flag_Time p) BIT_MINITE) BIT_HOUR) BIT_DAY\<rparr>"
proof -
  have lt: "Cnt_Minite p < 2400" "Cnt_Hour p < 30" "Cnt_Day p < 24"
    using ok by (simp_all add: clock_ok_def)
  note S = u16_succ [OF lt(1)] u16_succ [OF lt(2)] u16_succ [OF lt(3)]
  have "m < 2400" "h < 30" "d < 24"
    using lt by (simp_all add: m_def h_def d_def word_less_nat_alt)
  then consider "m + 1 < 2400" | "m + 1 = 2400" "h + 1 < 30" | "m + 1 = 2400" "h + 1 = 30" "d + 1 < 24"
    | "m + 1 = 2400" "h + 1 = 30" "d + 1 = 24" by linarith
  then show thesis
  proof cases
    case 1
    then show ?thesis
      by (intro minite) (simp_all add: tick_minite_def Let_def word_le_nat_alt S m_def)
  next
    case 2
    then show ?thesis
      by (intro hour) (simp_all add: tick_minite_def tick_hour_def Let_def word_le_nat_alt S m_def h_def)
  next
    case 3
    then show ?thesis
      by (intro day) (simp_all add: tick_minite_def tick_hour_def tick_day_def Let_def
          word_le_nat_alt S m_def h_def d_def)
  next
    case 4
    then show ?thesis
      by (intro wrap) (simp_all add: tick_minite_def tick_hour_def tick_day_def Let_def
          word_le_nat_alt S m_def h_def d_def)
  qed
qed

lemma clock_units:
  fixes m h d :: nat
  defines "c \<equiv> m + 2400 * (h + 30 * d)"
  shows "m < 2400 \<Longrightarrow> 2400 dvd c \<longleftrightarrow> m = 0"
    and "m = 0 \<Longrightarrow> h < 30 \<Longrightarrow> 72000 dvd c \<longleftrightarrow> h = 0"
    and "m = 0 \<Longrightarrow> h = 0 \<Longrightarrow> d < 24 \<Longrightarrow> 1728000 dvd c \<longleftrightarrow> d = 0"
proof -
  show "m < 2400 \<Longrightarrow> 2400 dvd c \<longleftrightarrow> m = 0" unfolding c_def by (rule dvd_digit)
  show "m = 0 \<Longrightarrow> h < 30 \<Longrightarrow> 72000 dvd c \<longleftrightarrow> h = 0"
    using dvd_digit [of h 30 d] nat_mult_dvd_cancel1 [of 2400 30 "h + 30 * d"] by (simp add: c_def)
  show "m = 0 \<Longrightarrow> h = 0 \<Longrightarrow> d < 24 \<Longrightarrow> 1728000 dvd c \<longleftrightarrow> d = 0"
    using dvd_digit [of d 24 0] nat_mult_dvd_cancel1 [of 72000 24 d] by (simp add: c_def)
qed

lemma clock_step:
  assumes ok: "clock_ok p"
  shows "clock_ok (tick_minite p)"
    and "clock (tick_minite p) = (clock p + 1) mod 1728000"
    and "b \<in> {BIT_MINITE, BIT_HOUR, BIT_DAY} \<Longrightarrow>
      HasBit (flag_Time (tick_minite p)) b \<longleftrightarrow> HasBit (flag_Time p) b \<or> period_of b dvd clock p + 1"
proof -
  have lt: "Cnt_Minite p < 2400" "Cnt_Hour p < 30" "Cnt_Day p < 24"
    using ok by (simp_all add: clock_ok_def)
  note S = u16_succ [OF lt(1)] u16_succ [OF lt(2)] u16_succ [OF lt(3)]
  let ?m = "unat (Cnt_Minite p)" and ?h = "unat (Cnt_Hour p)" and ?d = "unat (Cnt_Day p)"
  have nlt: "?m < 2400" "?h < 30" "?d < 24" using lt by (simp_all add: word_less_nat_alt)
  have "clock_ok (tick_minite p) \<and> clock (tick_minite p) = (clock p + 1) mod 1728000 \<and>
    (\<forall>b \<in> {BIT_MINITE, BIT_HOUR, BIT_DAY}. HasBit (flag_Time (tick_minite p)) b \<longleftrightarrow>
      HasBit (flag_Time p) b \<or> period_of b dvd clock p + 1)"
    using ok
  proof (cases rule: tick_minite_cases)
    case minite
    have c: "clock p + 1 = (?m + 1) + 2400 * (?h + 30 * ?d)" by (simp add: clock_def)
    have "\<not> 2400 dvd clock p + 1" unfolding c clock_units(1) [OF minite(1)] by simp
    then show ?thesis
      using minite lt S nlt dvd_units
      by (auto simp: clock_ok_def clock_def period_of_def word_less_nat_alt)
  next
    case hour
    have c: "clock p + 1 = 0 + 2400 * ((?h + 1) + 30 * ?d)" using hour by (simp add: clock_def)
    have "2400 dvd clock p + 1" unfolding c by (rule clock_units(1) [THEN iffD2]) simp_all
    moreover have "\<not> 72000 dvd clock p + 1" unfolding c using clock_units(2) [of 0 "?h + 1"] hour by simp
    ultimately show ?thesis
      using hour lt S nlt dvd_units(3) c
      by (auto simp: clock_ok_def clock_def period_of_def word_less_nat_alt)
  next
    case day
    have c: "clock p + 1 = 72000 * (?d + 1)" using day by (simp add: clock_def)
    then have "72000 dvd clock p + 1" by (metis dvd_triv_left)
    moreover have "\<not> 1728000 dvd clock p + 1"
      unfolding c using clock_units(3) [of 0 0 "?d + 1"] day by simp
    ultimately show ?thesis
      using day lt S nlt dvd_units(1) c
      by (auto simp: clock_ok_def clock_def period_of_def word_less_nat_alt)
  next
    case wrap
    have c: "clock p + 1 = 1728000" using wrap by (simp add: clock_def)
    then show ?thesis
      using wrap by (auto simp: clock_ok_def period_of_def) (simp add: clock_def)
  qed
  then show "clock_ok (tick_minite p)" "clock (tick_minite p) = (clock p + 1) mod 1728000"
    "b \<in> {BIT_MINITE, BIT_HOUR, BIT_DAY} \<Longrightarrow>
      HasBit (flag_Time (tick_minite p)) b \<longleftrightarrow> HasBit (flag_Time p) b \<or> period_of b dvd clock p + 1"
    by blast+
qed

section \<open>The tick of the firmware\<close>

definition before_minite :: "firmware \<Rightarrow> program_para" where
  "before_minite s = PP (tick_startup (s\<lparr>PP := tick_key (PP s)\<rparr>))"

lemma before_minite_same [simp]:
  "Cnt_Minite (before_minite s) = Cnt_Minite (PP s)" "Cnt_Hour (before_minite s) = Cnt_Hour (PP s)"
  "Cnt_Day (before_minite s) = Cnt_Day (PP s)" "flag_Time (before_minite s) = flag_Time (PP s)"
  by (simp_all add: before_minite_def tick_startup_def tick_key_def Let_def)

lemma time_calcu_cb_same:
  "Cnt_Minite (PP (time_calcu_cb s)) = Cnt_Minite (tick_minite (before_minite s))"
  "Cnt_Hour (PP (time_calcu_cb s)) = Cnt_Hour (tick_minite (before_minite s))"
  "Cnt_Day (PP (time_calcu_cb s)) = Cnt_Day (tick_minite (before_minite s))"
  "flag_Time (PP (time_calcu_cb s)) = flag_Time (tick_minite (before_minite s))"
  by (simp_all add: time_calcu_cb_def smartconfig_timeout_def before_minite_def Let_def)

lemma time_calcu_step:
  assumes ok: "clock_ok (PP s)"
  shows "clock_ok (PP (time_calcu_cb s))"
    and "clock (PP (time_calcu_cb s)) = (clock (PP s) + 1) mod 1728000"
    and "b \<in> {BIT_MINITE, BIT_HOUR, BIT_DAY} \<Longrightarrow> HasBit (flag_Time (PP (time_calcu_cb s))) b \<longleftrightarrow>
      HasBit (flag_Time (PP s)) b \<or> period_of b dvd clock (PP s) + 1"
proof -
  have ok': "clock_ok (before_minite s)" and c: "clock (before_minite s) = clock (PP s)"
    using ok by (simp_all add: clock_ok_def clock_def)
  note step = clock_step [OF ok', unfolded c before_minite_same]
  show "clock_ok (PP (time_calcu_cb s))"
    using step(1) by (simp only: clock_ok_def time_calcu_cb_same)
  show "clock (PP (time_calcu_cb s)) = (clock (PP s) + 1) mod 1728000"
    using step(2) by (simp only: clock_def time_calcu_cb_same)
  show "b \<in> {BIT_MINITE, BIT_HOUR, BIT_DAY} \<Longrightarrow> HasBit (flag_Time (PP (time_calcu_cb s))) b \<longleftrightarrow>
      HasBit (flag_Time (PP s)) b \<or> period_of b dvd clock (PP s) + 1"
    using step(3) by (simp only: time_calcu_cb_same)
qed

lemma dvd_wrap: "u dvd d \<Longrightarrow> u dvd x mod d + 1 \<longleftrightarrow> u dvd x + (1 :: nat)"
proof -
  assume u: "u dvd d"
  have "(x mod d + 1) mod u = (x mod d mod u + 1) mod u" by (rule mod_add_left_eq [symmetric])
  also have "\<dots> = (x + 1) mod u" by (simp only: mod_mod_cancel [OF u] mod_add_left_eq)
  finally show ?thesis by (simp only: dvd_eq_mod_eq_0)
qed

lemma period_dvd_day: "period_of b dvd 1728000"
  by (simp add: period_of_def)

text \<open>
  C21: the clock. After \<open>n\<close> ticks of the 50 ms timer the three counters show the elapsed
  ticks modulo one day (1,728,000 ticks), and each of the three flags is set exactly when it
  was set before or a multiple of its period - two minutes, an hour, a day - has passed.
\<close>

theorem clock_counts_ticks:
  assumes "clock_ok (PP s)"
  shows "clock (PP ((time_calcu_cb ^^ n) s)) = (clock (PP s) + n) mod 1728000 \<and>
    (\<forall>b \<in> {BIT_MINITE, BIT_HOUR, BIT_DAY}. HasBit (flag_Time (PP ((time_calcu_cb ^^ n) s))) b \<longleftrightarrow>
      HasBit (flag_Time (PP s)) b \<or> (\<exists>k. 0 < k \<and> k \<le> n \<and> period_of b dvd clock (PP s) + k))"
proof -
  let ?t = "\<lambda>n. (time_calcu_cb ^^ n) s" and ?c = "clock (PP s)"
  have "clock_ok (PP (?t n)) \<and> clock (PP (?t n)) = (?c + n) mod 1728000 \<and>
    (\<forall>b \<in> {BIT_MINITE, BIT_HOUR, BIT_DAY}. HasBit (flag_Time (PP (?t n))) b \<longleftrightarrow>
      HasBit (flag_Time (PP s)) b \<or> (\<exists>k. 0 < k \<and> k \<le> n \<and> period_of b dvd ?c + k))"
  proof (induction n)
    case 0
    have "?c < 1728000"
      using assms by (simp add: clock_ok_def clock_def word_less_nat_alt)
    then show ?case using assms by simp
  next
    case (Suc n)
    have ok: "clock_ok (PP (?t n))" using Suc by simp
    have "period_of b dvd clock (PP (?t n)) + 1 \<longleftrightarrow> period_of b dvd ?c + Suc n" for b
      using Suc dvd_wrap [OF period_dvd_day, of b "?c + n"] by simp
    moreover have "(\<exists>k. 0 < k \<and> k \<le> Suc n \<and> P k) \<longleftrightarrow> (\<exists>k. 0 < k \<and> k \<le> n \<and> P k) \<or> P (Suc n)" for P
      by (auto simp: le_Suc_eq)
    ultimately show ?case
      using Suc time_calcu_step [OF ok] by (simp add: mod_Suc_eq)
  qed
  then show ?thesis by simp
qed

lemma clock_counts_ticks_witness:
  "clock (PP ((time_calcu_cb ^^ 5000) boot)) = 5000 \<and>
   \<not> HasBit (flag_Time (PP ((time_calcu_cb ^^ 2399) boot))) BIT_MINITE"
proof -
  have ok: "clock_ok (PP boot)" and c: "clock (PP boot) = 0" and f: "flag_Time (PP boot) = 0"
    by (simp_all add: boot_def zero_para_def clock_ok_def clock_def)
  have "\<not> HasBit 0 BIT_MINITE" by (simp add: HasBit_def)
  moreover have "\<not> (\<exists>k. 0 < k \<and> k \<le> 2399 \<and> period_of BIT_MINITE dvd (k :: nat))"
    by (auto simp: period_of_def dest: dvd_imp_le)
  ultimately show ?thesis
    using clock_counts_ticks [OF ok, of 5000] clock_counts_ticks [OF ok, of 2399] by (simp add: c f)
qed

end
