(* ===== verification/Startup.thy ===== *)
theory Startup
  imports Clock MonitorProps
begin

text \<open>
  Properties of the mode machine over time: the start-up sequence, the end of an unanswered
  provisioning, and the state a device without a server stays in.
\<close>

section \<open>Timer ticks\<close>

datatype tick = Led u16 u32 | Main u32 u16

fun do_tick :: "tick \<Rightarrow> firmware \<Rightarrow> firmware option" where
  "do_tick (Led adc ip) s = Some (pwmad_cb adc ip s)"
| "do_tick (Main ip port) s = gas_main_cb ip port s"

fun run_ticks :: "tick list \<Rightarrow> firmware \<Rightarrow> firmware option" where
  "run_ticks [] s = Some s"
| "run_ticks (t # ts) s = do { s \<leftarrow> do_tick t s; run_ticks ts s }"

text \<open>100 ms: two ticks of the LED timer, one of the main timer.\<close>

definition period :: "u32 \<Rightarrow> u16 \<Rightarrow> u16 \<times> u16 \<Rightarrow> tick list" where
  "period ip port = (\<lambda>(adc1, adc2). [Led adc1 ip, Led adc2 ip, Main ip port])"

definition periods :: "u32 \<Rightarrow> u16 \<Rightarrow> (u16 \<times> u16) list \<Rightarrow> tick list" where
  "periods ip port ins = concat (map (period ip port) ins)"

lemma run_ticks_append: "run_ticks (xs @ ys) s = do { s \<leftarrow> run_ticks xs s; run_ticks ys s }"
  by (induction xs arbitrary: s) (auto split: bind_splits)

section \<open>The warm-up\<close>

definition warm :: "nat \<Rightarrow> firmware \<Rightarrow> bool" where
  "warm t s \<longleftrightarrow> SensorMode s = Sensor_Init \<and> Cnt_Minite (PP s) = of_nat t \<and> Led_Cnt_second (PP s) = of_nat t"

text \<open>What one tick does to the fields the mode machine reads.\<close>

lemma tick_startup_other:
  "Mode (tick_startup s) = Mode s" "SensorMode (tick_startup s) = SensorMode s"
  "Cnt_Minite (PP (tick_startup s)) = Cnt_Minite (PP s)"
  "Led_Cnt_second (PP (tick_startup s)) = Led_Cnt_second (PP s)"
  "SubMode (PP (tick_startup s)) = SubMode (PP s)" "trace (tick_startup s) = trace s"
  "WebSocketOK (tick_startup s) = WebSocketOK s" "Status (PP (tick_startup s)) = Status (PP s)"
  "Mode1 (tick_startup s) = Mode1 s" "SensorMode1 (tick_startup s) = SensorMode1 s"
  by (simp_all add: tick_startup_def Let_def)

lemma tick_startup_key:
  "Cnt_second (tick_startup (s\<lparr>PP := tick_key (PP s)\<rparr>)) = Cnt_second (tick_startup s)"
  "Cnt_10second (tick_startup (s\<lparr>PP := tick_key (PP s)\<rparr>)) = Cnt_10second (tick_startup s)"
  "init_flag_time (PP (tick_startup (s\<lparr>PP := tick_key (PP s)\<rparr>))) = init_flag_time (PP (tick_startup s))"
  by (auto simp: tick_startup_def tick_key_def Let_def)

lemma tick_key_other:
  "Cnt_Minite (tick_key p) = Cnt_Minite p" "Led_Cnt_second (tick_key p) = Led_Cnt_second p"
  "SubMode (tick_key p) = SubMode p" "Status (tick_key p) = Status p"
  by (simp_all add: tick_key_def Let_def)

lemma tick_minite_other:
  "Led_Cnt_second (tick_minite p) = Led_Cnt_second p" "SubMode (tick_minite p) = SubMode p"
  "init_flag_time (tick_minite p) = init_flag_time p" "Status (tick_minite p) = Status p"
  by (simp_all add: tick_minite_def tick_hour_def tick_day_def Let_def)

lemma tick_minite_count: "Cnt_Minite p < 2399 \<Longrightarrow> Cnt_Minite (tick_minite p) = Cnt_Minite p + 1"
proof -
  assume "Cnt_Minite p < 2399"
  then have "\<not> 2400 \<le> Cnt_Minite p + 1" by unat_arith
  then show ?thesis by (simp add: tick_minite_def)
qed

text \<open>\<open>time_calcu_cb\<close> before provisioning times out.\<close>

lemma time_calcu_no_timeout:
  assumes "Cnt_Minite (PP s) < 1199 \<or> Cnt_Minite (PP s) < 2399 \<and> SubMode (PP s) = SMARTCONFIG_FINISH"
  shows "time_calcu_cb s =
    (let t = tick_startup (s\<lparr>PP := tick_key (PP s)\<rparr>) in t\<lparr>PP := tick_minite (PP t)\<rparr>)"
proof -
  have lt: "Cnt_Minite (PP s) < 2399" using assms by unat_arith
  have "Cnt_Minite (PP s) < 1199 \<Longrightarrow> \<not> 1200 \<le> Cnt_Minite (PP s) + 1" by unat_arith
  then show ?thesis
    using assms tick_minite_count [of "PP (tick_startup (s\<lparr>PP := tick_key (PP s)\<rparr>))"] lt
    by (auto simp: time_calcu_cb_def smartconfig_timeout_def Let_def tick_startup_other
        tick_key_other tick_minite_other)
qed

lemma time_calcu_fields:
  assumes "Cnt_Minite (PP s) < 1199"
  shows "Cnt_Minite (PP (time_calcu_cb s)) = Cnt_Minite (PP s) + 1"
    and "Led_Cnt_second (PP (time_calcu_cb s)) = Led_Cnt_second (PP s)"
    and "SubMode (PP (time_calcu_cb s)) = SubMode (PP s)" and "Status (PP (time_calcu_cb s)) = Status (PP s)"
    and "init_flag_time (PP (time_calcu_cb s)) = init_flag_time (PP (tick_startup s))"
    and "Cnt_second (time_calcu_cb s) = Cnt_second (tick_startup s)"
    and "Cnt_10second (time_calcu_cb s) = Cnt_10second (tick_startup s)"
    and "Mode (time_calcu_cb s) = Mode s" and "Mode1 (time_calcu_cb s) = Mode1 s"
    and "SensorMode (time_calcu_cb s) = SensorMode s" and "SensorMode1 (time_calcu_cb s) = SensorMode1 s"
    and "WebSocketOK (time_calcu_cb s) = WebSocketOK s" and "trace (time_calcu_cb s) = trace s"
proof -
  have "Cnt_Minite (PP s) < 2399" using assms by unat_arith
  then show "Cnt_Minite (PP (time_calcu_cb s)) = Cnt_Minite (PP s) + 1"
    "Led_Cnt_second (PP (time_calcu_cb s)) = Led_Cnt_second (PP s)"
    "SubMode (PP (time_calcu_cb s)) = SubMode (PP s)" "Status (PP (time_calcu_cb s)) = Status (PP s)"
    "init_flag_time (PP (time_calcu_cb s)) = init_flag_time (PP (tick_startup s))"
    "Cnt_second (time_calcu_cb s) = Cnt_second (tick_startup s)"
    "Cnt_10second (time_calcu_cb s) = Cnt_10second (tick_startup s)"
    "Mode (time_calcu_cb s) = Mode s" "Mode1 (time_calcu_cb s) = Mode1 s"
    "SensorMode (time_calcu_cb s) = SensorMode s" "SensorMode1 (time_calcu_cb s) = SensorMode1 s"
    "WebSocketOK (time_calcu_cb s) = WebSocketOK s" "trace (time_calcu_cb s) = trace s"
    using assms
    by (simp_all add: time_calcu_no_timeout Let_def tick_startup_other tick_startup_key
        tick_key_other tick_minite_other tick_minite_count)
qed

text \<open>One LED tick of the warm-up.\<close>

lemma warm_tick:
  assumes w: "warm t s" and t: "t < 1199"
  shows "warm (t + 1) (pwmad_cb adc ip s)"
    and "SubMode (PP (pwmad_cb adc ip s)) = SubMode (PP s)"
    and "Status (PP (pwmad_cb adc ip s)) = Status (PP s)"
    and "init_flag_time (PP (pwmad_cb adc ip s)) = init_flag_time (PP (tick_startup s))"
    and "Cnt_second (pwmad_cb adc ip s) = Cnt_second (tick_startup s)"
    and "Cnt_10second (pwmad_cb adc ip s) = Cnt_10second (tick_startup s)"
    and "Mode (pwmad_cb adc ip s) = Mode s"
    and "WebSocketOK (pwmad_cb adc ip s) = WebSocketOK s" and "trace (pwmad_cb adc ip s) = trace s"
proof -
  have lt: "Cnt_Minite (PP s) < 1199"
    using w t of_nat_le_u16 [of 1199 t] by (simp add: warm_def not_le [symmetric])
  have led: "\<not> 1800 \<le> (of_nat t + 1 :: u16)"
    using t of_nat_le_u16 [of 1800 "t + 1"] by (simp add: add.commute)
  have e: "pwmad_cb adc ip s = (let u = time_calcu_cb s in u\<lparr>SensorMode1 := Sensor_Init,
      PP := (PP u)\<lparr>Led_Cnt_second := of_nat t + 1\<rparr>\<rparr>)"
    using w led time_calcu_fields [OF lt]
    by (simp add: pwmad_cb_def sensor_dispatch_def Let_def valid_sensor_mode_def warm_def
        led_time_calcu_cb_def)
  show "warm (t + 1) (pwmad_cb adc ip s)" "SubMode (PP (pwmad_cb adc ip s)) = SubMode (PP s)"
    "Status (PP (pwmad_cb adc ip s)) = Status (PP s)"
    "init_flag_time (PP (pwmad_cb adc ip s)) = init_flag_time (PP (tick_startup s))"
    "Cnt_second (pwmad_cb adc ip s) = Cnt_second (tick_startup s)"
    "Cnt_10second (pwmad_cb adc ip s) = Cnt_10second (tick_startup s)"
    "Mode (pwmad_cb adc ip s) = Mode s" "WebSocketOK (pwmad_cb adc ip s) = WebSocketOK s"
    "trace (pwmad_cb adc ip s) = trace s"
    using w time_calcu_fields [OF lt] by (simp_all add: e Let_def warm_def)
qed

section \<open>The start-up sequence\<close>

definition fields :: "firmware \<Rightarrow> u8 \<times> u8 \<times> u8" where
  "fields s = (Cnt_second s, Cnt_10second s, init_flag_time (PP s))"

definition startup_step :: "u8 \<Rightarrow> u8 \<times> u8 \<times> u8 \<Rightarrow> u8 \<times> u8 \<times> u8" where
  "startup_step m = (\<lambda>(c, d, f).
     if 200 \<le> c + 1 \<and> (m = Mode_Init \<or> m = Mode_Bias)
     then (0, if d = 1 then 0 else d + 1,
       if d = 1 then SetBit (SetBit f BIT_10S) BIT_30S else SetBit f BIT_10S)
     else (c + 1, d, f))"

lemma fields_tick: "fields (tick_startup s) = startup_step (Mode s) (fields s)"
  by (simp add: fields_def startup_step_def tick_startup_def Let_def)

lemma startup_counts:
  "c \<le> 196 \<Longrightarrow> startup_step m (startup_step m (of_nat c, d, f)) = (of_nat (c + 2), d, f)"
proof -
  assume c: "c \<le> 196"
  have "\<not> 200 \<le> (of_nat c + 1 :: u8)" "\<not> 200 \<le> (of_nat c + 1 + 1 :: u8)"
    using c of_nat_le_u8 [of 200 "c + 1"] of_nat_le_u8 [of 200 "c + 2"] by (simp_all add: ac_simps)
  then show ?thesis by (simp add: startup_step_def ac_simps)
qed

lemma startup_fires:
  "m = Mode_Init \<or> m = Mode_Bias \<Longrightarrow> startup_step m (startup_step m (198, d, f)) =
    (0, if d = 1 then 0 else d + 1,
     if d = 1 then SetBit (SetBit f BIT_10S) BIT_30S else SetBit f BIT_10S)"
  by (auto simp: startup_step_def)

definition is_lookup :: "sdk \<Rightarrow> bool" where
  "is_lookup e \<longleftrightarrow> e = espconn_gethostbyname websocket_tcp_conn NET_DOMAIN CB_websocket_dns_found"

definition lookups :: "firmware \<Rightarrow> nat" where
  "lookups s = length (filter is_lookup (trace s))"

definition no_session :: "firmware \<Rightarrow> bool" where
  "no_session s \<longleftrightarrow> WebSocketOK s = 0 \<and> \<not> HasBit (Status (PP s)) BIT_HASNET \<and>
     SubMode (PP s) \<noteq> SMARTCONFIG_FINISH"

lemma two_led_ticks:
  fixes adc1 adc2 :: u16 and ip :: u32
  assumes w: "warm (2 * n) s" and n: "n \<le> 598"
  defines "u \<equiv> pwmad_cb adc2 ip (pwmad_cb adc1 ip s)"
  shows "warm (2 * Suc n) u" and "Mode u = Mode s" and "trace u = trace s"
    and "no_session u \<longleftrightarrow> no_session s"
    and "fields u = startup_step (Mode s) (startup_step (Mode s) (fields s))"
proof -
  have t: "2 * n < 1199" "2 * n + 1 < 1199" using n by linarith+
  note a = warm_tick [OF w t(1), of adc1 ip]
  note b = warm_tick [OF a(1) t(2), of adc2 ip]
  show "warm (2 * Suc n) u" using b(1) by (simp add: u_def)
  show "Mode u = Mode s" "trace u = trace s" "no_session u \<longleftrightarrow> no_session s"
    using a b by (simp_all add: u_def no_session_def)
  show "fields u = startup_step (Mode s) (startup_step (Mode s) (fields s))"
    using fields_tick [of s] fields_tick [of "pwmad_cb adc1 ip s"] a b
    by (simp add: u_def fields_def)
qed

text \<open>The state after \<open>n\<close> periods of the start-up, for a station with an address or without.\<close>

definition phase_mode :: "bool \<Rightarrow> nat \<Rightarrow> u8" where
  "phase_mode addr n =
     (if addr then (if n < 100 then Mode_Init else if n < 200 then Mode_Bias else Mode_CreateSession)
      else (if n < 200 then Mode_Init else Mode_Config))"

definition phase_fields :: "bool \<Rightarrow> nat \<Rightarrow> u8 \<times> u8 \<times> u8" where
  "phase_fields addr n =
     (if n < 100 then (of_nat (2 * n), 0, 0)
      else (of_nat (2 * n - 200), 1, if addr then 0 else SetBit 0 BIT_10S))"

definition started :: "bool \<Rightarrow> nat \<Rightarrow> firmware \<Rightarrow> bool" where
  "started addr n s \<longleftrightarrow> warm (2 * n) s \<and> no_session s \<and> Mode s = phase_mode addr n \<and>
     (n < 200 \<longrightarrow> fields s = phase_fields addr n) \<and> lookups s = n - 200"

lemma period_run:
  "run_ticks (period ip port (a, b)) s = gas_main_cb ip port (pwmad_cb b ip (pwmad_cb a ip s))"
  by (simp add: period_def) (cases "gas_main_cb ip port (pwmad_cb b ip (pwmad_cb a ip s))"; simp)

lemma gas_main_starting:
  "Mode s = Mode_Init \<Longrightarrow> gas_main_cb ip port s = Some (let t = Mode_init ip s in t\<lparr>Mode1 := Mode t\<rparr>)"
  "Mode s = Mode_Bias \<Longrightarrow> gas_main_cb ip port s = Some (let t = InitOK s in t\<lparr>Mode1 := Mode t\<rparr>)"
  "Mode s = Mode_CreateSession \<Longrightarrow>
    gas_main_cb ip port s = Some (let t = CheckIpStart s in t\<lparr>Mode1 := Mode t\<rparr>)"
  by (simp_all add: gas_main_cb_def valid_mode_def Let_def)

lemma SetBit_flags [simp]:
  "HasBit 0 p \<longleftrightarrow> False" "ClrBit (SetBit 0 BIT_10S) BIT_10S = 0"
  by (simp_all add: HasBit_def SetBit_def ClrBit_def)

lemma started_step:
  assumes st: "started (ip \<noteq> 0) n s" and n: "n < (if ip \<noteq> 0 then 599 else 199)"
  shows "\<exists>t. run_ticks (period ip port ab) s = Some t \<and> started (ip \<noteq> 0) (Suc n) t"
proof -
  obtain a b where ab: "ab = (a, b)" by (cases ab) auto
  define u where "u = pwmad_cb b ip (pwmad_cb a ip s)"
  have w: "warm (2 * n) s" and "n \<le> 598" using st n by (auto simp: started_def split: if_splits)
  note two = two_led_ticks [OF this, of b ip a, folded u_def]
  have run: "run_ticks (period ip port ab) s = gas_main_cb ip port u"
    by (simp only: ab period_run u_def)
  have u: "warm (2 * Suc n) u" "no_session u" "Mode u = phase_mode (ip \<noteq> 0) n" "lookups u = n - 200"
    using two st by (simp_all add: started_def lookups_def)
  have f: "n < 200 \<Longrightarrow> fields u =
      startup_step (phase_mode (ip \<noteq> 0) n) (startup_step (phase_mode (ip \<noteq> 0) n) (phase_fields (ip \<noteq> 0) n))"
    using two(5) st by (simp add: started_def)
  consider "n < 99" | "n = 99" | "100 \<le> n" "n < 199" | "n = 199" | "200 \<le> n" by linarith
  then show ?thesis
  proof cases
    case 1
    then have "fields u = (of_nat (2 * Suc n), 0, 0)"
      using f startup_counts [of "2 * n"] by (simp add: phase_fields_def)
    then show ?thesis
      using 1 u run by (simp add: gas_main_starting phase_mode_def Mode_init_def fields_def
          started_def phase_fields_def warm_def no_session_def lookups_def)
  next
    case 2
    then have "fields u = (0, 1, SetBit 0 BIT_10S)"
      using f startup_fires [of "phase_mode (ip \<noteq> 0) n" 0 0] by (simp add: phase_fields_def phase_mode_def)
    then show ?thesis
      using 2 u run by (simp add: gas_main_starting phase_mode_def Mode_init_def fields_def
          started_def phase_fields_def warm_def no_session_def lookups_def)
  next
    case 3
    then have "fields u = (of_nat (2 * Suc n - 200), 1, if ip \<noteq> 0 then 0 else SetBit 0 BIT_10S)"
      using f startup_counts [of "2 * n - 200"] by (simp add: phase_fields_def)
    then show ?thesis
      using 3 u run by (simp add: gas_main_starting phase_mode_def Mode_init_def InitOK_def fields_def
          started_def phase_fields_def warm_def no_session_def lookups_def)
  next
    case 4
    then have "init_flag_time (PP u) = SetBit (SetBit (if ip \<noteq> 0 then 0 else SetBit 0 BIT_10S) BIT_10S) BIT_30S"
      using f startup_fires [of "phase_mode (ip \<noteq> 0) n" 1]
      by (simp add: phase_fields_def phase_mode_def fields_def)
    moreover have "ip \<noteq> 0" using 4 n by auto
    ultimately show ?thesis
      using 4 u run n by (simp add: gas_main_starting phase_mode_def InitOK_def
          started_def warm_def no_session_def lookups_def clear_init_flags_def)
  next
    case 5
    then have "ip \<noteq> 0" using n by auto
    then show ?thesis
      using 5 u run by (simp add: gas_main_starting phase_mode_def CheckIpStart_def
          started_def warm_def no_session_def lookups_def is_lookup_def Suc_diff_le)
  qed
qed

section \<open>A device without a server\<close>

definition is_net :: "sdk \<Rightarrow> bool" where
  "is_net e = (case e of espconn_send _ _ \<Rightarrow> True | espconn_sendto _ _ \<Rightarrow> True
     | espconn_connect _ \<Rightarrow> True | espconn_disconnect _ \<Rightarrow> True | espconn_create _ \<Rightarrow> True
     | espconn_gethostbyname _ _ _ \<Rightarrow> True | smartconfig_start _ \<Rightarrow> True
     | wifi_station_connect \<Rightarrow> True | _ \<Rightarrow> False)"

lemma is_net_simps [simp]:
  "\<not> is_net (pwm_set_duty d c)" "\<not> is_net pwm_start" "\<not> is_net (spi_flash_erase_sector n)"
  "\<not> is_net (spi_flash_write n cfg)"
  by (simp_all add: is_net_def)

text \<open>Connected to nothing, with nothing left that would try again.\<close>

definition stuck :: "firmware \<Rightarrow> bool" where
  "stuck s \<longleftrightarrow> Mode s = Mode_Nomal \<and> WebSocketOK s = 0 \<and> \<not> HasBit (Status (PP s)) BIT_HASNET \<and>
     SubMode (PP s) = SMARTCONFIG_FINISH \<and> SensorMode s \<noteq> Sensor_Test1 \<and> SensorMode1 s \<noteq> Sensor_Test1"

definition offline_step :: "firmware \<Rightarrow> firmware \<Rightarrow> bool" where
  "offline_step s t \<longleftrightarrow> stuck t \<and> (\<exists>es. trace t = trace s @ es \<and> (\<forall>e \<in> set es. \<not> is_net e))"

lemma offline_refl: "stuck s \<Longrightarrow> offline_step s s"
  by (simp add: offline_step_def)

lemma offline_trans: "offline_step s t \<Longrightarrow> offline_step t u \<Longrightarrow> offline_step s u"
  by (fastforce simp: offline_step_def)

lemma stuck_time_calcu:
  assumes "stuck s"
  shows "offline_step s (time_calcu_cb s)"
  using assms
  by (auto simp: time_calcu_cb_def smartconfig_timeout_def Let_def tick_startup_other tick_key_other
      tick_minite_other offline_step_def stuck_def)

text \<open>Operations that only touch LEDs, counters, readings and the saved offset.\<close>

definition led_only :: "firmware \<Rightarrow> firmware \<Rightarrow> bool" where
  "led_only s t \<longleftrightarrow> Mode t = Mode s \<and> WebSocketOK t = WebSocketOK s \<and> Status (PP t) = Status (PP s) \<and>
     SubMode (PP t) = SubMode (PP s) \<and> SensorMode1 t = SensorMode1 s \<and>
     (SensorMode t = SensorMode s \<or> SensorMode t = Sensor_Normal) \<and>
     (\<exists>es. trace t = trace s @ es \<and> (\<forall>e \<in> set es. \<not> is_net e))"

lemma led_only_stuck: "led_only s t \<Longrightarrow> stuck s \<Longrightarrow> offline_step s t"
  by (auto simp: led_only_def stuck_def offline_step_def)

lemma led_only_trans: "led_only s t \<Longrightarrow> led_only t u \<Longrightarrow> led_only s u"
  by (fastforce simp: led_only_def)

lemma led_only_warmup: "led_only s (led_time_calcu_cb s)"
  by (simp add: led_time_calcu_cb_def led_only_def Let_def)

lemma led_only_Detect: "led_only s (Detect adc s)"
  by (simp add: Detect_def detect_decide_def detect_count_def clear_warnings_def led_only_def Let_def)

lemma led_only_breathe: "led_only s (breathe s)"
  by (simp add: breathe_def led_only_def Let_def)

lemma led_only_blink:
  "\<forall>e \<in> set on \<union> set off. \<not> is_net e \<Longrightarrow> led_only s (blink on off other s)"
  by (auto simp: blink_def led_only_def Let_def)

lemma led_only_pwmad_run: "led_only s (pwmad_run s)"
proof -
  let ?t = "call (pwm_set_duty DUTYMAX LED_GREEN) s"
  have "led_only s ?t" by (simp add: led_only_def)
  moreover have "led_only ?t (blink [pwm_set_duty DUTYMIN LED_RED] [pwm_set_duty DUTYMAX LED_RED] (dir s) ?t)"
    by (rule led_only_blink) simp
  ultimately have 2: "led_only s (blink [pwm_set_duty DUTYMIN LED_RED] [pwm_set_duty DUTYMAX LED_RED] (dir s) ?t)"
    by (rule led_only_trans)
  have 1: "led_only s (blink [pwm_set_duty 100000 LED_GREEN, pwm_set_duty DUTYMIN LED_RED]
      [pwm_set_duty DUTYMAX LED_GREEN, pwm_set_duty DUTYMAX LED_RED] (dir s) s)"
    by (rule led_only_blink) simp
  have "led_only s s" by (simp add: led_only_def)
  then show ?thesis
    using 1 2 led_only_breathe [of s] by (simp only: pwmad_run_def split: if_split) blast
qed

lemma led_only_led_config: "led_only s (led_config s)"
  unfolding led_config_def by (rule led_only_blink) simp

lemma led_only_led_test: "led_only s (led_test adc s)"
  by (simp add: led_test_def led_test_step_def save_config_def leds_def led_only_def Let_def)

lemma stuck_pwmad_cb:
  assumes s: "stuck s"
  shows "offline_step s (pwmad_cb adc ip s)"
proof -
  define t where "t = time_calcu_cb s"
  define u where "u = (if valid_sensor_mode (SensorMode t) then t else t\<lparr>SensorMode := SensorMode1 t\<rparr>)"
  have "offline_step s t" using stuck_time_calcu [OF s] by (simp add: t_def)
  then have u: "offline_step s u" "stuck u" by (auto simp: u_def offline_step_def stuck_def)
  have keep: "offline_step s (v\<lparr>SensorMode1 := SensorMode v\<rparr>)" if "offline_step s v" for v
    using that by (auto simp: offline_step_def stuck_def)
  have led: "led_only u v \<Longrightarrow> offline_step s v" for v
    using offline_trans [OF u(1) led_only_stuck [OF _ u(2)]] .
  have conn: "led_only u (calls [pwm_set_duty DUTYMIN LED_RED, pwm_start] u)"
    by (simp add: led_only_def)
  have reset: "offline_step s (u\<lparr>SensorMode := Sensor_Init, PP := (PP u)\<lparr>Led_Cnt_second := 0\<rparr>\<rparr>)"
    using u by (auto simp: offline_step_def stuck_def)
  have "offline_step s (sensor_dispatch adc ip u)"
    using u reset led [OF conn] keep [OF led [OF led_only_warmup]]
      keep [OF led [OF led_only_trans [OF led_only_Detect led_only_pwmad_run]]]
      keep [OF led [OF led_only_led_test]] keep [OF led [OF led_only_led_config]]
    by (simp add: sensor_dispatch_def Let_def stuck_def)
  then show ?thesis by (simp only: pwmad_cb_def Let_def u_def t_def)
qed

lemma stuck_gas_main_cb:
  "stuck s \<Longrightarrow> gas_main_cb ip port s = Some (s\<lparr>Mode1 := Mode_Nomal\<rparr>)"
  by (simp add: stuck_def gas_main_cb_def valid_mode_def networking_def net_offline_def Let_def)

lemma stuck_tick:
  assumes "stuck s"
  shows "\<exists>t. do_tick k s = Some t \<and> offline_step s t"
proof (cases k)
  case (Led adc ip)
  then show ?thesis using stuck_pwmad_cb [OF assms] by simp
next
  case (Main ip port)
  then show ?thesis
    using assms stuck_gas_main_cb [OF assms] by (auto simp: offline_step_def stuck_def)
qed

lemma stuck_forever: "stuck s \<Longrightarrow> \<exists>t. run_ticks ks s = Some t \<and> offline_step s t"
proof (induction ks arbitrary: s)
  case Nil
  then show ?case by (simp add: offline_refl)
next
  case (Cons k ks)
  obtain t where t: "do_tick k s = Some t" "offline_step s t" using stuck_tick [OF Cons.prems] by blast
  then have "stuck t" by (simp add: offline_step_def)
  then show ?case using Cons.IH [of t] t offline_trans [of s t] by auto
qed

section \<open>Provisioning gives up\<close>

text \<open>The tick on which \<open>Cnt_Minite\<close> reaches \<open>CNT_60S\<close>.\<close>

lemma timeout_tick:
  assumes "Cnt_Minite (PP s) = 1199" and "SubMode (PP s) \<noteq> SMARTCONFIG_FINISH"
  shows "SensorMode (time_calcu_cb s) = Sensor_Init" and "Mode (time_calcu_cb s) = Mode_Nomal"
    and "SubMode (PP (time_calcu_cb s)) = SMARTCONFIG_FINISH"
    and "WebSocketOK (time_calcu_cb s) = WebSocketOK s"
    and "Status (PP (time_calcu_cb s)) = Status (PP s)"
    and "Led_Cnt_second (PP (time_calcu_cb s)) = 0"
    and "trace (time_calcu_cb s) = trace s @ [smartconfig_stop, pwm_set_duty DUTYMAX LED_RED,
      pwm_set_duty DUTYMAX LED_BLUE, pwm_set_duty DUTYMIN LED_GREEN, pwm_start, os_timer_disarm gas_main] @
      restart_main_timer"
proof -
  have m: "Cnt_Minite (tick_minite p) = 1200" if "Cnt_Minite p = 1199" for p
    using tick_minite_count [of p] that by simp
  show "SensorMode (time_calcu_cb s) = Sensor_Init" "Mode (time_calcu_cb s) = Mode_Nomal"
    "SubMode (PP (time_calcu_cb s)) = SMARTCONFIG_FINISH"
    "WebSocketOK (time_calcu_cb s) = WebSocketOK s" "Status (PP (time_calcu_cb s)) = Status (PP s)"
    "Led_Cnt_second (PP (time_calcu_cb s)) = 0"
    "trace (time_calcu_cb s) = trace s @ [smartconfig_stop, pwm_set_duty DUTYMAX LED_RED,
      pwm_set_duty DUTYMAX LED_BLUE, pwm_set_duty DUTYMIN LED_GREEN, pwm_start, os_timer_disarm gas_main] @
      restart_main_timer"
    using assms by (simp_all add: time_calcu_cb_def smartconfig_timeout_def Let_def m
        tick_startup_other tick_key_other tick_minite_other)
qed

lemma pwmad_cb_init:
  assumes "SensorMode (time_calcu_cb s) = Sensor_Init" and "Led_Cnt_second (PP (time_calcu_cb s)) = 0"
  shows "pwmad_cb adc ip s = (time_calcu_cb s)\<lparr>SensorMode1 := Sensor_Init,
    PP := (PP (time_calcu_cb s))\<lparr>Led_Cnt_second := 1\<rparr>\<rparr>"
proof -
  have "\<not> 1800 \<le> (1 :: u16)" by (simp add: word_le_nat_alt)
  then show ?thesis
    using assms
    by (simp add: pwmad_cb_def sensor_dispatch_def valid_sensor_mode_def led_time_calcu_cb_def Let_def)
qed

lemma timeout_stuck:
  assumes w: "warm 1199 s" and n: "no_session s"
  shows "stuck (pwmad_cb adc ip s)"
proof -
  have "Cnt_Minite (PP s) = 1199" "SubMode (PP s) \<noteq> SMARTCONFIG_FINISH"
    using w n by (simp_all add: warm_def no_session_def)
  note t = timeout_tick [OF this]
  show ?thesis
    using n t by (simp add: pwmad_cb_init stuck_def no_session_def)
qed

lemma started_timeout:
  assumes st: "started True 599 s"
  shows "\<exists>t. run_ticks (period ip port (a, b)) s = Some t \<and> stuck t"
proof -
  have w: "warm 1198 s" and n: "no_session s" using st by (simp_all add: started_def)
  note t = warm_tick [OF w, of a ip, simplified]
  have "no_session (pwmad_cb a ip s)" using n t by (simp add: no_session_def)
  then have "stuck (pwmad_cb b ip (pwmad_cb a ip s))" using timeout_stuck t(1) by simp
  then show ?thesis
    unfolding period_run using stuck_gas_main_cb by (auto simp: stuck_def)
qed

text \<open>Provisioning that makes no progress: \<open>k\<close> ticks after it was started.\<close>

definition configuring :: "nat \<Rightarrow> firmware \<Rightarrow> bool" where
  "configuring k s \<longleftrightarrow> Cnt_Minite (PP s) = of_nat k \<and> SubMode (PP s) = SMARTCONFIG_START \<and>
     SensorMode s = Sensor_Config \<and> Mode s = Mode_Config"

lemma led_config_same:
  "SensorMode (led_config s) = SensorMode s" "Mode (led_config s) = Mode s"
  "SubMode (PP (led_config s)) = SubMode (PP s)" "Cnt_Minite (PP (led_config s)) = Cnt_Minite (PP s)"
  by (simp_all add: led_config_def blink_def Let_def)

lemma configuring_tick:
  assumes c: "configuring k s" and k: "k < 1199"
  shows "configuring (Suc k) (pwmad_cb adc ip s)"
proof -
  have lt: "Cnt_Minite (PP s) < 1199"
    using c k of_nat_le_u16 [of 1199 k] by (simp add: configuring_def not_le [symmetric])
  have "(of_nat (Suc k) :: u16) = of_nat k + 1" by (simp add: add.commute)
  then show ?thesis
    using c time_calcu_fields [OF lt]
    by (simp add: configuring_def pwmad_cb_def sensor_dispatch_def valid_sensor_mode_def
        led_config_same Let_def del: of_nat_Suc)
qed

lemma configuring_run:
  "configuring 0 s \<Longrightarrow> length ins < 1200 \<Longrightarrow>
   configuring (length ins) (fold (\<lambda>(adc, ip). pwmad_cb adc ip) ins s)"
  by (induction ins rule: rev_induct) (auto intro: configuring_tick)

section \<open>Properties of the start-up\<close>

lemma started_user_init:
  "started addr 0 (user_init flash True boot)"
  by (simp add: started_def user_init_def tcpwm_init_def start_timers_def restart_main_timer_def
      boot_def zero_para_def warm_def no_session_def phase_mode_def phase_fields_def fields_def
      lookups_def is_lookup_def Let_def)

lemma started_run:
  assumes "length ins \<le> (if ip \<noteq> 0 then 599 else 199)"
  shows "\<exists>t. run_ticks (periods ip port ins) (user_init flash True boot) = Some t \<and>
    started (ip \<noteq> 0) (length ins) t"
  using assms
proof (induction ins rule: rev_induct)
  case Nil
  then show ?case using started_user_init by (simp add: periods_def)
next
  case (snoc x ins)
  then obtain t where t: "run_ticks (periods ip port ins) (user_init flash True boot) = Some t"
      "started (ip \<noteq> 0) (length ins) t" by (auto split: if_splits)
  then show ?case
    using started_step [OF t(2), of port x] snoc.prems
    by (auto simp: periods_def run_ticks_append split: if_splits)
qed

text \<open>
  The start-up sequence. A device that starts with the key released and the station
  connected stays 10 s in \<open>Mode_Init\<close> and 10 s in \<open>Mode_Bias\<close>; then, until something else
  changes the mode, it looks the server up anew in every 100 ms, at least up to 59.9 s. Without
  an address it stays in \<open>Mode_Init\<close>.
\<close>

theorem startup_sequence:
  assumes "length ins \<le> (if ip \<noteq> 0 then 599 else 199)"
  shows "\<exists>t. run_ticks (periods ip port ins) (user_init flash True boot) = Some t \<and>
    Mode t = (if ip = 0 \<or> length ins < 100 then Mode_Init
              else if length ins < 200 then Mode_Bias else Mode_CreateSession) \<and>
    lookups t = length ins - 200"
  using started_run [OF assms] assms by (fastforce simp: started_def phase_mode_def split: if_splits)

lemma startup_sequence_witness:
  "\<exists>t. run_ticks (periods 1 0 (replicate 250 (0, 0))) (user_init (\<lambda>_. zero_config) True boot) = Some t \<and>
    Mode t = Mode_CreateSession \<and> lookups t = 50"
  using startup_sequence [of "replicate 250 (0, 0)" 1 0 "\<lambda>_. zero_config"] by simp

text \<open>
  C10: a device that misses its first minute never tries again. If no callback opens a session
  in the 600 periods (60 s) after the start, the provisioning time-out puts the device, which
  was not being provisioned, into \<open>Mode_Nomal\<close>; from then on no sequence of timer ticks,
  however long, changes the mode or makes a single call to look up, connect or send.
\<close>

theorem missed_minute_is_final:
  assumes "ip \<noteq> 0" and "length ins = 600"
  shows "\<exists>t u es. run_ticks (periods ip port ins) (user_init flash True boot) = Some t \<and>
    run_ticks ks t = Some u \<and> Mode u = Mode_Nomal \<and> WebSocketOK u = 0 \<and>
    trace u = trace t @ es \<and> (\<forall>e \<in> set es. \<not> is_net e)"
proof -
  obtain ins' x where ins: "ins = ins' @ [x]" "length ins' = 599"
    using assms(2) by (cases ins rule: rev_cases) auto
  obtain r where r: "run_ticks (periods ip port ins') (user_init flash True boot) = Some r"
      "started True 599 r"
    using started_run [of ins' ip port flash] ins assms(1) by auto
  obtain t where t: "run_ticks (period ip port x) r = Some t" "stuck t"
    using started_timeout [OF r(2)] by (cases x) blast
  have "run_ticks (periods ip port ins) (user_init flash True boot) = Some t"
    using r(1) t(1) by (simp add: ins(1) periods_def run_ticks_append)
  then show ?thesis
    using stuck_forever [OF t(2), of ks] by (auto simp: offline_step_def stuck_def)
qed

lemma missed_minute_is_final_witness:
  "\<exists>t u. run_ticks (periods 1 0 (replicate 600 (0, 0))) (user_init (\<lambda>_. zero_config) True boot) = Some t \<and>
    run_ticks (replicate 1000 (Main 1 0)) t = Some u \<and> Mode u = Mode_Nomal"
  using missed_minute_is_final [of 1 "replicate 600 (0, 0)" 0 "\<lambda>_. zero_config" "replicate 1000 (Main 1 0)"]
  by auto

text \<open>
  C22: provisioning takes one minute. After the tick of the main timer that starts it, the
  device stays in the provisioning modes for 1199 ticks of the 50 ms timer without progress;
  the 1200th stops it, switches both machines to normal operation and restarts the main timer.
\<close>

theorem provisioning_times_out:
  assumes "Mode s = Mode_Config"
  shows "\<exists>t. gas_main_cb ip port s = Some t \<and> smartconfig_start CB_smartconfig_done \<in> set (trace t) \<and>
    (\<forall>ins. length ins < 1200 \<longrightarrow>
      Mode (fold (\<lambda>(adc, ip). pwmad_cb adc ip) ins t) = Mode_Config \<and>
      SensorMode (fold (\<lambda>(adc, ip). pwmad_cb adc ip) ins t) = Sensor_Config) \<and>
    (\<forall>ins. length ins = 1200 \<longrightarrow>
      Mode (fold (\<lambda>(adc, ip). pwmad_cb adc ip) ins t) = Mode_Nomal \<and>
      SensorMode (fold (\<lambda>(adc, ip). pwmad_cb adc ip) ins t) = Sensor_Init \<and>
      {smartconfig_stop, os_timer_arm gas_main 100 True} \<subseteq>
        set (trace (fold (\<lambda>(adc, ip). pwmad_cb adc ip) ins t)))"
proof -
  let ?run = "fold (\<lambda>(adc, ip). pwmad_cb adc ip)"
  let ?t = "(gas_smartconfig port (s\<lparr>PP := (PP s)\<lparr>Cnt_Minite := 0\<rparr>\<rparr>))\<lparr>Mode1 := Mode_Config\<rparr>"
  have t: "gas_main_cb ip port s = Some ?t" "smartconfig_start CB_smartconfig_done \<in> set (trace ?t)"
    and c: "configuring 0 ?t"
    using assms by (simp_all add: gas_main_cb_def valid_mode_def gas_smartconfig_def upd_conn_def
        clear_init_flags_def configuring_def Let_def)
  have "Mode (?run ins ?t) = Mode_Nomal \<and> SensorMode (?run ins ?t) = Sensor_Init \<and>
      {smartconfig_stop, os_timer_arm gas_main 100 True} \<subseteq> set (trace (?run ins ?t))"
    if ins: "length ins = 1200" for ins
  proof -
    obtain ins' a i where i: "ins = ins' @ [(a, i)]" "length ins' = 1199"
      using ins by (cases ins rule: rev_cases) auto
    then have "configuring 1199 (?run ins' ?t)" using configuring_run [OF c, of ins'] by simp
    then have "Cnt_Minite (PP (?run ins' ?t)) = 1199" "SubMode (PP (?run ins' ?t)) \<noteq> SMARTCONFIG_FINISH"
      by (simp_all add: configuring_def)
    note timeout_tick [OF this]
    then show ?thesis by (simp add: i(1) pwmad_cb_init restart_main_timer_def)
  qed
  then show ?thesis
    using t configuring_run [OF c] by (fastforce simp: configuring_def)
qed

lemma provisioning_times_out_witness:
  "\<exists>t. gas_main_cb 0 5 (boot\<lparr>Mode := Mode_Config\<rparr>) = Some t \<and>
    Mode (fold (\<lambda>(adc, ip). pwmad_cb adc ip) (replicate 1200 (0, 0)) t) = Mode_Nomal"
  using provisioning_times_out [of "boot\<lparr>Mode := Mode_Config\<rparr>" 0 5]
  by (auto dest!: spec [of _ "replicate 1200 (0, 0)"])

end
