(* ===== verification/Sensor.thy ===== *)
theory Sensor
  imports MainLoop
begin

text \<open>
  Properties of the sensor half of \<open>user_main.c\<close>: the alarm decision of \<open>Detect\<close>, the
  breathing LED of \<open>pwmad_run\<close>, the calibration \<open>led_test\<close> and the self-test \<open>led_test1\<close>.
\<close>

section \<open>The alarm decision\<close>

text \<open>A reading above the calibrated offset, as a number.\<close>

definition reading :: "firmware \<Rightarrow> u16 \<Rightarrow> nat" where
  "reading s adc = unat adc - unat (adoffset (config s))"

definition level :: "nat \<Rightarrow> nat" where
  "level v = (if v \<le> 300 then 0 else if v \<le> 600 then 1 else 2)"

definition votes :: "nat \<Rightarrow> nat list \<Rightarrow> nat" where
  "votes k vs = length (filter (\<lambda>v. level v = k) vs)"

text \<open>The last reading of a level.\<close>

definition last_of :: "nat \<Rightarrow> nat list \<Rightarrow> u32 \<Rightarrow> u32" where
  "last_of k vs old = (case filter (\<lambda>v. level v = k) (rev vs) of [] \<Rightarrow> old | v # _ \<Rightarrow> of_nat v)"

definition winner :: "nat list \<Rightarrow> nat option" where
  "winner vs = find (\<lambda>k. 7 \<le> votes k vs) [0, 1, 2]"

lemma votes_snoc [simp]: "votes k [] = 0" "votes k (vs @ [v]) = votes k vs + (if level v = k then 1 else 0)"
  by (simp_all add: votes_def)

lemma last_of_snoc [simp]:
  "last_of k [] old = old" "last_of k (vs @ [v]) old = (if level v = k then of_nat v else last_of k vs old)"
  by (simp_all add: last_of_def)

lemma detect_sample_reading:
  assumes "unat (adoffset (config s)) < 2 ^ 31"
  shows "detect_sample adc s = of_nat (reading s adc)"
proof -
  let ?a = "ucast adc :: u32" and ?o = "adoffset (config s)"
  have a: "unat ?a < 2 ^ 31"
    using less_trans [OF unsigned_less [of adc, where ?'a = nat], of "2 ^ 31"] by simp
  show ?thesis
  proof (cases "?o \<le> ?a")
    case True
    then have u: "unat (?a - ?o) = reading s adc" by (simp add: unat_sub reading_def)
    then have "sint (?a - ?o) = int (reading s adc)"
      using a by (subst sint_nonneg) (simp_all add: reading_def)
    moreover have "?a - ?o = of_nat (reading s adc)" by (simp add: u [symmetric])
    ultimately show ?thesis by (simp add: detect_sample_def Let_def)
  next
    case False
    then have lt: "unat adc < unat ?o" by (simp add: word_le_nat_alt)
    then have "unat (?a - ?o) = unat adc + 2 ^ 32 - unat ?o"
      by (simp add: unat_sub_if_size word_size)
    then have "sint (?a - ?o) < 0"
      using assms lt by (intro sint_neg(2)) simp
    then show ?thesis using lt by (simp add: detect_sample_def Let_def reading_def)
  qed
qed

definition counting :: "firmware \<Rightarrow> nat list \<Rightarrow> firmware \<Rightarrow> bool" where
  "counting s vs t \<longleftrightarrow> config t = config s \<and> flag_Alarm (PP t) = flag_Alarm (PP s) \<and>
     PPM_Updata (PP t) = PPM_Updata (PP s) \<and> Cnt_Warning3 (PP t) = of_nat (length vs) \<and>
     Cnt_Warning0 (PP t) = of_nat (votes 0 vs) \<and> Cnt_Warning1 (PP t) = of_nat (votes 1 vs) \<and>
     Cnt_Warning2 (PP t) = of_nat (votes 2 vs) \<and>
     PPM_Updata0 (PP t) = last_of 0 vs (PPM_Updata0 (PP s)) \<and>
     PPM_Updata1 (PP t) = last_of 1 vs (PPM_Updata1 (PP s)) \<and>
     PPM_Updata2 (PP t) = last_of 2 vs (PPM_Updata2 (PP s)) \<and> trace t = trace s"

definition detect_start :: "firmware \<Rightarrow> bool" where
  "detect_start s \<longleftrightarrow> unat (adoffset (config s)) < 2 ^ 31 \<and> Cnt_Warning3 (PP s) = 0 \<and>
     Cnt_Warning0 (PP s) = 0 \<and> Cnt_Warning1 (PP s) = 0 \<and> Cnt_Warning2 (PP s) = 0"

lemma reading_small: "reading s adc < 65536"
  using unsigned_less [of adc, where ?'a = nat] by (simp add: reading_def)

lemma detect_count_level:
  assumes "v < 65536" and "PPM_H p = of_nat v"
  shows "detect_count p =
    (if level v = 0 then p\<lparr>Cnt_Warning0 := Cnt_Warning0 p + 1, PPM_Updata0 := of_nat v\<rparr>
     else if level v = 1 then p\<lparr>Cnt_Warning1 := Cnt_Warning1 p + 1, PPM_Updata1 := of_nat v\<rparr>
     else p\<lparr>Cnt_Warning2 := Cnt_Warning2 p + 1, PPM_Updata2 := of_nat v\<rparr>)"
proof -
  note le = of_nat_le_u32 [OF assms(1), of 300, simplified] of_nat_le_u32 [OF assms(1), of 600, simplified]
  have lt: "300 < (of_nat v :: u32) \<longleftrightarrow> 300 < v" "600 < (of_nat v :: u32) \<longleftrightarrow> 600 < v"
    using le by (simp_all add: not_le [symmetric])
  consider "v \<le> 300" | "300 < v" "v \<le> 600" | "600 < v" by linarith
  then show ?thesis
    by cases (simp_all add: detect_count_def assms(2) level_def le lt)
qed

lemma detect_counting_step:
  assumes c: "counting s vs t" and len: "length vs < 10" and off: "unat (adoffset (config s)) < 2 ^ 31"
  shows "counting s (vs @ [reading s adc]) (Detect adc t)"
proof -
  let ?v = "reading s adc"
  have r: "reading t adc = ?v" using c by (simp add: counting_def reading_def)
  have h: "detect_sample adc t = of_nat ?v"
    using detect_sample_reading [of t adc] c off by (simp add: counting_def r)
  have "of_nat (length vs) + 1 \<le> (10 :: u8)"
    using len of_nat_le_u8 [of "Suc (length vs)" 10] by (simp add: add.commute)
  then have "Detect adc t = t\<lparr>PP := detect_count ((PP t)\<lparr>PPM_H := of_nat ?v, Cnt_Warning3 := of_nat (length vs) + 1\<rparr>)\<rparr>"
    using c by (simp add: Detect_def Let_def h counting_def)
  then show ?thesis
    using c reading_small [of s adc]
    by (simp add: counting_def detect_count_level) (simp add: level_def)
qed

lemma detect_counting:
  assumes "detect_start s" and "length adcs \<le> 10"
  shows "counting s (map (reading s) adcs) (fold Detect adcs s)"
  using assms
proof (induction adcs rule: rev_induct)
  case Nil
  then show ?case by (simp add: counting_def detect_start_def)
next
  case (snoc adc adcs)
  then show ?case
    using detect_counting_step [of s "map (reading s) adcs" "fold Detect adcs s" adc]
    by (simp add: detect_start_def)
qed

text \<open>The last reading of the level that won.\<close>

definition winning_reading :: "nat \<Rightarrow> nat list \<Rightarrow> nat" where
  "winning_reading k vs = last (filter (\<lambda>v. level v = k) vs)"

lemma last_of_winning: "0 < votes k vs \<Longrightarrow> last_of k vs old = of_nat (winning_reading k vs)"
proof (induction vs rule: rev_induct)
  case (snoc v vs)
  then show ?case by (cases "level v = k") (auto simp: winning_reading_def)
qed simp

lemma scaled_reading: "v < 65536 \<Longrightarrow> (of_nat v :: u32) * 5 div 10 = of_nat (v * 5 div 10)"
proof -
  assume v: "v < 65536"
  have "unat ((of_nat v :: u32) * 5) = v * 5"
    using v by (simp add: unat_word_ariths unat_of_nat)
  then show ?thesis by (simp only: word_arith_nat_div [of "of_nat v * 5"]) simp
qed

lemma winning_reading_small:
  "\<forall>v \<in> set vs. v < 65536 \<Longrightarrow> 0 < votes k vs \<Longrightarrow> winning_reading k vs < 65536"
  using last_in_set [of "filter (\<lambda>v. level v = k) vs"] by (auto simp: votes_def winning_reading_def)

text \<open>
  C20: the alarm is a majority decision. From the start of a round, ten samples and one more
  call set the alarm level, and the value to upload, to the level and half the last reading
  of the level that at least seven of the ten readings lie in (up to 300, up to 600, above);
  without such a level both keep their values. The next round starts afresh.
\<close>

theorem Detect_majority:
  assumes start: "detect_start s" and ten: "length adcs = 10"
  shows "detect_start (fold Detect (adcs @ [adc]) s) \<and>
    (case winner (map (reading s) adcs) of
       None \<Rightarrow> flag_Alarm (PP (fold Detect (adcs @ [adc]) s)) = flag_Alarm (PP s) \<and>
         PPM_Updata (PP (fold Detect (adcs @ [adc]) s)) = PPM_Updata (PP s)
     | Some k \<Rightarrow> flag_Alarm (PP (fold Detect (adcs @ [adc]) s)) = of_nat k \<and>
         PPM_Updata (PP (fold Detect (adcs @ [adc]) s)) =
           of_nat (winning_reading k (map (reading s) adcs) * 5 div 10))"
proof -
  let ?vs = "map (reading s) adcs" and ?t = "fold Detect adcs s"
  have c: "counting s ?vs ?t" using detect_counting [OF start] ten by simp
  have small: "\<forall>v \<in> set ?vs. v < 65536" using reading_small by auto
  have seven: "7 \<le> (of_nat (votes k ?vs) :: u8) \<longleftrightarrow> 7 \<le> votes k ?vs" for k
    using length_filter_le [of _ ?vs] ten of_nat_le_u8 [of 7 "votes k ?vs"]
    by (simp add: votes_def order_le_less_trans [of _ 10])
  have last: "7 \<le> votes k ?vs \<Longrightarrow>
      last_of k ?vs old * 5 div 10 = of_nat (winning_reading k ?vs * 5 div 10)" for k old
    using winning_reading_small [OF small, of k] by (simp add: last_of_winning scaled_reading)
  have "Detect adc ?t = (let u = detect_decide (?t\<lparr>PP := (PP ?t)\<lparr>PPM_H := detect_sample adc ?t, Cnt_Warning3 := 0\<rparr>\<rparr>)
      in u\<lparr>PP := clear_warnings (PP u)\<rparr>)"
    using c ten by (simp add: Detect_def Let_def counting_def)
  then show ?thesis
    using c start seven last
    by (auto simp: Let_def detect_decide_def counting_def winner_def detect_start_def clear_warnings_def)
qed

lemma Detect_majority_witness:
  "flag_Alarm (PP (fold Detect ([700, 650, 90, 800, 900, 10, 701, 702, 703, 704] @ [0]) boot)) = 2"
proof -
  have "reading boot a = unat a" for a by (simp add: reading_def boot_def zero_config_def)
  then have w: "winner (map (reading boot) [700, 650, 90, 800, 900, 10, 701, 702, 703, 704]) = Some 2"
    by (simp add: winner_def votes_def level_def)
  have "detect_start boot" by (simp add: detect_start_def boot_def zero_config_def zero_para_def)
  from Detect_majority [OF this, of "[700, 650, 90, 800, 900, 10, 701, 702, 703, 704]" 0]
  show ?thesis unfolding w by simp
qed

section \<open>The breathing LED\<close>

text \<open>Half a breath is 51 steps of 4440.\<close>

definition wave :: "nat \<Rightarrow> nat" where
  "wave n = (let k = n mod 102 in if k \<le> 51 then 4440 * k else 4440 * (102 - k))"

definition breathing :: "nat \<Rightarrow> firmware \<Rightarrow> bool" where
  "breathing n s \<longleftrightarrow> greenpwm_duty s = of_nat (wave n) \<and> dir s = (if n mod 102 < 51 then 1 else 0)"

lemma sint_of_nat_small: "n < 2 ^ 31 \<Longrightarrow> sint (of_nat n :: u32) = int n"
  by (subst sint_nonneg) (simp_all add: unat_of_nat)

lemma breathing_step:
  assumes "breathing n s"
  shows "breathing (Suc n) (breathe s)"
proof -
  define k where "k = n mod 102"
  have k: "k < 102" by (simp add: k_def)
  have S: "Suc n mod 102 = (if k = 101 then 0 else Suc k)" by (simp add: k_def mod_Suc)
  show ?thesis
  proof (cases "k < 51")
    case True
    have "4440 * of_nat k + 4440 = (of_nat (4440 * Suc k) :: u32)" by (simp add: algebra_simps)
    moreover have "sint (of_nat (4440 * Suc k) :: u32) = int (4440 * Suc k)"
      using True by (intro sint_of_nat_small) simp
    ultimately show ?thesis
      using True assms
      by (auto simp: breathing_def breathe_def wave_def Let_def S add.commute simp flip: k_def)
  next
    case False
    have "of_nat (4440 * (102 - k)) - 4440 = (of_nat (4440 * (101 - k)) :: u32)"
    proof -
      have "102 - k = Suc (101 - k)" using k by simp
      then show ?thesis by (simp add: algebra_simps)
    qed
    moreover have "sint (of_nat (4440 * (101 - k)) :: u32) = int (4440 * (101 - k))"
      by (intro sint_of_nat_small) simp
    ultimately show ?thesis
      using False k assms by (auto simp: breathing_def breathe_def wave_def Let_def S simp flip: k_def)
  qed
qed

lemma breathing_run: "breathing 0 s \<Longrightarrow> breathing n ((breathe ^^ n) s)"
  by (induction n) (simp_all add: breathing_step)

lemma wave_bound: "wave n \<le> 226440"
proof -
  have "n mod 102 < 102" by simp
  then show ?thesis by (auto simp: wave_def Let_def not_le)
qed

text \<open>
  The breathing LED. Started dark and rising, the duty after \<open>n\<close> ticks without an alarm
  is a triangle wave of 102 ticks: it stays between 0 and 226440, and at the top of every
  breath it is 226440, above the \<open>DUTYMAX\<close> of 222222 that the code means as its limit.
\<close>

theorem breathing_wave:
  assumes "greenpwm_duty s = 0" and "dir s = 1"
  shows "greenpwm_duty ((breathe ^^ n) s) = of_nat (wave n) \<and>
    0 \<le> sint (greenpwm_duty ((breathe ^^ n) s)) \<and> sint (greenpwm_duty ((breathe ^^ n) s)) \<le> 226440 \<and>
    (n mod 102 = 51 \<longrightarrow> sint DUTYMAX < sint (greenpwm_duty ((breathe ^^ n) s)))"
proof -
  have "breathing 0 s" using assms by (simp add: breathing_def wave_def)
  then have w: "greenpwm_duty ((breathe ^^ n) s) = of_nat (wave n)"
    using breathing_run by (simp add: breathing_def)
  have i: "sint (of_nat (wave n) :: u32) = int (wave n)"
    using wave_bound [of n] by (intro sint_of_nat_small) simp
  show ?thesis unfolding w i using wave_bound [of n] by (auto simp: wave_def)
qed

lemma breathing_wave_witness:
  "greenpwm_duty ((breathe ^^ 51) boot) = 226440 \<and> sint DUTYMAX < sint (greenpwm_duty ((breathe ^^ 51) boot))"
proof -
  have "greenpwm_duty boot = 0" "dir boot = 1" by (simp_all add: boot_def)
  from breathing_wave [OF this, of 51] show ?thesis by (simp add: wave_def)
qed

section \<open>Calibration and self-test\<close>

text \<open>
  Both run one step of a small state machine on every 21st call of the 50 ms timer. The
  interface: a counter with its update, the step, and the way the code combines them.
\<close>

locale divided_timer =
  fixes tick :: "'a \<Rightarrow> firmware \<Rightarrow> firmware" and phase :: "'a \<Rightarrow> firmware \<Rightarrow> firmware"
    and cnt :: "firmware \<Rightarrow> u8" and set_cnt :: "u8 \<Rightarrow> firmware \<Rightarrow> firmware"
  assumes tick: "tick a s = (let s = set_cnt (cnt s + 1) s
      in if 20 < cnt s then call pwm_start (phase a (set_cnt 0 s)) else s)"
    and cnt_set: "cnt (set_cnt c s) = c"
    and set_set: "set_cnt c (set_cnt d s) = set_cnt c s"
    and set_same: "cnt s = c \<Longrightarrow> set_cnt c s = s"
    and cnt_phase: "cnt (call pwm_start (phase a s)) = cnt s"
begin

lemma waiting: "length as \<le> 20 \<Longrightarrow> cnt s = 0 \<Longrightarrow> fold tick as s = set_cnt (of_nat (length as)) s"
proof (induction as rule: rev_induct)
  case Nil
  then show ?case by (simp add: set_same)
next
  case (snoc a as)
  have "\<not> 20 < (of_nat (length as) + 1 :: u8)"
    using snoc.prems of_nat_le_u8 [of "Suc (length as)" 20] by (simp add: not_less add.commute)
  then show ?case using snoc by (simp add: tick cnt_set set_set Let_def add.commute)
qed

lemma one_phase:
  assumes "length as = 21" and "cnt s = 0"
  shows "fold tick as s = call pwm_start (phase (last as) s)"
proof -
  have "as = butlast as @ [last as]" "length (butlast as) = 20"
    using assms by (cases as rule: rev_cases; simp)+
  then have "fold tick as s = tick (last as) (set_cnt 20 s)"
    using waiting [of "butlast as" s] assms by (metis fold_append comp_apply fold_simps(1,2)
        of_nat_numeral order_refl)
  then show ?thesis
    using assms by (simp add: tick cnt_set set_set set_same Let_def)
qed

lemma phases:
  "\<forall>as \<in> set ass. length as = 21 \<Longrightarrow> cnt s = 0 \<Longrightarrow>
   fold tick (concat ass) s = fold (\<lambda>as s. call pwm_start (phase (last as) s)) ass s"
proof (induction ass arbitrary: s)
  case (Cons as ass)
  have "fold tick as s = call pwm_start (phase (last as) s)"
    using one_phase Cons.prems by simp
  moreover have "cnt (call pwm_start (phase (last as) s)) = 0" using Cons.prems cnt_phase by simp
  ultimately show ?case using Cons by simp
qed simp

end

lemma cnt_led_test_step: "led_test_i (led_test_step a s) = led_test_i s"
  by (simp add: led_test_step_def save_config_def Let_def)

lemma cnt_led_test1_step: "led_test1_i (led_test1_step a ip s) = led_test1_i s"
  by (simp add: led_test1_step_def led_test1_sample_def save_config_def connect_test_wifi_def
      CheckIpStart_def Let_def)

interpretation calibration: divided_timer led_test led_test_step led_test_i "\<lambda>c s. s\<lparr>led_test_i := c\<rparr>"
  by unfold_locales (auto simp: led_test_def Let_def cnt_led_test_step)

interpretation selftest: divided_timer "\<lambda>a. led_test1 a ip" "\<lambda>a. led_test1_step a ip" led_test1_i
    "\<lambda>c s. s\<lparr>led_test1_i := c\<rparr>"
  by unfold_locales (auto simp: led_test1_def Let_def cnt_led_test1_step)

lemma chunks:
  "length as = n * k \<Longrightarrow> \<exists>ass. as = concat ass \<and> length ass = n \<and> (\<forall>a \<in> set ass. length a = k)"
proof (induction n arbitrary: as)
  case (Suc n)
  obtain ass where a: "drop k as = concat ass" "length ass = n" "\<forall>a \<in> set ass. length a = k"
    using Suc.IH [of "drop k as"] Suc.prems by auto
  have "as = take k as @ drop k as" by simp
  also have "\<dots> = concat (take k as # ass)" unfolding a(1) by simp
  finally show ?case
    using a Suc.prems by (intro exI [of _ "take k as # ass"]) simp
qed simp

lemma length_4: "length xs = 4 \<Longrightarrow> \<exists>a b c d. xs = [a, b, c, d]"
  by (auto simp: numeral_eq_Suc length_Suc_conv)

lemma four_chunks:
  assumes "length as = 84"
  obtains a b c d where "as = concat [a, b, c, d]" "length a = 21" "length b = 21" "length c = 21" "length d = 21"
proof -
  obtain ass where "as = concat ass" "length ass = 4" "\<forall>a \<in> set ass. length a = 21"
    using chunks [of as 4 21] assms by auto
  then show thesis using that length_4 [of ass] by auto
qed

text \<open>
  The calibration. From its start, 84 ticks (four steps of 21) store the last ADC sample
  as the offset in both configuration records, save both to flash, switch the sensor on and
  leave the calibration ready to run again. They also leave the breathing LED at duty zero
  and falling, so that the next breath step sets a duty of -4440, as an unsigned
  4294962856, far above the PWM period.
\<close>

theorem calibration_stores_offset:
  assumes "led_test_i s = 0" and "led_test_status s = 0" and "length adcs = 84"
  shows "\<exists>t before. fold led_test adcs s = t \<and>
    adoffset (config t) = ucast (last adcs) \<and> adoffset (configcmp t) = ucast (last adcs) \<and>
    trace t = before @ [spi_flash_erase_sector 0x7C, spi_flash_write (0x7C * 4096) (config t),
      spi_flash_erase_sector 0x7D, spi_flash_write (0x7D * 4096) (configcmp t), pwm_start] \<and>
    SensorMode t = Sensor_Normal \<and> led_test_i t = 0 \<and> led_test_status t = 0 \<and>
    trace (breathe t) = trace t @ [pwm_set_duty 4294962856 LED_GREEN, pwm_start]"
proof -
  obtain a b c d where adcs: "adcs = concat [a, b, c, d]"
      and l: "length a = 21" "length b = 21" "length c = 21" "length d = 21"
    using four_chunks [OF assms(3)] .
  have "d \<noteq> []" using l by auto
  then have "last adcs = last d" by (simp add: adcs last_append)
  then show ?thesis
    using assms calibration.phases [of "[a, b, c, d]" s] l unfolding adcs
    by (simp add: led_test_step_def save_config_def Let_def breathe_def)
qed

lemma calibration_stores_offset_witness:
  "adoffset (config (fold led_test (replicate 83 0 @ [321]) boot)) = 321"
proof -
  have "led_test_i boot = 0" "led_test_status boot = 0" "length (replicate 83 0 @ [321 :: u16]) = 84"
    by (simp_all add: boot_def)
  from calibration_stores_offset [OF this] show ?thesis by auto
qed

abbreviation selftest_phase :: "u32 \<Rightarrow> u16 \<Rightarrow> firmware \<Rightarrow> firmware" where
  "selftest_phase ip a s \<equiv> call pwm_start (led_test1_step a ip s)"

lemma selftest_early:
  assumes "led_test1_status s < 9"
  shows "led_test1_status (selftest_phase ip a s) = led_test1_status s + 1"
    and "SensorMode (selftest_phase ip a s) = SensorMode s"
    and "WebSocketOK (selftest_phase ip a s) = WebSocketOK s"
proof -
  let ?st = "led_test1_status s"
  have "unat ?st < 9" using assms by (simp add: word_less_nat_alt)
  then consider "?st = 0" | "?st = 1" | "?st = 2" | "?st = 3" | "4 \<le> ?st" "?st \<le> 8"
    by unat_arith
  then have "led_test1_status (selftest_phase ip a s) = ?st + 1 \<and>
    SensorMode (selftest_phase ip a s) = SensorMode s \<and> WebSocketOK (selftest_phase ip a s) = WebSocketOK s"
    by cases (auto simp: led_test1_step_def led_test1_sample_def save_config_def connect_test_wifi_def
        Let_def)
  then show "led_test1_status (selftest_phase ip a s) = ?st + 1"
    "SensorMode (selftest_phase ip a s) = SensorMode s"
    "WebSocketOK (selftest_phase ip a s) = WebSocketOK s" by simp_all
qed

lemma selftest_late:
  "led_test1_status s = 9 \<Longrightarrow> \<not> has_address ip \<Longrightarrow> led_test1_status (selftest_phase ip a s) = 0"
  "led_test1_status s = 9 \<Longrightarrow> \<not> has_address ip \<Longrightarrow> SensorMode (selftest_phase ip a s) = Sensor_ConnError"
  "led_test1_status s = 9 \<Longrightarrow> has_address ip \<Longrightarrow> led_test1_status (selftest_phase ip a s) = 10"
  "led_test1_status s = 10 \<Longrightarrow> led_test1_status (selftest_phase ip a s) = 11"
  "led_test1_status s = 11 \<Longrightarrow> led_test1_status (selftest_phase ip a s) = 12"
  "led_test1_status s = 12 \<Longrightarrow> led_test1_status (selftest_phase ip a s) = 0"
  "led_test1_status s = 12 \<Longrightarrow> SensorMode (selftest_phase ip a s) =
    (if WebSocketOK s = 1 then Sensor_Init else Sensor_ConnError)"
  "led_test1_status s = 9 \<Longrightarrow> WebSocketOK (selftest_phase ip a s) = WebSocketOK s"
  "led_test1_status s = 10 \<Longrightarrow> WebSocketOK (selftest_phase ip a s) = WebSocketOK s"
  "led_test1_status s = 11 \<Longrightarrow> WebSocketOK (selftest_phase ip a s) = WebSocketOK s"
  by (simp_all add: led_test1_step_def CheckIpStart_def)

lemma selftest_nine:
  assumes "led_test1_status s = 0" and "length ass \<le> 9"
  shows "led_test1_status (fold (\<lambda>as. selftest_phase ip (last as)) ass s) = of_nat (length ass) \<and>
    SensorMode (fold (\<lambda>as. selftest_phase ip (last as)) ass s) = SensorMode s \<and>
    WebSocketOK (fold (\<lambda>as. selftest_phase ip (last as)) ass s) = WebSocketOK s"
  using assms(2)
proof (induction ass rule: rev_induct)
  case Nil
  then show ?case using assms by simp
next
  case (snoc as ass)
  let ?t = "fold (\<lambda>as. selftest_phase ip (last as)) ass s"
  have "of_nat (length ass) < (9 :: u8)"
    using snoc.prems of_nat_le_u8 [of 9 "length ass"] by (simp add: not_le [symmetric])
  then show ?case using snoc selftest_early [of ?t] by (simp add: add.commute)
qed

text \<open>
  The self-test's verdict does not depend on the sensor. With an address, the 13 steps of
  the self-test (273 ticks) end in the normal start-up exactly when the session is open, and
  without one the first ten steps end in the error mode - for all ADC samples, even those the
  fourth step reports as a failure.
\<close>

theorem selftest_verdict:
  assumes "led_test1_i s = 0" and "led_test1_status s = 0"
    and "length adcs = (if has_address ip then 273 else 210)"
  shows "SensorMode (fold (\<lambda>adc. led_test1 adc ip) adcs s) =
      (if has_address ip \<and> WebSocketOK s = 1 then Sensor_Init else Sensor_ConnError) \<and>
    led_test1_status (fold (\<lambda>adc. led_test1 adc ip) adcs s) = 0"
proof -
  let ?P = "\<lambda>as. selftest_phase ip (last as)"
  obtain ass where a: "adcs = concat ass" "length ass = (if has_address ip then 13 else 10)"
      "\<forall>a \<in> set ass. length a = 21"
    using chunks [of adcs "if has_address ip then 13 else 10" 21] assms(3) by (auto split: if_splits)
  define t where "t = fold ?P (take 9 ass) s"
  have t: "led_test1_status t = 9" "WebSocketOK t = WebSocketOK s"
    using selftest_nine [OF assms(2), of "take 9 ass" ip] a(2) by (auto simp: t_def split: if_splits)
  have run: "fold (\<lambda>adc. led_test1 adc ip) adcs s = fold ?P (drop 9 ass) t"
    using selftest.phases [OF a(3) assms(1), of ip] fold_append [of ?P "take 9 ass" "drop 9 ass"]
    unfolding a(1) t_def by (metis append_take_drop_id comp_apply)
  show ?thesis
  proof (cases "has_address ip")
    case True
    then have "length (drop 9 ass) = 4" using a(2) by simp
    then obtain b c d e where "drop 9 ass = [b, c, d, e]" using length_4 by blast
    then show ?thesis
      using True unfolding run by (simp add: t selftest_late del: call_def)
  next
    case False
    then have "length (drop 9 ass) = 1" using a(2) by simp
    then obtain b where "drop 9 ass = [b]" by (cases "drop 9 ass") auto
    then show ?thesis
      using False unfolding run by (simp add: t selftest_late del: call_def)
  qed
qed

lemma selftest_verdict_witness:
  "SensorMode (fold (\<lambda>adc. led_test1 adc 0) (replicate 210 400) boot) = Sensor_ConnError"
proof -
  have "led_test1_i boot = 0" "led_test1_status boot = 0"
    "length (replicate 210 (400 :: u16)) = (if has_address 0 then 273 else 210)"
    by (simp_all add: boot_def)
  from selftest_verdict [OF this] show ?thesis by simp
qed

end
