(* ===== verification/Key.thy ===== *)
theory Key
  imports Firmware
begin

text \<open>
  The key driver \<open>app/user/key.c\<close>: interrupt, two timers and two handlers per key, and the
  application's handlers. A key carries its timers as the milliseconds left; the pin, its
  latched interrupt and the passing of time are the environment, a transition system over
  which the invariant is proved.
\<close>

section \<open>The application's handlers\<close>

definition Switch_ShortPress_Handler :: "firmware \<Rightarrow> firmware" where
  "Switch_ShortPress_Handler s =
     (let s = s\<lparr>PP := (PP s)\<lparr>Key_Type := Key_Type (PP s) + 1\<rparr>\<rparr>
      in if 3 \<le> Key_Type (PP s) then s\<lparr>SensorMode := Sensor_Test\<rparr> else s)"

definition Switch_LongPress_Handler :: "firmware \<Rightarrow> firmware" where
  "Switch_LongPress_Handler s =
     (let s = calls [pwm_set_duty DUTYMAX LED_RED, pwm_set_duty DUTYMAX LED_BLUE,
                pwm_set_duty DUTYMIN LED_GREEN, pwm_start] (s\<lparr>PP := (PP s)\<lparr>Led_Cnt_second := 0\<rparr>\<rparr>)
      in s\<lparr>Mode := Mode_Config, SensorMode := Sensor_Config\<rparr>)"

section \<open>The driver\<close>

datatype gpio_int = GPIO_PIN_INTR_DISABLE | GPIO_PIN_INTR_POSEDGE | GPIO_PIN_INTR_NEGEDGE

text \<open>
  \<open>struct single_key_param\<close> with its pin's interrupt type. A timer is \<open>None\<close> when disarmed,
  otherwise the time left; a null handler is \<open>None\<close>.
\<close>

record single_key_param =
  key_level :: u8
  gpio_id :: u8
  gpio_func :: u8
  gpio_name :: u32
  key_5s :: "nat option"
  key_50ms :: "nat option"
  short_press :: "(firmware \<Rightarrow> firmware) option"
  long_press :: "(firmware \<Rightarrow> firmware) option"
  pin_intr :: gpio_int

definition key_init_single ::
  "u8 \<Rightarrow> u32 \<Rightarrow> u8 \<Rightarrow> (firmware \<Rightarrow> firmware) option \<Rightarrow> (firmware \<Rightarrow> firmware) option \<Rightarrow> single_key_param" where
  "key_init_single gid name func lp sp = \<lparr>key_level = 0, gpio_id = gid, gpio_func = func, gpio_name = name,
     key_5s = None, key_50ms = None, short_press = sp, long_press = lp, pin_intr = GPIO_PIN_INTR_DISABLE\<rparr>"

definition key_init :: "single_key_param list \<Rightarrow> single_key_param list" where
  "key_init keys = map (\<lambda>k. k\<lparr>key_level := 1, pin_intr := GPIO_PIN_INTR_NEGEDGE\<rparr>) keys"

text \<open>The application has one key, on pin 4 (\<open>PERIPHS_IO_MUX_GPIO4_U\<close>, function 0).\<close>

definition switch_keys :: "single_key_param list" where
  "switch_keys = key_init [key_init_single 4 0x6000083C 0
     (Some Switch_LongPress_Handler) (Some Switch_ShortPress_Handler)]"

definition call_handler :: "(firmware \<Rightarrow> firmware) option \<Rightarrow> firmware \<Rightarrow> firmware" where
  "call_handler h s = (case h of None \<Rightarrow> s | Some f \<Rightarrow> f s)"

text \<open>\<open>high\<close>: the level of the key's pin (\<open>GPIO_INPUT_GET\<close>) when the callback reads it.\<close>

definition key_5s_cb :: "bool \<Rightarrow> single_key_param \<Rightarrow> firmware \<Rightarrow> single_key_param \<times> firmware" where
  "key_5s_cb high k s =
     (let k = k\<lparr>key_5s := None\<rparr>
      in (k, if \<not> high then call_handler (long_press k) s else s))"

definition key_50ms_cb :: "bool \<Rightarrow> single_key_param \<Rightarrow> firmware \<Rightarrow> single_key_param \<times> firmware" where
  "key_50ms_cb high k s =
     (let k = k\<lparr>key_50ms := None\<rparr>
      in if high
         then (k\<lparr>key_5s := None, key_level := 1, pin_intr := GPIO_PIN_INTR_NEGEDGE\<rparr>,
               call_handler (short_press k) s)
         else (k\<lparr>pin_intr := GPIO_PIN_INTR_POSEDGE\<rparr>, s))"

text \<open>The interrupt handler: one pass of the loop, for a key whose status bit is set.\<close>

definition key_intr :: "single_key_param \<Rightarrow> single_key_param" where
  "key_intr k =
     (let k = k\<lparr>pin_intr := GPIO_PIN_INTR_DISABLE\<rparr>
      in if key_level k = 1
         then k\<lparr>key_5s := Some 2000, key_level := 0, pin_intr := GPIO_PIN_INTR_POSEDGE\<rparr>
         else k\<lparr>key_50ms := Some 50\<rparr>)"

definition key_intr_handler :: "u32 \<Rightarrow> single_key_param list \<Rightarrow> single_key_param list" where
  "key_intr_handler gpio_status keys =
     map (\<lambda>k. if gpio_status AND push_bit (unat (gpio_id k)) 1 \<noteq> 0 then key_intr k else k) keys"

section \<open>The key and its environment\<close>

record key_sys =
  key :: single_key_param
  pin :: bool
  pending :: bool
  fw :: firmware

text \<open>An edge latches an interrupt when its direction is the enabled one.\<close>

definition triggers :: "gpio_int \<Rightarrow> bool \<Rightarrow> bool" where
  "triggers i level \<longleftrightarrow> (i = GPIO_PIN_INTR_POSEDGE \<and> level) \<or> (i = GPIO_PIN_INTR_NEGEDGE \<and> \<not> level)"

definition edge :: "key_sys \<Rightarrow> key_sys" where
  "edge s = s\<lparr>pin := \<not> pin s, pending := pending s \<or> triggers (pin_intr (key s)) (\<not> pin s)\<rparr>"

definition isr :: "key_sys \<Rightarrow> key_sys" where
  "isr s = s\<lparr>pending := False, key := key_intr (key s)\<rparr>"

definition fire_5s :: "key_sys \<Rightarrow> key_sys" where
  "fire_5s s = (case key_5s_cb (pin s) (key s) (fw s) of (k, f) \<Rightarrow> s\<lparr>key := k, fw := f\<rparr>)"

definition fire_50ms :: "key_sys \<Rightarrow> key_sys" where
  "fire_50ms s = (case key_50ms_cb (pin s) (key s) (fw s) of (k, f) \<Rightarrow> s\<lparr>key := k, fw := f\<rparr>)"

text \<open>A millisecond passes while no timer is due.\<close>

definition pass_ms :: "key_sys \<Rightarrow> key_sys" where
  "pass_ms s = s\<lparr>key := (key s)\<lparr>key_5s := map_option (\<lambda>n. n - 1) (key_5s (key s)),
     key_50ms := map_option (\<lambda>n. n - 1) (key_50ms (key s))\<rparr>\<rparr>"

inductive key_step :: "key_sys \<Rightarrow> key_sys \<Rightarrow> bool" where
  step_edge: "key_step s (edge s)"
| step_isr: "pending s \<Longrightarrow> key_step s (isr s)"
| step_5s: "key_5s (key s) = Some 0 \<Longrightarrow> key_step s (fire_5s s)"
| step_50ms: "key_50ms (key s) = Some 0 \<Longrightarrow> key_step s (fire_50ms s)"
| step_ms: "key_5s (key s) \<noteq> Some 0 \<Longrightarrow> key_50ms (key s) \<noteq> Some 0 \<Longrightarrow> key_step s (pass_ms s)"
| step_fw: "key_step s (s\<lparr>fw := f\<rparr>)"

inductive_cases key_stepE: "key_step s t"

definition key_start :: "firmware \<Rightarrow> key_sys" where
  "key_start f = \<lparr>key = hd switch_keys, pin = True, pending = False, fw = f\<rparr>"

inductive key_reachable :: "key_sys \<Rightarrow> bool" where
  start: "key_reachable (key_start f)"
| step: "key_reachable s \<Longrightarrow> key_step s t \<Longrightarrow> key_reachable t"

section \<open>The invariant\<close>

definition waiting_press :: "key_sys \<Rightarrow> bool" where
  "waiting_press s \<longleftrightarrow> key_level (key s) = 1 \<and> pin_intr (key s) = GPIO_PIN_INTR_NEGEDGE \<and>
     key_5s (key s) = None \<and> key_50ms (key s) = None"

definition waiting_release :: "key_sys \<Rightarrow> bool" where
  "waiting_release s \<longleftrightarrow> key_level (key s) = 0 \<and> pin_intr (key s) = GPIO_PIN_INTR_POSEDGE \<and>
     key_50ms (key s) = None"

definition debouncing :: "key_sys \<Rightarrow> bool" where
  "debouncing s \<longleftrightarrow> key_level (key s) = 0 \<and> pin_intr (key s) = GPIO_PIN_INTR_DISABLE \<and>
     \<not> pending s \<and> (\<exists>n \<le> 50. key_50ms (key s) = Some n)"

definition handlers_set :: "key_sys \<Rightarrow> bool" where
  "handlers_set s \<longleftrightarrow> short_press (key s) = Some Switch_ShortPress_Handler \<and>
     long_press (key s) = Some Switch_LongPress_Handler"

definition key_ok :: "key_sys \<Rightarrow> bool" where
  "key_ok s \<longleftrightarrow> handlers_set s \<and> (waiting_press s \<or> waiting_release s \<or> debouncing s) \<and>
     (\<forall>n. key_5s (key s) = Some n \<longrightarrow> n \<le> 2000) \<and> (waiting_press s \<longrightarrow> pin s \<or> pending s)"

lemmas key_states = key_ok_def waiting_press_def waiting_release_def debouncing_def handlers_set_def
lemmas key_ops = edge_def isr_def fire_5s_def fire_50ms_def pass_ms_def key_intr_def
  key_5s_cb_def key_50ms_cb_def triggers_def Let_def

lemma key_ok_start: "key_ok (key_start f)"
  by (simp add: key_states key_start_def switch_keys_def key_init_def key_init_single_def)

lemma key_ok_step: "key_ok s \<Longrightarrow> key_step s t \<Longrightarrow> key_ok t"
  by (erule key_stepE) (auto simp: key_states key_ops)

lemma key_reachable_ok: "key_reachable s \<Longrightarrow> key_ok s"
  by (induction rule: key_reachable.induct) (auto intro: key_ok_start key_ok_step)

section \<open>Time\<close>

text \<open>
  What is due fires, then a millisecond passes; \<open>bouncing\<close> gives the edges the contact
  makes in each millisecond.
\<close>

definition fire_due :: "key_sys \<Rightarrow> key_sys" where
  "fire_due s =
     (let s = (if key_5s (key s) = Some 0 then fire_5s s else s)
      in if key_50ms (key s) = Some 0 then fire_50ms s else s)"

definition ms :: "key_sys \<Rightarrow> key_sys" where
  "ms s = pass_ms (fire_due s)"

fun bouncing :: "nat list \<Rightarrow> key_sys \<Rightarrow> key_sys" where
  "bouncing [] s = s"
| "bouncing (e # es) s = bouncing es (ms ((edge ^^ e) s))"

text \<open>The contact closes, is held, opens and bounces for the 50 ms that follow.\<close>

definition press :: "nat \<Rightarrow> nat list \<Rightarrow> key_sys \<Rightarrow> key_sys" where
  "press held bounces s =
     fire_due (bouncing bounces (isr (edge ((ms ^^ held) (isr (edge s))))))"

lemma ms_steps: "key_step\<^sup>*\<^sup>* s (ms s)"
proof -
  have 1: "key_step\<^sup>*\<^sup>* s (if key_5s (key s) = Some 0 then fire_5s s else s)"
    by (auto intro: step_5s)
  have 2: "key_step\<^sup>*\<^sup>* t (if key_50ms (key t) = Some 0 then fire_50ms t else t)" for t
    by (auto intro: step_50ms)
  have n: "key_5s (key (fire_due s)) \<noteq> Some 0" "key_50ms (key (fire_due s)) \<noteq> Some 0"
    by (auto simp: fire_due_def key_ops)
  have "key_step\<^sup>*\<^sup>* s (fire_due s)"
    unfolding fire_due_def Let_def by (rule rtranclp_trans [OF 1 2])
  then show ?thesis
    unfolding ms_def by (rule rtranclp.rtrancl_into_rtrancl) (intro step_ms n)
qed

section \<open>A press, step by step\<close>

text \<open>The key while it is held: only the long-press timer may run out.\<close>

definition held_key :: "bool \<Rightarrow> nat option \<Rightarrow> firmware \<Rightarrow> key_sys \<Rightarrow> key_sys" where
  "held_key lvl t5 f s = s\<lparr>pin := lvl, pending := False, fw := f,
     key := (key s)\<lparr>key_level := 0, key_5s := t5, key_50ms := None, pin_intr := GPIO_PIN_INTR_POSEDGE\<rparr>\<rparr>"

definition bounce_key :: "bool \<Rightarrow> nat option \<Rightarrow> nat \<Rightarrow> firmware \<Rightarrow> key_sys \<Rightarrow> key_sys" where
  "bounce_key lvl t5 t50 f s = s\<lparr>pin := lvl, pending := False, fw := f,
     key := (key s)\<lparr>key_level := 0, key_5s := t5, key_50ms := Some t50, pin_intr := GPIO_PIN_INTR_DISABLE\<rparr>\<rparr>"

definition long_done :: "bool \<Rightarrow> nat \<Rightarrow> firmware \<Rightarrow> firmware" where
  "long_done lvl left f = (if left = 0 \<and> \<not> lvl then Switch_LongPress_Handler f else f)"

lemmas press_ops = key_ops key_states held_key_def bounce_key_def ms_def fire_due_def
  long_done_def call_handler_def

lemma edge_twice: "debouncing s \<Longrightarrow> (edge ^^ e) s = s\<lparr>pin := (if even e then pin s else \<not> pin s)\<rparr>"
  by (induction e) (auto simp: press_ops)

lemma closed: "waiting_press s \<Longrightarrow> pin s \<Longrightarrow> \<not> pending s \<Longrightarrow>
    isr (edge s) = held_key False (Some 2000) (fw s) s"
  by (simp add: press_ops)

lemma opened: "isr (edge (held_key False t f s)) = bounce_key True t 50 f s"
  by (simp add: press_ops)

lemma held_ms:
  "handlers_set s \<Longrightarrow> ms (held_key lvl (Some (Suc n)) f s) = held_key lvl (Some n) f s"
  "handlers_set s \<Longrightarrow> ms (held_key lvl (Some 0) f s) = held_key lvl None (long_done lvl 0 f) s"
  "handlers_set s \<Longrightarrow> ms (held_key lvl None f s) = held_key lvl None f s"
  by (simp_all add: press_ops)

lemma held_none: "handlers_set s \<Longrightarrow> (ms ^^ n) (held_key lvl None f s) = held_key lvl None f s"
  by (induction n) (simp_all add: held_ms)

lemma held_for:
  "handlers_set s \<Longrightarrow> (ms ^^ n) (held_key lvl (Some t) f s) =
     (if n \<le> t then held_key lvl (Some (t - n)) f s else held_key lvl None (long_done lvl 0 f) s)"
proof (induction n arbitrary: t)
  case 0
  then show ?case by simp
next
  case (Suc n)
  then show ?case
    by (cases t) (simp_all add: funpow_Suc_right held_ms held_none del: funpow.simps)
qed

lemma bounce_ms:
  "handlers_set s \<Longrightarrow> ms (bounce_key lvl (Some (Suc n)) (Suc m) f s) = bounce_key lvl (Some n) m f s"
  "handlers_set s \<Longrightarrow> ms (bounce_key lvl (Some 0) (Suc m) f s) = bounce_key lvl None m (long_done lvl 0 f) s"
  "handlers_set s \<Longrightarrow> ms (bounce_key lvl None (Suc m) f s) = bounce_key lvl None m f s"
  by (simp_all add: press_ops)

lemma bounce_edges: "(edge ^^ e) (bounce_key lvl t m f s) = bounce_key (if even e then lvl else \<not> lvl) t m f s"
  by (induction e) (simp_all add: press_ops)

text \<open>Once the long-press timer is off, or with more time left than the window.\<close>

lemma bouncing_none:
  "handlers_set s \<Longrightarrow> length es \<le> m \<Longrightarrow>
   bouncing es (bounce_key lvl None m f s) =
     bounce_key (if even (sum_list es) then lvl else \<not> lvl) None (m - length es) f s"
proof (induction es arbitrary: lvl m)
  case Nil
  then show ?case by simp
next
  case (Cons e es)
  then show ?case by (cases m) (auto simp: bounce_edges bounce_ms)
qed

lemma bouncing_some:
  "handlers_set s \<Longrightarrow> length es \<le> m \<Longrightarrow> length es \<le> t \<Longrightarrow>
   bouncing es (bounce_key lvl (Some t) m f s) =
     bounce_key (if even (sum_list es) then lvl else \<not> lvl) (Some (t - length es)) (m - length es) f s"
proof (induction es arbitrary: lvl m t)
  case Nil
  then show ?case by simp
next
  case (Cons e es)
  then show ?case by (cases m; cases t) (auto simp: bounce_edges bounce_ms)
qed

lemma window_end:
  "handlers_set s \<Longrightarrow> t \<noteq> Some 0 \<Longrightarrow> fire_due (bounce_key True t 0 f s) =
     s\<lparr>pin := True, pending := False, fw := Switch_ShortPress_Handler f,
       key := (key s)\<lparr>key_level := 1, key_5s := None, key_50ms := None, pin_intr := GPIO_PIN_INTR_NEGEDGE\<rparr>\<rparr>"
  by (simp add: press_ops)

lemma window_end_low:
  "handlers_set s \<Longrightarrow> t \<noteq> Some 0 \<Longrightarrow> fire_due (bounce_key False t 0 f s) = held_key False t f s"
  by (cases t) (simp_all add: press_ops)

lemma idle_again: "waiting_press s \<Longrightarrow> pin s \<Longrightarrow> \<not> pending s \<Longrightarrow>
    s\<lparr>pin := True, pending := False, fw := g,
      key := (key s)\<lparr>key_level := 1, key_5s := None, key_50ms := None, pin_intr := GPIO_PIN_INTR_NEGEDGE\<rparr>\<rparr>
    = s\<lparr>fw := g\<rparr>"
  by (simp add: press_ops)

section \<open>The properties\<close>

text \<open>
  C34: in every reachable state of the key and its environment (edges at any time, interrupts
  as late as they like, timers firing when due), the driver is in one of its three states:
  waiting for a press, for a release, or debouncing with its interrupt off and the 50 ms
  timer running (so it is never left deaf); it keeps its two handlers; and while it waits
  for a press, a pin that is low has its interrupt latched: no press is lost.
\<close>

theorem key_never_deaf:
  assumes "key_reachable s"
  shows "(waiting_press s \<or> waiting_release s \<or> debouncing s) \<and> handlers_set s \<and>
    (waiting_press s \<longrightarrow> pin s \<or> pending s) \<and> (\<forall>n. key_5s (key s) = Some n \<longrightarrow> n \<le> 2000)"
  using key_reachable_ok [OF assms] unfolding key_ok_def by blast

lemma key_never_deaf_witness:
  "\<not> pin (edge (key_start boot)) \<and> pending (edge (key_start boot))"
proof -
  have "waiting_press (edge (key_start boot))" "\<not> pin (edge (key_start boot))"
    by (simp_all add: press_ops key_start_def switch_keys_def key_init_def key_init_single_def)
  then show ?thesis
    using key_never_deaf [OF key_reachable.step [OF key_reachable.start step_edge]] by blast
qed

text \<open>
  C35: a press held less than 1950 ms, its release bouncing in any way that ends with the
  contact open, is exactly one short press; one held more than 2000 ms runs the long-press
  handler once and, on its release, the short-press handler too. Both leave the key waiting
  for the next press.
\<close>

theorem press_is_short_or_long:
  assumes "waiting_press s" "handlers_set s" "pin s" "\<not> pending s"
    and "length bounces = 50" "even (sum_list bounces)"
  shows "(held < 1950 \<longrightarrow> press held bounces s = s\<lparr>fw := Switch_ShortPress_Handler (fw s)\<rparr>) \<and>
    (2000 < held \<longrightarrow> press held bounces s =
       s\<lparr>fw := Switch_ShortPress_Handler (Switch_LongPress_Handler (fw s))\<rparr>)"
  using assms
  by (simp_all add: press_def closed held_for opened bouncing_some bouncing_none window_end
      idle_again long_done_def)

lemma press_is_short_or_long_witness:
  "press 100 (replicate 50 2) (key_start boot) =
     (key_start boot)\<lparr>fw := Switch_ShortPress_Handler boot\<rparr>"
proof -
  have "even (sum_list (replicate 50 (2 :: nat)))" by (simp add: sum_list_replicate)
  then show ?thesis
    using press_is_short_or_long [of "key_start boot" "replicate 50 2" 100]
    by (simp add: key_states key_start_def switch_keys_def key_init_def key_init_single_def)
qed

text \<open>
  A glitch shorter than the interrupt's latency (the contact has opened again when the
  handler runs) starts a press nobody makes. If the next real press comes more than 2 s
  later, it is reported as one short press however long it is held: its long press is lost.
\<close>

theorem glitch_loses_long_press:
  assumes "waiting_press s" "handlers_set s" "pin s" "\<not> pending s"
    and "2000 < gap" "length bounces = 50" "even (sum_list bounces)"
  shows "fire_due (bouncing bounces (isr (edge ((ms ^^ held) (edge ((ms ^^ gap) (isr (edge (edge s)))))))))
         = s\<lparr>fw := Switch_ShortPress_Handler (fw s)\<rparr>"
proof -
  have g: "isr (edge (edge s)) = held_key True (Some 2000) (fw s) s"
    using assms by (simp add: press_ops)
  have e: "edge (held_key True None f s) = held_key False None f s" for f
    by (simp add: press_ops)
  show ?thesis
    using assms
    by (simp add: g held_for e held_none opened bouncing_none window_end idle_again long_done_def)
qed

lemma glitch_loses_long_press_witness:
  "fire_due (bouncing (replicate 50 0) (isr (edge ((ms ^^ 5000)
      (edge ((ms ^^ 3000) (isr (edge (edge (key_start boot)))))))))) =
   (key_start boot)\<lparr>fw := Switch_ShortPress_Handler boot\<rparr>"
  using glitch_loses_long_press [of "key_start boot" 3000 "replicate 50 0" 5000]
  by (simp add: sum_list_replicate key_states key_start_def switch_keys_def key_init_def key_init_single_def)

end
