(* ===== verification/System.thy ===== *)
theory System
  imports Session Startup Sensor Key
begin

text \<open>
  The firmware as one system: every callback the SDK may run is an event, a run is any
  sequence of events from a start-up on, with resets in between. Restarts read the flash the
  log of SDK calls has left. The invariant of the whole system is proved here, handler by
  handler; the properties are in the root theory.
\<close>

section \<open>Events\<close>

text \<open>What the hardware and the network hand to a callback are the arguments of its event.\<close>

datatype event =
    Led_timer u16 u32
  | Main_timer u32 u16
  | Short_press
  | Long_press
  | Ws_connect conn
  | Ws_recv "u8 list" u16
  | Ws_discon
  | Http_connect conn
  | Http_recv "u8 list" u16
  | Ws_dns "u32 option" conn u16 u16
  | Map_connect conn
  | Map_dns "u32 option" conn u16
  | Map_recv "u8 list" u16
  | Airkiss_timer "u8 list option" u16
  | Airkiss_recv "(u32 \<times> u16) option" "u8 list option"
  | Smartconfig sc_status

fun system_step :: "event \<Rightarrow> firmware \<Rightarrow> firmware option" where
  "system_step (Led_timer adc ip) s = Some (pwmad_cb adc ip s)"
| "system_step (Main_timer ip port) s = gas_main_cb ip port s"
| "system_step Short_press s = Some (Switch_ShortPress_Handler s)"
| "system_step Long_press s = Some (Switch_LongPress_Handler s)"
| "system_step (Ws_connect c) s = Some (websocket_tcp_connect_cb c s)"
| "system_step (Ws_recv data len) s = websocket_tcp_recv_cb data len s"
| "system_step Ws_discon s = Some (websocket_tcp_discon_cb s)"
| "system_step (Http_connect c) s = Some (http_connect_cb c s)"
| "system_step (Http_recv data len) s = http_tcp_recv_cb data len s"
| "system_step (Ws_dns ip c p1 p2) s = Some (websocket_dns_found ip c p1 p2 s)"
| "system_step (Map_connect c) s = Some (map_tcp_connect_cb c s)"
| "system_step (Map_dns ip c p) s = Some (map_dns_found ip c p s)"
| "system_step (Map_recv data len) s = map_tcp_recv_cb data len s"
| "system_step (Airkiss_timer packed port) s = Some (airkiss_wifilan_time_callback packed port s)"
| "system_step (Airkiss_recv req packed) s = Some (airkiss_wifilan_recv_callbk req packed s)"
| "system_step (Smartconfig status) s = Some (smartconfig_done status s)"

fun receives :: "event \<Rightarrow> bool" where
  "receives (Ws_recv data len) = True"
| "receives (Http_recv data len) = True"
| "receives (Map_recv data len) = True"
| "receives _ = False"

section \<open>The flash\<close>

text \<open>Erased flash reads as ones; a sector has 4096 bytes.\<close>

definition erased :: startup_config where
  "erased = \<lparr>Dev_id = replicate 12 0xFF, adoffset = 0xFFFFFFFF\<rparr>"

fun flash_call :: "sdk \<Rightarrow> (nat \<Rightarrow> startup_config) \<Rightarrow> nat \<Rightarrow> startup_config" where
  "flash_call (spi_flash_erase_sector n) f = f(n * 4096 := erased)"
| "flash_call (spi_flash_write a c) f = f(a := c)"
| "flash_call _ f = f"

definition flash_after :: "sdk list \<Rightarrow> (nat \<Rightarrow> startup_config) \<Rightarrow> nat \<Rightarrow> startup_config" where
  "flash_after es f = fold flash_call es f"

definition wf_flash :: "(nat \<Rightarrow> startup_config) \<Rightarrow> bool" where
  "wf_flash f \<longleftrightarrow> (\<forall>a. length (Dev_id (f a)) = 12)"

section \<open>Runs\<close>

text \<open>\<open>system_run f s\<close>: the state \<open>s\<close> is reached and \<open>f\<close> was the flash at the last start.\<close>

inductive system_run :: "(nat \<Rightarrow> startup_config) \<Rightarrow> firmware \<Rightarrow> bool" where
  power_on: "wf_flash f \<Longrightarrow> system_run f (user_init f gpio4 boot)"
| event: "system_run f s \<Longrightarrow> system_step e s = Some t \<Longrightarrow> system_run f t"
| reset: "system_run f s \<Longrightarrow> g = flash_after (trace s) f \<Longrightarrow> system_run g (user_init g gpio4 boot)"

section \<open>The invariant\<close>

definition good_call :: "sdk \<Rightarrow> bool" where
  "good_call e \<longleftrightarrow> (case e of
      espconn_send c b \<Rightarrow> c = websocket_tcp_conn \<longrightarrow> valid_frame b \<or> b = websocketphead
    | spi_flash_write a c \<Rightarrow> length (Dev_id c) = 12
    | _ \<Rightarrow> True)"

lemma good_call_simps [simp]:
  "good_call (espconn_send c b) \<longleftrightarrow> (c = websocket_tcp_conn \<longrightarrow> valid_frame b \<or> b = websocketphead)"
  "good_call (spi_flash_write a cfg) \<longleftrightarrow> length (Dev_id cfg) = 12"
  "(\<forall>c b. e \<noteq> espconn_send c b) \<Longrightarrow> (\<forall>a cfg. e \<noteq> spi_flash_write a cfg) \<Longrightarrow> good_call e"
  by (auto simp: good_call_def split: sdk.split)

definition modes_ok :: "firmware \<Rightarrow> bool" where
  "modes_ok s \<longleftrightarrow> valid_mode (Mode s) \<and> valid_sensor_mode (SensorMode s)"

definition system_ok :: "firmware \<Rightarrow> bool" where
  "system_ok s \<longleftrightarrow> wf_arrays s \<and> map_addlen s \<le> 48 \<and> modes_ok s \<and> list_all good_call (trace s)"

lemmas ok_defs = system_ok_def wf_arrays_def modes_ok_def

lemma valid_modes [simp]:
  "valid_mode Mode_Init" "valid_mode Mode_Bias" "valid_mode Mode_CreateSession" "valid_mode Mode_Config"
  "valid_mode Mode_Nomal" "valid_mode Mode_Wait"
  "valid_sensor_mode Sensor_Init" "valid_sensor_mode Sensor_Test" "valid_sensor_mode Sensor_Config"
  "valid_sensor_mode Sensor_Normal" "valid_sensor_mode Sensor_Test1" "valid_sensor_mode Sensor_ConnError"
  by (simp_all add: valid_mode_def valid_sensor_mode_def)

lemma list_all_replicate [simp]: "list_all P (replicate n x) \<longleftrightarrow> n = 0 \<or> P x"
  by (auto simp: list_all_iff)

lemma ok_user_init: "wf_flash f \<Longrightarrow> system_ok (user_init f g boot)"
  by (auto simp: ok_defs user_init_def boot_def zero_para_def tcpwm_init_def start_timers_def
      restart_main_timer_def restore_id_def default_id_def wf_flash_def Let_def)

lemma wf_flash_after: "wf_flash f \<Longrightarrow> list_all good_call es \<Longrightarrow> wf_flash (flash_after es f)"
proof (induction es arbitrary: f)
  case Nil
  then show ?case by (simp add: flash_after_def)
next
  case (Cons e es)
  have "wf_flash (flash_call e f)" using Cons.prems by (cases e) (auto simp: wf_flash_def erased_def)
  then show ?case using Cons by (simp add: flash_after_def)
qed

section \<open>The handlers without faults\<close>

lemma Dev_ID_ticks [simp]:
  "Dev_ID (tick_key p) = Dev_ID p" "Dev_ID (tick_minite p) = Dev_ID p"
  "Dev_ID (detect_count p) = Dev_ID p" "Dev_ID (clear_warnings p) = Dev_ID p"
  by (simp_all add: tick_key_def tick_minite_def tick_hour_def tick_day_def detect_count_def
      clear_warnings_def Let_def)

lemma ok_PP: "system_ok s \<Longrightarrow> Dev_ID p = Dev_ID (PP s) \<Longrightarrow> system_ok (s\<lparr>PP := p\<rparr>)"
  by (simp add: system_ok_def wf_arrays_def modes_ok_def)

lemma ok_tick_startup: "system_ok s \<Longrightarrow> system_ok (tick_startup s)"
  by (auto simp: tick_startup_def ok_defs Let_def)

lemma ok_timeout: "system_ok s \<Longrightarrow> system_ok (smartconfig_timeout s)"
  by (auto simp: smartconfig_timeout_def ok_defs restart_main_timer_def)

lemma ok_time_calcu: "system_ok s \<Longrightarrow> system_ok (time_calcu_cb s)"
  unfolding time_calcu_cb_def Let_def by (intro ok_timeout ok_PP ok_tick_startup) simp_all

lemma ok_save_config: "system_ok s \<Longrightarrow> system_ok (save_config s)"
  by (auto simp: save_config_def ok_defs)

lemma ok_CheckIpStart: "system_ok s \<Longrightarrow> system_ok (CheckIpStart s)"
  by (auto simp: CheckIpStart_def ok_defs)

text \<open>Rules that follow the structure of a step instead of unfolding its outcome.\<close>

lemma ok_if: "system_ok a \<Longrightarrow> system_ok b \<Longrightarrow> system_ok (if c then a else b)"
  by simp

lemma ok_calls: "system_ok s \<Longrightarrow> list_all good_call es \<Longrightarrow> system_ok (calls es s)"
  by (simp add: ok_defs)

lemma ok_led_test1_fields:
  "system_ok s \<Longrightarrow> system_ok (s\<lparr>led_test1_status := n\<rparr>)"
  "system_ok s \<Longrightarrow> system_ok (s\<lparr>led_test1_i := n\<rparr>)"
  "system_ok s \<Longrightarrow> valid_sensor_mode m \<Longrightarrow> system_ok (s\<lparr>led_test1_status := n, SensorMode := m\<rparr>)"
  by (simp_all add: ok_defs)

lemma ok_led_test1: "system_ok s \<Longrightarrow> system_ok (led_test1 adc ip s)"
proof -
  assume s: "system_ok s"
  have sample: "system_ok (led_test1_sample adc t)" if "system_ok t" for t
    using that by (auto simp: led_test1_sample_def leds_def connect_test_wifi_def save_config_def Let_def ok_defs)
  have step: "system_ok (led_test1_step adc ip t)" if t: "system_ok t" for t
    unfolding led_test1_step_def Let_def
    by (intro ok_if ok_calls ok_CheckIpStart sample ok_led_test1_fields t) (simp_all add: leds_def)
  have pwm: "system_ok (call pwm_start t)" if "system_ok t" for t using that by (simp add: ok_defs)
  show ?thesis
    unfolding led_test1_def Let_def by (intro ok_if pwm step ok_led_test1_fields s)
qed

lemma ok_led_test: "system_ok s \<Longrightarrow> system_ok (led_test adc s)"
proof -
  assume s: "system_ok s"
  have "system_ok (led_test_step adc t)" if t: "system_ok t" for t
    using t by (auto simp: led_test_step_def leds_def save_config_def Let_def ok_defs)
  then show ?thesis using s by (auto simp: led_test_def Let_def ok_defs)
qed

lemma ok_Detect: "system_ok s \<Longrightarrow> system_ok (Detect adc s)"
proof -
  assume s: "system_ok s"
  have d: "system_ok (detect_decide t)" if t: "system_ok t" for t
    using t by (auto simp: detect_decide_def Let_def ok_defs)
  show ?thesis using s by (auto simp: Detect_def Let_def intro!: ok_PP d)
qed

lemma ok_blink:
  "system_ok s \<Longrightarrow> list_all good_call on \<Longrightarrow> list_all good_call off \<Longrightarrow> system_ok (blink on off d s)"
  by (auto simp: blink_def Let_def ok_defs)

lemma ok_pwmad_run: "system_ok s \<Longrightarrow> system_ok (pwmad_run s)"
proof -
  assume s: "system_ok s"
  have "system_ok (breathe s)" using s by (auto simp: breathe_def Let_def ok_defs)
  moreover have "system_ok (call e s)" if "good_call e" for e using s that by (simp add: ok_defs)
  ultimately show ?thesis using s by (auto simp: pwmad_run_def simp del: call_def intro!: ok_blink)
qed

lemma ok_sensor_dispatch: "system_ok s \<Longrightarrow> system_ok (sensor_dispatch adc ip s)"
proof -
  assume s: "system_ok s"
  have k: "system_ok (t\<lparr>SensorMode1 := m\<rparr>)" if "system_ok t" for t m using that by (auto simp: ok_defs)
  have w: "system_ok (led_time_calcu_cb s)" using s by (auto simp: led_time_calcu_cb_def Let_def ok_defs)
  have c: "system_ok (led_config s)" unfolding led_config_def using s by (intro ok_blink) simp_all
  have e: "system_ok (calls [pwm_set_duty DUTYMIN LED_RED, pwm_start] s)"
    "system_ok (s\<lparr>SensorMode := Sensor_Init, PP := (PP s)\<lparr>Led_Cnt_second := 0\<rparr>\<rparr>)"
    using s by (auto simp: ok_defs)
  show ?thesis
    unfolding sensor_dispatch_def Let_def
    using w c e ok_led_test [OF s] ok_led_test1 [OF s] ok_pwmad_run [OF ok_Detect [OF s]]
    by (auto intro!: k)
qed

lemma ok_pwmad_cb: "system_ok s \<Longrightarrow> system_ok (pwmad_cb adc ip s)"
proof -
  assume "system_ok s"
  then have t: "system_ok (time_calcu_cb s)" by (rule ok_time_calcu)
  then have "valid_sensor_mode (SensorMode (time_calcu_cb s))" by (simp add: system_ok_def modes_ok_def)
  then show ?thesis using ok_sensor_dispatch [OF t] by (simp add: pwmad_cb_def Let_def)
qed

lemma ok_smartconfig_done: "system_ok s \<Longrightarrow> system_ok (smartconfig_done status s)"
  by (cases status)
    (auto simp: smartconfig_done_def sc_getting_def sc_link_def sc_link_over_def restart_main_timer_def
      acknowledge_phone_def airkiss_start_discover_def upd_conn_def Let_def ok_defs split: option.splits)

lemma ok_airkiss:
  "system_ok s \<Longrightarrow> system_ok (airkiss_wifilan_time_callback packed port s)"
  "system_ok s \<Longrightarrow> system_ok (airkiss_wifilan_recv_callbk req packed s)"
  by (auto simp: airkiss_wifilan_time_callback_def airkiss_wifilan_recv_callbk_def upd_conn_def
      Let_def ok_defs split: option.splits)

lemma ok_gas_smartconfig: "system_ok s \<Longrightarrow> system_ok (gas_smartconfig port s)"
  by (auto simp: gas_smartconfig_def upd_conn_def clear_init_flags_def Let_def ok_defs)

lemma ok_connections:
  "system_ok s \<Longrightarrow> system_ok (websocket_tcp_connect_cb c s)"
  "system_ok s \<Longrightarrow> system_ok (websocket_tcp_discon_cb s)"
  "system_ok s \<Longrightarrow> system_ok (http_connect_cb c s)"
  "system_ok s \<Longrightarrow> system_ok (websocket_dns_found ip c p1 p2 s)"
  "system_ok s \<Longrightarrow> system_ok (map_tcp_connect_cb c s)"
  "system_ok s \<Longrightarrow> system_ok (map_dns_found ip c p1 s)"
  by (auto simp: websocket_tcp_connect_cb_def websocket_sent_data_def websocket_tcp_discon_cb_def
      clear_init_flags_def http_connect_cb_def post_id_calls_def websocket_dns_found_def set_remote_def
      map_tcp_connect_cb_def map_sent_data_def map_dns_found_def Let_def ok_defs split: option.splits)

lemma ok_keys:
  "system_ok s \<Longrightarrow> system_ok (Switch_ShortPress_Handler s)"
  "system_ok s \<Longrightarrow> system_ok (Switch_LongPress_Handler s)"
  by (auto simp: Switch_ShortPress_Handler_def Switch_LongPress_Handler_def Let_def ok_defs)

section \<open>The network task\<close>

text \<open>What a command leaves alone, beside the contract \<open>handled\<close> of theory MonitorProps.\<close>

definition flash_ok :: "sdk \<Rightarrow> bool" where
  "flash_ok e \<longleftrightarrow> (\<forall>a c. e = spi_flash_write a c \<longrightarrow> length (Dev_id c) = 12)"

lemma flash_ok_simps [simp]:
  "flash_ok (spi_flash_write a c) \<longleftrightarrow> length (Dev_id c) = 12"
  "(\<forall>a cfg. e \<noteq> spi_flash_write a cfg) \<Longrightarrow> flash_ok e"
  by (auto simp: flash_ok_def)

definition plain :: "firmware \<Rightarrow> firmware \<Rightarrow> bool" where
  "plain s t \<longleftrightarrow> Mode t = Mode s \<and> SensorMode t = SensorMode s \<and>
     (\<exists>es. trace t = trace s @ es \<and> list_all flash_ok es)"

lemma plain_refl: "plain s s"
  by (simp add: plain_def)

lemma plain_trans: "plain s t \<Longrightarrow> plain t u \<Longrightarrow> plain s u"
  unfolding plain_def by (metis append.assoc list_all_append)

lemma plain_WebSocket_Data:
  "WebSocket_Data s = Some (t, n) \<Longrightarrow> Mode t = Mode s \<and> SensorMode t = SensorMode s \<and> trace t = trace s"
  by (auto simp: WebSocket_Data_def Let_def split: Option.bind_splits)

lemma plain_build_and_send: "build_and_send s = Some t \<Longrightarrow> plain s t"
  by (auto simp: build_and_send_def send_package_def Reflash_def plain_def
      dest!: plain_WebSocket_Data split: Option.bind_splits)

lemma plain_into: "build_and_send u = Some t \<Longrightarrow> Mode u = Mode s \<Longrightarrow> SensorMode u = SensorMode s \<Longrightarrow>
    trace u = trace s \<Longrightarrow> plain s t"
  using plain_build_and_send [of u t] by (simp add: plain_def)

lemma plain_run_command:
  assumes "run_command c s = Some t" "wf_arrays s"
  shows "plain s t"
proof -
  have post: "list_all flash_ok (post_id_calls d)" for d by (simp add: post_id_calls_def Let_def)
  have send: "plain s t" if "mon_MAPDATA s = Some t \<or> mon_READGASACK s = Some t \<or> mon_WARNING s = Some t \<or>
      mon_UPDATEPPM s = Some t \<or> mon_GETNEWID s = Some t \<or> mon_LOGIN s = Some t \<or> mon_SETPPM s = Some t"
    using that
    by (auto simp: mon_MAPDATA_def mon_READGASACK_def mon_WARNING_def mon_UPDATEPPM_def mon_GETNEWID_def
        mon_LOGIN_def mon_SETPPM_def Let_def set_mems_def ProcessPackege_def
        elim!: plain_into split: Option.bind_splits)
  have data: "plain s t" if "mon_HEARTRATE s = Some t \<or> mon_LEDCOLOR s = Some t"
    using that
    by (auto simp: mon_HEARTRATE_def mon_LEDCOLOR_def Let_def send_package_def ProcessPackege_def
        Reflash_def plain_def dest!: plain_WebSocket_Data split: Option.bind_splits)
  have quiet: "plain s t" if "mon_READGAS s = Some t \<or> mon_HEARTRATEACK s = Some t \<or> mon_LOGINACK s = Some t \<or>
      mon_STOPALARM s = Some t"
    using that
    by (auto simp: mon_READGAS_def mon_HEARTRATEACK_def mon_LOGINACK_def mon_STOPALARM_def Let_def
        Reflash_def plain_def)
  have save: "plain s t" if "mon_NEWIDACK s = Some t"
    using that post wf_arraysD [OF assms(2)]
    by (auto simp: mon_NEWIDACK_def Let_def Reflash_def save_config_def Post_Id_def set_dev_id_def
        plain_def)
  show ?thesis
    using assms(1) send data quiet save plain_refl [of s]
    by (auto simp: run_command_def split: if_splits)
qed

lemma plain_networking:
  assumes "networking s = Some t" "wf_arrays s" "modes_ok s"
  shows "modes_ok t \<and> (\<exists>es. trace t = trace s @ es \<and> list_all flash_ok es)"
proof -
  have mon: "plain u v" if "ESP8266_Monitor u = Some v" "wf_arrays u" for u v
  proof -
    let ?u = "u\<lparr>DF := (DF u)\<lparr>command := received_command (Receive u) (command (DF u))\<rparr>\<rparr>"
    have "wf_arrays ?u" using that(2) by (simp add: wf_arrays_def)
    then have "plain ?u v" using that(1) plain_run_command [of _ ?u v] by (simp add: ESP8266_Monitor_def Let_def)
    then show ?thesis by (simp add: plain_def)
  qed
  have post: "list_all flash_ok (post_id_calls d)" for d by (simp add: post_id_calls_def Let_def)
  have tail: "modes_ok (net_logged_in v) \<and> (\<exists>es. trace (net_logged_in v) = trace v @ es \<and> list_all flash_ok es)"
    "modes_ok (net_not_logged_in v) \<and> (\<exists>es. trace (net_not_logged_in v) = trace v @ es \<and> list_all flash_ok es)"
    if "modes_ok v" for v
    using that by (auto simp: net_logged_in_def net_not_logged_in_def Let_def modes_ok_def)
  consider (timeout) "t = net_timeout s" | (offline) "t = net_offline s"
    | (run) u v where "plain s u" "wf_arrays u" "ESP8266_Monitor u = Some v"
        "t = net_logged_in v \<or> t = net_not_logged_in v"
  proof -
    let ?u = "s\<lparr>PP := (PP s)\<lparr>Cnt_ERROR := Cnt_ERROR (PP s) - 1\<rparr>\<rparr>"
    have p: "plain s ?u" "plain s (Post_Id ?u)" "wf_arrays ?u" "wf_arrays (Post_Id ?u)"
      using assms(2) post by (auto simp: plain_def Post_Id_def wf_arrays_def)
    show thesis
      using assms(1) that p unfolding networking_def Let_def
      by (auto split: if_splits Option.bind_splits)
  qed
  then show ?thesis
  proof cases
    case timeout
    then show ?thesis using assms(3) by (simp add: net_timeout_def modes_ok_def)
  next
    case offline
    then show ?thesis using assms(3) by (auto simp: net_offline_def modes_ok_def)
  next
    case run
    have sv: "plain s v" by (rule plain_trans [OF run(1) mon [OF run(3,2)]])
    then have "modes_ok v" using assms(3) by (simp add: plain_def modes_ok_def)
    then show ?thesis using tail [of v] run(4) sv unfolding plain_def by (metis append.assoc list_all_append)
  qed
qed

lemma good_iff: "good_call e \<longleftrightarrow> flash_ok e \<and> (\<forall>b. e = espconn_send websocket_tcp_conn b \<longrightarrow> valid_frame b \<or> b = websocketphead)"
  by (cases e) auto

lemma ok_networking: "system_ok s \<Longrightarrow> \<exists>t. networking s = Some t \<and> system_ok t"
proof -
  assume s: "system_ok s"
  then have w: "wf_arrays s" "map_addlen s \<le> 48" "modes_ok s" by (simp_all add: system_ok_def)
  obtain t where t: "networking s = Some t" "handled 1 s t" using periodic.handles [OF w(1,2)] by blast
  obtain es where es: "trace t = trace s @ es" "ws_frames_valid es" using t(2) by (auto simp: handled_def)
  have "modes_ok t" "list_all flash_ok es"
    using plain_networking [OF t(1) w(1,3)] es(1) by auto
  moreover from this es(2) have "list_all good_call es"
    by (auto simp: list_all_iff good_iff ws_frames_valid_def)
  ultimately show ?thesis
    using t s es(1) by (auto simp: handled_def system_ok_def)
qed

lemma ok_gas_main_cb: "system_ok s \<Longrightarrow> \<exists>t. gas_main_cb ip port s = Some t \<and> system_ok t"
proof -
  assume s: "system_ok s"
  have v: "valid_mode (Mode s)" using s by (simp add: system_ok_def modes_ok_def)
  have k: "system_ok (t\<lparr>Mode1 := m\<rparr>)" if "system_ok t" for t m using that by (auto simp: ok_defs)
  have init: "system_ok (Mode_init ip s)" "system_ok (InitOK s)"
    using s by (auto simp: Mode_init_def InitOK_def clear_init_flags_def ok_defs)
  have conf: "system_ok (gas_smartconfig port (s\<lparr>PP := (PP s)\<lparr>Cnt_Minite := 0\<rparr>\<rparr>))"
    using s by (intro ok_gas_smartconfig ok_PP) simp_all
  obtain u where u: "networking s = Some u" "system_ok u" using ok_networking [OF s] by blast
  show ?thesis
    using v k init conf ok_CheckIpStart [OF s] u s
    by (auto simp: gas_main_cb_def Let_def) (auto simp: ok_defs valid_mode_def)
qed

section \<open>The handlers that receive\<close>

lemma length_memcpy: "c_memcpy d i src j n = Some e \<Longrightarrow> length e = length d"
  by (auto dest: c_memcpy_SomeD)

lemma WebRecvData_effect:
  assumes "WebRecvData_Proc 0 s = Some t" "system_ok s"
  shows "system_ok t"
proof -
  have m: "length m' = length m" if "recv_mems m buf i len = Some m'" for m buf i len m'
    using that by (auto simp: recv_mems_def split: if_splits dest: length_memcpy)
  show ?thesis
    using assms
    by (auto simp: WebRecvData_Proc_def Let_def ok_defs dest!: length_memcpy m split: Option.bind_splits)
qed

lemma ok_ws_recv:
  assumes "websocket_tcp_recv_cb data len s = Some t" "system_ok s"
  shows "system_ok t"
proof -
  obtain u hit where u: "append_rx data len s = Some u" "c_strstr data 0 (str ''HTTP/1.1 101'') = Some hit"
    using assms(1) by (auto simp: websocket_tcp_recv_cb_def split: Option.bind_splits)
  let ?v = "if hit \<noteq> None then session_open u else u"
  have "system_ok u"
    using u(1) assms(2) by (auto simp: append_rx_def ok_defs dest!: length_memcpy split: Option.bind_splits)
  then have "system_ok ?v" by (auto simp: session_open_def Let_def ok_defs)
  then show ?thesis
    using assms(1) u WebRecvData_effect [of ?v t]
    by (auto simp: websocket_tcp_recv_cb_def Let_def split: if_splits)
qed

lemma ok_http_recv: "http_tcp_recv_cb data len s = Some t \<Longrightarrow> system_ok s \<Longrightarrow> system_ok t"
  by (auto simp: http_tcp_recv_cb_def Let_def ok_defs split: Option.bind_splits if_splits)

lemma map_loop_bound:
  "map_loop m p n v = Some (p', n', v') \<Longrightarrow> n \<le> length v \<Longrightarrow> n' \<le> length v \<and> length v' = length v"
proof (induction m p n v rule: map_loop.induct)
  case (1 m p n v)
  from 1(2) show ?case
    by (subst (asm) map_loop.simps)
      (use 1 in \<open>auto simp: Let_def split: Option.bind_splits if_splits dest: 1(1)\<close>)
qed

lemma length_copy_until: "copy_until stop m p i dst = Some d \<Longrightarrow> length d = length dst"
proof (induction stop m p i dst rule: copy_until.induct)
  case (1 stop m p i dst)
  from 1(2) show ?case
    by (subst (asm) copy_until.simps) (auto split: Option.bind_splits if_splits dest: 1(1))
qed

lemma length_hex_loop: "hex_loop chars hex hp cp n = Some h \<Longrightarrow> length h = length hex"
proof (induction chars hex hp cp n rule: hex_loop.induct)
  case (1 chars hex hp cp n)
  from 1(2) show ?case
    by (subst (asm) hex_loop.simps)
      (auto split: Option.bind_splits if_splits dest!: 1(1) dest: st_SomeD)
qed

lemma ok_map_recv:
  assumes "map_tcp_recv_cb data len s = Some t" "system_ok s"
  shows "system_ok t"
proof -
  have v: "length (map_v s) = 48" "unat (map_addlen s) \<le> 48"
    using assms(2) by (auto simp: ok_defs word_le_nat_alt)
  have le: "of_nat n \<le> (48 :: u8)" if "n \<le> 48" for n
    using that by (simp add: word_le_nat_alt unat_of_nat)
  obtain q p n v addr c mx my q' q'' where
    steps: "map_loop data q (unat (map_addlen s)) (map_v s) = Some (p, n, v)"
      "ChangeChar2Hex v (map_addr (MF s)) (of_nat n) = Some addr"
      "copy_until quote data q' 0 (map_x (MF s)) = Some mx"
      "copy_until quote data q'' 0 (map_y (MF s)) = Some my"
    and t: "t = s\<lparr>map_addlen := of_nat n, map_v := v,
       MF := \<lparr>city_code = c, map_x = mx, map_y = my, map_addr = addr\<rparr>\<rparr>"
    using assms(1) unfolding map_tcp_recv_cb_def map_data_def Let_def
    by (simp only: bind_eq_Some_conv split_paired_Ex prod.case option.inject) (elim exE conjE, blast)
  have "n \<le> 48" "length v = 48" using map_loop_bound [OF steps(1)] v by simp_all
  moreover have "length addr = length (map_addr (MF s))"
    using steps(2) unfolding ChangeChar2Hex_def by (rule length_hex_loop)
  ultimately show ?thesis
    using assms(2) le length_copy_until [OF steps(3)] length_copy_until [OF steps(4)]
    unfolding t by (simp add: ok_defs)
qed

section \<open>The invariant of all runs\<close>

lemma ok_main: "gas_main_cb ip port s = Some t \<Longrightarrow> system_ok s \<Longrightarrow> system_ok t"
  using ok_gas_main_cb [of s ip port] by auto

lemma main_no_fault: "system_ok s \<Longrightarrow> gas_main_cb ip port s \<noteq> None"
  using ok_gas_main_cb [of s ip port] by auto

lemma ok_step: "system_step e s = Some t \<Longrightarrow> system_ok s \<Longrightarrow> system_ok t"
  by (cases e)
    (auto simp: ok_pwmad_cb ok_keys ok_connections ok_airkiss ok_smartconfig_done
      intro: ok_main ok_ws_recv ok_http_recv ok_map_recv)

lemma step_no_fault: "system_ok s \<Longrightarrow> \<not> receives e \<Longrightarrow> system_step e s \<noteq> None"
  by (cases e) (simp_all add: main_no_fault del: not_None_eq)

lemma system_run_ok: "system_run f s \<Longrightarrow> wf_flash f \<and> system_ok s"
proof (induction rule: system_run.induct)
  case (power_on f gpio4)
  then show ?case by (simp add: ok_user_init)
next
  case (event f s e t)
  then show ?case using ok_step by blast
next
  case (reset f s g gpio4)
  then have "wf_flash g" by (auto simp: system_ok_def intro: wf_flash_after)
  then show ?case by (simp add: ok_user_init)
qed

end
