(* ===== verification/Uart.thy ===== *)
theory Uart
  imports Prelude
begin

text \<open>
  The serial driver \<open>app/user/uart.c\<close> over a file of memory-mapped registers: configuration,
  sending, the print port, the interrupt handler and the receive task. The build under study
  is the one of \<open>uart.h\<close>: no ring buffers (they are in theory UartBuf) and no hardware flow
  control pins.
\<close>

section \<open>The registers\<close>

abbreviation (input) REG_UART_BASE :: "u8 \<Rightarrow> u32" where "REG_UART_BASE i \<equiv> 0x60000000 + ucast i * 0xf00"
abbreviation (input) UART_FIFO :: "u8 \<Rightarrow> u32" where "UART_FIFO i \<equiv> REG_UART_BASE i + 0"
abbreviation (input) UART_INT_ST :: "u8 \<Rightarrow> u32" where "UART_INT_ST i \<equiv> REG_UART_BASE i + 0x8"
abbreviation (input) UART_INT_ENA :: "u8 \<Rightarrow> u32" where "UART_INT_ENA i \<equiv> REG_UART_BASE i + 0xC"
abbreviation (input) UART_INT_CLR :: "u8 \<Rightarrow> u32" where "UART_INT_CLR i \<equiv> REG_UART_BASE i + 0x10"
abbreviation (input) UART_STATUS :: "u8 \<Rightarrow> u32" where "UART_STATUS i \<equiv> REG_UART_BASE i + 0x1C"
abbreviation (input) UART_CONF0 :: "u8 \<Rightarrow> u32" where "UART_CONF0 i \<equiv> REG_UART_BASE i + 0x20"
abbreviation (input) UART_CONF1 :: "u8 \<Rightarrow> u32" where "UART_CONF1 i \<equiv> REG_UART_BASE i + 0x24"
abbreviation (input) UART_RXFIFO_TOUT_INT_ST :: u32 where "UART_RXFIFO_TOUT_INT_ST \<equiv> 0x100"
abbreviation (input) UART_RXFIFO_OVF_INT_ST :: u32 where "UART_RXFIFO_OVF_INT_ST \<equiv> 0x10"
abbreviation (input) UART_FRM_ERR_INT_ST :: u32 where "UART_FRM_ERR_INT_ST \<equiv> 0x8"
abbreviation (input) UART_TXFIFO_EMPTY_INT_ST :: u32 where "UART_TXFIFO_EMPTY_INT_ST \<equiv> 0x2"
abbreviation (input) UART_RXFIFO_FULL_INT_ST :: u32 where "UART_RXFIFO_FULL_INT_ST \<equiv> 0x1"
abbreviation (input) UART_RXFIFO_TOUT_INT_ENA :: u32 where "UART_RXFIFO_TOUT_INT_ENA \<equiv> 0x100"
abbreviation (input) UART_RXFIFO_OVF_INT_ENA :: u32 where "UART_RXFIFO_OVF_INT_ENA \<equiv> 0x10"
abbreviation (input) UART_FRM_ERR_INT_ENA :: u32 where "UART_FRM_ERR_INT_ENA \<equiv> 0x8"
abbreviation (input) UART_TXFIFO_EMPTY_INT_ENA :: u32 where "UART_TXFIFO_EMPTY_INT_ENA \<equiv> 0x2"
abbreviation (input) UART_RXFIFO_FULL_INT_ENA :: u32 where "UART_RXFIFO_FULL_INT_ENA \<equiv> 0x1"
abbreviation (input) UART_RXFIFO_TOUT_INT_CLR :: u32 where "UART_RXFIFO_TOUT_INT_CLR \<equiv> 0x100"
abbreviation (input) UART_RXFIFO_OVF_INT_CLR :: u32 where "UART_RXFIFO_OVF_INT_CLR \<equiv> 0x10"
abbreviation (input) UART_FRM_ERR_INT_CLR :: u32 where "UART_FRM_ERR_INT_CLR \<equiv> 0x8"
abbreviation (input) UART_TXFIFO_EMPTY_INT_CLR :: u32 where "UART_TXFIFO_EMPTY_INT_CLR \<equiv> 0x2"
abbreviation (input) UART_RXFIFO_FULL_INT_CLR :: u32 where "UART_RXFIFO_FULL_INT_CLR \<equiv> 0x1"
abbreviation (input) UART_TXFIFO_CNT :: u32 where "UART_TXFIFO_CNT \<equiv> 0xff"
abbreviation (input) UART_RXFIFO_CNT :: u32 where "UART_RXFIFO_CNT \<equiv> 0xff"
abbreviation (input) UART_TXFIFO_RST :: u32 where "UART_TXFIFO_RST \<equiv> 0x40000"
abbreviation (input) UART_RXFIFO_RST :: u32 where "UART_RXFIFO_RST \<equiv> 0x20000"
abbreviation (input) UART_TX_FLOW_EN :: u32 where "UART_TX_FLOW_EN \<equiv> 0x8000"
abbreviation (input) UART_STOP_BIT_NUM :: u32 where "UART_STOP_BIT_NUM \<equiv> 0x3"
abbreviation (input) UART_BIT_NUM :: u32 where "UART_BIT_NUM \<equiv> 0x3"
abbreviation (input) UART_PARITY_EN :: u32 where "UART_PARITY_EN \<equiv> 0x2"
abbreviation (input) UART_PARITY_EN_M :: u32 where "UART_PARITY_EN_M \<equiv> 0x1"
abbreviation (input) UART_PARITY :: u32 where "UART_PARITY \<equiv> 0x1"
abbreviation (input) UART_PARITY_M :: u32 where "UART_PARITY_M \<equiv> 0x1"
abbreviation (input) UART_RX_TOUT_EN :: u32 where "UART_RX_TOUT_EN \<equiv> 0x80000000"
abbreviation (input) UART_RX_TOUT_THRHD :: u32 where "UART_RX_TOUT_THRHD \<equiv> 0x7f"
abbreviation (input) UART_RX_FLOW_EN :: u32 where "UART_RX_FLOW_EN \<equiv> 0x800000"
abbreviation (input) UART_RX_FLOW_THRHD :: u32 where "UART_RX_FLOW_THRHD \<equiv> 0x7f"
abbreviation (input) UART_TXFIFO_EMPTY_THRHD :: u32 where "UART_TXFIFO_EMPTY_THRHD \<equiv> 0x7f"
abbreviation (input) UART_RXFIFO_FULL_THRHD :: u32 where "UART_RXFIFO_FULL_THRHD \<equiv> 0x7f"
abbreviation (input) UART_TXFIFO_CNT_S :: nat where "UART_TXFIFO_CNT_S \<equiv> 16"
abbreviation (input) UART_RXFIFO_CNT_S :: nat where "UART_RXFIFO_CNT_S \<equiv> 0"
abbreviation (input) UART_STOP_BIT_NUM_S :: nat where "UART_STOP_BIT_NUM_S \<equiv> 4"
abbreviation (input) UART_BIT_NUM_S :: nat where "UART_BIT_NUM_S \<equiv> 2"
abbreviation (input) UART_PARITY_EN_S :: nat where "UART_PARITY_EN_S \<equiv> 1"
abbreviation (input) UART_PARITY_S :: nat where "UART_PARITY_S \<equiv> 0"
abbreviation (input) UART_RX_TOUT_THRHD_S :: nat where "UART_RX_TOUT_THRHD_S \<equiv> 24"
abbreviation (input) UART_RX_FLOW_THRHD_S :: nat where "UART_RX_FLOW_THRHD_S \<equiv> 16"
abbreviation (input) UART_TXFIFO_EMPTY_THRHD_S :: nat where "UART_TXFIFO_EMPTY_THRHD_S \<equiv> 8"
abbreviation (input) UART_RXFIFO_FULL_THRHD_S :: nat where "UART_RXFIFO_FULL_THRHD_S \<equiv> 0"

text \<open>Of \<open>uart.h\<close>.\<close>

abbreviation (input) UART0 :: u8 where "UART0 \<equiv> 0"
abbreviation (input) UART1 :: u8 where "UART1 \<equiv> 1"
abbreviation (input) NONE_BITS :: u32 where "NONE_BITS \<equiv> 2"
abbreviation (input) ODD_BITS :: u32 where "ODD_BITS \<equiv> 1"
abbreviation (input) EVEN_BITS :: u32 where "EVEN_BITS \<equiv> 0"
abbreviation (input) STICK_PARITY_EN :: u32 where "STICK_PARITY_EN \<equiv> 1"
abbreviation (input) ONE_STOP_BIT :: u32 where "ONE_STOP_BIT \<equiv> 1"
abbreviation (input) EIGHT_BITS :: u32 where "EIGHT_BITS \<equiv> 3"
abbreviation (input) USART_HardwareFlowControl_RTS :: u32 where "USART_HardwareFlowControl_RTS \<equiv> 1"
abbreviation (input) USART_HardwareFlowControl_CTS :: u32 where "USART_HardwareFlowControl_CTS \<equiv> 2"
abbreviation (input) BIT_RATE_115200 :: u32 where "BIT_RATE_115200 \<equiv> 115200"
abbreviation (input) UART_FIFO_LEN :: nat where "UART_FIFO_LEN \<equiv> 128"
abbreviation (input) UART_TX_EMPTY_THRESH_VAL :: u32 where "UART_TX_EMPTY_THRESH_VAL \<equiv> 0x10"
abbreviation (input) FUNC_UART0_CTS :: u32 where "FUNC_UART0_CTS \<equiv> 4"
abbreviation (input) FUNC_U1TXD_BK :: u32 where "FUNC_U1TXD_BK \<equiv> 2"
abbreviation (input) UART_LINE_INV_MASK :: u32 where "UART_LINE_INV_MASK \<equiv> push_bit 19 0x3f"
abbreviation (input) UART_TX_BUFFER_SIZE :: u32 where "UART_TX_BUFFER_SIZE \<equiv> 256"
abbreviation (input) UART_RX_BUFFER_SIZE :: u32 where "UART_RX_BUFFER_SIZE \<equiv> 256"

text \<open>Of the SDK's \<open>eagle_soc.h\<close>.\<close>

abbreviation (input) PERIPHS_IO_MUX_MTCK_U :: u32 where "PERIPHS_IO_MUX_MTCK_U \<equiv> 0x60000808"
abbreviation (input) PERIPHS_IO_MUX_MTDO_U :: u32 where "PERIPHS_IO_MUX_MTDO_U \<equiv> 0x60000810"
abbreviation (input) PERIPHS_IO_MUX_U0TXD_U :: u32 where "PERIPHS_IO_MUX_U0TXD_U \<equiv> 0x60000818"
abbreviation (input) PERIPHS_IO_MUX_GPIO2_U :: u32 where "PERIPHS_IO_MUX_GPIO2_U \<equiv> 0x60000838"
abbreviation (input) PERIPHS_IO_MUX_PULLUP :: u32 where "PERIPHS_IO_MUX_PULLUP \<equiv> 0x80"
abbreviation (input) FUNC_U0TXD :: u32 where "FUNC_U0TXD \<equiv> 0"
abbreviation (input) FUNC_U0RTS :: u32 where "FUNC_U0RTS \<equiv> 4"
abbreviation (input) UART_CLK_FREQ :: u32 where "UART_CLK_FREQ \<equiv> 80000000"

section \<open>The hardware\<close>

text \<open>
  \<open>reg\<close> holds what a read of a register returns, \<open>writes\<close> is the log of all writes in order;
  \<open>putc1\<close> is the print function installed in ROM, \<open>posts\<close> the events posted to the receive
  task, \<open>rom\<close> the calls of \<open>uart_div_modify\<close> (the ROM's baud-rate setter).
\<close>

datatype print_port = uart1_port | uart0_port_no_wait | uart0_port

record uart_device =
  baut_rate :: u32
  data_bits :: u32
  exist_parity :: u32
  parity :: u32
  stop_bits :: u32
  TrigLvl :: u32

record uart_hw =
  reg :: "u32 \<Rightarrow> u32"
  writes :: "(u32 \<times> u32) list"
  putc1 :: "print_port option"
  posts :: "(u8 \<times> nat) list"
  rom :: "(u8 \<times> u32) list"
  uart_intr :: bool
  UartDev :: uart_device

definition blank_hw :: uart_hw where
  "blank_hw = \<lparr>reg = (\<lambda>_. 0), writes = [], putc1 = None, posts = [], rom = [], uart_intr = False,
     UartDev = \<lparr>baut_rate = 0, data_bits = 0, exist_parity = 0, parity = 0, stop_bits = 0, TrigLvl = 0\<rparr>\<rparr>"

definition READ_PERI_REG :: "u32 \<Rightarrow> uart_hw \<Rightarrow> u32" where
  "READ_PERI_REG a h = reg h a"

definition WRITE_PERI_REG :: "u32 \<Rightarrow> u32 \<Rightarrow> uart_hw \<Rightarrow> uart_hw" where
  "WRITE_PERI_REG a v h = h\<lparr>reg := (reg h)(a := v), writes := writes h @ [(a, v)]\<rparr>"

definition SET_PERI_REG_MASK :: "u32 \<Rightarrow> u32 \<Rightarrow> uart_hw \<Rightarrow> uart_hw" where
  "SET_PERI_REG_MASK a m h = WRITE_PERI_REG a (READ_PERI_REG a h OR m) h"

definition CLEAR_PERI_REG_MASK :: "u32 \<Rightarrow> u32 \<Rightarrow> uart_hw \<Rightarrow> uart_hw" where
  "CLEAR_PERI_REG_MASK a m h = WRITE_PERI_REG a (READ_PERI_REG a h AND NOT m) h"

definition SET_PERI_REG_BITS :: "u32 \<Rightarrow> u32 \<Rightarrow> u32 \<Rightarrow> nat \<Rightarrow> uart_hw \<Rightarrow> uart_hw" where
  "SET_PERI_REG_BITS a bit_map v shift h =
     WRITE_PERI_REG a ((READ_PERI_REG a h AND NOT (push_bit shift bit_map)) OR push_bit shift v) h"

definition PIN_FUNC_SELECT :: "u32 \<Rightarrow> u32 \<Rightarrow> uart_hw \<Rightarrow> uart_hw" where
  "PIN_FUNC_SELECT pin func h =
     WRITE_PERI_REG pin ((READ_PERI_REG pin h AND NOT (push_bit 4 0x13)) OR
       push_bit 4 (push_bit 2 (func AND 4) OR (func AND 3))) h"

definition PIN_PULLUP_DIS :: "u32 \<Rightarrow> uart_hw \<Rightarrow> uart_hw" where
  "PIN_PULLUP_DIS pin h = CLEAR_PERI_REG_MASK pin PERIPHS_IO_MUX_PULLUP h"

definition uart_div_modify :: "u8 \<Rightarrow> u32 \<Rightarrow> uart_hw \<Rightarrow> uart_hw" where
  "uart_div_modify uart_no d h = h\<lparr>rom := rom h @ [(uart_no, d)]\<rparr>"

lemmas peri_defs = READ_PERI_REG_def WRITE_PERI_REG_def SET_PERI_REG_MASK_def
  CLEAR_PERI_REG_MASK_def SET_PERI_REG_BITS_def PIN_FUNC_SELECT_def PIN_PULLUP_DIS_def
  uart_div_modify_def

section \<open>Configuration\<close>

definition uart_rx_intr_disable :: "u8 \<Rightarrow> uart_hw \<Rightarrow> uart_hw" where
  "uart_rx_intr_disable uart_no =
     CLEAR_PERI_REG_MASK (UART_INT_ENA uart_no) (UART_RXFIFO_FULL_INT_ENA OR UART_RXFIFO_TOUT_INT_ENA)"

definition uart_rx_intr_enable :: "u8 \<Rightarrow> uart_hw \<Rightarrow> uart_hw" where
  "uart_rx_intr_enable uart_no =
     SET_PERI_REG_MASK (UART_INT_ENA uart_no) (UART_RXFIFO_FULL_INT_ENA OR UART_RXFIFO_TOUT_INT_ENA)"

definition UART_ResetFifo :: "u8 \<Rightarrow> uart_hw \<Rightarrow> uart_hw" where
  "UART_ResetFifo uart_no h =
     CLEAR_PERI_REG_MASK (UART_CONF0 uart_no) (UART_RXFIFO_RST OR UART_TXFIFO_RST)
       (SET_PERI_REG_MASK (UART_CONF0 uart_no) (UART_RXFIFO_RST OR UART_TXFIFO_RST) h)"

definition frame_bits :: "uart_device \<Rightarrow> u32" where
  "frame_bits d = push_bit UART_PARITY_EN_S (exist_parity d AND UART_PARITY_EN_M)
     OR push_bit UART_PARITY_S (parity d AND UART_PARITY_M)
     OR push_bit UART_STOP_BIT_NUM_S (stop_bits d AND UART_STOP_BIT_NUM)
     OR push_bit UART_BIT_NUM_S (data_bits d AND UART_BIT_NUM)"

definition uart_config :: "u8 \<Rightarrow> uart_hw \<Rightarrow> uart_hw" where
  "uart_config uart_no h =
     (let h = (if uart_no = UART1 then PIN_FUNC_SELECT PERIPHS_IO_MUX_GPIO2_U FUNC_U1TXD_BK h
               else PIN_FUNC_SELECT PERIPHS_IO_MUX_U0TXD_U FUNC_U0TXD
                      (PIN_PULLUP_DIS PERIPHS_IO_MUX_U0TXD_U h));
          h = uart_div_modify uart_no (UART_CLK_FREQ div baut_rate (UartDev h)) h;
          h = WRITE_PERI_REG (UART_CONF0 uart_no) (frame_bits (UartDev h)) h;
          h = SET_PERI_REG_MASK (UART_CONF0 uart_no) (UART_RXFIFO_RST OR UART_TXFIFO_RST) h;
          h = CLEAR_PERI_REG_MASK (UART_CONF0 uart_no) (UART_RXFIFO_RST OR UART_TXFIFO_RST) h;
          h = (if uart_no = UART0
               then SET_PERI_REG_MASK (UART_INT_ENA uart_no) (UART_RXFIFO_TOUT_INT_ENA OR UART_FRM_ERR_INT_ENA)
                 (WRITE_PERI_REG (UART_CONF1 uart_no)
                   (push_bit UART_RXFIFO_FULL_THRHD_S (100 AND UART_RXFIFO_FULL_THRHD)
                    OR push_bit UART_RX_TOUT_THRHD_S (0x02 AND UART_RX_TOUT_THRHD)
                    OR UART_RX_TOUT_EN
                    OR push_bit UART_TXFIFO_EMPTY_THRHD_S (0x10 AND UART_TXFIFO_EMPTY_THRHD)) h)
               else WRITE_PERI_REG (UART_CONF1 uart_no)
                   (push_bit UART_RXFIFO_FULL_THRHD_S (TrigLvl (UartDev h) AND UART_RXFIFO_FULL_THRHD)) h);
          h = WRITE_PERI_REG (UART_INT_CLR uart_no) 0xffff h
      in SET_PERI_REG_MASK (UART_INT_ENA uart_no) (UART_RXFIFO_FULL_INT_ENA OR UART_RXFIFO_OVF_INT_ENA) h)"

definition uart_init :: "u32 \<Rightarrow> u32 \<Rightarrow> uart_hw \<Rightarrow> uart_hw" where
  "uart_init uart0_br uart1_br h =
     (let h = uart_config UART0 (h\<lparr>UartDev := (UartDev h)\<lparr>baut_rate := uart0_br\<rparr>\<rparr>);
          h = uart_config UART1 (h\<lparr>UartDev := (UartDev h)\<lparr>baut_rate := uart1_br\<rparr>\<rparr>)
      in h\<lparr>uart_intr := True\<rparr>)"

definition uart_reattach :: "uart_hw \<Rightarrow> uart_hw" where
  "uart_reattach = uart_init BIT_RATE_115200 BIT_RATE_115200"

definition uart_init_2 :: "u32 \<Rightarrow> u32 \<Rightarrow> uart_hw \<Rightarrow> uart_hw" where
  "uart_init_2 uart0_br uart1_br h =
     (let h = h\<lparr>UartDev := (UartDev h)\<lparr>baut_rate := uart0_br, exist_parity := STICK_PARITY_EN,
                 parity := EVEN_BITS, stop_bits := ONE_STOP_BIT, data_bits := EIGHT_BITS\<rparr>\<rparr>;
          h = uart_config UART0 h;
          h = uart_config UART1 (h\<lparr>UartDev := (UartDev h)\<lparr>baut_rate := uart1_br\<rparr>\<rparr>)
      in h\<lparr>uart_intr := True, putc1 := Some uart1_port\<rparr>)"

section \<open>Setters\<close>

definition UART_SetWordLength :: "u8 \<Rightarrow> u32 \<Rightarrow> uart_hw \<Rightarrow> uart_hw" where
  "UART_SetWordLength uart_no len = SET_PERI_REG_BITS (UART_CONF0 uart_no) UART_BIT_NUM len UART_BIT_NUM_S"

definition UART_SetStopBits :: "u8 \<Rightarrow> u32 \<Rightarrow> uart_hw \<Rightarrow> uart_hw" where
  "UART_SetStopBits uart_no bit_num =
     SET_PERI_REG_BITS (UART_CONF0 uart_no) UART_STOP_BIT_NUM bit_num UART_STOP_BIT_NUM_S"

definition UART_SetLineInverse :: "u8 \<Rightarrow> u32 \<Rightarrow> uart_hw \<Rightarrow> uart_hw" where
  "UART_SetLineInverse uart_no inverse_mask h =
     SET_PERI_REG_MASK (UART_CONF0 uart_no) inverse_mask
       (CLEAR_PERI_REG_MASK (UART_CONF0 uart_no) UART_LINE_INV_MASK h)"

definition UART_SetParity :: "u8 \<Rightarrow> u32 \<Rightarrow> uart_hw \<Rightarrow> uart_hw" where
  "UART_SetParity uart_no Parity_mode h =
     (let h = CLEAR_PERI_REG_MASK (UART_CONF0 uart_no) (UART_PARITY OR UART_PARITY_EN) h
      in if Parity_mode = NONE_BITS then h
         else SET_PERI_REG_MASK (UART_CONF0 uart_no) (Parity_mode OR UART_PARITY_EN) h)"

definition UART_SetBaudrate :: "u8 \<Rightarrow> u32 \<Rightarrow> uart_hw \<Rightarrow> uart_hw" where
  "UART_SetBaudrate uart_no baud_rate = uart_div_modify uart_no (UART_CLK_FREQ div baud_rate)"

definition UART_SetFlowCtrl :: "u8 \<Rightarrow> u32 \<Rightarrow> u8 \<Rightarrow> uart_hw \<Rightarrow> uart_hw" where
  "UART_SetFlowCtrl uart_no flow_ctrl rx_thresh h =
     (let h = (if flow_ctrl AND USART_HardwareFlowControl_RTS \<noteq> 0
               then SET_PERI_REG_MASK (UART_CONF1 uart_no) UART_RX_FLOW_EN
                 (SET_PERI_REG_BITS (UART_CONF1 uart_no) UART_RX_FLOW_THRHD (ucast rx_thresh) UART_RX_FLOW_THRHD_S
                   (PIN_FUNC_SELECT PERIPHS_IO_MUX_MTDO_U FUNC_U0RTS h))
               else CLEAR_PERI_REG_MASK (UART_CONF1 uart_no) UART_RX_FLOW_EN h)
      in if flow_ctrl AND USART_HardwareFlowControl_CTS \<noteq> 0
         then SET_PERI_REG_MASK (UART_CONF0 uart_no) UART_TX_FLOW_EN
                (PIN_FUNC_SELECT PERIPHS_IO_MUX_MTCK_U FUNC_UART0_CTS h)
         else CLEAR_PERI_REG_MASK (UART_CONF0 uart_no) UART_TX_FLOW_EN h)"

definition UART_ClearIntrStatus :: "u8 \<Rightarrow> u32 \<Rightarrow> uart_hw \<Rightarrow> uart_hw" where
  "UART_ClearIntrStatus uart_no clr_mask = WRITE_PERI_REG (UART_INT_CLR uart_no) clr_mask"

definition UART_SetIntrEna :: "u8 \<Rightarrow> u32 \<Rightarrow> uart_hw \<Rightarrow> uart_hw" where
  "UART_SetIntrEna uart_no ena_mask = SET_PERI_REG_MASK (UART_INT_ENA uart_no) ena_mask"

definition UART_SetPrintPort :: "u8 \<Rightarrow> uart_hw \<Rightarrow> uart_hw" where
  "UART_SetPrintPort uart_no h =
     (if uart_no = 1 then h\<lparr>putc1 := Some uart1_port\<rparr>
      else let h = h\<lparr>putc1 := Some uart0_port_no_wait\<rparr> in h\<lparr>putc1 := Some uart0_port\<rparr>)"

section \<open>Sending\<close>

text \<open>
  A loop that polls a status register takes the list of the values the hardware will show,
  one per read, and gives back what is left of it; \<open>None\<close>: still polling at the end of the
  list.
\<close>

definition tx_count :: "u32 \<Rightarrow> u32" where
  "tx_count status = drop_bit UART_TXFIFO_CNT_S status AND UART_TXFIFO_CNT"

fun wait_for_room :: "u32 list \<Rightarrow> u32 list option" where
  "wait_for_room [] = None"
| "wait_for_room (status # polls) =
     (let fifo_cnt = status AND push_bit UART_TXFIFO_CNT_S UART_TXFIFO_CNT
      in if drop_bit UART_TXFIFO_CNT_S fifo_cnt AND UART_TXFIFO_CNT < 126 then Some polls
         else wait_for_room polls)"

definition uart_tx_one_char :: "u8 \<Rightarrow> u8 \<Rightarrow> u32 list \<times> uart_hw \<Rightarrow> (u32 list \<times> uart_hw) option" where
  "uart_tx_one_char uart TxChar = (\<lambda>(polls, h). do {
     polls \<leftarrow> wait_for_room polls;
     Some (polls, WRITE_PERI_REG (UART_FIFO uart) (ucast TxChar) h) })"

definition uart_tx_one_char_no_wait :: "u8 \<Rightarrow> u8 \<Rightarrow> uart_hw \<Rightarrow> uart_hw" where
  "uart_tx_one_char_no_wait uart TxChar h =
     (let fifo_cnt = ucast (drop_bit UART_TXFIFO_CNT_S (READ_PERI_REG (UART_STATUS uart) h) AND UART_TXFIFO_CNT) :: u8
      in if fifo_cnt < 126 then WRITE_PERI_REG (UART_FIFO uart) (ucast TxChar) h else h)"

definition uart0_tx_one_char_no_wait :: "u8 \<Rightarrow> uart_hw \<Rightarrow> uart_hw" where
  "uart0_tx_one_char_no_wait TxChar h =
     (let fifo_cnt = ucast (drop_bit UART_TXFIFO_CNT_S (READ_PERI_REG (UART_STATUS UART0) h) AND UART_TXFIFO_CNT) :: u8
      in if fifo_cnt < 126 then WRITE_PERI_REG (UART_FIFO UART0) (ucast TxChar) h else h)"

definition uart1_write_char :: "u8 \<Rightarrow> u32 list \<times> uart_hw \<Rightarrow> (u32 list \<times> uart_hw) option" where
  "uart1_write_char c s =
     (if c = 10 then do { s \<leftarrow> uart_tx_one_char UART1 13 s; uart_tx_one_char UART1 10 s }
      else if c = 13 then Some s
      else uart_tx_one_char UART1 c s)"

definition uart0_write_char :: "u8 \<Rightarrow> u32 list \<times> uart_hw \<Rightarrow> (u32 list \<times> uart_hw) option" where
  "uart0_write_char c s =
     (if c = 10 then do { s \<leftarrow> uart_tx_one_char UART0 13 s; uart_tx_one_char UART0 10 s }
      else if c = 13 then Some s
      else uart_tx_one_char UART0 c s)"

definition uart0_write_char_no_wait :: "u8 \<Rightarrow> uart_hw \<Rightarrow> uart_hw" where
  "uart0_write_char_no_wait c h =
     (if c = 10 then uart_tx_one_char_no_wait UART0 10 (uart_tx_one_char_no_wait UART0 13 h)
      else if c = 13 then h
      else uart_tx_one_char_no_wait UART0 c h)"

text \<open>The loop of \<open>uart0_tx_buffer\<close>; its 16-bit counter is compared with a 16-bit length.\<close>

fun tx_from :: "nat \<Rightarrow> u8 list \<Rightarrow> nat \<Rightarrow> u32 list \<times> uart_hw \<Rightarrow> (u32 list \<times> uart_hw) option" where
  "tx_from 0 buf i s = Some s"
| "tx_from (Suc n) buf i s = do { c \<leftarrow> ld buf i; s \<leftarrow> uart_tx_one_char UART0 c s; tx_from n buf (Suc i) s }"

definition uart0_tx_buffer :: "u8 list \<Rightarrow> u16 \<Rightarrow> u32 list \<times> uart_hw \<Rightarrow> (u32 list \<times> uart_hw) option" where
  "uart0_tx_buffer buf len s = tx_from (unat len) buf 0 s"

text \<open>The string is the memory from its first character on; \<open>None\<close> when it has no terminator.\<close>

fun uart0_sendStr :: "u8 list \<Rightarrow> u32 list \<times> uart_hw \<Rightarrow> (u32 list \<times> uart_hw) option" where
  "uart0_sendStr [] s = None"
| "uart0_sendStr (c # str) s =
     (if c = 0 then Some s else do { s \<leftarrow> uart_tx_one_char UART0 c s; uart0_sendStr str s })"

fun uart1_sendStr_no_wait :: "u8 list \<Rightarrow> uart_hw \<Rightarrow> uart_hw option" where
  "uart1_sendStr_no_wait [] h = None"
| "uart1_sendStr_no_wait (c # str) h =
     (if c = 0 then Some h else uart1_sendStr_no_wait str (uart_tx_one_char_no_wait UART1 c h))"

section \<open>Interrupt handler and receive task\<close>

definition FRM_ERR :: "u8 list" where "FRM_ERR = [70, 82, 77, 95, 69, 82, 82, 13, 10, 0]"

definition RX_OVF :: "u8 list" where "RX_OVF = [82, 88, 32, 79, 86, 70, 33, 33, 13, 10, 0]"

definition int_pending :: "u32 \<Rightarrow> uart_hw \<Rightarrow> bool" where
  "int_pending m h \<longleftrightarrow> m = READ_PERI_REG (UART_INT_ST UART0) h AND m"

definition rx_event :: "u32 \<Rightarrow> uart_hw \<Rightarrow> uart_hw" where
  "rx_event clr h =
     (let h = WRITE_PERI_REG (UART_INT_CLR UART0) clr (uart_rx_intr_disable UART0 h)
      in h\<lparr>posts := posts h @ [(0, 0)]\<rparr>)"

definition uart0_rx_intr_handler :: "uart_hw \<Rightarrow> uart_hw option" where
  "uart0_rx_intr_handler h =
     (if int_pending UART_FRM_ERR_INT_ST h then do {
        h \<leftarrow> uart1_sendStr_no_wait FRM_ERR h;
        Some (WRITE_PERI_REG (UART_INT_CLR UART0) UART_FRM_ERR_INT_CLR h) }
      else if int_pending UART_RXFIFO_FULL_INT_ST h then Some (rx_event UART_RXFIFO_FULL_INT_CLR h)
      else if int_pending UART_RXFIFO_TOUT_INT_ST h then Some (rx_event UART_RXFIFO_TOUT_INT_CLR h)
      else if int_pending UART_TXFIFO_EMPTY_INT_ST h then
        Some (WRITE_PERI_REG (UART_INT_CLR UART0) UART_TXFIFO_EMPTY_INT_CLR
          (CLEAR_PERI_REG_MASK (UART_INT_ENA UART0) UART_TXFIFO_EMPTY_INT_ENA h))
      else if int_pending UART_RXFIFO_OVF_INT_ST h then
        uart1_sendStr_no_wait RX_OVF (WRITE_PERI_REG (UART_INT_CLR UART0) UART_RXFIFO_OVF_INT_CLR h)
      else Some h)"

fun echo :: "nat \<Rightarrow> u32 list \<times> uart_hw \<Rightarrow> (u32 list \<times> uart_hw) option" where
  "echo 0 s = Some s"
| "echo (Suc n) s = do { s \<leftarrow> uart_tx_one_char UART0 0 s; echo n s }"

definition rx_count :: "u32 \<Rightarrow> u8" where
  "rx_count status = ucast (drop_bit UART_RXFIFO_CNT_S status AND UART_RXFIFO_CNT)"

definition uart_recvTask :: "nat \<Rightarrow> u32 list \<times> uart_hw \<Rightarrow> (u32 list \<times> uart_hw) option" where
  "uart_recvTask sig s =
     (if sig = 0 then do {
        (polls, h) \<leftarrow> echo (unat (rx_count (READ_PERI_REG (UART_STATUS UART0) (snd s)))) s;
        let h = WRITE_PERI_REG (UART_INT_CLR UART0) (UART_RXFIFO_FULL_INT_CLR OR UART_RXFIFO_TOUT_INT_CLR) h;
        Some (polls, uart_rx_intr_enable UART0 h) }
      else Some s)"

section \<open>Waiting for the output\<close>

text \<open>
  Each pass reads the status and then the clock: a list of such pairs. Both functions return
  at the latest when the clock has passed the time-out. The watchdog is fed in each pass.
\<close>

definition feed_watchdog :: "uart_hw \<Rightarrow> uart_hw" where
  "feed_watchdog h = WRITE_PERI_REG 0x60000914 0x73 h"

fun wait_empty :: "u32 \<Rightarrow> u32 \<Rightarrow> (u32 \<times> u32) list \<Rightarrow> uart_hw \<Rightarrow> uart_hw option" where
  "wait_empty t_s time_out_us [] h = None"
| "wait_empty t_s time_out_us ((status, now) # polls) h =
     (if status AND push_bit UART_TXFIFO_CNT_S UART_TXFIFO_CNT = 0 then Some h
      else if time_out_us < now - t_s then Some h
      else wait_empty t_s time_out_us polls (feed_watchdog h))"

definition UART_WaitTxFifoEmpty :: "u32 \<Rightarrow> u32 \<Rightarrow> (u32 \<times> u32) list \<Rightarrow> uart_hw \<Rightarrow> uart_hw option" where
  "UART_WaitTxFifoEmpty t_s time_out_us polls h = wait_empty t_s time_out_us polls h"

text \<open>With \<open>buffered\<close>, the bytes in the transmit ring (none when there is no ring).\<close>

fun check_finished :: "u32 \<Rightarrow> u32 \<Rightarrow> (u32 \<times> nat \<times> u32) list \<Rightarrow> uart_hw \<Rightarrow> (bool \<times> uart_hw) option" where
  "check_finished t_start time_out_us [] h = None"
| "check_finished t_start time_out_us ((status, buffered, now) # polls) h =
     (if tx_count status = 0 \<and> buffered = 0 then Some (True, h)
      else if time_out_us < now - t_start then Some (False, h)
      else check_finished t_start time_out_us polls (feed_watchdog h))"

definition UART_CheckOutputFinished ::
  "u32 \<Rightarrow> u32 \<Rightarrow> (u32 \<times> nat \<times> u32) list \<Rightarrow> uart_hw \<Rightarrow> (bool \<times> uart_hw) option" where
  "UART_CheckOutputFinished t_start time_out_us polls h = check_finished t_start time_out_us polls h"

section \<open>What is sent\<close>

definition has_room :: "u32 \<Rightarrow> bool" where
  "has_room status \<longleftrightarrow> tx_count status < 126"

text \<open>How often the polled hardware had room, and what is left after the first time.\<close>

definition rooms :: "u32 list \<Rightarrow> nat" where
  "rooms polls = length (filter has_room polls)"

definition after_room :: "u32 list \<Rightarrow> u32 list" where
  "after_room polls = tl (dropWhile (\<lambda>p. \<not> has_room p) polls)"

definition sent :: "u8 \<Rightarrow> u8 list \<Rightarrow> uart_hw \<Rightarrow> uart_hw" where
  "sent uart bs h = fold (\<lambda>b. WRITE_PERI_REG (UART_FIFO uart) (ucast b)) bs h"

fun tx_all :: "u8 \<Rightarrow> u8 list \<Rightarrow> u32 list \<times> uart_hw \<Rightarrow> (u32 list \<times> uart_hw) option" where
  "tx_all uart [] s = Some s"
| "tx_all uart (b # bs) s = do { s \<leftarrow> uart_tx_one_char uart b s; tx_all uart bs s }"

lemma masked_count:
  "drop_bit 16 ((status :: u32) AND push_bit 16 0xFF) AND 0xFF = drop_bit 16 status AND 0xFF"
  by (rule bit_word_eqI) (auto simp: bit_simps)

lemma wait_for_room_iff:
  "wait_for_room polls = (if rooms polls = 0 then None else Some (after_room polls))"
proof (induction polls)
  case Nil
  then show ?case by (simp add: rooms_def)
next
  case (Cons p polls)
  have "wait_for_room (p # polls) = (if has_room p then Some polls else wait_for_room polls)"
    unfolding wait_for_room.simps Let_def masked_count has_room_def tx_count_def ..
  then show ?case using Cons by (simp add: rooms_def after_room_def)
qed

lemma rooms_after: "rooms (after_room polls) = rooms polls - 1"
proof (induction polls)
  case Nil
  then show ?case by (simp add: rooms_def after_room_def)
next
  case (Cons p polls)
  then show ?case by (cases "has_room p") (simp_all add: rooms_def after_room_def)
qed

lemma tx_one_char:
  "uart_tx_one_char uart c (polls, h) =
     (if rooms polls = 0 then None else Some (after_room polls, WRITE_PERI_REG (UART_FIFO uart) (ucast c) h))"
  by (simp add: uart_tx_one_char_def wait_for_room_iff)

lemma tx_all_result:
  "tx_all uart bs (polls, h) =
     (if length bs \<le> rooms polls then Some ((after_room ^^ length bs) polls, sent uart bs h) else None)"
proof (induction bs arbitrary: polls h)
  case Nil
  then show ?case by (simp add: sent_def)
next
  case (Cons b bs)
  show ?case
    by (simp add: tx_one_char Cons.IH rooms_after sent_def funpow_swap1) linarith
qed

lemma tx_all_append:
  "tx_all uart (as @ bs) s = Option.bind (tx_all uart as s) (tx_all uart bs)"
  by (induction as arbitrary: s) (auto split: Option.bind_splits)

lemma writes_sent [simp]:
  "writes (sent uart bs h) = writes h @ map (\<lambda>b. (UART_FIFO uart, ucast b)) bs"
  by (induction bs arbitrary: h) (simp_all add: sent_def WRITE_PERI_REG_def)

lemma reg_sent: "a \<noteq> UART_FIFO uart \<Longrightarrow> reg (sent uart bs h) a = reg h a"
  by (induction bs arbitrary: h) (simp_all add: sent_def WRITE_PERI_REG_def)

text \<open>The line ends the print ports put on the wire.\<close>

definition crlf :: "u8 list \<Rightarrow> u8 list" where
  "crlf cs = concat (map (\<lambda>c. if c = 10 then [13, 10] else if c = 13 then [] else [c]) cs)"

fun print_string :: "(u8 \<Rightarrow> 's \<Rightarrow> 's option) \<Rightarrow> u8 list \<Rightarrow> 's \<Rightarrow> 's option" where
  "print_string putc [] s = Some s"
| "print_string putc (c # cs) s = do { s \<leftarrow> putc c s; print_string putc cs s }"

lemma print_tx_all:
  "print_string uart0_write_char cs s = tx_all UART0 (crlf cs) s"
  "print_string uart1_write_char cs s = tx_all UART1 (crlf cs) s"
  by (induction cs arbitrary: s)
    (auto simp: crlf_def uart0_write_char_def uart1_write_char_def split: Option.bind_splits)

lemma echo_tx_all: "echo n = tx_all UART0 (replicate n 0)"
  by (induction n) (rule ext, simp)+

lemma tx_from_tx_all: "i + n \<le> length buf \<Longrightarrow> tx_from n buf i = tx_all UART0 (take n (drop i buf))"
proof (induction n arbitrary: i)
  case 0
  then show ?case by (intro ext) simp
next
  case (Suc n)
  then have "take (Suc n) (drop i buf) = buf ! i # take n (drop (Suc i) buf)"
    by (metis Cons_nth_drop_Suc Suc_le_lessD add_Suc_right less_add_Suc1 order_less_le_trans take_Suc_Cons)
  with Suc show ?case by (intro ext) simp
qed

lemma sendStr_tx_all: "0 \<in> set str \<Longrightarrow> uart0_sendStr str = tx_all UART0 (takeWhile (\<lambda>c. c \<noteq> 0) str)"
  by (induction str) (simp, rule ext, auto)

section \<open>The properties\<close>

text \<open>
  Everything that is printed or sent through a waiting function of UART0 arrives in the
  transmit FIFO completely, in order and exactly once, as soon as the hardware has shown room
  as often as there are bytes, and not before: text with its line ends made CR LF (and lone
  CRs dropped), a buffer as it is, a string up to its terminator.
\<close>

theorem uart0_output:
  assumes "0 \<in> set str" "unat len \<le> length buf"
  defines "arrives bs r polls h \<equiv>
    r = (if length bs \<le> rooms polls then Some ((after_room ^^ length bs) polls, sent UART0 bs h) else None)
    \<and> writes (sent UART0 bs h) = writes h @ map (\<lambda>b. (0x60000000, ucast b)) bs"
  shows "arrives (crlf cs) (print_string uart0_write_char cs (polls, h)) polls h \<and>
    arrives (take (unat len) buf) (uart0_tx_buffer buf len (polls, h)) polls h \<and>
    arrives (takeWhile (\<lambda>c. c \<noteq> 0) str) (uart0_sendStr str (polls, h)) polls h"
  using assms(1,2)
  by (simp_all add: arrives_def print_tx_all uart0_tx_buffer_def tx_from_tx_all sendStr_tx_all
      tx_all_result)

lemma uart0_output_witness:
  "print_string uart0_write_char [72, 105, 10] ([0, 0, 0x7F0000, 0, 0], blank_hw) =
     Some ([], sent UART0 [72, 105, 13, 10] blank_hw)"
proof -
  have "has_room 0" "\<not> has_room 0x7F0000" by (simp_all add: has_room_def tx_count_def)
  then show ?thesis
    using uart0_output [of "[0]" 0 "[]" "[72, 105, 10]" "[0, 0, 0x7F0000, 0, 0]" blank_hw]
    by (simp add: crlf_def rooms_def after_room_def)
qed

section \<open>Receiving\<close>

lemma u32_and_shift: "n < 32 \<Longrightarrow> (x :: u32) AND 2 ^ n \<noteq> 0 \<longleftrightarrow> bit x n"
  by (simp add: bit_iff_and_push_bit_not_eq_0)

text \<open>
  The receive path of this build. When the FIFO-full or time-out interrupt is the one
  served, the handler masks both, acknowledges it and posts one event; the task that gets the
  event answers the n received bytes with n NUL bytes, whatever was received, acknowledges and
  unmasks the interrupts; these are all the register writes it makes.
\<close>

theorem received_bytes_are_not_read:
  assumes "\<not> int_pending UART_FRM_ERR_INT_ST h"
    and "int_pending UART_RXFIFO_FULL_INT_ST h \<or> int_pending UART_RXFIFO_TOUT_INT_ST h"
    and "uart0_rx_intr_handler h = Some h1"
    and "n = unat (rx_count (reg h1 0x6000001C))" "n \<le> rooms polls"
    and "uart_recvTask 0 (polls, h1) = Some (polls', h2)"
  shows "posts h1 = posts h @ [(0, 0)] \<and>
    reg h1 0x6000000C = reg h 0x6000000C AND NOT 0x101 \<and>
    writes h2 = writes h1 @ replicate n (0x60000000, 0) @
           [(0x60000010, 0x101), (0x6000000C, reg h1 0x6000000C OR 0x101)]"
  using assms
  by (auto simp: uart0_rx_intr_handler_def rx_event_def uart_rx_intr_disable_def
      uart_recvTask_def uart_rx_intr_enable_def echo_tx_all tx_all_result peri_defs reg_sent
      split: if_splits)

lemma received_bytes_are_not_read_witness:
  "(let h = blank_hw\<lparr>reg := (\<lambda>_. 0)(0x60000008 := 1, 0x6000001C := 2, 0x6000000C := 0x119)\<rparr>
    in case uart0_rx_intr_handler h of None \<Rightarrow> False | Some h1 \<Rightarrow>
       reg h1 0x6000000C = 0x18 \<and>
       (case uart_recvTask 0 ([0, 0], h1) of None \<Rightarrow> False | Some (_, h2) \<Rightarrow>
          writes h2 = writes h1 @ [(0x60000000, 0), (0x60000000, 0), (0x60000010, 0x101), (0x6000000C, 0x119)]))"
proof -
  let ?h = "blank_hw\<lparr>reg := (\<lambda>_. 0)(0x60000008 := 1, 0x6000001C := 2, 0x6000000C := 0x119)\<rparr>"
  have ints: "\<not> int_pending UART_FRM_ERR_INT_ST ?h" "int_pending UART_RXFIFO_FULL_INT_ST ?h"
    by (simp_all add: int_pending_def peri_defs)
  then obtain h1 where h1: "uart0_rx_intr_handler ?h = Some h1"
      "reg h1 0x6000001C = 2" "reg h1 0x6000000C = 0x18"
    by (simp add: uart0_rx_intr_handler_def rx_event_def uart_rx_intr_disable_def peri_defs)
  have "has_room 0" by (simp add: has_room_def tx_count_def)
  then have r: "rooms [0, 0] = 2" by (simp add: rooms_def)
  have n: "2 = unat (rx_count (reg h1 0x6000001C))" by (simp add: h1 rx_count_def)
  obtain p h2 where h2: "uart_recvTask 0 ([0, 0], h1) = Some (p, h2)"
    using r n by (simp add: uart_recvTask_def echo_tx_all tx_all_result peri_defs)
  have "writes h2 = writes h1 @ replicate 2 (0x60000000, 0) @
      [(0x60000010, 0x101), (0x6000000C, reg h1 0x6000000C OR 0x101)]"
    by (rule received_bytes_are_not_read [THEN conjunct2, THEN conjunct2, OF ints(1) disjI1 [OF ints(2)] h1(1) n _ h2]) (simp add: r)
  then show ?thesis by (simp add: h1 h2 eval_nat_numeral Let_def)
qed

section \<open>Configuration\<close>

lemma no_reset_bits: "frame_bits d AND 0x60000 = 0"
proof -
  have "((a AND 2) OR (b AND 1) OR (c AND 48) OR (e AND 12)) AND 0x60000 = (0 :: u32)" for a b c e
    by (simp add: bit.conj_disj_distrib2 and.assoc)
  then show ?thesis by (simp add: frame_bits_def push_bit_and)
qed

lemma set_then_clear: "x AND c = 0 \<Longrightarrow> (x OR c) AND NOT c = (x :: u32)"
proof -
  assume x: "x AND c = 0"
  have "(x OR c) AND NOT c = x AND NOT c" by (simp add: bit.conj_disj_distrib2)
  also have "\<dots> = (x AND c) OR (x AND NOT c)" by (simp add: x)
  also have "\<dots> = x AND (c OR NOT c)" by (simp only: bit.conj_disj_distrib)
  finally show ?thesis by simp
qed

lemma frame_bits_baut [simp]: "frame_bits (d\<lparr>baut_rate := b\<rparr>) = frame_bits d"
  by (simp add: frame_bits_def)

lemmas reset_fifo_bits = set_then_clear [OF no_reset_bits, simplified]

text \<open>
  \<open>uart_init\<close> gives each port its own divisor of the 80 MHz clock and the frame format of
  the device record (parity enable, parity, stop bits, data bits in their fields, both FIFO
  resets released), enables the time-out and framing interrupts on UART0 only and full and
  overflow on both, and changes no other enable bit.
\<close>

theorem uart_init_configures:
  "rom (uart_init br0 br1 h) = rom h @ [(0, 80000000 div br0), (1, 80000000 div br1)]"
  "reg (uart_init br0 br1 h) 0x60000020 = frame_bits (UartDev h)"
  "reg (uart_init br0 br1 h) 0x60000F20 = frame_bits (UartDev h)"
  "reg (uart_init br0 br1 h) 0x6000000C = reg h 0x6000000C OR 0x119"
  "reg (uart_init br0 br1 h) 0x60000F0C = reg h 0x60000F0C OR 0x11"
  "uart_intr (uart_init br0 br1 h)"
  by (simp_all add: uart_init_def uart_config_def peri_defs Let_def reset_fifo_bits or.assoc)

section \<open>Termination of the waits\<close>

definition output_finished :: "u32 \<times> nat \<times> u32 \<Rightarrow> bool" where
  "output_finished p \<longleftrightarrow> tx_count (fst p) = 0 \<and> fst (snd p) = 0"

definition time_over :: "u32 \<Rightarrow> u32 \<Rightarrow> u32 \<times> nat \<times> u32 \<Rightarrow> bool" where
  "time_over t_start time_out_us p \<longleftrightarrow> time_out_us < snd (snd p) - t_start"

lemma check_finished_decided:
  "p \<in> set polls \<Longrightarrow> output_finished p \<or> time_over t0 tmo p \<Longrightarrow>
   \<exists>h'. check_finished t0 tmo polls h =
     Some (output_finished (hd (dropWhile (\<lambda>p. \<not> (output_finished p \<or> time_over t0 tmo p)) polls)), h')"
  by (induction t0 tmo polls h rule: check_finished.induct)
    (auto simp: output_finished_def time_over_def)

lemma wait_empty_decided:
  "(status, now) \<in> set polls \<Longrightarrow> tmo < now - t0 \<Longrightarrow> wait_empty t0 tmo polls h \<noteq> None"
  by (induction t0 tmo polls h rule: wait_empty.induct) auto

lemma clock_runs_out:
  assumes "\<And>i. i < length clock \<Longrightarrow> i \<le> unat (clock ! i - t0)" and "unat tmo + 1 < length clock"
  shows "tmo < clock ! (unat tmo + 1) - (t0 :: u32)"
  using assms(1) [OF assms(2)] by (simp add: word_less_nat_alt)

text \<open>
  C40: the waits for the end of the output return. If at least i microseconds have passed at the
  i-th poll (the 32-bit clock may wrap), \<open>UART_CheckOutputFinished\<close> and
  \<open>UART_WaitTxFifoEmpty\<close> return within two polls more than the time-out has microseconds, and
  the first returns true exactly when the first poll that finds the output finished or the
  time over finds it finished.
\<close>

theorem output_waits_return:
  assumes "\<And>i. i < length polls \<Longrightarrow> i \<le> unat (snd (snd (polls ! i)) - t0)"
    and "unat tmo + 1 < length polls"
  shows "(\<exists>h'. UART_CheckOutputFinished t0 tmo polls h =
      Some (output_finished (hd (dropWhile (\<lambda>p. \<not> (output_finished p \<or> time_over t0 tmo p)) polls)), h')) \<and>
    UART_WaitTxFifoEmpty t0 tmo (map (\<lambda>p. (fst p, snd (snd p))) polls) h \<noteq> None"
proof -
  let ?p = "polls ! (unat tmo + 1)"
  have late: "tmo < snd (snd ?p) - t0"
    using clock_runs_out [of "map (\<lambda>p. snd (snd p)) polls" t0 tmo] assms by simp
  have p: "?p \<in> set polls" using assms(2) by simp
  then have "(fst ?p, snd (snd ?p)) \<in> set (map (\<lambda>p. (fst p, snd (snd p))) polls)" by simp
  then show ?thesis
    using check_finished_decided [OF p] wait_empty_decided late
    unfolding UART_CheckOutputFinished_def UART_WaitTxFifoEmpty_def time_over_def by blast
qed

lemma output_waits_return_witness:
  "\<exists>h'. UART_CheckOutputFinished 0xFFFFFFFF 1 [(0x30000, 0, 0xFFFFFFFF), (0x20000, 0, 0), (0x10000, 0, 1)] blank_hw
     = Some (False, h')"
proof -
  let ?polls = "[(0x30000, 0, 0xFFFFFFFF), (0x20000, 0, 0), (0x10000, 0, 1)] :: (u32 \<times> nat \<times> u32) list"
  have c: "i \<le> unat (snd (snd (?polls ! i)) - 0xFFFFFFFF)" if "i < length ?polls" for i
    using that by (auto simp: less_Suc_eq numeral_3_eq_3)
  have n: "\<not> output_finished p" if "p \<in> set ?polls" for p
    using that by (auto simp: output_finished_def tx_count_def)
  have two: "(1 - 0xFFFFFFFF :: u32) = 2" by (simp add: word_eq_iff_unsigned)
  have t: "time_over 0xFFFFFFFF 1 (0x10000, 0, 1)" by (simp only: time_over_def two snd_conv) simp
  have first: "\<not> output_finished (hd (dropWhile (\<lambda>p. \<not> (output_finished p \<or> late p)) ?polls))"
    if "late (0x10000, 0, 1)" for late
    using that n by auto
  have "\<exists>h'. UART_CheckOutputFinished 0xFFFFFFFF 1 ?polls blank_hw = Some (output_finished
      (hd (dropWhile (\<lambda>p. \<not> (output_finished p \<or> time_over 0xFFFFFFFF 1 p)) ?polls)), h')"
    by (rule conjunct1 [OF output_waits_return [OF c]]) simp_all
  then show ?thesis using first [of "time_over 0xFFFFFFFF 1", OF t] by (simp only: simp_thms)
qed

end
