(* ===== verification/UartBuf.thy ===== *)
theory UartBuf
  imports Uart
begin

text \<open>
  The ring buffers of \<open>app/user/uart.c\<close> (its part under \<open>UART_BUFF_EN\<close>): one for what is to be
  sent, one for what has been received. The locale \<open>byte_queue\<close> states what a driver relies
  on; both rings are interpretations of it. Positions in a buffer are offsets from its start;
  every copy is checked against the ends of both objects.
\<close>

section \<open>The buffer\<close>

record UartBuffer =
  UartBuffSize :: u32
  pUartBuff :: "u8 list"
  pInPos :: nat
  pOutPos :: nat
  BuffState :: u32
  Space :: u16
  TcpControl :: u8

definition no_buf_for_uart :: "u8 list" where
  "no_buf_for_uart = [110, 111, 32, 98, 117, 102, 32, 102, 111, 114, 32, 117, 97, 114, 116, 10, 13, 0]"

text \<open>
  \<open>heap_size\<close> is the free heap, \<open>fresh\<close> the content of the memory \<open>os_malloc\<close> returns.
  \<open>OK\<close> and \<open>RUN\<close> are 0.
\<close>

definition Uart_Buf_Init ::
  "u32 \<Rightarrow> (nat \<Rightarrow> u8 list) \<Rightarrow> u32 \<Rightarrow> uart_hw \<Rightarrow> (UartBuffer option \<times> uart_hw) option" where
  "Uart_Buf_Init heap_size fresh buf_size h =
     (if heap_size \<le> buf_size
      then do { h \<leftarrow> uart1_sendStr_no_wait no_buf_for_uart h; Some (None, h) }
      else Some (Some \<lparr>UartBuffSize = buf_size, pUartBuff = fresh (unat buf_size), pInPos = 0, pOutPos = 0,
                   BuffState = 0, Space = ucast buf_size, TcpControl = 0\<rparr>, h))"

abbreviation bsize :: "UartBuffer \<Rightarrow> nat" where
  "bsize b \<equiv> unat (UartBuffSize b)"

definition Uart_Buf_Cpy :: "UartBuffer \<Rightarrow> u8 list \<Rightarrow> u16 \<Rightarrow> UartBuffer option" where
  "Uart_Buf_Cpy pCur pdata data_len =
     (if data_len = 0 then Some pCur
      else let tail_len = of_nat (bsize pCur - pInPos pCur) :: u16
      in if data_len \<le> tail_len then do {
           m \<leftarrow> c_memcpy (pUartBuff pCur) (pInPos pCur) pdata 0 (unat data_len);
           Some (pCur\<lparr>pUartBuff := m, pInPos := (pInPos pCur + unat data_len) mod bsize pCur,
                   Space := Space pCur - data_len\<rparr>) }
         else do {
           m \<leftarrow> c_memcpy (pUartBuff pCur) (pInPos pCur) pdata 0 (unat tail_len);
           let p = (pInPos pCur + unat tail_len) mod bsize pCur;
           let n = unat data_len - unat tail_len;
           m \<leftarrow> c_memcpy m p pdata (unat tail_len) n;
           Some (pCur\<lparr>pUartBuff := m, pInPos := (p + n) mod bsize pCur,
                   Space := Space pCur - tail_len - (data_len - tail_len)\<rparr>) })"

section \<open>The receive ring\<close>

text \<open>Returns the caller's buffer, the number of bytes put there, and the new state.\<close>

definition rx_buff_deq ::
  "u8 list \<Rightarrow> u16 \<Rightarrow> UartBuffer \<times> uart_hw \<Rightarrow> (u8 list \<times> u16 \<times> UartBuffer \<times> uart_hw) option" where
  "rx_buff_deq pdata data_len = (\<lambda>(rx, h). do {
     let buf_len = (ucast (UartBuffSize rx - ucast (Space rx)) :: u16);
     let tail_len = (of_nat (bsize rx - pOutPos rx) :: u16);
     let len_tmp = (if buf_len < data_len then buf_len else data_len);
     (pdata, out) \<leftarrow>
       (if pOutPos rx \<le> pInPos rx then do {
          d \<leftarrow> c_memcpy pdata 0 (pUartBuff rx) (pOutPos rx) (unat len_tmp);
          Some (d, pOutPos rx + unat len_tmp) }
        else if tail_len < len_tmp then do {
          d \<leftarrow> c_memcpy pdata 0 (pUartBuff rx) (pOutPos rx) (unat tail_len);
          let p = (pOutPos rx + unat tail_len) mod bsize rx;
          let n = unat len_tmp - unat tail_len;
          d \<leftarrow> c_memcpy d (unat tail_len) (pUartBuff rx) p n;
          Some (d, (p + n) mod bsize rx) }
        else do {
          d \<leftarrow> c_memcpy pdata 0 (pUartBuff rx) (pOutPos rx) (unat len_tmp);
          Some (d, (pOutPos rx + unat len_tmp) mod bsize rx) });
     let rx = rx\<lparr>pOutPos := out, Space := Space rx + len_tmp\<rparr>;
     Some (pdata, len_tmp, rx,
       (if UART_FIFO_LEN \<le> unat (Space rx) then uart_rx_intr_enable UART0 h else h)) })"

text \<open>\<open>reads i\<close> is what the i-th read of the receive FIFO returns.\<close>

fun fill :: "nat \<Rightarrow> nat \<Rightarrow> (nat \<Rightarrow> u32) \<Rightarrow> UartBuffer \<Rightarrow> UartBuffer option" where
  "fill 0 buf_idx reads rx = Some rx"
| "fill (Suc n) buf_idx reads rx = do {
     let fifo_data = (ucast (reads buf_idx AND 0xFF) :: u8);
     m \<leftarrow> st (pUartBuff rx) (pInPos rx) fifo_data;
     fill n (Suc buf_idx) reads (rx\<lparr>pUartBuff := m,
       pInPos := (if Suc (pInPos rx) = bsize rx then 0 else Suc (pInPos rx))\<rparr>) }"

definition Uart_rx_buff_enq :: "(nat \<Rightarrow> u32) \<Rightarrow> UartBuffer \<times> uart_hw \<Rightarrow> (UartBuffer \<times> uart_hw) option" where
  "Uart_rx_buff_enq reads = (\<lambda>(rx, h). do {
     let fifo_len = rx_count (READ_PERI_REG (UART_STATUS UART0) h);
     if Space rx \<le> ucast fifo_len then Some (rx, h)
     else do {
       rx \<leftarrow> fill (unat fifo_len) 0 reads rx;
       let rx = rx\<lparr>Space := Space rx - ucast fifo_len\<rparr>;
       Some (rx, (if UART_FIFO_LEN \<le> unat (Space rx) then uart_rx_intr_enable UART0 h else h)) } })"

section \<open>The transmit ring\<close>

definition TX_BUF_FULL :: "u8 list" where
  "TX_BUF_FULL = [85, 65, 82, 84, 32, 84, 88, 32, 66, 85, 70, 32, 70, 85, 76, 76, 33, 33, 33, 33, 10, 13, 0]"

definition create_buffer_struct :: "u8 list" where
  "create_buffer_struct = [10, 13, 110, 117, 108, 108, 44, 32, 99, 114, 101, 97, 116, 101, 32, 98, 117, 102,
     102, 101, 114, 32, 115, 116, 114, 117, 99, 116, 10, 13, 0]"

definition MALLOC_no_buf :: "u8 list" where
  "MALLOC_no_buf = [117, 97, 114, 116, 32, 116, 120, 32, 77, 65, 76, 76, 79, 67, 32, 110, 111, 32, 98, 117, 102,
     32, 10, 13, 0]"

definition pTxBuff_null :: "u8 list" where
  "pTxBuff_null = [112, 84, 120, 66, 117, 102, 102, 32, 110, 117, 108, 108, 32, 10, 13, 0]"

definition tx_buff_enq ::
  "u32 \<Rightarrow> (nat \<Rightarrow> u8 list) \<Rightarrow> u8 list \<Rightarrow> u16 \<Rightarrow> UartBuffer option \<times> uart_hw \<Rightarrow>
   (UartBuffer option \<times> uart_hw) option" where
  "tx_buff_enq heap_size fresh pdata data_len = (\<lambda>(tx, h). do {
     let h = CLEAR_PERI_REG_MASK (UART_INT_ENA UART0) UART_TXFIFO_EMPTY_INT_ENA h;
     (tx, h) \<leftarrow> (case tx of
        None \<Rightarrow> do {
          h \<leftarrow> uart1_sendStr_no_wait create_buffer_struct h;
          (tx, h) \<leftarrow> Uart_Buf_Init heap_size fresh UART_TX_BUFFER_SIZE h;
          (case tx of
             Some b \<Rightarrow> do { b \<leftarrow> Uart_Buf_Cpy b pdata data_len; Some (Some b, h) }
           | None \<Rightarrow> do { h \<leftarrow> uart1_sendStr_no_wait MALLOC_no_buf h; Some (None, h) }) }
      | Some b \<Rightarrow>
          (if data_len \<le> Space b then do { b \<leftarrow> Uart_Buf_Cpy b pdata data_len; Some (Some b, h) }
           else do { h \<leftarrow> uart1_sendStr_no_wait TX_BUF_FULL h; Some (Some b, h) }));
     let h = SET_PERI_REG_MASK (UART_CONF1 UART0)
       (push_bit UART_TXFIFO_EMPTY_THRHD_S (UART_TX_EMPTY_THRESH_VAL AND UART_TXFIFO_EMPTY_THRHD)) h;
     Some (tx, SET_PERI_REG_MASK (UART_INT_ENA UART0) UART_TXFIFO_EMPTY_INT_ENA h) })"

fun insert_loop :: "nat \<Rightarrow> u8 \<Rightarrow> UartBuffer \<times> uart_hw \<Rightarrow> (UartBuffer \<times> uart_hw) option" where
  "insert_loop 0 uart_no s = Some s"
| "insert_loop (Suc n) uart_no (tx, h) = do {
     c \<leftarrow> ld (pUartBuff tx) (pOutPos tx);
     insert_loop n uart_no
       (tx\<lparr>pOutPos := (if Suc (pOutPos tx) = bsize tx then 0 else Suc (pOutPos tx))\<rparr>,
        WRITE_PERI_REG (UART_FIFO uart_no) (ucast c) h) }"

definition tx_fifo_insert :: "u8 \<Rightarrow> u8 \<Rightarrow> UartBuffer \<times> uart_hw \<Rightarrow> (UartBuffer \<times> uart_hw) option" where
  "tx_fifo_insert data_len uart_no s = do {
     (tx, h) \<leftarrow> insert_loop (unat data_len) uart_no s;
     Some (tx\<lparr>pOutPos := pOutPos tx mod bsize tx, Space := Space tx + ucast data_len\<rparr>, h) }"

definition tx_start_uart_buffer :: "u8 \<Rightarrow> UartBuffer option \<times> uart_hw \<Rightarrow> (UartBuffer option \<times> uart_hw) option" where
  "tx_start_uart_buffer uart_no = (\<lambda>(tx, h). do {
     let tx_fifo_len = (ucast (tx_count (READ_PERI_REG (UART_STATUS uart_no) h)) :: u8);
     let fifo_remain = of_nat UART_FIFO_LEN - tx_fifo_len;
     (case tx of
        None \<Rightarrow> do { h \<leftarrow> uart1_sendStr_no_wait pTxBuff_null h; Some (None, h) }
      | Some b \<Rightarrow> do {
          let data_len = (ucast (UartBuffSize b - ucast (Space b)) :: u16);
          if ucast fifo_remain < data_len then do {
            (b, h) \<leftarrow> tx_fifo_insert fifo_remain uart_no (b, h);
            Some (Some b, SET_PERI_REG_MASK (UART_INT_ENA UART0) UART_TXFIFO_EMPTY_INT_ENA h) }
          else do {
            (b, h) \<leftarrow> tx_fifo_insert (ucast data_len) uart_no (b, h);
            Some (Some b, h) } }) })"

definition uart_test_rx ::
  "u32 \<Rightarrow> (nat \<Rightarrow> u8 list) \<Rightarrow> UartBuffer option \<times> UartBuffer \<times> uart_hw \<Rightarrow>
   (UartBuffer option \<times> UartBuffer \<times> uart_hw) option" where
  "uart_test_rx heap_size fresh = (\<lambda>(tx, rx, h). do {
     (uart_buf, len, rx, h) \<leftarrow> rx_buff_deq (replicate 128 0) 128 (rx, h);
     (tx, h) \<leftarrow> tx_buff_enq heap_size fresh uart_buf len (tx, h);
     Some (tx, rx, h) })"

section \<open>What a ring holds\<close>

definition ring :: "nat \<Rightarrow> 'a list \<Rightarrow> nat \<Rightarrow> nat \<Rightarrow> 'a list" where
  "ring S m out n = map (\<lambda>k. m ! ((out + k) mod S)) [0..<n]"

lemma length_ring [simp]: "length (ring S m out n) = n"
  by (simp add: ring_def)

lemma mod_add_inj: "j < S \<Longrightarrow> k < S \<Longrightarrow> (p + j) mod S = (p + k) mod S \<longleftrightarrow> j = (k :: nat)"
proof
  assume jk: "j < S" "k < S" and eq: "(p + j) mod S = (p + k) mod S"
  have "j mod S = k mod S"
    using eq by (simp add: nat_mod_eq_iff)
  then show "j = k" using jk by simp
qed simp

lemma ring_push:
  "n < S \<Longrightarrow> length m = S \<Longrightarrow> ring S (m[(out + n) mod S := x]) out (Suc n) = ring S m out n @ [x]"
  by (rule nth_equalityI) (auto simp: ring_def nth_append nth_list_update mod_add_inj less_Suc_eq)

lemma ring_blit:
  "n + length xs \<le> S \<Longrightarrow> length m = S \<Longrightarrow> i = (out + n) mod S \<Longrightarrow> i + length xs \<le> S \<Longrightarrow>
   ring S (blit m i xs) out (n + length xs) = ring S m out n @ xs"
proof (induction xs arbitrary: m n i)
  case Nil
  then show ?case by (simp add: blit_def)
next
  case (Cons x xs)
  have S: "0 < S" using Cons.prems by simp
  have i: "i < length m" using Cons.prems S by simp
  show ?case
  proof (cases "xs = []")
    case True
    have "blit m i [x] = m[i := x]" using i by (simp add: blit_def upd_conv_take_nth_drop)
    then show ?thesis using True Cons.prems by (simp add: ring_push)
  next
    case False
    then have "Suc i < S" using Cons.prems by (cases xs) simp_all
    then have "Suc i = (out + Suc n) mod S" using Cons.prems by (simp add: mod_Suc)
    then have "ring S (blit (m[i := x]) (Suc i) xs) out (Suc n + length xs) = ring S (m[i := x]) out (Suc n) @ xs"
      using Cons.prems by (intro Cons.IH) simp_all
    then show ?thesis using Cons.prems i by (simp add: blit_Cons ring_push)
  qed
qed

lemma ring_drop: "drop k (ring S m out n) = ring S m ((out + k) mod S) (n - k)"
  by (rule nth_equalityI) (auto simp: ring_def mod_add_left_eq add.assoc)

lemma ring_take: "k \<le> n \<Longrightarrow> out + k \<le> S \<Longrightarrow> length m = S \<Longrightarrow> take k (ring S m out n) = take k (drop out m)"
  by (rule nth_equalityI) (auto simp: ring_def)

definition count :: "UartBuffer \<Rightarrow> nat" where
  "count b = bsize b - unat (Space b)"

definition held :: "UartBuffer \<Rightarrow> u8 list" where
  "held b = ring (bsize b) (pUartBuff b) (pOutPos b) (count b)"

definition ring_ok :: "UartBuffer \<Rightarrow> bool" where
  "ring_ok b \<longleftrightarrow> 0 < bsize b \<and> bsize b < 65536 \<and> length (pUartBuff b) = bsize b \<and>
     pOutPos b < bsize b \<and> unat (Space b) \<le> bsize b \<and> pInPos b = (pOutPos b + count b) mod bsize b"

lemma ring_okD:
  assumes "ring_ok b"
  shows "0 < bsize b" "bsize b < 65536" "length (pUartBuff b) = bsize b" "pOutPos b < bsize b"
    "pInPos b < bsize b" "unat (Space b) \<le> bsize b" "pInPos b = (pOutPos b + count b) mod bsize b"
    "count b + unat (Space b) = bsize b"
  using assms by (simp_all add: ring_ok_def count_def)

lemma unat_of_nat_u16: "n < 65536 \<Longrightarrow> unat (of_nat n :: u16) = n"
  by (simp add: unat_of_nat)

lemma init_ok:
  assumes "Uart_Buf_Init heap fresh sz h = Some (Some b, h')" "length (fresh (unat sz)) = unat sz"
    and "0 < unat sz" "unat sz < 65536"
  shows "ring_ok b" "held b = []"
proof -
  have u: "unat (ucast sz :: u16) = unat sz"
    using assms(4) by (simp add: unsigned_ucast_eq take_bit_nat_eq_self_iff)
  have b: "UartBuffSize b = sz" "pUartBuff b = fresh (unat sz)" "pInPos b = 0" "pOutPos b = 0" "Space b = ucast sz"
    using assms(1) by (auto simp: Uart_Buf_Init_def split: if_splits Option.bind_splits)
  show "ring_ok b" "held b = []"
    using assms(2-4) by (simp_all add: ring_ok_def held_def count_def b u ring_def)
qed

text \<open>Adding at the in-position, in one piece or in two.\<close>

lemma ring_copy:
  assumes "n + length xs \<le> S" "length m = S" "i = (out + n) mod S" "S - i < length xs"
  shows "ring S (blit (blit m i (take (S - i) xs)) 0 (drop (S - i) xs)) out (n + length xs) = ring S m out n @ xs"
    and "(i + (S - i)) mod S = 0"
    and "length (blit (blit m i (take (S - i) xs)) 0 (drop (S - i) xs)) = S"
proof -
  have S: "0 < S" "i < S" using assms by auto
  let ?m = "blit m i (take (S - i) xs)"
  show z: "(i + (S - i)) mod S = 0" using S by simp
  have l: "length ?m = S" using assms S by (subst length_blit) simp_all
  have "ring S ?m out (n + length (take (S - i) xs)) = ring S m out n @ take (S - i) xs"
    using assms S by (intro ring_blit) simp_all
  then have 1: "ring S ?m out (n + (S - i)) = ring S m out n @ take (S - i) xs"
    using assms by simp
  have "(out + (n + (S - i))) mod S = ((out + n) mod S + (S - i)) mod S"
    by (simp only: mod_add_left_eq add.assoc)
  then have "0 = (out + (n + (S - i))) mod S" using z assms(3) by simp
  then have "ring S (blit ?m 0 (drop (S - i) xs)) out (n + (S - i) + length (drop (S - i) xs)) =
      ring S ?m out (n + (S - i)) @ drop (S - i) xs"
  proof (intro ring_blit l)
    have "S - i + (length xs - (S - i)) = length xs" using assms(4) by simp
    then show "n + (S - i) + length (drop (S - i) xs) \<le> S" using assms(1) by simp
    show "0 + length (drop (S - i) xs) \<le> S" using assms(1) by simp
  qed
  then show "ring S (blit ?m 0 (drop (S - i) xs)) out (n + length xs) = ring S m out n @ xs"
    using assms(4) by (simp add: 1)
  have "0 + length (drop (S - i) xs) \<le> length ?m" using assms(1) l by simp
  then show "length (blit ?m 0 (drop (S - i) xs)) = S" using l by simp
qed

text \<open>A buffer that has taken \<open>xs\<close>, given its new memory.\<close>

definition took :: "UartBuffer \<Rightarrow> u8 list \<Rightarrow> UartBuffer \<Rightarrow> bool" where
  "took b xs b' \<longleftrightarrow> ring_ok b' \<and> held b' = held b @ xs \<and> bsize b' = bsize b \<and>
     unat (Space b') = unat (Space b) - length xs"

lemma tookI:
  assumes "ring_ok b" "length xs \<le> unat (Space b)" "length m = bsize b"
    and "ring (bsize b) m (pOutPos b) (count b + length xs) = held b @ xs"
    and "i = (pInPos b + length xs) mod bsize b" "unat sp = unat (Space b) - length xs"
  shows "took b xs (b\<lparr>pUartBuff := m, pInPos := i, Space := sp\<rparr>)"
proof -
  note b = ring_okD [OF assms(1)]
  have c: "bsize b - (unat (Space b) - length xs) = count b + length xs"
    using b assms(2) by (simp add: count_def)
  have "i = (pOutPos b + (count b + length xs)) mod bsize b"
    using assms(5) b(7) by (simp add: mod_add_left_eq add.assoc)
  then show ?thesis
    using b assms by (simp add: took_def ring_ok_def held_def count_def c)
qed

lemma Uart_Buf_Cpy_took:
  assumes b: "ring_ok b" and fits: "unat len \<le> unat (Space b)" and d: "unat len \<le> length pdata"
  shows "\<exists>b'. Uart_Buf_Cpy b pdata len = Some b' \<and> took b (take (unat len) pdata) b'"
proof (cases "len = 0")
  case True
  then show ?thesis using b by (simp add: Uart_Buf_Cpy_def took_def)
next
  case False
  note r = ring_okD [OF b]
  define xs where "xs = take (unat len) pdata"
  define t where "t = bsize b - pInPos b"
  have xs: "length xs = unat len" using d by (simp add: xs_def)
  have tb: "0 < t" "t \<le> bsize b" using r(5) by (simp_all add: t_def)
  have "unat (of_nat t :: u16) = t" using tb r(2) by (intro unat_of_nat_u16) simp
  note t = this tb
  have room: "count b + length xs \<le> bsize b" using r(8) fits xs by simp
  show ?thesis
  proof (cases "unat len \<le> t")
    case True
    have nowrap: "pInPos b + length xs \<le> bsize b" using True xs r(5) by (simp add: t_def)
    have sp: "unat (Space b - len) = unat (Space b) - length xs"
      using fits xs by (simp add: unat_sub word_le_nat_alt)
    have "ring (bsize b) (blit (pUartBuff b) (pInPos b) xs) (pOutPos b) (count b + length xs) = held b @ xs"
      unfolding held_def by (rule ring_blit [OF room r(3) r(7) nowrap])
    then have "took b xs (b\<lparr>pUartBuff := blit (pUartBuff b) (pInPos b) xs,
        pInPos := (pInPos b + unat len) mod bsize b, Space := Space b - len\<rparr>)"
    proof (intro tookI b sp)
      show "length (blit (pUartBuff b) (pInPos b) xs) = bsize b" using nowrap r(3) by simp
    qed (use xs fits in simp_all)
    moreover have "len \<le> of_nat t" using True t by (simp add: word_le_nat_alt)
    moreover have "c_memcpy (pUartBuff b) (pInPos b) pdata 0 (unat len) =
        Some (blit (pUartBuff b) (pInPos b) xs)"
      using nowrap d r(3) xs by (simp add: xs_def)
    ultimately show ?thesis
      using False unfolding Uart_Buf_Cpy_def Let_def t_def [symmetric] xs_def [symmetric] by simp
  next
    case long: False
    have sp: "unat (Space b - of_nat t - (len - of_nat t)) = unat (Space b) - length xs"
      using fits xs by (simp add: unat_sub word_le_nat_alt)
    note rc = ring_copy [OF room r(3) r(7), folded t_def]
    have tl: "t < length xs" using long xs by simp
    have "took b xs (b\<lparr>pUartBuff := blit (blit (pUartBuff b) (pInPos b) (take t xs)) 0 (drop t xs),
        pInPos := (unat len - t) mod bsize b, Space := Space b - of_nat t - (len - of_nat t)\<rparr>)"
    proof (intro tookI b sp)
      show "length xs \<le> unat (Space b)" using fits xs by simp
      show "length (blit (blit (pUartBuff b) (pInPos b) (take t xs)) 0 (drop t xs)) = bsize b"
        by (rule rc(3) [OF tl])
      show "ring (bsize b) (blit (blit (pUartBuff b) (pInPos b) (take t xs)) 0 (drop t xs)) (pOutPos b)
          (count b + length xs) = held b @ xs"
        using rc(1) [OF tl] by (simp add: held_def)
      have "pInPos b + length xs = bsize b + (unat len - t)" using tl xs r by (simp add: t_def)
      then show "(unat len - t) mod bsize b = (pInPos b + length xs) mod bsize b" by simp
    qed
    moreover have "\<not> len \<le> of_nat t" using long t by (simp add: word_le_nat_alt)
    moreover have "c_memcpy (pUartBuff b) (pInPos b) pdata 0 t = Some (blit (pUartBuff b) (pInPos b) (take t xs))"
      using long r(3) r(5) d by (simp add: xs_def t_def min_def)
    moreover have "c_memcpy (blit (pUartBuff b) (pInPos b) (take t xs)) 0 pdata t (unat len - t) =
        Some (blit (blit (pUartBuff b) (pInPos b) (take t xs)) 0 (drop t xs))"
    proof -
      have "pInPos b + length (take t xs) \<le> length (pUartBuff b)" using r(3) r(5) by (simp add: t_def)
      then have "length (blit (pUartBuff b) (pInPos b) (take t xs)) = bsize b" using r(3) by simp
      moreover have "drop t xs = take (unat len - t) (drop t pdata)" by (simp add: xs_def drop_take)
      ultimately show ?thesis using xs room long d by simp
    qed
    moreover have "(pInPos b + t) mod bsize b = 0" using r(5) by (simp add: t_def)
    ultimately show ?thesis
      using False unfolding Uart_Buf_Cpy_def Let_def t_def [symmetric] xs_def [symmetric]
      by (simp add: t(1))
  qed
qed

section \<open>Taking out\<close>

definition gave :: "UartBuffer \<Rightarrow> nat \<Rightarrow> UartBuffer \<Rightarrow> bool" where
  "gave b k b' \<longleftrightarrow> ring_ok b' \<and> held b' = drop k (held b) \<and> bsize b' = bsize b \<and>
     unat (Space b') = unat (Space b) + k"

lemma gaveI:
  assumes "ring_ok b" "k \<le> count b" "p = (pOutPos b + k) mod bsize b" "unat sp = unat (Space b) + k"
  shows "gave b k (b\<lparr>pOutPos := p, Space := sp\<rparr>)"
proof -
  note b = ring_okD [OF assms(1)]
  have c: "bsize b - (unat (Space b) + k) = count b - k" by (simp add: count_def)
  have "((pOutPos b + k) mod bsize b + (count b - k)) mod bsize b = (pOutPos b + count b) mod bsize b"
  proof -
    have "pOutPos b + k + (count b - k) = pOutPos b + count b" using assms(2) by simp
    then show ?thesis by (simp only: mod_add_left_eq)
  qed
  moreover have "pOutPos (b\<lparr>pOutPos := p, Space := sp\<rparr>) < bsize b"
    using b(1) assms(3) by simp
  moreover have "count (b\<lparr>pOutPos := p, Space := sp\<rparr>) = count b - k"
    using assms(4) c by (simp add: count_def)
  moreover have "unat (Space b) + k \<le> bsize b" using assms(2) b(8) by simp
  ultimately show ?thesis
    using b(1-3,7) assms(3,4) by (simp add: gave_def ring_ok_def held_def ring_drop)
qed

lemma unat_space_add: "ring_ok b \<Longrightarrow> unat n \<le> count b \<Longrightarrow> unat (Space b + n) = unat (Space b) + unat n"
  using ring_okD(2,8) [of b] by (subst unat_add_lem [THEN iffD1]) simp_all

lemma count_u16: "ring_ok b \<Longrightarrow> unat (ucast (UartBuffSize b - ucast (Space b)) :: u16) = count b"
proof -
  assume b: "ring_ok b"
  have s: "unat (ucast (Space b) :: u32) \<le> bsize b" using ring_okD(6) [OF b] by simp
  have "unat (UartBuffSize b - ucast (Space b)) = count b"
    using s by (simp add: unat_sub word_le_nat_alt count_def)
  moreover have "count b < 65536" using ring_okD(2) [OF b] by (simp add: count_def)
  ultimately show ?thesis by (simp add: unsigned_ucast_eq take_bit_nat_eq_self_iff)
qed

lemma ring_take_wrap:
  assumes "S - out < k" "k \<le> n" "n \<le> S" "out < S" "length m = S"
  shows "take k (ring S m out n) = take (S - out) (drop out m) @ take (k - (S - out)) m"
proof -
  let ?t = "S - out"
  have "take k (ring S m out n) = take ?t (ring S m out n) @ take (k - ?t) (drop ?t (ring S m out n))"
    using assms(1) by (metis le_add_diff_inverse less_imp_le take_add)
  also have "take ?t (ring S m out n) = take ?t (drop out m)"
    using assms by (intro ring_take) simp_all
  also have "drop ?t (ring S m out n) = ring S m 0 (n - ?t)"
    using assms(4) by (simp add: ring_drop)
  also have "take (k - ?t) (ring S m 0 (n - ?t)) = take (k - ?t) (drop 0 m)"
    using assms by (intro ring_take) simp_all
  finally show ?thesis by simp
qed

lemma no_wrap:
  "out \<le> (out + c) mod S \<Longrightarrow> c < S \<Longrightarrow> out < S \<Longrightarrow> out + c < (S :: nat)"
  by (rule ccontr) (simp add: mod_if split: if_splits)

lemma wrap_tail: "(out + c) mod S < out \<Longrightarrow> out < S \<Longrightarrow> S - out \<le> (c :: nat)"
  by (rule ccontr) simp

lemma take_blit_front: "length xs \<le> length d \<Longrightarrow> take (length xs) (blit d 0 xs) = xs"
  by (simp add: blit_def)

lemma take_blit_two:
  "length xs + length ys \<le> length d \<Longrightarrow>
   take (length xs + length ys) (blit (blit d 0 xs) (length xs) ys) = xs @ ys"
  by (simp add: blit_def)

lemma rx_buff_deq_gave:
  assumes b: "ring_ok b" and sp: "0 < unat (Space b)" and d: "unat len \<le> length pdata"
  defines "n \<equiv> min (count b) (unat len)"
  shows "\<exists>d' len' b' h'. rx_buff_deq pdata len (b, h) = Some (d', len', b', h') \<and> unat len' = n \<and>
    take n d' = take n (held b) \<and> length d' = length pdata \<and> gave b n b'"
proof -
  note r = ring_okD [OF b]
  define bl :: u16 where "bl = ucast (UartBuffSize b - ucast (Space b))"
  define l where "l = (if bl < len then bl else len)"
  have "unat bl = count b" unfolding bl_def by (rule count_u16 [OF b])
  then have l: "unat l = n" by (auto simp: l_def n_def word_less_nat_alt)
  have n: "n \<le> count b" "n \<le> length pdata" using d by (simp_all add: n_def)
  have c: "count b < bsize b" using sp r(8) by simp
  define t where "t = bsize b - pOutPos b"
  have t: "unat (of_nat t :: u16) = t" using r(2) by (intro unat_of_nat_u16) (simp add: t_def)
  have s: "unat (Space b + l) = unat (Space b) + n"
    using unat_space_add [OF b, of l] l n(1) by simp
  have g: "gave b n (b\<lparr>pOutPos := (pOutPos b + n) mod bsize b, Space := Space b + l\<rparr>)"
    by (rule gaveI [OF b n(1) refl s])
  note defs = rx_buff_deq_def prod.case Let_def bl_def [symmetric] l_def [symmetric] t_def [symmetric]
  have one: ?thesis if fit: "pOutPos b + n \<le> bsize b"
    and eq: "rx_buff_deq pdata len (b, h) =
      Option.bind (Option.bind (c_memcpy pdata 0 (pUartBuff b) (pOutPos b) n)
        (\<lambda>d. Some (d, (pOutPos b + n) mod bsize b)))
      (\<lambda>(d, out). Some (d, l, b\<lparr>pOutPos := out, Space := Space b + l\<rparr>,
         if UART_FIFO_LEN \<le> unat (Space b + l) then uart_rx_intr_enable UART0 h else h))"
  proof -
    let ?xs = "take n (drop (pOutPos b) (pUartBuff b))"
    have x: "length ?xs = n" "take n (held b) = ?xs"
      using fit n r(3) by (simp_all add: held_def ring_take)
    have "c_memcpy pdata 0 (pUartBuff b) (pOutPos b) n = Some (blit pdata 0 ?xs)"
      using fit n r(3) by simp
    moreover have "take n (blit pdata 0 ?xs) = ?xs"
      using take_blit_front [of ?xs pdata] x(1) n(2) by simp
    moreover have "length (blit pdata 0 ?xs) = length pdata" using x(1) n(2) by simp
    ultimately show ?thesis unfolding eq using g l x(2) by simp
  qed
  show ?thesis
  proof (cases "pOutPos b \<le> pInPos b")
    case True
    then have nw: "pOutPos b + count b < bsize b" using r(4) r(7) c by (intro no_wrap) simp_all
    then have "(pOutPos b + n) mod bsize b = pOutPos b + n" using n(1) by simp
    moreover have "pOutPos b + n \<le> bsize b" using nw n(1) by simp
    ultimately show ?thesis
      by (intro one) (simp_all only: defs True l if_True, simp_all)
  next
    case False
    then have tc: "t \<le> count b" using r(4) r(7) unfolding t_def by (intro wrap_tail) simp_all
    show ?thesis
    proof (cases "t < n")
      case False
      then have "\<not> of_nat t < l" by (simp add: word_less_nat_alt t l)
      moreover have "pOutPos b + n \<le> bsize b" using False r(4) by (simp add: t_def)
      ultimately show ?thesis
        using \<open>\<not> pOutPos b \<le> pInPos b\<close> by (intro one) (simp_all only: defs l if_False, simp_all)
    next
      case long: True
      let ?xs = "take t (drop (pOutPos b) (pUartBuff b))" and ?ys = "take (n - t) (pUartBuff b)"
      have x: "length ?xs = t" "length ?ys = n - t"
        using r(3) n(1) c by (simp_all add: t_def)
      have "of_nat t < l" using long by (simp add: word_less_nat_alt t l)
      moreover have "c_memcpy pdata 0 (pUartBuff b) (pOutPos b) t = Some (blit pdata 0 ?xs)"
        using long n(2) r(3,4) by (simp add: t_def)
      moreover have "c_memcpy (blit pdata 0 ?xs) t (pUartBuff b) 0 (n - t) = Some (blit (blit pdata 0 ?xs) t ?ys)"
        using x long n c r(3) by simp
      moreover have "(pOutPos b + t) mod bsize b = 0" using r(4) by (simp add: t_def)
      moreover have "(n - t) mod bsize b = (pOutPos b + n) mod bsize b"
      proof -
        have "pOutPos b + n = bsize b + (n - t)" using long r(4) by (simp add: t_def)
        then show ?thesis by simp
      qed
      ultimately have eq: "\<exists>h'. rx_buff_deq pdata len (b, h) = Some (blit (blit pdata 0 ?xs) t ?ys, l,
          b\<lparr>pOutPos := (pOutPos b + n) mod bsize b, Space := Space b + l\<rparr>, h')"
        using False by (simp only: defs t l if_True if_False) simp
      have "take n (held b) = ?xs @ ?ys"
        using long n(1) c r(3,4) unfolding held_def t_def by (intro ring_take_wrap) simp_all
      moreover have "take n (blit (blit pdata 0 ?xs) t ?ys) = ?xs @ ?ys"
        using take_blit_two [of ?xs ?ys pdata] x long n(2) by simp
      moreover have "length (blit (blit pdata 0 ?xs) t ?ys) = length pdata"
        using x long n(2) by simp
      ultimately show ?thesis using eq g l by auto
    qed
  qed
qed

section \<open>Byte by byte\<close>

lemma next_pos: "p < S \<Longrightarrow> (if Suc p = S then 0 else Suc p) = Suc p mod S"
  by (cases "Suc p = S") simp_all

definition rx_bytes :: "(nat \<Rightarrow> u32) \<Rightarrow> nat \<Rightarrow> nat \<Rightarrow> u8 list" where
  "rx_bytes reads i n = map (\<lambda>k. ucast (reads k AND 0xFF)) [i..<i + n]"

lemma rx_bytes_Suc: "rx_bytes reads i (Suc n) = ucast (reads i AND 0xFF) # rx_bytes reads (Suc i) n"
  by (simp add: rx_bytes_def upt_conv_Cons del: upt_Suc)

lemma length_rx_bytes [simp]: "length (rx_bytes reads i n) = n"
  by (simp add: rx_bytes_def)

lemma fill_ring:
  assumes "length (pUartBuff b) = bsize b" "0 < bsize b" "pInPos b = (out + c) mod bsize b" "c + n \<le> bsize b"
  shows "\<exists>m. fill n i reads b = Some (b\<lparr>pUartBuff := m, pInPos := (out + c + n) mod bsize b\<rparr>) \<and>
    length m = bsize b \<and>
    ring (bsize b) m out (c + n) = ring (bsize b) (pUartBuff b) out c @ rx_bytes reads i n"
  using assms
proof (induction n arbitrary: b c i)
  case 0
  have "b\<lparr>pUartBuff := pUartBuff b, pInPos := (out + c) mod bsize b\<rparr> = b"
    using 0 by simp
  then show ?case using 0 by (intro exI [of _ "pUartBuff b"]) (simp add: rx_bytes_def)
next
  case (Suc n)
  let ?x = "ucast (reads i AND 0xFF) :: u8"
  let ?m = "(pUartBuff b)[pInPos b := ?x]" and ?p = "Suc (pInPos b) mod bsize b"
  let ?b = "b\<lparr>pUartBuff := ?m, pInPos := ?p\<rparr>"
  have p: "pInPos b < bsize b" using Suc.prems by simp
  have "?p = (out + Suc c) mod bsize b" using Suc.prems(3) by (simp add: mod_Suc_eq)
  then obtain m where m: "fill n (Suc i) reads ?b = Some (?b\<lparr>pUartBuff := m, pInPos := (out + Suc c + n) mod bsize b\<rparr>)"
      "length m = bsize b" "ring (bsize b) m out (Suc c + n) = ring (bsize b) ?m out (Suc c) @ rx_bytes reads (Suc i) n"
    using Suc.IH [of ?b "Suc c" "Suc i"] Suc.prems by auto
  have "ring (bsize b) ?m out (Suc c) = ring (bsize b) (pUartBuff b) out c @ [?x]"
    using Suc.prems by (simp add: ring_push)
  moreover have "fill (Suc n) i reads b = fill n (Suc i) reads ?b"
    using Suc.prems(1) p by (simp only: fill.simps next_pos [OF p] Let_def) simp
  ultimately show ?case using m by (auto simp: rx_bytes_Suc)
qed

lemma Uart_rx_buff_enq_took:
  assumes b: "ring_ok b" and fits: "unat (rx_count (reg h 0x6000001C)) < unat (Space b)"
  shows "\<exists>b' h'. Uart_rx_buff_enq reads (b, h) = Some (b', h') \<and>
    took b (rx_bytes reads 0 (unat (rx_count (reg h 0x6000001C)))) b'"
proof -
  note r = ring_okD [OF b]
  define w where "w = rx_count (reg h 0x6000001C)"
  have n: "unat (ucast w :: u16) = unat w" by simp
  have c: "count b + unat w \<le> bsize b" using fits r(8) unfolding w_def by simp
  obtain m where m: "fill (unat w) 0 reads b =
      Some (b\<lparr>pUartBuff := m, pInPos := (pOutPos b + count b + unat w) mod bsize b\<rparr>)"
      "length m = bsize b" "ring (bsize b) m (pOutPos b) (count b + unat w) = held b @ rx_bytes reads 0 (unat w)"
    using fill_ring [OF r(3) r(1) r(7) c] unfolding held_def by blast
  have le: "\<not> Space b \<le> ucast w" using fits n unfolding w_def [symmetric] by (simp add: word_le_nat_alt)
  have sp: "unat (Space b - ucast w) = unat (Space b) - length (rx_bytes reads 0 (unat w))"
    using le n by (simp add: unat_sub word_le_nat_alt)
  have i: "(pOutPos b + count b + unat w) mod bsize b = (pInPos b + length (rx_bytes reads 0 (unat w))) mod bsize b"
    using r(7) by (simp add: mod_add_left_eq)
  have "took b (rx_bytes reads 0 (unat w)) (b\<lparr>pUartBuff := m,
      pInPos := (pOutPos b + count b + unat w) mod bsize b, Space := Space b - ucast w\<rparr>)"
    using fits m unfolding w_def [symmetric] by (intro tookI b sp i) simp_all
  moreover have "rx_count (READ_PERI_REG (UART_STATUS UART0) h) = w" by (simp add: READ_PERI_REG_def w_def)
  ultimately show ?thesis
    using le unfolding w_def [symmetric] by (auto simp: Uart_rx_buff_enq_def m(1) Let_def)
qed

lemma ring_Suc: "0 < S \<Longrightarrow> out < S \<Longrightarrow> ring S m out (Suc n) = m ! out # ring S m (Suc out mod S) n"
  by (rule nth_equalityI) (auto simp: ring_def nth_Cons' mod_add_left_eq simp del: upt_Suc)

lemma insert_loop_sent:
  assumes "length (pUartBuff b) = bsize b" "pOutPos b < bsize b"
  shows "insert_loop n uart_no (b, h) = Some (b\<lparr>pOutPos := (pOutPos b + n) mod bsize b\<rparr>,
    sent uart_no (ring (bsize b) (pUartBuff b) (pOutPos b) n) h)"
  using assms
proof (induction n arbitrary: b h)
  case 0
  then have "b\<lparr>pOutPos := pOutPos b\<rparr> = b" "pOutPos b mod bsize b = pOutPos b" by simp_all
  then show ?case by (simp add: sent_def ring_def)
next
  case (Suc n)
  let ?p = "Suc (pOutPos b) mod bsize b"
  let ?h = "WRITE_PERI_REG (UART_FIFO uart_no) (ucast (pUartBuff b ! pOutPos b)) h"
  have "insert_loop (Suc n) uart_no (b, h) = insert_loop n uart_no (b\<lparr>pOutPos := ?p\<rparr>, ?h)"
    using Suc.prems by (simp only: insert_loop.simps next_pos [OF Suc.prems(2)]) simp
  also have "\<dots> = Some (b\<lparr>pOutPos := (?p + n) mod bsize b\<rparr>,
      sent uart_no (ring (bsize b) (pUartBuff b) ?p n) ?h)"
    using Suc.IH [of "b\<lparr>pOutPos := ?p\<rparr>" ?h] Suc.prems by simp
  finally show ?case
    using Suc.prems by (simp add: ring_Suc sent_def mod_add_left_eq)
qed

lemma tx_fifo_insert_gave:
  assumes b: "ring_ok b" and n: "unat n \<le> count b"
  shows "\<exists>b'. tx_fifo_insert n uart_no (b, h) = Some (b', sent uart_no (take (unat n) (held b)) h) \<and>
    gave b (unat n) b'"
proof -
  note r = ring_okD [OF b]
  have s: "unat (Space b + ucast n) = unat (Space b) + unat n"
    using unat_space_add [OF b, of "ucast n"] n by simp
  have "ring (bsize b) (pUartBuff b) (pOutPos b) (unat n) = take (unat n) (held b)"
    by (rule nth_equalityI) (use n in \<open>auto simp: held_def ring_def\<close>)
  moreover have "gave b (unat n) (b\<lparr>pOutPos := (pOutPos b + unat n) mod bsize b mod bsize b,
      Space := Space b + ucast n\<rparr>)"
    by (rule gaveI [OF b n _ s]) simp
  ultimately show ?thesis
    by (simp add: tx_fifo_insert_def insert_loop_sent [OF r(3,4)])
qed

section \<open>The queue both rings implement\<close>

datatype ('a, 'i) queue_op = Put "'a list" | Get 'i

text \<open>
  A run of operations: what was accepted and what came out, each in order, and the queue
  that is left. A \<open>Put\<close> that does not fit is dropped as a whole.
\<close>

fun run_queue ::
  "('a list \<Rightarrow> 'q \<Rightarrow> bool) \<Rightarrow> ('a list \<Rightarrow> 'q \<Rightarrow> 'q option) \<Rightarrow> ('i \<Rightarrow> 'q \<Rightarrow> ('a list \<times> 'q) option) \<Rightarrow>
   ('a, 'i) queue_op list \<Rightarrow> 'q \<Rightarrow> ('a list \<times> 'a list \<times> 'q) option" where
  "run_queue fits enq deq [] q = Some ([], [], q)"
| "run_queue fits enq deq (Put xs # ops) q = do {
     q' \<leftarrow> enq xs q;
     (acc, got, q'') \<leftarrow> run_queue fits enq deq ops q';
     Some ((if fits xs q then xs @ acc else acc), got, q'') }"
| "run_queue fits enq deq (Get i # ops) q = do {
     (ys, q') \<leftarrow> deq i q;
     (acc, got, q'') \<leftarrow> run_queue fits enq deq ops q';
     Some (acc, ys @ got, q'') }"

fun legal_op :: "('a list \<Rightarrow> bool) \<Rightarrow> ('a, 'i) queue_op \<Rightarrow> bool" where
  "legal_op legal (Put xs) = legal xs"
| "legal_op legal (Get i) = True"

locale byte_queue =
  fixes inv :: "'q \<Rightarrow> bool"
    and contents :: "'q \<Rightarrow> 'a list"
    and legal :: "'a list \<Rightarrow> bool"
    and fits :: "'a list \<Rightarrow> 'q \<Rightarrow> bool"
    and amount :: "'i \<Rightarrow> 'q \<Rightarrow> nat"
    and enq :: "'a list \<Rightarrow> 'q \<Rightarrow> 'q option"
    and deq :: "'i \<Rightarrow> 'q \<Rightarrow> ('a list \<times> 'q) option"
  assumes enq_fits: "inv q \<Longrightarrow> legal xs \<Longrightarrow> fits xs q \<Longrightarrow>
      \<exists>q'. enq xs q = Some q' \<and> inv q' \<and> contents q' = contents q @ xs"
    and enq_full: "inv q \<Longrightarrow> legal xs \<Longrightarrow> \<not> fits xs q \<Longrightarrow>
      \<exists>q'. enq xs q = Some q' \<and> inv q' \<and> contents q' = contents q"
    and deq_front: "inv q \<Longrightarrow>
      \<exists>q'. deq i q = Some (take (amount i q) (contents q), q') \<and> inv q' \<and>
        contents q' = drop (amount i q) (contents q)"
begin

text \<open>Nothing is lost, duplicated or reordered between the two ends.\<close>

lemma stream:
  assumes "inv q" "list_all (legal_op legal) ops"
  shows "\<exists>acc got q'. run_queue fits enq deq ops q = Some (acc, got, q') \<and> inv q' \<and>
    contents q @ acc = got @ contents q'"
  using assms
proof (induction ops arbitrary: q)
  case Nil
  then show ?case by simp
next
  case (Cons a ops)
  show ?case
  proof (cases a)
    case (Put xs)
    obtain q1 where q1: "enq xs q = Some q1" "inv q1"
        "contents q1 = contents q @ (if fits xs q then xs else [])"
      using Cons.prems Put enq_fits [of q xs] enq_full [of q xs] by (cases "fits xs q") auto
    obtain acc got q' where "run_queue fits enq deq ops q1 = Some (acc, got, q')" "inv q'"
        "contents q1 @ acc = got @ contents q'"
      using Cons.IH [OF q1(2)] Cons.prems by auto
    then show ?thesis using Put q1 by (auto split: if_splits)
  next
    case (Get i)
    obtain q1 where q1: "deq i q = Some (take (amount i q) (contents q), q1)" "inv q1"
        "contents q1 = drop (amount i q) (contents q)"
      using deq_front [OF Cons.prems(1)] by blast
    obtain acc got q' where r: "run_queue fits enq deq ops q1 = Some (acc, got, q')" "inv q'"
        "contents q1 @ acc = got @ contents q'"
      using Cons.IH [OF q1(2)] Cons.prems by auto
    have "contents q @ acc = take (amount i q) (contents q) @ got @ contents q'"
      using r(3) unfolding q1(3) by (metis append.assoc append_take_drop_id)
    then show ?thesis using Get q1 r by auto
  qed
qed

end

end
