(* ===== verification/UartRings.thy ===== *)
theory UartRings
  imports UartBuf
begin

text \<open>
  The receive and the transmit ring of \<open>app/user/uart.c\<close> as interpretations of the locale
  \<open>byte_queue\<close>, and what follows for any sequence of operations on them.
\<close>

section \<open>Both rings are such queues\<close>

text \<open>The hardware side of an operation: what the status register of UART0 shows.\<close>

definition show_status :: "u32 \<Rightarrow> uart_hw \<Rightarrow> uart_hw" where
  "show_status v h = h\<lparr>reg := (reg h)(UART_STATUS UART0 := v)\<rparr>"

definition uart0_bytes :: "uart_hw \<Rightarrow> u8 list" where
  "uart0_bytes h = map (\<lambda>w. ucast (snd w)) (filter (\<lambda>w. fst w = UART_FIFO UART0) (writes h))"

text \<open>Receiving: the FIFO holds \<open>xs\<close>; the application takes at most \<open>k\<close> bytes.\<close>

definition rx_enq :: "u8 list \<Rightarrow> UartBuffer \<times> uart_hw \<Rightarrow> (UartBuffer \<times> uart_hw) option" where
  "rx_enq xs = (\<lambda>(b, h). Uart_rx_buff_enq (\<lambda>i. ucast (xs ! i)) (b, show_status (of_nat (length xs)) h))"

definition rx_deq :: "u16 \<Rightarrow> UartBuffer \<times> uart_hw \<Rightarrow> (u8 list \<times> UartBuffer \<times> uart_hw) option" where
  "rx_deq k s = do {
     (d, n, b, h) \<leftarrow> rx_buff_deq (replicate (unat k) 0) k s;
     Some (take (unat n) d, b, h) }"

definition rx_inv :: "UartBuffer \<times> uart_hw \<Rightarrow> bool" where
  "rx_inv s \<longleftrightarrow> ring_ok (fst s) \<and> 0 < unat (Space (fst s))"

definition rx_fits :: "u8 list \<Rightarrow> UartBuffer \<times> uart_hw \<Rightarrow> bool" where
  "rx_fits xs s \<longleftrightarrow> length xs < unat (Space (fst s))"

definition rx_amount :: "u16 \<Rightarrow> UartBuffer \<times> uart_hw \<Rightarrow> nat" where
  "rx_amount k s = min (length (held (fst s))) (unat k)"

abbreviation fifo_legal :: "u8 list \<Rightarrow> bool" where
  "fifo_legal xs \<equiv> length xs < 256"

lemma and_255_u32: "(x :: u32) AND 255 = take_bit 8 x"
  by (simp add: take_bit_eq_mask mask_eq_exp_minus_1)

lemma shown_count: "fifo_legal xs \<Longrightarrow> unat (rx_count (reg (show_status (of_nat (length xs)) h) 0x6000001C)) = length xs"
proof -
  assume l: "fifo_legal xs"
  have "rx_count (of_nat (length xs)) = (of_nat (length xs) :: u8)"
    unfolding rx_count_def by (rule bit_word_eqI) (auto simp: and_255_u32 bit_simps)
  moreover have "unat (of_nat (length xs) :: u8) = length xs" using l by (simp add: unat_of_nat)
  ultimately show ?thesis by (simp add: show_status_def)
qed

lemma rx_bytes_list: "rx_bytes (\<lambda>i. ucast (xs ! i)) 0 (length xs) = (xs :: u8 list)"
proof (rule nth_equalityI)
  fix i assume "i < length (rx_bytes (\<lambda>i. ucast (xs ! i)) 0 (length xs))"
  moreover have "ucast ((ucast x :: u32) AND 0xFF) = (x :: u8)" for x
    by (rule bit_word_eqI) (auto simp: and_255_u32 bit_simps)
  ultimately show "rx_bytes (\<lambda>i. ucast (xs ! i)) 0 (length xs) ! i = xs ! i"
    by (simp add: rx_bytes_def)
qed simp

lemma length_held: "length (held b) = count b"
  by (simp add: held_def)

lemma rx_enq_fits:
  assumes "rx_inv q" "fifo_legal xs" "rx_fits xs q"
  shows "\<exists>q'. rx_enq xs q = Some q' \<and> rx_inv q' \<and> held (fst q') = held (fst q) @ xs"
proof -
  obtain b h where q: "q = (b, h)" by (cases q)
  let ?h = "show_status (of_nat (length xs)) h"
  note n = shown_count [OF assms(2), of h]
  obtain b' h' where "Uart_rx_buff_enq (\<lambda>i. ucast (xs ! i)) (b, ?h) = Some (b', h')"
      "took b (rx_bytes (\<lambda>i. ucast (xs ! i)) 0 (length xs)) b'"
    using Uart_rx_buff_enq_took [of b ?h "\<lambda>i. ucast (xs ! i)"] assms unfolding n
    by (auto simp: q rx_inv_def rx_fits_def)
  then show ?thesis
    using assms(3) by (auto simp: q rx_enq_def rx_inv_def rx_fits_def rx_bytes_list took_def)
qed

lemma rx_enq_full:
  assumes "rx_inv q" "fifo_legal xs" "\<not> rx_fits xs q"
  shows "\<exists>q'. rx_enq xs q = Some q' \<and> rx_inv q' \<and> held (fst q') = held (fst q)"
proof -
  obtain b h where q: "q = (b, h)" by (cases q)
  let ?w = "rx_count (reg (show_status (of_nat (length xs)) h) 0x6000001C)"
  have "unat ?w = length xs" by (rule shown_count [OF assms(2)])
  then have "Space b \<le> ucast ?w"
    using assms(3) by (simp add: q rx_fits_def word_le_nat_alt)
  then show ?thesis
    using assms(1) by (simp add: q rx_enq_def Uart_rx_buff_enq_def READ_PERI_REG_def rx_inv_def)
qed

lemma rx_deq_front:
  assumes "rx_inv q"
  shows "\<exists>q'. rx_deq k q = Some (take (rx_amount k q) (held (fst q)), q') \<and> rx_inv q' \<and>
    held (fst q') = drop (rx_amount k q) (held (fst q))"
proof -
  obtain b h where q: "q = (b, h)" by (cases q)
  have a: "rx_amount k q = min (count b) (unat k)" by (simp add: q rx_amount_def length_held)
  obtain d len b' h' where d: "rx_buff_deq (replicate (unat k) 0) k (b, h) = Some (d, len, b', h')"
      "unat len = rx_amount k q" "take (rx_amount k q) d = take (rx_amount k q) (held b)"
      "gave b (rx_amount k q) b'"
    using rx_buff_deq_gave [of b k "replicate (unat k) 0" h] assms unfolding a
    by (auto simp: q rx_inv_def)
  then show ?thesis
    using assms by (auto simp: rx_deq_def q rx_inv_def gave_def)
qed

interpretation rx: byte_queue rx_inv "\<lambda>q. held (fst q)" fifo_legal rx_fits rx_amount rx_enq rx_deq
  by unfold_locales (fact rx_enq_fits rx_enq_full rx_deq_front)+

text \<open>Sending: the interrupt handler finds the status \<open>i\<close> and fills the FIFO from the ring.\<close>

definition tx_enq :: "u8 list \<Rightarrow> UartBuffer option \<times> uart_hw \<Rightarrow> (UartBuffer option \<times> uart_hw) option" where
  "tx_enq xs = tx_buff_enq 0 (\<lambda>_. []) xs (of_nat (length xs))"

definition tx_deq ::
  "u32 \<Rightarrow> UartBuffer option \<times> uart_hw \<Rightarrow> (u8 list \<times> UartBuffer option \<times> uart_hw) option" where
  "tx_deq i = (\<lambda>(tx, h). do {
     (tx', h') \<leftarrow> tx_start_uart_buffer UART0 (tx, show_status i h);
     Some (drop (length (uart0_bytes h)) (uart0_bytes h'), tx', h') })"

definition tx_inv :: "UartBuffer option \<times> uart_hw \<Rightarrow> bool" where
  "tx_inv s \<longleftrightarrow> (case fst s of None \<Rightarrow> False | Some b \<Rightarrow> ring_ok b)"

definition tx_held :: "UartBuffer option \<times> uart_hw \<Rightarrow> u8 list" where
  "tx_held s = (case fst s of None \<Rightarrow> [] | Some b \<Rightarrow> held b)"

definition tx_fits :: "u8 list \<Rightarrow> UartBuffer option \<times> uart_hw \<Rightarrow> bool" where
  "tx_fits xs s \<longleftrightarrow> (case fst s of None \<Rightarrow> False | Some b \<Rightarrow> length xs \<le> unat (Space b))"

definition fifo_room :: "u32 \<Rightarrow> u8" where
  "fifo_room i = 128 - ucast (tx_count i)"

definition tx_amount :: "u32 \<Rightarrow> UartBuffer option \<times> uart_hw \<Rightarrow> nat" where
  "tx_amount i s = min (length (tx_held s)) (unat (fifo_room i))"

abbreviation u16_legal :: "u8 list \<Rightarrow> bool" where
  "u16_legal xs \<equiv> length xs < 65536"

lemma uart0_bytes_other [simp]:
  "a \<noteq> 0x60000000 \<Longrightarrow> uart0_bytes (WRITE_PERI_REG a v h) = uart0_bytes h"
  "uart0_bytes (show_status v h) = uart0_bytes h"
  "uart0_bytes (h\<lparr>reg := r\<rparr>) = uart0_bytes h"
  by (simp_all add: uart0_bytes_def WRITE_PERI_REG_def show_status_def)

lemma uart0_bytes_sent [simp]: "uart0_bytes (sent UART0 bs h) = uart0_bytes h @ bs"
proof -
  have "ucast (ucast b :: u32) = (b :: u8)" for b by (rule bit_word_eqI) (auto simp: bit_simps)
  then show ?thesis by (simp add: uart0_bytes_def comp_def)
qed

lemma sendStr_no_wait: "0 \<in> set str \<Longrightarrow> \<exists>h'. uart1_sendStr_no_wait str h = Some h'"
  by (induction str arbitrary: h) auto

lemma tx_enq_fits:
  assumes "tx_inv q" "u16_legal xs" "tx_fits xs q"
  shows "\<exists>q'. tx_enq xs q = Some q' \<and> tx_inv q' \<and> tx_held q' = tx_held q @ xs"
proof -
  obtain b h where q: "q = (Some b, h)" using assms(1) by (cases q) (auto simp: tx_inv_def split: option.splits)
  have b: "ring_ok b" and f: "length xs \<le> unat (Space b)" using assms by (simp_all add: q tx_inv_def tx_fits_def)
  have n: "unat (of_nat (length xs) :: u16) = length xs" by (rule unat_of_nat_u16 [OF assms(2)])
  obtain b' where "Uart_Buf_Cpy b xs (of_nat (length xs)) = Some b'" "took b xs b'"
    using Uart_Buf_Cpy_took [OF b, of "of_nat (length xs)" xs] f n by auto
  moreover have "of_nat (length xs) \<le> Space b" using f n by (simp add: word_le_nat_alt)
  ultimately show ?thesis
    by (simp add: q tx_enq_def tx_buff_enq_def Let_def tx_inv_def tx_held_def took_def)
qed

lemma tx_enq_full:
  assumes "tx_inv q" "u16_legal xs" "\<not> tx_fits xs q"
  shows "\<exists>q'. tx_enq xs q = Some q' \<and> tx_inv q' \<and> tx_held q' = tx_held q"
proof -
  obtain b h where q: "q = (Some b, h)" using assms(1) by (cases q) (auto simp: tx_inv_def split: option.splits)
  have n: "unat (of_nat (length xs) :: u16) = length xs" by (rule unat_of_nat_u16 [OF assms(2)])
  then have "\<not> of_nat (length xs) \<le> Space b" using assms(3) by (simp add: q tx_fits_def word_le_nat_alt)
  moreover obtain h' where "uart1_sendStr_no_wait TX_BUF_FULL
      (CLEAR_PERI_REG_MASK (UART_INT_ENA UART0) UART_TXFIFO_EMPTY_INT_ENA h) = Some h'"
    using sendStr_no_wait [of TX_BUF_FULL] by (auto simp: TX_BUF_FULL_def)
  ultimately show ?thesis
    using assms(1) by (simp add: q tx_enq_def tx_buff_enq_def Let_def tx_inv_def tx_held_def)
qed

lemma tx_deq_front:
  assumes "tx_inv q"
  shows "\<exists>q'. tx_deq i q = Some (take (tx_amount i q) (tx_held q), q') \<and> tx_inv q' \<and>
    tx_held q' = drop (tx_amount i q) (tx_held q)"
proof -
  obtain b h where q: "q = (Some b, h)" using assms by (cases q) (auto simp: tx_inv_def split: option.splits)
  have b: "ring_ok b" using assms by (simp add: q tx_inv_def)
  define dl :: u16 where "dl = ucast (UartBuffSize b - ucast (Space b))"
  have dl: "unat dl = count b" unfolding dl_def by (rule count_u16 [OF b])
  define n :: u8 where "n = (if ucast (fifo_room i) < dl then fifo_room i else ucast dl)"
  have n: "unat n = min (count b) (unat (fifo_room i))"
  proof (cases "ucast (fifo_room i) < dl")
    case True
    then show ?thesis using dl by (simp add: n_def word_less_nat_alt)
  next
    case False
    then have "unat dl \<le> unat (fifo_room i)" by (simp add: word_less_nat_alt)
    moreover from this have "unat dl < 256" using unat_u8 by (rule le_less_trans)
    ultimately show ?thesis using False dl
      by (simp add: n_def unsigned_ucast_eq take_bit_nat_eq_self_iff)
  qed
  have a: "tx_amount i q = unat n" by (simp add: q tx_amount_def tx_held_def length_held n)
  let ?h = "show_status i h"
  obtain b' where t: "tx_fifo_insert n UART0 (b, ?h) = Some (b', sent UART0 (take (unat n) (held b)) ?h)"
      "gave b (unat n) b'"
    using tx_fifo_insert_gave [OF b, of n UART0 ?h] n by auto
  have "\<exists>h'. tx_start_uart_buffer UART0 (Some b, ?h) = Some (Some b', h') \<and>
      uart0_bytes h' = uart0_bytes h @ take (unat n) (held b)"
  proof (cases "ucast (fifo_room i) < dl")
    case True
    then show ?thesis
      using t(1) unfolding n_def fifo_room_def dl_def
      by (simp add: tx_start_uart_buffer_def READ_PERI_REG_def show_status_def Let_def SET_PERI_REG_MASK_def)
  next
    case False
    then show ?thesis
      using t(1) unfolding n_def fifo_room_def dl_def
      by (simp add: tx_start_uart_buffer_def READ_PERI_REG_def show_status_def Let_def)
  qed
  then show ?thesis
    using t(2) by (auto simp: q tx_deq_def a [unfolded q] tx_inv_def tx_held_def gave_def)
qed

interpretation tx: byte_queue tx_inv tx_held u16_legal tx_fits tx_amount tx_enq tx_deq
  by unfold_locales (fact tx_enq_fits tx_enq_full tx_deq_front)+

section \<open>The properties\<close>

lemma run_queueE:
  "\<exists>acc got q'. run_queue fits enq deq ops q = Some (acc, got, q') \<and> I q' \<and> c q @ acc = got @ c q' \<Longrightarrow>
   (\<And>acc got q'. run_queue fits enq deq ops q = Some (acc, got, q') \<Longrightarrow> I q' \<Longrightarrow>
     c q @ acc = got @ c q' \<Longrightarrow> P) \<Longrightarrow> P"
  by blast

definition new_ring :: UartBuffer where
  "new_ring = \<lparr>UartBuffSize = 256, pUartBuff = replicate 256 0, pInPos = 0, pOutPos = 0, BuffState = 0,
     Space = 256, TcpControl = 0\<rparr>"

lemma new_ring_ok: "ring_ok new_ring" "held new_ring = []" "unat (Space new_ring) = 256"
  by (simp_all add: new_ring_def ring_ok_def held_def count_def ring_def)

text \<open>
  C36: the receive ring is a byte queue: in any sequence of moves from the FIFO to the ring
  (of up to 255 bytes) and of reads by the application, no memory outside the ring or the
  caller's buffer is touched, and what the ring held followed by what it accepted is what the
  application got followed by what is left. A read returns as many bytes as there are, at
  most the number asked for.
\<close>

theorem rx_ring_is_a_queue:
  assumes "ring_ok b" "0 < unat (Space b)"
    and "list_all (legal_op (\<lambda>xs. length xs < 256)) ops"
  shows "(\<exists>acc got b' h'. run_queue rx_fits rx_enq rx_deq ops (b, h) = Some (acc, got, b', h') \<and>
      held b @ acc = got @ held b' \<and> ring_ok b' \<and> 0 < unat (Space b')) \<and>
    (\<exists>s'. rx_deq k (b, h) = Some (take (min (length (held b)) (unat k)) (held b), s'))"
proof (intro conjI)
  have inv: "rx_inv (b, h)" using assms(1,2) by (simp add: rx_inv_def)
  show "\<exists>acc got b' h'. run_queue rx_fits rx_enq rx_deq ops (b, h) = Some (acc, got, b', h') \<and>
      held b @ acc = got @ held b' \<and> ring_ok b' \<and> 0 < unat (Space b')"
    by (rule run_queueE [OF rx.stream [OF inv assms(3)]]) (auto simp: rx_inv_def)
  show "\<exists>s'. rx_deq k (b, h) = Some (take (min (length (held b)) (unat k)) (held b), s')"
    using rx.deq_front [OF inv, of k] by (auto simp: rx_amount_def)
qed

lemma rx_ring_is_a_queue_witness:
  "\<exists>acc got b' h'. run_queue rx_fits rx_enq rx_deq [Put [1, 2], Get 1, Put [3], Get 9] (new_ring, blank_hw) =
     Some (acc, got, b', h') \<and> acc = got @ held b' \<and> ring_ok b' \<and> 0 < unat (Space b')"
  using rx_ring_is_a_queue [of new_ring "[Put [1, 2], Get 1, Put [3], Get 9]" blank_hw]
  by (simp add: new_ring_ok)

text \<open>
  C37: the transmit ring is a byte queue: in any sequence of messages handed to
  \<open>tx_buff_enq\<close> (below 64 kB; one that does not fit is dropped as a whole) and of
  FIFO-empty interrupts, the bytes written to the FIFO of UART0, followed by what is left,
  are what the ring held followed by what it accepted; one interrupt moves as many bytes as
  the ring holds and the FIFO has room for.
\<close>

theorem tx_ring_is_a_queue:
  assumes "ring_ok b" and "list_all (legal_op (\<lambda>xs. length xs < 65536)) ops"
  shows "(\<exists>acc got b' h'. run_queue tx_fits tx_enq tx_deq ops (Some b, h) = Some (acc, got, Some b', h') \<and>
      held b @ acc = got @ held b' \<and> ring_ok b') \<and>
    (\<exists>s'. tx_deq status (Some b, h) =
      Some (take (min (length (held b)) (unat (fifo_room status))) (held b), s'))"
proof (intro conjI)
  have inv: "tx_inv (Some b, h)" using assms(1) by (simp add: tx_inv_def)
  show "\<exists>acc got b' h'. run_queue tx_fits tx_enq tx_deq ops (Some b, h) = Some (acc, got, Some b', h') \<and>
      held b @ acc = got @ held b' \<and> ring_ok b'"
    by (rule run_queueE [OF tx.stream [OF inv assms(2)]])
      (auto simp: tx_inv_def tx_held_def split: option.splits)
  show "\<exists>s'. tx_deq status (Some b, h) =
      Some (take (min (length (held b)) (unat (fifo_room status))) (held b), s')"
    using tx.deq_front [OF inv, of status] by (auto simp: tx_amount_def tx_held_def)
qed

lemma tx_ring_is_a_queue_witness:
  "\<exists>acc got b' h'. run_queue tx_fits tx_enq tx_deq [Put [65, 66, 67], Get 0x7F0000, Get 0]
     (Some new_ring, blank_hw) = Some (acc, got, Some b', h') \<and> acc = got @ held b' \<and> ring_ok b'"
  using tx_ring_is_a_queue [of new_ring "[Put [65, 66, 67], Get 0x7F0000, Get 0]" blank_hw]
  by (simp add: new_ring_ok)

end
