(* ===== verification/HwTimer.thy ===== *)
theory HwTimer
  imports Uart
begin

text \<open>
  The hardware timer driver \<open>app/user/hw_timer.c\<close> over the register file of theory Uart. The
  interrupt controller is reached through ROM functions: what is attached is a field.
\<close>

section \<open>The driver\<close>

abbreviation (input) APB_CLK_FREQ :: u32 where "APB_CLK_FREQ \<equiv> 80000000"

definition US_TO_RTC_TIMER_TICKS :: "u32 \<Rightarrow> u32" where
  "US_TO_RTC_TIMER_TICKS t =
     (if t \<noteq> 0
      then (if 0x35A < t
            then drop_bit 2 t * (drop_bit 4 APB_CLK_FREQ div 250000) +
                 (t AND 0x3) * (drop_bit 4 APB_CLK_FREQ div 1000000)
            else (t * drop_bit 4 APB_CLK_FREQ) div 1000000)
      else 0)"

datatype frc1_source = FRC1_SOURCE | NMI_SOURCE

record 's hw_timer =
  thw :: uart_hw
  user_hw_timer_cb :: "('s \<Rightarrow> 's) option"
  isr :: "frc1_source option"
  frc1_enabled :: bool

abbreviation (input) FRC1_ENABLE_TIMER :: u32 where "FRC1_ENABLE_TIMER \<equiv> 0x80"
abbreviation (input) FRC1_AUTO_LOAD :: u32 where "FRC1_AUTO_LOAD \<equiv> 0x40"
abbreviation (input) DIVDED_BY_16 :: u32 where "DIVDED_BY_16 \<equiv> 4"
abbreviation (input) TM_EDGE_INT :: u32 where "TM_EDGE_INT \<equiv> 0"
abbreviation (input) FRC1_LOAD_ADDRESS :: u32 where "FRC1_LOAD_ADDRESS \<equiv> 0x60000600"
abbreviation (input) FRC1_CTRL_ADDRESS :: u32 where "FRC1_CTRL_ADDRESS \<equiv> 0x60000608"
abbreviation (input) EDGE_INT_ENABLE_REG :: u32 where "EDGE_INT_ENABLE_REG \<equiv> 0x3ff00004"

definition hw_timer_arm :: "u32 \<Rightarrow> 's hw_timer \<Rightarrow> 's hw_timer" where
  "hw_timer_arm val t = t\<lparr>thw := WRITE_PERI_REG FRC1_LOAD_ADDRESS (US_TO_RTC_TIMER_TICKS val) (thw t)\<rparr>"

definition hw_timer_set_func :: "('s \<Rightarrow> 's) option \<Rightarrow> 's hw_timer \<Rightarrow> 's hw_timer" where
  "hw_timer_set_func cb t = t\<lparr>user_hw_timer_cb := cb\<rparr>"

definition hw_timer_isr_cb :: "'s hw_timer \<Rightarrow> 's \<Rightarrow> 's" where
  "hw_timer_isr_cb t s = (case user_hw_timer_cb t of None \<Rightarrow> s | Some f \<Rightarrow> f s)"

definition hw_timer_init :: "frc1_source \<Rightarrow> u8 \<Rightarrow> 's hw_timer \<Rightarrow> 's hw_timer" where
  "hw_timer_init source_type req t =
     (let h = (if req = 1
               then WRITE_PERI_REG FRC1_CTRL_ADDRESS (FRC1_AUTO_LOAD OR DIVDED_BY_16 OR FRC1_ENABLE_TIMER OR TM_EDGE_INT) (thw t)
               else WRITE_PERI_REG FRC1_CTRL_ADDRESS (DIVDED_BY_16 OR FRC1_ENABLE_TIMER OR TM_EDGE_INT) (thw t))
      in t\<lparr>thw := SET_PERI_REG_MASK EDGE_INT_ENABLE_REG 0x2 h,
           isr := Some (if source_type = NMI_SOURCE then NMI_SOURCE else FRC1_SOURCE),
           frc1_enabled := True\<rparr>)"

section \<open>Microseconds to ticks\<close>

lemma split_quarter: "drop_bit 2 t * 4 + (t AND 3) = (t :: u32)"
proof -
  have "push_bit 2 (drop_bit 2 t) + take_bit 2 t = t"
    by (simp add: bits_ident)
  then show ?thesis by (simp add: push_bit_eq_mult take_bit_eq_mask mask_eq_exp_minus_1)
qed

lemma small_product: "t \<le> 0x35A \<Longrightarrow> (t * 5000000) div 1000000 = 5 * (t :: u32)"
proof -
  assume "t \<le> 0x35A"
  then have t: "unat t \<le> 858" by (simp add: word_le_nat_alt)
  have p: "unat (t * 5000000) = unat t * 5000000" "unat (5 * t) = 5 * unat t"
    using t by (simp_all add: unat_mult_lem [THEN iffD1] unat_word_ariths)
  have "unat ((t * 5000000) div 1000000) = unat t * 5000000 div 1000000"
    by (simp add: unat_div p)
  then show ?thesis using p by (intro word_unat_eq_iff [THEN iffD2]) simp
qed

text \<open>
  Both branches of the macro \<open>US_TO_RTC_TIMER_TICKS\<close>, the one that multiplies first and
  the one that splits off the two low bits so as not to overflow, give five ticks per
  microsecond (80 MHz divided by 16) for every 32-bit argument; \<open>hw_timer_arm\<close> loads that.
\<close>

theorem ticks_per_microsecond:
  "US_TO_RTC_TIMER_TICKS t = 5 * t \<and> reg (thw (hw_timer_arm t hw)) 0x60000600 = 5 * t"
proof -
  have "drop_bit 2 t * 20 + (t AND 3) * 5 = 5 * (drop_bit 2 t * 4 + (t AND 3))" by (simp add: algebra_simps)
  then have a: "drop_bit 2 t * 20 + (t AND 3) * 5 = 5 * t" by (simp only: split_quarter)
  have u: "US_TO_RTC_TIMER_TICKS t = 5 * t"
    using a small_product [of t] by (auto simp: US_TO_RTC_TIMER_TICKS_def not_less)
  then show ?thesis
    by (simp add: hw_timer_arm_def WRITE_PERI_REG_def)
qed

end
