(* ===== verification/UserJson.thy ===== *)
theory UserJson
  imports Prelude
begin

text \<open>
  The JSON helpers \<open>app/user/user_json.c\<close>. The tree printer and parser (\<open>jsontree_*\<close>,
  \<open>jsonparse_*\<close>) are a binary library: what it hands back, the characters it prints and the
  callbacks it finds, are arguments. Strings are their characters without the terminator.
\<close>

section \<open>The tree\<close>

text \<open>A value that is neither an object nor a callback is kept as its type; callbacks are numbered.\<close>

datatype jsontree_value =
    jsontree_object "(u8 list \<times> jsontree_value) list"
  | jsontree_callback nat
  | jsontree_leaf u8

abbreviation JSONTREE_MAX_DEPTH :: nat where "JSONTREE_MAX_DEPTH \<equiv> 10"

record jsontree_context =
  jvalues :: "jsontree_value option list"
  jindex :: "u16 list"
  jdepth :: u8
  jpath :: u8
  callback_state :: int

section \<open>find_json_path\<close>

text \<open>\<open>os_strncmp (a, b, n) == 0\<close>.\<close>

fun strncmp_eq :: "u8 list \<Rightarrow> u8 list \<Rightarrow> nat \<Rightarrow> bool" where
  "strncmp_eq a b 0 \<longleftrightarrow> True"
| "strncmp_eq [] [] (Suc n) \<longleftrightarrow> True"
| "strncmp_eq (x # xs) (y # ys) (Suc n) \<longleftrightarrow> x = y \<and> strncmp_eq xs ys n"
| "strncmp_eq a b (Suc n) \<longleftrightarrow> False"

fun find_pair ::
  "u8 list \<Rightarrow> nat \<Rightarrow> (u8 list \<times> jsontree_value) list \<Rightarrow> nat \<Rightarrow> (nat \<times> jsontree_value) option" where
  "find_pair start len [] i = None"
| "find_pair start len ((name, v) # pairs) i =
     (if strncmp_eq start name len then Some (i, v) else find_pair start len pairs (Suc i))"

text \<open>\<open>json->index[depth] = i; depth++; values[depth] = v; index[depth] = 0\<close>, checked.\<close>

definition descend :: "nat \<Rightarrow> jsontree_value \<Rightarrow> jsontree_context \<Rightarrow> jsontree_context option" where
  "descend i v json = do {
     ix \<leftarrow> st (jindex json) (unat (jdepth json)) (of_nat i);
     let d = jdepth json + 1;
     vs \<leftarrow> st (jvalues json) (unat d) (Some v);
     ix \<leftarrow> st ix (unat d) 0;
     Some (json\<lparr>jindex := ix, jdepth := d, jvalues := vs\<rparr>) }"

definition step_into ::
  "jsontree_value \<Rightarrow> u8 list \<Rightarrow> nat \<Rightarrow> jsontree_context \<Rightarrow> (jsontree_value option \<times> jsontree_context) option" where
  "step_into v start len json =
     (case v of
        jsontree_object pairs \<Rightarrow>
          (case find_pair start len pairs 0 of
             None \<Rightarrow> Some (None, json)
           | Some (i, w) \<Rightarrow> do { json \<leftarrow> descend i w json; Some (Some w, json) })
      | _ \<Rightarrow> Some (None, json))"

text \<open>
  The loop; 47 is \<open>'/'\<close>. \<open>len\<close> is the distance to the next slash, or the rest of the string.
  Each round drops at least the slash, so the loop ends.
\<close>

function path_loop ::
  "jsontree_value \<Rightarrow> u8 list \<Rightarrow> jsontree_context \<Rightarrow> (jsontree_value option \<times> jsontree_context) option" where
  "path_loop v start json =
     (let len = length (takeWhile (\<lambda>c. c \<noteq> 47) start);
          slash = 47 \<in> set start
      in if slash \<and> len = 0 then Some (Some v, json)
         else do {
           (v', json') \<leftarrow> step_into v start len json;
           (if \<not> slash then Some (v', json')
            else let rest = drop (Suc len) start
            in case v' of
                 None \<Rightarrow> Some (None, json')
               | Some w \<Rightarrow> if rest = [] then Some (Some w, json') else path_loop w rest json') })"
  by pat_completeness auto
termination
  by (relation "measure (\<lambda>(_, start, _). length start)") auto

declare path_loop.simps [simp del]

definition find_json_path ::
  "jsontree_context \<Rightarrow> u8 list \<Rightarrow> (jsontree_value option \<times> jsontree_context) option" where
  "find_json_path json path = do {
     v \<leftarrow> Option.bind (ld (jvalues json) 0) (\<lambda>v. v);
     (v, json) \<leftarrow> path_loop v path json;
     Some (v, json\<lparr>callback_state := 0\<rparr>) }"

section \<open>Printing\<close>

record json_out =
  json_buf :: "u8 list option"
  pos :: nat
  json_size :: nat

abbreviation jsonSize :: nat where "jsonSize \<equiv> 2 * 1024"

definition json_putchar :: "u8 \<Rightarrow> json_out \<Rightarrow> (u8 \<times> json_out) option" where
  "json_putchar c s =
     (case json_buf s of
        Some b \<Rightarrow>
          if pos s \<le> json_size s
          then do { b \<leftarrow> st b (pos s) c; Some (c, s\<lparr>json_buf := Some b, pos := pos s + 1\<rparr>) }
          else Some (0, s)
      | None \<Rightarrow> Some (0, s))"

fun put_all :: "u8 list \<Rightarrow> json_out \<Rightarrow> json_out option" where
  "put_all [] s = Some s"
| "put_all (c # cs) s = do { (_, s) \<leftarrow> json_putchar c s; put_all cs s }"

text \<open>
  \<open>mem\<close> is what \<open>os_malloc\<close> returns, \<open>reset\<close> is \<open>jsontree_reset\<close>, and \<open>printed\<close> gives the
  characters the library's printer hands to \<open>json_putchar\<close> for a context.
\<close>

definition json_ws_send ::
  "u8 list option \<Rightarrow> (jsontree_context \<Rightarrow> jsontree_context) \<Rightarrow> (jsontree_context \<Rightarrow> u8 list) \<Rightarrow>
   jsontree_context \<Rightarrow> jsontree_value \<Rightarrow> u8 list \<Rightarrow> u8 list \<Rightarrow> u8 list option" where
  "json_ws_send mem reset printed json tree path pbuf = do {
     let s = \<lparr>json_buf = mem, pos = 0, json_size = jsonSize\<rparr>;
     vs \<leftarrow> st (jvalues json) 0 (Some tree);
     (_, json) \<leftarrow> find_json_path (reset (json\<lparr>jvalues := vs\<rparr>)) path;
     let json = json\<lparr>jpath := jdepth json\<rparr>;
     s \<leftarrow> put_all (printed json) s;
     b \<leftarrow> json_buf s;
     b \<leftarrow> st b (pos s) 0;
     c_memcpy pbuf 0 b 0 (pos s) }"

section \<open>Parsing\<close>

text \<open>
  \<open>found\<close> are the callbacks \<open>jsontree_find_next\<close> returns until it returns NULL, \<open>has_set\<close>
  tells which have a \<open>set\<close> function; the result are the \<open>set\<close> functions called, in order.
\<close>

fun parse_loop :: "(nat \<Rightarrow> bool) \<Rightarrow> nat option \<Rightarrow> nat list \<Rightarrow> nat list" where
  "parse_loop has_set c_bak [] = []"
| "parse_loop has_set c_bak (c # found) =
     (if Some c = c_bak then parse_loop has_set c_bak found
      else if has_set c then c # parse_loop has_set (Some c) found
      else parse_loop has_set (Some c) found)"

definition json_parse :: "(nat \<Rightarrow> bool) \<Rightarrow> nat list \<Rightarrow> nat list" where
  "json_parse has_set found = parse_loop has_set None found"

lemma parse_loop_remdups:
  "parse_loop has_set (Some c) found = filter has_set (tl (remdups_adj (c # found)))"
  by (induction found arbitrary: c) (auto simp: remdups_adj_Cons split: list.splits)

lemma json_parse_remdups: "json_parse has_set found = filter has_set (remdups_adj found)"
proof (cases found)
  case Nil
  then show ?thesis by (simp add: json_parse_def)
next
  case (Cons c cs)
  have "hd (remdups_adj (c # cs)) = c" "remdups_adj (c # cs) \<noteq> []" by simp_all
  then obtain t where t: "remdups_adj (c # cs) = c # t" by (metis list.collapse)
  show ?thesis using Cons by (simp add: json_parse_def parse_loop_remdups t)
qed

section \<open>What find_json_path finds\<close>

text \<open>The first pair whose name begins with the component, level by level.\<close>

fun child :: "u8 list \<Rightarrow> jsontree_value \<Rightarrow> jsontree_value option" where
  "child c (jsontree_object pairs) = map_option snd (List.find (\<lambda>p. take (length c) (fst p) = c) pairs)"
| "child c _ = None"

fun resolve :: "jsontree_value \<Rightarrow> u8 list list \<Rightarrow> jsontree_value option" where
  "resolve v [] = Some v"
| "resolve v (c # cs) = Option.bind (child c v) (\<lambda>w. resolve w cs)"

fun slashed :: "u8 list list \<Rightarrow> u8 list" where
  "slashed [] = []"
| "slashed [c] = c"
| "slashed (c # cs) = c @ 47 # slashed cs"

lemma strncmp_prefix: "strncmp_eq (c @ r) name (length c) \<longleftrightarrow> take (length c) name = c"
proof (induction c arbitrary: name)
  case Nil
  then show ?case by simp
next
  case (Cons x c)
  then show ?case by (cases name) auto
qed

lemma find_pair_child:
  "map_option snd (find_pair (c @ r) (length c) pairs i) = child c (jsontree_object pairs)"
  by (induction pairs arbitrary: i) (auto simp: strncmp_prefix)

definition ctx_ok :: "nat \<Rightarrow> jsontree_context \<Rightarrow> bool" where
  "ctx_ok n json \<longleftrightarrow> length (jvalues json) = JSONTREE_MAX_DEPTH \<and> length (jindex json) = JSONTREE_MAX_DEPTH \<and>
     unat (jdepth json) + n < JSONTREE_MAX_DEPTH"

lemma descend_ok:
  "ctx_ok (Suc n) json \<Longrightarrow> \<exists>json'. descend i v json = Some json' \<and> ctx_ok n json' \<and> jdepth json' = jdepth json + 1"
proof -
  assume c: "ctx_ok (Suc n) json"
  then have "unat (jdepth json + 1) = unat (jdepth json) + 1"
    by (subst unat_add_lem [THEN iffD1]) (simp_all add: ctx_ok_def)
  then show ?thesis using c by (simp add: descend_def ctx_ok_def Let_def)
qed

lemma step_into_child:
  assumes "ctx_ok (Suc n) json"
  shows "\<exists>json'. step_into v (c @ r) (length c) json = Some (child c v, json') \<and>
    (child c v \<noteq> None \<longrightarrow> ctx_ok n json' \<and> jdepth json' = jdepth json + 1)"
proof (cases v)
  case (jsontree_object pairs)
  note f = find_pair_child [of c r pairs 0]
  show ?thesis
  proof (cases "find_pair (c @ r) (length c) pairs 0")
    case None
    then have "child c v = None" using f jsontree_object by simp
    then show ?thesis using None jsontree_object by (simp add: step_into_def)
  next
    case (Some p)
    then have "child c v = Some (snd p)" using f jsontree_object by simp
    then show ?thesis
      using Some descend_ok [OF assms, of "fst p" "snd p"] jsontree_object
      by (auto simp: step_into_def split: prod.split)
  qed
qed (simp_all add: step_into_def)

lemma takeWhile_component:
  "47 \<notin> set c \<Longrightarrow> takeWhile (\<lambda>x. x \<noteq> 47) (c @ 47 # r) = c"
  "47 \<notin> set c \<Longrightarrow> takeWhile (\<lambda>x. x \<noteq> 47) c = c"
  by (induction c) auto

lemma path_loop_resolve:
  assumes "cs \<noteq> []" "\<forall>c \<in> set cs. c \<noteq> [] \<and> 47 \<notin> set c" "ctx_ok (length cs) json"
  shows "\<exists>json'. path_loop v (slashed cs) json = Some (resolve v cs, json')"
  using assms
proof (induction cs arbitrary: v json rule: slashed.induct)
  case 1
  then show ?case by simp
next
  case (2 c)
  have c: "47 \<notin> set c" "c \<noteq> []" using 2 by auto
  have t: "length (takeWhile (\<lambda>x. x \<noteq> 47) c) = length c"
    by (rule arg_cong [OF takeWhile_component(2) [OF c(1)]])
  obtain json' where j: "step_into v c (length c) json = Some (child c v, json')"
    using step_into_child [of 0 json v c "[]"] 2 by auto
  have "path_loop v c json = step_into v c (length c) json"
    by (subst path_loop.simps) (simp only: t Let_def c(1) simp_thms if_False if_True, cases "step_into v c (length c) json", auto)
  then show ?case by (simp add: j)
next
  case (3 c d cs)
  let ?rest = "slashed (d # cs)"
  have "47 \<notin> set c" "c \<noteq> []" using 3 by simp_all
  note c = takeWhile_component(1) [OF this(1), of ?rest] this(2)
  have ne: "?rest \<noteq> []" using 3 by (cases cs) auto
  obtain json' where j: "step_into v (c @ 47 # ?rest) (length c) json = Some (child c v, json')"
      "child c v \<noteq> None \<longrightarrow> ctx_ok (length (d # cs)) json'"
    using step_into_child [of "length (d # cs)" json v c "47 # ?rest"] 3 by auto
  show ?case
  proof (cases "child c v")
    case None
    then show ?thesis
      by (simp only: slashed.simps, subst path_loop.simps) (use c j in \<open>simp add: Let_def\<close>)
  next
    case (Some w)
    obtain json'' where "path_loop w ?rest json' = Some (resolve w (d # cs), json'')"
      using 3(1) [of json' w] 3(3) j(2) Some by auto
    then show ?thesis
      by (simp only: slashed.simps, subst path_loop.simps) (use c j ne Some in \<open>simp add: Let_def\<close>)
  qed
qed

section \<open>The properties\<close>

text \<open>
  C39: for a path of at most nine components, \<open>find_json_path\<close> is the lookup component by
  component, in which a component selects the first pair whose name begins with it. So an
  earlier longer name hides the one that was asked for.
\<close>

theorem find_json_path_resolves:
  assumes "cs \<noteq> []" "\<forall>c \<in> set cs. c \<noteq> [] \<and> 47 \<notin> set c"
    and "length (jvalues json) = JSONTREE_MAX_DEPTH" "length (jindex json) = JSONTREE_MAX_DEPTH"
    and "unat (jdepth json) + length cs < JSONTREE_MAX_DEPTH" "jvalues json ! 0 = Some root"
  shows "map_option fst (find_json_path json (slashed cs)) = Some (resolve root cs)"
proof -
  have "ctx_ok (length cs) json" using assms by (simp add: ctx_ok_def)
  from path_loop_resolve [OF assms(1,2) this, of root] obtain json' where
    "path_loop root (slashed cs) json = Some (resolve root cs, json')" by blast
  then show ?thesis using assms by (simp add: find_json_path_def)
qed

text \<open>The names are ab and a, in this order; the path is a.\<close>

lemma find_json_path_resolves_witness:
  "map_option fst (find_json_path
     \<lparr>jvalues = Some (jsontree_object [([97, 98], jsontree_leaf 1), ([97], jsontree_leaf 2)]) # replicate 9 None,
      jindex = replicate 10 0, jdepth = 0, jpath = 0, callback_state = 0\<rparr> [97]) = Some (Some (jsontree_leaf 1))"
  using find_json_path_resolves [of "[[97]]" "\<lparr>jvalues = Some (jsontree_object [([97, 98], jsontree_leaf 1),
     ([97], jsontree_leaf 2)]) # replicate 9 None, jindex = replicate 10 0, jdepth = 0, jpath = 0, callback_state = 0\<rparr>"
     "jsontree_object [([97, 98], jsontree_leaf 1), ([97], jsontree_leaf 2)]"]
  by simp

lemma put_all_in:
  "json_buf s = Some b \<Longrightarrow> pos s + length cs \<le> length b \<Longrightarrow> length b \<le> json_size s \<Longrightarrow>
   put_all cs s = Some (s\<lparr>json_buf := Some (blit b (pos s) cs), pos := pos s + length cs\<rparr>)"
proof (induction cs arbitrary: s b)
  case Nil
  then show ?case by (simp add: blit_def)
next
  case (Cons c cs)
  then have "pos s < length b" by simp
  then have "json_putchar c s = Some (c, s\<lparr>json_buf := Some (b[pos s := c]), pos := pos s + 1\<rparr>)"
    using Cons.prems by (simp add: json_putchar_def)
  with Cons show ?case by (simp add: blit_Cons)
qed

lemma put_all_over:
  "json_buf s = Some b \<Longrightarrow> length b = json_size s \<Longrightarrow> pos s \<le> length b \<Longrightarrow> length b < pos s + length cs \<Longrightarrow>
   put_all cs s = None"
proof (induction cs arbitrary: s b)
  case Nil
  then show ?case by simp
next
  case (Cons c cs)
  show ?case
  proof (cases "pos s = length b")
    case True
    then show ?thesis using Cons.prems by (simp add: json_putchar_def st_def)
  next
    case False
    then have "json_putchar c s = Some (c, s\<lparr>json_buf := Some (b[pos s := c]), pos := pos s + 1\<rparr>)"
      using Cons.prems by (simp add: json_putchar_def)
    then show ?thesis using Cons False by simp
  qed
qed



end
