(* ===== verification/Pbuf.thy ===== *)
theory Pbuf
  imports CString
begin

text \<open>
  Packet buffers of the bundled lwIP (\<open>lwip/core/pbuf.c\<close>, \<open>include/lwip/pbuf.h\<close>), as far as one
  packet is concerned: a pointer to a \<open>struct pbuf\<close> is the list of the buffers reached from it
  over \<open>next\<close>, and the null pointer is the empty list. \<open>payload\<close> is an offset (\<open>poff\<close>) into the
  memory object it points into (\<open>room\<close>, at the address \<open>addr\<close>), so that an access outside that
  object is visible: the operations that read or write return \<open>None\<close> then. Reference counts and
  sharing are in \<open>PbufHeap\<close>. Assertions are compiled out in this configuration
  (\<open>LWIP_PLATFORM_ASSERT\<close> is empty), so they are not branches of the model.
\<close>

section \<open>Buffers and chains\<close>

datatype pbuf_type = PBUF_RAM | PBUF_ROM | PBUF_REF | PBUF_POOL | PBUF_ESF_RX

record pbuf =
  addr :: nat
  room :: "u8 list"
  poff :: nat
  tot_len :: u16
  plen :: u16
  ptype :: pbuf_type

definition wf_pbuf :: "pbuf \<Rightarrow> bool" where
  "wf_pbuf q \<longleftrightarrow> poff q + unat (plen q) \<le> length (room q)"

text \<open>The bytes of a buffer and of a chain.\<close>

definition data :: "pbuf \<Rightarrow> u8 list" where
  "data q = take (unat (plen q)) (drop (poff q) (room q))"

definition flat :: "pbuf list \<Rightarrow> u8 list" where
  "flat c = concat (map data c)"

text \<open>
  The invariant \<open>pbuf.h\<close> states for a packet: \<open>tot_len\<close> of a buffer is its own length and that
  of all the buffers behind it.
\<close>

fun wf_chain :: "pbuf list \<Rightarrow> bool" where
  "wf_chain [] = True"
| "wf_chain (q # c) \<longleftrightarrow> wf_pbuf q \<and> unat (tot_len q) = length (flat (q # c)) \<and> wf_chain c"

lemma flat_simps [simp]: "flat [] = []" "flat (q # c) = data q @ flat c" "flat (c @ d) = flat c @ flat d"
  by (simp_all add: flat_def)

lemma length_data [simp]: "wf_pbuf q \<Longrightarrow> length (data q) = unat (plen q)"
  by (simp add: data_def wf_pbuf_def)

lemma data_slice:
  "wf_pbuf q \<Longrightarrow> off + n \<le> unat (plen q) \<Longrightarrow> take n (drop (poff q + off) (room q)) = take n (drop off (data q))"
  by (simp add: data_def drop_take add.commute min_absorb1)

lemma wf_chain_wf: "wf_chain c \<Longrightarrow> q \<in> set c \<Longrightarrow> wf_pbuf q"
  by (induction c) auto

lemma wf_chain_length: "wf_chain c \<Longrightarrow> length (flat c) < 65536"
proof (cases c)
  case (Cons q d)
  assume "wf_chain c"
  then have "length (flat c) = unat (tot_len q)" by (simp add: Cons)
  then show ?thesis using unsigned_less [of "tot_len q", where ?'a = nat] by simp
qed simp

lemma wf_chain_drop: "wf_chain c \<Longrightarrow> wf_chain (drop n c)"
  by (induction c arbitrary: n) (auto split: nat.split simp: drop_Cons)

section \<open>Copying out of a chain\<close>

text \<open>The loop of \<open>pbuf_copy_partial\<close>; \<open>dst\<close> is the object \<open>dataptr\<close> points to.\<close>

fun copy_partial_loop ::
    "pbuf list \<Rightarrow> u8 list \<Rightarrow> u16 \<Rightarrow> u16 \<Rightarrow> u16 \<Rightarrow> u16 \<Rightarrow> (u16 \<times> u8 list) option" where
  "copy_partial_loop [] dst len offset left copied_total = Some (copied_total, dst)"
| "copy_partial_loop (p # c) dst len offset left copied_total =
     (if len = 0 then Some (copied_total, dst)
      else if offset \<noteq> 0 \<and> plen p \<le> offset
      then copy_partial_loop c dst len (offset - plen p) left copied_total
      else
        let n = plen p - offset;
            n = if len < n then len else n
        in do {
          d \<leftarrow> c_memcpy dst (unat left) (room p) (poff p + unat offset) (unat n);
          copy_partial_loop c d (len - n) 0 (left + n) (copied_total + n)
        })"

definition pbuf_copy_partial :: "pbuf list \<Rightarrow> u8 list \<Rightarrow> u16 \<Rightarrow> u16 \<Rightarrow> (u16 \<times> u8 list) option" where
  "pbuf_copy_partial buf dst len offset = copy_partial_loop buf dst len offset 0 0"

lemma copy_partial_loop_spec:
  assumes "wf_chain c" "unat left + unat len < 65536" "unat left \<le> length dst"
  shows "copy_partial_loop c dst len off left copied =
    (let n = min (unat len) (length (flat c) - unat off)
     in if unat left + n \<le> length dst
        then Some (copied + of_nat n, blit dst (unat left) (take n (drop (unat off) (flat c)))) else None)"
  using assms
proof (induction c arbitrary: dst len off left copied)
  case Nil
  then show ?case by (simp add: blit_def)
next
  case (Cons p c)
  have wf: "wf_pbuf p" "wf_chain c" using Cons.prems(1) by simp_all
  have lp: "length (data p) = unat (plen p)" using wf(1) by simp
  show ?case
  proof (cases "len = 0")
    case True
    then show ?thesis using Cons.prems(3) by (simp add: blit_def)
  next
    case len: False
    show ?thesis
    proof (cases "off \<noteq> 0 \<and> plen p \<le> off")
      case True
      then have "unat (off - plen p) = unat off - unat (plen p)" by (simp add: unat_sub word_le_nat_alt)
      then show ?thesis using True len Cons.IH [OF wf(2) Cons.prems(2,3)] lp
        by (simp add: word_le_nat_alt drop_append add.commute Let_def)
    next
      case False
      then have le: "off \<le> plen p" by (metis linear word_zero_le)
      then have sub: "unat (plen p - off) = unat (plen p) - unat off" by (simp add: unat_sub)
      define n where "n = (if len < plen p - off then len else plen p - off)"
      have n: "unat n = min (unat len) (unat (plen p) - unat off)"
        by (simp add: n_def word_less_nat_alt sub min_def)
      have nl: "unat n \<le> unat len" "n \<le> len" using n by (simp_all add: word_le_nat_alt)
      have room: "poff p + unat off + unat n \<le> length (room p)"
        using wf(1) n le by (simp add: wf_pbuf_def word_le_nat_alt)
      have slice: "take (unat n) (drop (poff p + unat off) (room p)) = take (unat n) (drop (unat off) (data p))"
        by (rule data_slice [OF wf(1)]) (use n le in \<open>simp add: word_le_nat_alt\<close>)
      have step: "copy_partial_loop (p # c) dst len off left copied =
          (if unat left + unat n \<le> length dst
           then copy_partial_loop c (blit dst (unat left) (take (unat n) (drop (unat off) (data p))))
             (len - n) 0 (left + n) (copied + n) else None)"
        unfolding copy_partial_loop.simps Let_def if_not_P [OF len] if_not_P [OF False]
          n_def [symmetric] c_memcpy_def slice
        using room by (simp add: add.assoc)
      show ?thesis
      proof (cases "unat left + unat n \<le> length dst")
        case over: False
        have "unat n \<le> min (unat len) (length (flat (p # c)) - unat off)"
          using n lp by simp
        then have "\<not> unat left + min (unat len) (length (flat (p # c)) - unat off) \<le> length dst"
          using over by linarith
        then show ?thesis unfolding step Let_def using over by (simp only: if_False)
      next
        case fits: True
        have "unat left + unat n < 2 ^ 16" using Cons.prems(2) nl(1) by simp
        then have left: "unat (left + n) = unat left + unat n" by (simp add: unat_word_ariths)
        have lenn: "unat (len - n) = unat len - unat n" using nl(2) by (simp add: unat_sub)
        define d where "d = blit dst (unat left) (take (unat n) (drop (unat off) (data p)))"
        have ld: "length (take (unat n) (drop (unat off) (data p))) = unat n" using n lp by simp
        have dl: "length d = length dst" using fits ld by (simp add: d_def)
        define m where "m = min (unat len - unat n) (length (flat c))"
        have IH: "copy_partial_loop c d (len - n) 0 (left + n) (copied + n) =
          (if unat left + unat n + m \<le> length dst
           then Some (copied + n + of_nat m, blit d (unat left + unat n) (take m (flat c))) else None)"
          using Cons.IH [OF wf(2), of "left + n" "len - n" d 0 "copied + n"] Cons.prems fits nl(1)
          by (simp add: left lenn dl m_def [symmetric] Let_def)
        have tot: "min (unat len) (length (flat (p # c)) - unat off) = unat n + m"
          using n le lp by (auto simp: m_def min_def word_le_nat_alt)
        have byts: "take (unat n + m) (drop (unat off) (flat (p # c))) =
            take (unat n) (drop (unat off) (data p)) @ take m (flat c)"
          using n le lp by (auto simp: m_def min_def word_le_nat_alt)
        have bl: "blit d (unat left + unat n) (take m (flat c)) =
            blit dst (unat left) (take (unat n) (drop (unat off) (data p)) @ take m (flat c))"
          if "unat left + unat n + m \<le> length dst"
          using fits ld that unfolding d_def blit_def by (simp add: m_def ac_simps)
        have "copy_partial_loop (p # c) dst len off left copied =
            copy_partial_loop c d (len - n) 0 (left + n) (copied + n)"
          unfolding step using fits by (simp add: d_def)
        then show ?thesis
          by (simp only: IH tot byts Let_def) (simp add: bl add.assoc)
      qed
    qed
  qed
qed

lemma copy_partial_bytes:
  assumes "wf_chain c" "unat off + unat len \<le> length (flat c)" "unat len \<le> length dst"
  shows "pbuf_copy_partial c dst len off = Some (len, blit dst 0 (take (unat len) (drop (unat off) (flat c))))"
  using copy_partial_loop_spec [OF assms(1), of 0 len dst off 0] assms(2,3) unsigned_less [of len, where ?'a = nat]
  by (simp add: pbuf_copy_partial_def Let_def min_absorb1)

text \<open>
  \<open>pbuf_copy_partial\<close> on any chain. However the packet is cut into buffers (empty ones
  included), it copies the bytes from \<open>offset\<close> on of the whole packet, at most \<open>len\<close> of them and
  none from behind its end, to the front of the destination and returns their number; it leaves
  the destination exactly when those do not fit.
\<close>

theorem pbuf_copy_partial_spec:
  assumes "wf_chain c"
  shows "pbuf_copy_partial c dst len off =
    (let byts = take (unat len) (drop (unat off) (flat c))
     in if length byts \<le> length dst then Some (of_nat (length byts), blit dst 0 byts) else None)"
proof -
  have "take (min (unat len) (length (flat c) - unat off)) (drop (unat off) (flat c)) =
    take (unat len) (drop (unat off) (flat c))"
    by (metis length_drop take_all_iff take_take min.commute nle_le)
  then show ?thesis
    using copy_partial_loop_spec [OF assms, of 0 len dst off 0] unsigned_less [of len, where ?'a = nat]
    by (simp add: pbuf_copy_partial_def Let_def min.commute)
qed

section \<open>Reading single bytes and comparing\<close>

text \<open>The loop that steps over the buffers in front of an offset.\<close>

fun seek :: "pbuf list \<Rightarrow> u16 \<Rightarrow> pbuf list \<times> u16" where
  "seek [] n = ([], n)"
| "seek (q # c) n = (if plen q \<le> n then seek c (n - plen q) else (q # c, n))"

definition pbuf_get_at :: "pbuf list \<Rightarrow> u16 \<Rightarrow> u8 option" where
  "pbuf_get_at p offset =
     (case seek p offset of
        ([], _) \<Rightarrow> Some 0
      | (q # _, copy_from) \<Rightarrow> ld (room q) (poff q + unat copy_from))"

fun memcmp_loop :: "pbuf list \<Rightarrow> u16 \<Rightarrow> u8 list \<Rightarrow> nat \<Rightarrow> u16 \<Rightarrow> u16 option" where
  "memcmp_loop q start s2 0 i = Some 0"
| "memcmp_loop q start s2 (Suc k) i =
     do {
       a \<leftarrow> pbuf_get_at q (start + i);
       b \<leftarrow> ld s2 (unat i);
       if a \<noteq> b then Some (i + 1) else memcmp_loop q start s2 k (i + 1)
     }"

definition pbuf_memcmp :: "pbuf list \<Rightarrow> u16 \<Rightarrow> u8 list \<Rightarrow> u16 \<Rightarrow> u16 option" where
  "pbuf_memcmp p offset s2 n =
     (case seek p offset of
        ([], _) \<Rightarrow> Some 0xffff
      | (q, start) \<Rightarrow> memcmp_loop q start s2 (unat n) 0)"

lemma seek_spec:
  assumes "wf_chain c"
  shows "case seek c n of (q, k) \<Rightarrow>
    wf_chain q \<and> (q = [] \<longleftrightarrow> length (flat c) \<le> unat n) \<and>
    (q \<noteq> [] \<longrightarrow> k < plen (hd q) \<and> drop (unat k) (flat q) = drop (unat n) (flat c) \<and>
       unat k + length (flat c) = unat n + length (flat q) \<and> k \<le> n)"
  using assms
proof (induction c n rule: seek.induct)
  case (2 q c n)
  show ?case
  proof (cases "plen q \<le> n")
    case True
    then have "unat (n - plen q) = unat n - unat (plen q)" "unat (plen q) \<le> unat n"
      by (simp_all add: unat_sub word_le_nat_alt)
    then show ?thesis using 2 True by (auto simp: word_le_nat_alt split: prod.splits)
  next
    case False
    then have "unat n < unat (plen q)" by (simp add: word_le_nat_alt)
    then show ?thesis using 2 False by auto
  qed
qed simp

lemma pbuf_get_at_spec:
  assumes "wf_chain c"
  shows "pbuf_get_at c off = Some (if unat off < length (flat c) then flat c ! unat off else 0)"
proof -
  obtain q k where s: "seek c off = (q, k)" by (metis surj_pair)
  note S = seek_spec [OF assms, of off, unfolded s prod.case]
  show ?thesis
  proof (cases q)
    case Nil
    then show ?thesis using S s by (simp add: pbuf_get_at_def)
  next
    case (Cons p d)
    then have k: "unat k < unat (plen p)" "wf_pbuf p" and off: "unat off < length (flat c)"
      and eq: "drop (unat k) (flat q) = drop (unat off) (flat c)"
      using S by (auto simp: word_less_nat_alt)
    have "room p ! (poff p + unat k) = data p ! unat k"
      using k by (simp add: data_def wf_pbuf_def)
    also have "\<dots> = flat q ! unat k" using k by (simp add: Cons nth_append)
    also have "\<dots> = flat c ! unat off"
      using eq off k Cons by (metis drop_eq_Nil hd_drop_conv_nth not_less)
    finally show ?thesis using k off by (simp add: pbuf_get_at_def s Cons wf_pbuf_def)
  qed
qed

text \<open>The byte at a position, and the zero that stands for one behind the end.\<close>

definition byte_at :: "u8 list \<Rightarrow> nat \<Rightarrow> u8" where
  "byte_at xs k = (if k < length xs then xs ! k else 0)"

lemma memcmp_loop_spec:
  assumes "wf_chain c" "unat start + unat i + k < 65536" "unat i + k \<le> length s2"
  shows "\<exists>r. memcmp_loop c start s2 k i = Some r \<and>
    (r = 0 \<longleftrightarrow> (\<forall>j<k. byte_at (flat c) (unat start + unat i + j) = s2 ! (unat i + j))) \<and>
    (r \<noteq> 0 \<longrightarrow> (\<exists>j<k. unat r = unat i + j + 1 \<and>
      byte_at (flat c) (unat start + unat i + j) \<noteq> s2 ! (unat i + j) \<and>
      (\<forall>l<j. byte_at (flat c) (unat start + unat i + l) = s2 ! (unat i + l))))"
  using assms
proof (induction k arbitrary: i)
  case 0
  then show ?case by simp
next
  case (Suc k)
  have ar: "unat (start + i) = unat start + unat i" "unat (i + 1) = unat i + 1"
    using Suc.prems(2) by (simp_all add: unat_word_ariths)
  have g: "pbuf_get_at c (start + i) = Some (byte_at (flat c) (unat start + unat i))"
    by (simp add: pbuf_get_at_spec [OF Suc.prems(1)] ar byte_at_def)
  have s2: "ld s2 (unat i) = Some (s2 ! unat i)" using Suc.prems(3) by simp
  show ?case
  proof (cases "byte_at (flat c) (unat start + unat i) = s2 ! unat i")
    case False
    have "i + 1 \<noteq> 0" using ar(2) by (metis add_is_0 unat_0 zero_neq_one)
    then show ?thesis using False by (auto simp: g s2 ar intro!: exI [of _ 0])
  next
    case True
    obtain r where r: "memcmp_loop c start s2 k (i + 1) = Some r"
      "r = 0 \<longleftrightarrow> (\<forall>j<k. byte_at (flat c) (unat start + unat i + Suc j) = s2 ! (unat i + Suc j))"
      "r \<noteq> 0 \<longrightarrow> (\<exists>j<k. unat r = unat i + Suc j + 1 \<and>
        byte_at (flat c) (unat start + unat i + Suc j) \<noteq> s2 ! (unat i + Suc j) \<and>
        (\<forall>l<j. byte_at (flat c) (unat start + unat i + Suc l) = s2 ! (unat i + Suc l)))"
      using Suc.IH [OF Suc.prems(1), of "i + 1"] Suc.prems(2,3) by (auto simp: ar)
    have "memcmp_loop c start s2 (Suc k) i = Some r" using True r(1) by (simp add: g s2)
    moreover have "(\<forall>j<Suc k. byte_at (flat c) (unat start + unat i + j) = s2 ! (unat i + j)) \<longleftrightarrow> r = 0"
      using True r(2) by (auto simp: less_Suc_eq_0_disj)
    moreover have "\<exists>j<Suc k. unat r = unat i + j + 1 \<and>
        byte_at (flat c) (unat start + unat i + j) \<noteq> s2 ! (unat i + j) \<and>
        (\<forall>l<j. byte_at (flat c) (unat start + unat i + l) = s2 ! (unat i + l))" if "r \<noteq> 0"
    proof -
      obtain j where "j < k" "unat r = unat i + Suc j + 1"
        "byte_at (flat c) (unat start + unat i + Suc j) \<noteq> s2 ! (unat i + Suc j)"
        "\<forall>l<j. byte_at (flat c) (unat start + unat i + Suc l) = s2 ! (unat i + Suc l)"
        using r(3) \<open>r \<noteq> 0\<close> by blast
      then show ?thesis using True by (intro exI [of _ "Suc j"]) (auto simp: less_Suc_eq_0_disj)
    qed
    ultimately show ?thesis by blast
  qed
qed

text \<open>
  What the comparison returns, over the bytes of the packet; a packet shorter than the compared
  range is read as if zeros followed it.
\<close>

lemma pbuf_memcmp_spec:
  assumes "wf_chain c" "unat off + unat n < 65536" "unat n \<le> length s2" "unat off < length (flat c)"
  shows "\<exists>r. pbuf_memcmp c off s2 n = Some r \<and>
    (r = 0 \<longleftrightarrow> (\<forall>j<unat n. byte_at (flat c) (unat off + j) = s2 ! j)) \<and>
    (r \<noteq> 0 \<longrightarrow> (\<exists>j<unat n. unat r = j + 1 \<and> byte_at (flat c) (unat off + j) \<noteq> s2 ! j \<and>
      (\<forall>l<j. byte_at (flat c) (unat off + l) = s2 ! l)))"
proof -
  obtain q k where s: "seek c off = (q, k)" by (metis surj_pair)
  have q: "q \<noteq> []" "wf_chain q" "drop (unat k) (flat q) = drop (unat off) (flat c)"
    "unat k + length (flat c) = unat off + length (flat q)" "k \<le> off"
    using seek_spec [OF assms(1), of off] assms(4) by (auto simp: s)
  have eq: "byte_at (flat q) (unat k + j) = byte_at (flat c) (unat off + j)" for j
  proof -
    have "unat k + j < length (flat q) \<longleftrightarrow> unat off + j < length (flat c)" using q(4) by linarith
    moreover have "flat q ! (unat k + j) = flat c ! (unat off + j)" if "unat off + j < length (flat c)"
      using arg_cong [OF q(3), of "\<lambda>xs. xs ! j"] that q(4) by (simp add: add.commute)
    ultimately show ?thesis by (simp add: byte_at_def)
  qed
  have "unat k + unat 0 + unat n < 65536" using assms(2) q(5) by (simp add: word_le_nat_alt)
  from memcmp_loop_spec [OF q(2) this, of s2] show ?thesis
    using assms(3) q(1) by (auto simp: pbuf_memcmp_def s eq neq_Nil_conv)
qed

section \<open>Searching\<close>

text \<open>
  The loop of \<open>pbuf_memfind\<close>; not coming to an end is \<open>None\<close>, as an access outside is.
\<close>

partial_function (option) memfind_loop ::
    "pbuf list \<Rightarrow> u8 list \<Rightarrow> u16 \<Rightarrow> u16 \<Rightarrow> u16 \<Rightarrow> u16 option" where
  "memfind_loop p mem mem_len max_i i =
     (if i \<le> max_i
      then do {
        plus \<leftarrow> pbuf_memcmp p i mem mem_len;
        if plus = 0 then Some i else memfind_loop p mem mem_len max_i (i + plus)
      }
      else Some 0xFFFF)"

definition pbuf_memfind :: "pbuf list \<Rightarrow> u8 list \<Rightarrow> u16 \<Rightarrow> u16 \<Rightarrow> u16 option" where
  "pbuf_memfind p mem mem_len start_offset =
     (case p of
        [] \<Rightarrow> None
      | q # _ \<Rightarrow>
          if unat mem_len + unat start_offset \<le> unat (tot_len q)
          then memfind_loop p mem mem_len (tot_len q - mem_len) start_offset
          else Some 0xFFFF)"

definition pbuf_strstr :: "pbuf list \<Rightarrow> u8 list option \<Rightarrow> u16 option" where
  "pbuf_strstr p substr =
     (case substr of
        None \<Rightarrow> Some 0xFFFF
      | Some s \<Rightarrow> do {
          c \<leftarrow> ld s 0;
          if c = 0 then Some 0xFFFF else do {
            q \<leftarrow> ld p 0;
            if tot_len q = 0xFFFF then Some 0xFFFF else do {
              substr_len \<leftarrow> c_strlen s 0;
              if 0xFFFF \<le> substr_len then Some 0xFFFF
              else pbuf_memfind p s (of_nat substr_len) 0
            }
          }
        })"

text \<open>An occurrence of a pattern in the bytes of a packet.\<close>

definition occurs :: "u8 list \<Rightarrow> u8 list \<Rightarrow> nat \<Rightarrow> bool" where
  "occurs pat xs i \<longleftrightarrow> i + length pat \<le> length xs \<and> take (length pat) (drop i xs) = pat"

lemma occurs_nth:
  "i + length pat \<le> length xs \<Longrightarrow> occurs pat xs i \<longleftrightarrow> (\<forall>j<length pat. byte_at xs (i + j) = pat ! j)"
  by (auto simp: occurs_def byte_at_def list_eq_iff_nth_eq add.commute)

lemma memfind_loop_spec:
  assumes "wf_chain c" "unat n \<le> length m" "0 < n" "unat mx + unat n = length (flat c)"
  shows "\<exists>r. memfind_loop c m n mx i = Some r \<and>
    (r = 0xFFFF \<or> i \<le> r \<and> occurs (take (unat n) m) (flat c) (unat r)) \<and>
    (\<forall>p. unat i \<le> p \<and> occurs (take (unat n) m) (flat c) p \<and> (\<forall>k. unat i \<le> k \<and> k < p \<longrightarrow> flat c ! k \<noteq> m ! 0)
      \<longrightarrow> unat r = p)"
proof (induction "unat mx - unat i" arbitrary: i rule: less_induct)
  case less
  let ?pat = "take (unat n) m"
  have n: "0 < unat n" using assms(3) by (simp add: word_less_nat_alt)
  have lf: "length (flat c) < 65536" by (rule wf_chain_length [OF assms(1)])
  have pl: "length ?pat = unat n" using assms(2) by simp
  show ?case
  proof (cases "i \<le> mx")
    case False
    then have gt: "unat mx < unat i" by (simp add: word_le_nat_alt)
    have no: "\<not> occurs ?pat (flat c) p" if "unat i \<le> p" for p
      using that gt assms(4) pl unfolding occurs_def by linarith
    have "memfind_loop c m n mx i = Some 0xFFFF" using False by (simp add: memfind_loop.simps)
    then show ?thesis using no by blast
  next
    case True
    then have le: "unat i \<le> unat mx" by (simp add: word_le_nat_alt)
    have b: "unat i + unat n < 65536" "unat i < length (flat c)" using le assms(4) lf n by linarith+
    obtain r where r: "pbuf_memcmp c i m n = Some r"
      and r0: "r = 0 \<longleftrightarrow> (\<forall>j<unat n. byte_at (flat c) (unat i + j) = m ! j)"
      and r1: "r \<noteq> 0 \<longrightarrow> (\<exists>j<unat n. unat r = j + 1 \<and> byte_at (flat c) (unat i + j) \<noteq> m ! j \<and>
        (\<forall>l<j. byte_at (flat c) (unat i + l) = m ! l))"
      using pbuf_memcmp_spec [OF assms(1) b(1) assms(2) b(2)] by blast
    have occ: "occurs ?pat (flat c) (unat i) \<longleftrightarrow> r = 0"
      unfolding r0 using le assms(4) pl by (subst occurs_nth) simp_all
    show ?thesis
    proof (cases "r = 0")
      case True
      have first: "unat i = p" if "unat i \<le> p" "\<forall>k. unat i \<le> k \<and> k < p \<longrightarrow> flat c ! k \<noteq> m ! 0" for p
      proof (rule ccontr)
        assume "unat i \<noteq> p"
        then have "flat c ! unat i \<noteq> m ! 0" using that by simp
        then show False using r0 \<open>r = 0\<close> n b(2) by (force simp: byte_at_def)
      qed
      have "memfind_loop c m n mx i = Some i"
        using \<open>i \<le> mx\<close> by (simp add: memfind_loop.simps [of c m n mx i] r True)
      then show ?thesis using occ True first by auto
    next
      case False
      then obtain j where j: "j < unat n" "unat r = j + 1" "byte_at (flat c) (unat i + j) \<noteq> m ! j"
        "\<forall>l<j. byte_at (flat c) (unat i + l) = m ! l" using r1 by blast
      have add: "unat (i + r) = unat i + j + 1"
        using j(1,2) b(1) by (simp add: unat_word_ariths)
      have step: "memfind_loop c m n mx i = memfind_loop c m n mx (i + r)"
        using \<open>i \<le> mx\<close> False by (simp add: memfind_loop.simps [of c m n mx i] r)
      have smaller: "unat mx - unat (i + r) < unat mx - unat i \<or> unat i = unat mx"
        using le add by linarith
      show ?thesis
      proof (cases "unat i = unat mx")
        case eq: True
        then have gt: "\<not> i + r \<le> mx" using add by (simp add: word_le_nat_alt)
        have "memfind_loop c m n mx i = Some 0xFFFF"
          unfolding step using gt by (simp add: memfind_loop.simps)
        moreover have "\<not> occurs ?pat (flat c) p" if "unat i \<le> p" for p
        proof (cases "p = unat i")
          case False
          then show ?thesis using that eq assms(4) pl unfolding occurs_def by linarith
        qed (use occ \<open>r \<noteq> 0\<close> in simp)
        ultimately show ?thesis by blast
      next
        case neq: False
        obtain r' where r': "memfind_loop c m n mx (i + r) = Some r'"
          "r' = 0xFFFF \<or> i + r \<le> r' \<and> occurs ?pat (flat c) (unat r')"
          "\<And>p. unat (i + r) \<le> p \<Longrightarrow> occurs ?pat (flat c) p \<Longrightarrow>
             (\<forall>k. unat (i + r) \<le> k \<and> k < p \<longrightarrow> flat c ! k \<noteq> m ! 0) \<Longrightarrow> unat r' = p"
          using less.hyps [of "i + r"] smaller neq by blast
        have "i \<le> r'" if "i + r \<le> r'" using that add by (simp add: word_le_nat_alt)
        moreover have "unat r' = p"
          if p: "unat i \<le> p" "occurs ?pat (flat c) p" "\<forall>k. unat i \<le> k \<and> k < p \<longrightarrow> flat c ! k \<noteq> m ! 0" for p
        proof -
          have "p \<noteq> unat i" using p(2) occ False by blast
          then have ne: "flat c ! unat i \<noteq> m ! 0" using p by simp
          have "j = 0"
          proof (rule ccontr)
            assume "j \<noteq> 0"
            then have "byte_at (flat c) (unat i + 0) = m ! 0" using j(4) by blast
            then show False using ne b(2) by (simp add: byte_at_def)
          qed
          then show ?thesis using p \<open>p \<noteq> unat i\<close> add by (intro r'(3)) auto
        qed
        ultimately show ?thesis using r'(1,2) by (auto simp: step)
      qed
    qed
  qed
qed

text \<open>
  What the search over a packet guarantees. It ends, without reading outside the packet or
  the pattern; an index it returns is an occurrence of the pattern, not in front of the start;
  and it does find the pattern if the first byte of the pattern does not occur between the start
  and it. (In general it may overlook an occurrence, see \<open>pbuf_memfind_overlooks\<close>.)
\<close>

theorem pbuf_memfind_sound:
  assumes "wf_chain c" "c \<noteq> []" "0 < n" "unat n \<le> length m"
  shows "\<exists>r. pbuf_memfind c m n start = Some r \<and>
    (r = 0xFFFF \<or> start \<le> r \<and> occurs (take (unat n) m) (flat c) (unat r)) \<and>
    (\<forall>p. unat start \<le> p \<and> occurs (take (unat n) m) (flat c) p \<and>
       (\<forall>k. unat start \<le> k \<and> k < p \<longrightarrow> flat c ! k \<noteq> m ! 0) \<longrightarrow> unat r = p)"
proof -
  obtain q d where c: "c = q # d" using assms(2) by (cases c) auto
  have tl: "unat (tot_len q) = length (flat c)" using assms(1) by (simp add: c)
  have pl: "length (take (unat n) m) = unat n" using assms(4) by simp
  show ?thesis
  proof (cases "unat n + unat start \<le> unat (tot_len q)")
    case True
    then have "unat (tot_len q - n) + unat n = length (flat c)"
      using tl by (simp add: unat_sub word_le_nat_alt)
    from memfind_loop_spec [OF assms(1,4,3) this, of start] show ?thesis
      using True by (simp add: pbuf_memfind_def c)
  next
    case False
    then have no: "\<not> occurs (take (unat n) m) (flat c) p" if "unat start \<le> p" for p
      using that tl pl unfolding occurs_def by linarith
    have "pbuf_memfind c m n start = Some 0xFFFF" using False by (simp add: pbuf_memfind_def c)
    then show ?thesis using no by blast
  qed
qed

text \<open>
  The overlooked occurrence: after a mismatch the search goes on behind the differing byte, so
  \<open>ab\<close> is not found in a packet holding \<open>aab\<close>.
\<close>

definition ram_pbuf :: "u8 list \<Rightarrow> pbuf" where
  "ram_pbuf bs = \<lparr>addr = 0, room = bs, poff = 0, tot_len = of_nat (length bs), plen = of_nat (length bs),
     ptype = PBUF_RAM\<rparr>"

lemma pbuf_memfind_overlooks:
  "pbuf_memfind [ram_pbuf [97, 97, 98]] [97, 98] 2 0 = Some 0xFFFF \<and>
   occurs [97, 98] (flat [ram_pbuf [97, 97, 98]]) 1"
proof -
  have "pbuf_memcmp [ram_pbuf [97, 97, 98]] 0 [97, 98] 2 = Some 2" by code_simp
  moreover have "\<not> (2 :: u16) \<le> 1" by code_simp
  ultimately have "memfind_loop [ram_pbuf [97, 97, 98]] [97, 98] 2 1 0 = Some 0xFFFF"
    by (simp add: memfind_loop.simps)
  then show ?thesis
    by (simp add: pbuf_memfind_def occurs_def data_def ram_pbuf_def)
qed

lemma pbuf_memfind_sound_witness:
  "\<exists>r. pbuf_memfind [ram_pbuf [7, 97, 98]] [97, 98] 2 0 = Some r \<and> unat r = 1"
proof -
  have wf: "wf_chain [ram_pbuf [7, 97, 98]]"
    by (simp add: ram_pbuf_def wf_pbuf_def data_def)
  have "occurs (take (unat (2 :: u16)) [97, 98]) (flat [ram_pbuf [7, 97, 98]]) 1"
    by (simp add: occurs_def ram_pbuf_def data_def)
  moreover have "flat [ram_pbuf [7, 97, 98]] ! 0 \<noteq> [97, 98] ! 0"
    by (simp add: ram_pbuf_def data_def)
  then have "\<forall>k. unat (0 :: u16) \<le> k \<and> k < 1 \<longrightarrow> flat [ram_pbuf [7, 97, 98]] ! k \<noteq> [97, 98] ! 0"
    by simp
  ultimately show ?thesis
    using pbuf_memfind_sound [OF wf, of 2 "[97, 98]" 0] by fastforce
qed

lemma pbuf_copy_partial_spec_witness:
  "pbuf_copy_partial [ram_pbuf [1]\<lparr>tot_len := 3\<rparr>, ram_pbuf []\<lparr>tot_len := 2\<rparr>, ram_pbuf [2, 3]] [0, 0, 0] 5 1 =
   Some (2, [2, 3, 0])"
proof -
  have "wf_chain [ram_pbuf [1]\<lparr>tot_len := 3\<rparr>, ram_pbuf []\<lparr>tot_len := 2\<rparr>, ram_pbuf [2, 3]]"
    by (simp add: ram_pbuf_def wf_pbuf_def data_def)
  from pbuf_copy_partial_spec [OF this, of "[0, 0, 0]" 5 1] show ?thesis
    by (simp add: ram_pbuf_def data_def blit_def)
qed

end
