(* ===== verification/PbufEdit.thy ===== *)
theory PbufEdit
  imports Pbuf
begin

text \<open>
  The operations of \<open>pbuf.c\<close> that allocate, resize, join and fill a packet, on the list model of
  \<open>Pbuf\<close>: \<open>pbuf_alloc\<close>, \<open>pbuf_realloc\<close>, \<open>pbuf_header\<close>, \<open>pbuf_clen\<close>, \<open>pbuf_cat\<close>, \<open>pbuf_take\<close>,
  \<open>pbuf_copy\<close>. The memory objects of the buffers of one packet are distinct. \<open>mem_trim\<close> is the
  identity in this configuration (\<open>MEM_LIBC_MALLOC\<close>).
\<close>

datatype err_t =
    ERR_OK | ERR_MEM | ERR_BUF | ERR_TIMEOUT | ERR_RTE | ERR_INPROGRESS | ERR_VAL | ERR_WOULDBLOCK
  | ERR_ABRT | ERR_RST | ERR_CLSD | ERR_CONN | ERR_ARG | ERR_USE | ERR_IF | ERR_ISCONN

section \<open>Counting and joining\<close>

fun clen_loop :: "pbuf list \<Rightarrow> u8 \<Rightarrow> u8" where
  "clen_loop [] len = len"
| "clen_loop (p # c) len = clen_loop c (len + 1)"

definition pbuf_clen :: "pbuf list \<Rightarrow> u8" where
  "pbuf_clen p = clen_loop p 0"

definition pbuf_cat :: "pbuf list \<Rightarrow> pbuf list \<Rightarrow> pbuf list" where
  "pbuf_cat h t =
     (case t of
        [] \<Rightarrow> h
      | q # _ \<Rightarrow> if h = [] then h else map (\<lambda>p. p\<lparr>tot_len := tot_len p + tot_len q\<rparr>) h @ t)"

lemma clen_loop_length: "clen_loop c n = n + of_nat (length c)"
  by (induction c arbitrary: n) (simp_all add: add.commute add.left_commute)

lemma pbuf_clen_length: "unat (pbuf_clen c) = length c mod 256"
  by (simp add: pbuf_clen_def clen_loop_length unat_of_nat)

lemma data_update [simp]: "data (p\<lparr>tot_len := t\<rparr>) = data p" "wf_pbuf (p\<lparr>tot_len := t\<rparr>) = wf_pbuf p"
  by (simp_all add: data_def wf_pbuf_def)

lemma flat_map_tot [simp]: "flat (map (\<lambda>p. p\<lparr>tot_len := f p\<rparr>) c) = flat c"
  by (induction c) simp_all

lemma pbuf_cat_flat: "h \<noteq> [] \<Longrightarrow> flat (pbuf_cat h t) = flat h @ flat t"
  by (simp add: pbuf_cat_def split: list.split)

lemma wf_chain_append:
  assumes "wf_chain h" "wf_chain (q # t)" "length (flat h) + length (flat (q # t)) < 65536"
  shows "wf_chain (map (\<lambda>p. p\<lparr>tot_len := tot_len p + tot_len q\<rparr>) h @ q # t)"
  using assms(1,3)
proof (induction h)
  case Nil
  then show ?case using assms(2) by simp
next
  case (Cons p h)
  have "unat (tot_len q) = length (flat (q # t))" using assms(2) by simp
  then have "unat (tot_len p + tot_len q) = length (flat (p # h)) + length (flat (q # t))"
    using Cons.prems by (simp add: unat_word_ariths)
  then show ?case using Cons by simp
qed

section \<open>Allocation\<close>

text \<open>
  The heap and the pools are outside the sources (\<open>pvPortMalloc\<close> of the SDK): what the next
  requests return is a list of answers, each the null pointer (\<open>None\<close>) or a fresh object, its
  address and its contents. \<open>room\<close> starts behind the \<open>struct pbuf\<close>.
\<close>

datatype pbuf_layer = PBUF_TRANSPORT | PBUF_IP | PBUF_LINK | PBUF_RAW

abbreviation "PBUF_TRANSPORT_HLEN \<equiv> 20 :: nat"
abbreviation "PBUF_IP_HLEN \<equiv> 20 :: nat"
abbreviation "PBUF_LINK_HLEN \<equiv> 14 :: nat"
abbreviation "EP_OFFSET \<equiv> 36 :: nat"
abbreviation "TCP_MSS \<equiv> 1460 :: nat"

definition LWIP_MEM_ALIGN_SIZE :: "nat \<Rightarrow> nat" where
  "LWIP_MEM_ALIGN_SIZE n = (n + 3) div 4 * 4"

definition PBUF_POOL_BUFSIZE :: nat where
  "PBUF_POOL_BUFSIZE = LWIP_MEM_ALIGN_SIZE (TCP_MSS + 40 + PBUF_LINK_HLEN)"

fun layer_offset :: "pbuf_layer \<Rightarrow> nat" where
  "layer_offset PBUF_TRANSPORT = PBUF_TRANSPORT_HLEN + PBUF_IP_HLEN + PBUF_LINK_HLEN + EP_OFFSET"
| "layer_offset PBUF_IP = PBUF_IP_HLEN + PBUF_LINK_HLEN + EP_OFFSET"
| "layer_offset PBUF_LINK = PBUF_LINK_HLEN + EP_OFFSET"
| "layer_offset PBUF_RAW = EP_OFFSET"

type_synonym answers = "(nat \<times> u8 list) option list"

text \<open>The buffers behind the first one of a pool packet; \<open>None\<close> when the pool is exhausted.\<close>

function pool_tail :: "nat \<Rightarrow> answers \<Rightarrow> (pbuf list \<times> answers) option" where
  "pool_tail rem_len as =
     (if rem_len = 0 then Some ([], as)
      else case as of
        Some (a, bs) # as' \<Rightarrow>
          let n = min rem_len PBUF_POOL_BUFSIZE;
              q = \<lparr>addr = a, room = bs, poff = 0, tot_len = of_nat rem_len, plen = of_nat n, ptype = PBUF_POOL\<rparr>
          in map_option (\<lambda>(c, as). (q # c, as)) (pool_tail (rem_len - n) as')
      | _ \<Rightarrow> None)"
  by pat_completeness auto
termination
  by (relation "measure fst") (auto simp: PBUF_POOL_BUFSIZE_def LWIP_MEM_ALIGN_SIZE_def)

declare pool_tail.simps [simp del]

text \<open>
  \<open>pbuf_alloc\<close>; the null pointer is \<open>[]\<close>. For a pool packet that cannot be completed the part
  already there is freed. The types that refer to foreign memory get no payload (\<open>room\<close> is empty
  until the caller sets it).
\<close>

definition alloc_pool :: "pbuf_layer \<Rightarrow> u16 \<Rightarrow> answers \<Rightarrow> pbuf list" where
  "alloc_pool layer n as =
     (case as of
        Some (a, bs) # as' \<Rightarrow>
          let off = LWIP_MEM_ALIGN_SIZE (layer_offset layer);
              l = min (unat n) (PBUF_POOL_BUFSIZE - off);
              p = \<lparr>addr = a, room = bs, poff = off, tot_len = n, plen = of_nat l, ptype = PBUF_POOL\<rparr>
          in (case pool_tail (unat n - l) as' of None \<Rightarrow> [] | Some (c, _) \<Rightarrow> p # c)
      | _ \<Rightarrow> [])"

definition pbuf_alloc :: "pbuf_layer \<Rightarrow> u16 \<Rightarrow> pbuf_type \<Rightarrow> answers \<Rightarrow> pbuf list" where
  "pbuf_alloc layer n type as =
     (case type of
        PBUF_POOL \<Rightarrow> alloc_pool layer n as
      | PBUF_RAM \<Rightarrow>
          (case as of
             Some (a, bs) # _ \<Rightarrow>
               [\<lparr>addr = a, room = bs, poff = LWIP_MEM_ALIGN_SIZE (layer_offset layer), tot_len = n,
                 plen = n, ptype = PBUF_RAM\<rparr>]
           | _ \<Rightarrow> [])
      | _ \<Rightarrow>
          (case as of
             Some (a, _) # _ \<Rightarrow> [\<lparr>addr = 0, room = [], poff = 0, tot_len = n, plen = n, ptype = type\<rparr>]
           | _ \<Rightarrow> []))"

text \<open>What the allocator gives for a request: an object of the size asked for.\<close>

definition serves :: "pbuf_layer \<Rightarrow> u16 \<Rightarrow> pbuf_type \<Rightarrow> answers \<Rightarrow> bool" where
  "serves layer n type as \<longleftrightarrow> (\<forall>a bs. Some (a, bs) \<in> set as \<longrightarrow> length bs =
     (if type = PBUF_POOL then PBUF_POOL_BUFSIZE
      else LWIP_MEM_ALIGN_SIZE (layer_offset layer) + LWIP_MEM_ALIGN_SIZE (unat n)))"

lemma pool_tail_wf:
  assumes "pool_tail n as = Some (c, as')" "n < 65536"
    and "\<forall>a bs. Some (a, bs) \<in> set as \<longrightarrow> length bs = PBUF_POOL_BUFSIZE"
  shows "wf_chain c \<and> length (flat c) = n"
  using assms
proof (induction n as arbitrary: c as' rule: pool_tail.induct)
  case (1 n as)
  show ?case
  proof (cases "n = 0")
    case True
    then show ?thesis using 1 by (simp add: pool_tail.simps [of 0])
  next
    case False
    then obtain a bs as1 where as: "as = Some (a, bs) # as1"
      using 1(2) by (auto simp: pool_tail.simps [of n as] split: list.splits option.splits prod.splits)
    define m where "m = min n PBUF_POOL_BUFSIZE"
    define q where "q = \<lparr>addr = a, room = bs, poff = 0, tot_len = of_nat n, plen = of_nat m, ptype = PBUF_POOL\<rparr>"
    obtain d where d: "pool_tail (n - m) as1 = Some (d, as')" "c = q # d"
      using 1(2) False by (auto simp: pool_tail.simps [of n "Some (a, bs) # as1"] as m_def q_def Let_def)
    have IH: "wf_chain d \<and> length (flat d) = n - m"
      using 1(1) [OF False as refl refl m_def q_def, of d as'] d(1) 1(3,4)
      by (auto simp: as q_def)
    have "length bs = PBUF_POOL_BUFSIZE" using 1(4) by (simp add: as)
    moreover have "m \<le> n" "m \<le> PBUF_POOL_BUFSIZE" by (simp_all add: m_def)
    moreover have "unat (of_nat n :: u16) = n" "unat (of_nat m :: u16) = m"
      using 1(3) \<open>m \<le> n\<close> by (simp_all add: unat_of_nat)
    ultimately have "wf_pbuf q" "length (data q) = m" "unat (tot_len q) = n"
      by (simp_all add: q_def wf_pbuf_def data_def)
    then show ?thesis using IH \<open>m \<le> n\<close> by (simp add: d)
  qed
qed

lemma align_le: "n \<le> LWIP_MEM_ALIGN_SIZE n"
  unfolding LWIP_MEM_ALIGN_SIZE_def by presburger

lemma layer_offset_fits: "LWIP_MEM_ALIGN_SIZE (layer_offset l) \<le> 92"
  by (cases l) (simp_all add: LWIP_MEM_ALIGN_SIZE_def)

lemma alloc_pool_wf:
  assumes "serves layer n PBUF_POOL as" "alloc_pool layer n as = c" "c \<noteq> []"
  shows "wf_chain c \<and> length (flat c) = unat n \<and> layer_offset layer \<le> poff (hd c)"
proof -
  obtain a bs as' where as: "as = Some (a, bs) # as'"
    using assms(2,3) by (auto simp: alloc_pool_def split: list.splits option.splits)
  let ?off = "LWIP_MEM_ALIGN_SIZE (layer_offset layer)"
  define l where "l = min (unat n) (PBUF_POOL_BUFSIZE - ?off)"
  define p where "p = \<lparr>addr = a, room = bs, poff = ?off, tot_len = n, plen = of_nat l, ptype = PBUF_POOL\<rparr>"
  obtain d as2 where d: "pool_tail (unat n - l) as' = Some (d, as2)" "c = p # d"
    using assms(2,3) by (auto simp: alloc_pool_def as l_def p_def Let_def split: option.splits)
  have n: "unat n < 65536" using unsigned_less [of n, where ?'a = nat] by simp
  have "wf_chain d \<and> length (flat d) = unat n - l"
    using assms(1) n by (intro pool_tail_wf [OF d(1)]) (auto simp: serves_def as)
  moreover have "l \<le> unat n" "?off + l \<le> PBUF_POOL_BUFSIZE"
    using layer_offset_fits [of layer] by (auto simp: l_def PBUF_POOL_BUFSIZE_def LWIP_MEM_ALIGN_SIZE_def)
  moreover have "length bs = PBUF_POOL_BUFSIZE" using assms(1) by (simp add: serves_def as)
  moreover have "unat (of_nat l :: u16) = l" using \<open>l \<le> unat n\<close> n by (simp add: unat_of_nat)
  ultimately have "wf_pbuf p" "length (data p) = l" "wf_chain d" "length (flat d) = unat n - l"
    by (simp_all add: p_def wf_pbuf_def data_def)
  then show ?thesis
    using \<open>l \<le> unat n\<close> align_le [of "layer_offset layer"] by (simp add: d(2)) (simp add: p_def)
qed

lemma pbuf_alloc_wf:
  assumes "serves layer n type as" "type = PBUF_RAM \<or> type = PBUF_POOL" "pbuf_alloc layer n type as \<noteq> []"
  shows "wf_chain (pbuf_alloc layer n type as) \<and> length (flat (pbuf_alloc layer n type as)) = unat n \<and>
    layer_offset layer \<le> poff (hd (pbuf_alloc layer n type as))"
proof (cases "type = PBUF_POOL")
  case True
  then show ?thesis using alloc_pool_wf [OF assms(1) [unfolded True] refl] assms(3)
    by (simp add: pbuf_alloc_def)
next
  case False
  then have "type = PBUF_RAM" using assms(2) by simp
  then show ?thesis using assms(1,3) align_le [of "unat n"] align_le [of "layer_offset layer"]
    by (auto simp: pbuf_alloc_def serves_def wf_pbuf_def data_def split: list.splits option.splits)
qed

section \<open>Shrinking\<close>

fun realloc_loop :: "pbuf list \<Rightarrow> u16 \<Rightarrow> u16 \<Rightarrow> pbuf list option" where
  "realloc_loop [] rem_len grow = None"
| "realloc_loop (q # c) rem_len grow =
     (if plen q < rem_len
      then map_option ((#) (q\<lparr>tot_len := tot_len q + grow\<rparr>)) (realloc_loop c (rem_len - plen q) grow)
      else Some [q\<lparr>plen := rem_len, tot_len := rem_len\<rparr>])"

definition pbuf_realloc :: "pbuf list \<Rightarrow> u16 \<Rightarrow> pbuf list option" where
  "pbuf_realloc p new_len =
     (case p of
        [] \<Rightarrow> None
      | q # _ \<Rightarrow> if tot_len q \<le> new_len then Some p else realloc_loop p new_len (new_len - tot_len q))"

lemma realloc_loop_spec:
  assumes "wf_chain c" "unat n < length (flat c)" "unat (tot_len (hd c) + g) = unat n"
  shows "\<exists>d. realloc_loop c n g = Some d \<and> wf_chain d \<and> flat d = take (unat n) (flat c)"
  using assms
proof (induction c n g rule: realloc_loop.induct)
  case (2 q c n g)
  have wf: "wf_pbuf q" "wf_chain c" "unat (tot_len q) = unat (plen q) + length (flat c)"
    using "2.prems"(1) by simp_all
  show ?case
  proof (cases "plen q < n")
    case True
    then have sub: "unat (n - plen q) = unat n - unat (plen q)" "unat (plen q) < unat n"
      by (simp_all add: unat_sub word_less_nat_alt word_le_nat_alt)
    have ne: "c \<noteq> []" using "2.prems"(2) sub(2) wf(1) by auto
    then have "unat (tot_len (hd c)) = length (flat c)" using wf(2) by (cases c) auto
    then have "tot_len (hd c) = tot_len q - plen q"
      using wf(3) by (metis add_diff_cancel_left' le_add1 unat_sub word_le_nat_alt word_unat_eq_iff)
    moreover have "tot_len q + g = n" using "2.prems"(3) by (simp add: word_unat_eq_iff)
    ultimately have "tot_len (hd c) + g = n - plen q" by (simp add: algebra_simps)
    moreover have "unat n - unat (plen q) < length (flat c)"
      using "2.prems"(2) sub(2) wf(1) by simp
    ultimately obtain d where d: "realloc_loop c (n - plen q) g = Some d" "wf_chain d"
      "flat d = take (unat n - unat (plen q)) (flat c)"
      using "2.IH" [OF True wf(2)] "2.prems"(2) sub wf(1) by auto
    have "unat (tot_len q + g) = unat (plen q) + length (flat d)"
      using "2.prems"(2,3) sub d(3) wf(1) by (simp add: min_def)
    then show ?thesis using True d wf sub by simp
  next
    case False
    then have le: "unat n \<le> unat (plen q)" by (simp add: word_less_nat_alt)
    then have "data (q\<lparr>plen := n, tot_len := n\<rparr>) = take (unat n) (data q)" "wf_pbuf (q\<lparr>plen := n, tot_len := n\<rparr>)"
      using wf(1) by (simp_all add: data_def wf_pbuf_def min_absorb1)
    then show ?thesis using False wf le by simp
  qed
qed simp

text \<open>
  \<open>pbuf_realloc\<close> keeps the packet a packet: whatever its buffers, afterwards the invariant
  of the total lengths holds again and the bytes are the first \<open>new_len\<close> of what was there (all
  of them if there are not so many: it never grows a packet).
\<close>

theorem pbuf_realloc_spec:
  assumes "wf_chain c" "c \<noteq> []"
  shows "\<exists>d. pbuf_realloc c n = Some d \<and> wf_chain d \<and> flat d = take (unat n) (flat c)"
proof -
  obtain q e where c: "c = q # e" using assms(2) by (cases c) auto
  have t: "unat (tot_len q) = length (flat c)" using assms(1) by (simp add: c)
  show ?thesis
  proof (cases "tot_len q \<le> n")
    case True
    then have "length (flat c) \<le> unat n" using t by (simp add: word_le_nat_alt)
    then show ?thesis using True assms(1) by (simp add: pbuf_realloc_def c)
  next
    case False
    then have "unat n < length (flat c)" using t by (simp add: word_le_nat_alt)
    from realloc_loop_spec [OF assms(1) this, of "n - tot_len q"] show ?thesis
      using False by (simp add: pbuf_realloc_def c)
  qed
qed

text \<open>The first buffer stays where it is.\<close>

lemma realloc_head:
  assumes "pbuf_realloc (q # c) n = Some d"
  obtains p e where "d = p # e" "room p = room q" "poff p = poff q" "ptype p = ptype q" "addr p = addr q"
    "plen p = plen q \<or> plen p = n"
  using assms by (auto simp: pbuf_realloc_def split: if_splits)

lemma pbuf_realloc_spec_witness:
  "\<exists>d. pbuf_realloc [ram_pbuf [1, 2]\<lparr>tot_len := 4\<rparr>, ram_pbuf [3, 4]] 3 = Some d \<and> flat d = [1, 2, 3]"
proof -
  have "wf_chain [ram_pbuf [1, 2]\<lparr>tot_len := 4\<rparr>, ram_pbuf [3, 4]]"
    by (simp add: ram_pbuf_def wf_pbuf_def data_def)
  from pbuf_realloc_spec [OF this, of 3] show ?thesis by (auto simp: ram_pbuf_def data_def)
qed

section \<open>Headers\<close>

text \<open>
  \<open>pbuf_header\<close> with a signed increment: the result is the return value (0 is success) and the
  changed first buffer. Only RAM and pool buffers are checked against their start; \<open>None\<close> is a
  payload pointer moved in front of the object a \<open>PBUF_REF\<close> refers to.
\<close>

definition move_payload :: "pbuf \<Rightarrow> int \<Rightarrow> pbuf" where
  "move_payload q h = q\<lparr>poff := nat (int (poff q) - h), plen := plen q + of_int h, tot_len := tot_len q + of_int h\<rparr>"

fun pbuf_header :: "pbuf list \<Rightarrow> int \<Rightarrow> (u8 \<times> pbuf list) option" where
  "pbuf_header [] h = Some (0, [])"
| "pbuf_header (q # c) h =
     (if h = 0 then Some (0, q # c)
      else if h < 0 \<and> unat (plen q) < nat (- h) then Some (1, q # c)
      else if ptype q = PBUF_RAM \<or> ptype q = PBUF_POOL then
        if int (poff q) - h < int EP_OFFSET then Some (1, q # c) else Some (0, move_payload q h # c)
      else if ptype q = PBUF_REF \<or> ptype q = PBUF_ROM then
        if h < 0 then Some (0, move_payload q h # c)
        else if ptype q = PBUF_REF then
          if int (poff q) < h then None else Some (0, move_payload q h # c)
        else Some (1, q # c)
      else Some (1, q # c))"

lemma unat_add_of_int:
  "0 \<le> h \<Longrightarrow> unat w + nat h < 65536 \<Longrightarrow> unat (w + of_int h :: u16) = unat w + nat h"
proof -
  assume *: "0 \<le> h" "unat w + nat h < 65536"
  have "of_int h = (of_nat (nat h) :: u16)" using *(1) by simp
  moreover have "unat (of_nat (nat h) :: u16) = nat h" using *(2) by (simp add: unat_of_nat)
  ultimately show ?thesis using *(2) by (simp only: unat_word_ariths) simp
qed

lemma unat_sub_of_int:
  "h \<le> 0 \<Longrightarrow> nat (- h) \<le> unat w \<Longrightarrow> unat (w + of_int h :: u16) = unat w - nat (- h)"
proof -
  assume *: "h \<le> 0" "nat (- h) \<le> unat w"
  have "nat (- h) < 65536" using *(2) unsigned_less [of w, where ?'a = nat] by simp
  then have u: "unat (of_nat (nat (- h)) :: u16) = nat (- h)" by (simp add: unat_of_nat)
  have "(of_int h :: u16) = - of_nat (nat (- h))" using *(1) by simp
  then have "w + of_int h = w - of_nat (nat (- h))" by simp
  then show ?thesis using u *(2) by (simp only:) (simp add: unat_sub word_le_nat_alt)
qed

lemma move_payload_hide:
  assumes "wf_chain (q # c)" "h < 0" "nat (- h) \<le> unat (plen q)"
  shows "wf_chain (move_payload q h # c) \<and> flat (move_payload q h # c) = drop (nat (- h)) (flat (q # c))"
proof -
  have wf: "poff q + unat (plen q) \<le> length (room q)" "unat (tot_len q) = unat (plen q) + length (flat c)"
    using assms(1) by (simp_all add: wf_pbuf_def)
  have b: "unat (plen q) < 65536" "unat (tot_len q) < 65536"
    using unsigned_less [of "plen q", where ?'a = nat] unsigned_less [of "tot_len q", where ?'a = nat] by simp_all
  have l: "unat (plen q + of_int h) = unat (plen q) - nat (- h)"
    using assms(2,3) by (intro unat_sub_of_int) simp_all
  have t: "unat (tot_len q + of_int h) = unat (plen q) - nat (- h) + length (flat c)"
    using unat_sub_of_int [of h "tot_len q"] assms(2,3) wf(2) by simp
  have po: "nat (int (poff q) - h) = nat (- h) + poff q" using assms(2) by simp
  have d: "data (move_payload q h) = drop (nat (- h)) (data q)"
    using assms(2,3) l unfolding move_payload_def data_def by (simp add: drop_take po)
  have w: "wf_pbuf (move_payload q h)"
    using assms(2,3) l wf(1) unfolding wf_pbuf_def move_payload_def by simp
  show ?thesis using assms l t w d by (simp add: move_payload_def)
qed

text \<open>Adding a header and removing it again.\<close>

lemma move_payload_back: "0 \<le> int (poff q) - h \<Longrightarrow> move_payload (move_payload q h) (- h) = q"
  by (simp add: move_payload_def)

lemma move_payload_show:
  assumes "wf_chain (q # c)" "0 < h" "h \<le> int (poff q)" "length (flat (q # c)) + nat h < 65536"
  shows "wf_chain (move_payload q h # c) \<and> drop (nat h) (data (move_payload q h)) = data q \<and>
    unat (plen (move_payload q h)) = unat (plen q) + nat h \<and> poff (move_payload q h) = poff q - nat h"
proof -
  let ?p = "move_payload q h"
  have wf: "poff q + unat (plen q) \<le> length (room q)" "unat (tot_len q) = unat (plen q) + length (flat c)"
    "length (flat (q # c)) = unat (plen q) + length (flat c)"
    using assms(1) by (simp_all add: wf_pbuf_def)
  have l: "unat (plen ?p) = unat (plen q) + nat h"
    using unat_add_of_int [of h "plen q"] assms(2,4) wf(3) by (simp add: move_payload_def)
  have t: "unat (tot_len ?p) = unat (plen q) + nat h + length (flat c)"
    using unat_add_of_int [of h "tot_len q"] assms(2,4) wf by (simp add: move_payload_def)
  have po: "poff ?p = poff q - nat h" "nat h \<le> poff q"
    using assms(2,3) by (simp_all add: move_payload_def nat_diff_distrib nat_le_iff)
  have w: "wf_pbuf ?p" using po l wf(1) by (simp add: wf_pbuf_def) (simp add: move_payload_def)
  then have wfp: "wf_chain (?p # c)" using assms(1) l t by simp
  have "move_payload ?p (- h) = q" using assms(3) by (intro move_payload_back) simp
  then have "drop (nat h) (flat (?p # c)) = flat (q # c)"
    using move_payload_hide [of ?p c "- h"] wfp assms(2) l by simp
  then have "drop (nat h) (data ?p) @ flat c = data q @ flat c" using w l by simp
  then show ?thesis using wfp l po(1) by simp
qed

text \<open>
  A header that is added and removed. If \<open>pbuf_header\<close> has made room for a header of \<open>h\<close>
  bytes (\<open>0\<close> returned), a packet within 64 kB stays well formed and its former bytes follow the
  new header; and hiding \<open>h\<close> bytes again restores the packet exactly. If it returns 1, nothing
  has changed.
\<close>

theorem pbuf_header_roundtrip:
  assumes "wf_chain (q # c)" "0 < h" "length (flat (q # c)) + nat h < 65536"
    and "pbuf_header (q # c) h = Some (r, d)"
  shows "if r = 0
    then wf_chain d \<and> drop (nat h) (flat d) = flat (q # c) \<and> length (flat d) = nat h + length (flat (q # c)) \<and>
      (ptype q \<noteq> PBUF_REF \<longrightarrow> EP_OFFSET \<le> poff (hd d)) \<and>
      ((ptype q = PBUF_REF \<or> EP_OFFSET \<le> poff q) \<longrightarrow> pbuf_header d (- h) = Some (0, q # c))
    else r = 1 \<and> d = q # c"
proof (cases "r = 0")
  case False
  then show ?thesis using assms(4) by (auto split: if_splits)
next
  case True
  have d: "d = move_payload q h # c" "h \<le> int (poff q)"
    and k: "ptype q = PBUF_REF \<or> (ptype q = PBUF_RAM \<or> ptype q = PBUF_POOL) \<and> int EP_OFFSET \<le> int (poff q) - h"
    using assms(2,4) True by (auto split: if_splits)
  let ?p = "move_payload q h"
  note sh = move_payload_show [OF assms(1,2) d(2) assms(3)]
  then have w: "wf_pbuf ?p" "wf_chain d" and lp: "unat (plen ?p) = unat (plen q) + nat h"
    and po: "poff ?p = poff q - nat h" by (simp_all add: d(1))
  have bk: "move_payload ?p (- h) = q" using d(2) by (intro move_payload_back) simp
  have "drop (nat h) (flat d) = flat (q # c)" using sh w(1) lp by (simp add: d(1))
  moreover have "length (flat d) = nat h + length (flat (q # c))"
    using w(1) lp assms(1) by (simp add: d(1))
  moreover have "ptype ?p = ptype q" by (simp add: move_payload_def)
  then have "pbuf_header d (- h) = Some (0, q # c)" if "ptype q = PBUF_REF \<or> EP_OFFSET \<le> poff q"
    using k that assms(2) lp po bk by (auto simp: d(1))
  moreover have "EP_OFFSET \<le> poff (hd d)" if "ptype q \<noteq> PBUF_REF"
    using k that po assms(2) unfolding d(1) list.sel by arith
  ultimately show ?thesis using True w(2) by auto
qed

lemma pbuf_header_roundtrip_witness:
  "pbuf_header [(ram_pbuf (replicate 40 0 @ [1, 2]))\<lparr>poff := 40, plen := 2, tot_len := 2\<rparr>] 4 =
     Some (0, [(ram_pbuf (replicate 40 0 @ [1, 2]))\<lparr>poff := 36, plen := 6, tot_len := 6\<rparr>]) \<and>
   pbuf_header [(ram_pbuf (replicate 40 0 @ [1, 2]))\<lparr>poff := 36, plen := 6, tot_len := 6\<rparr>] (- 4) =
     Some (0, [(ram_pbuf (replicate 40 0 @ [1, 2]))\<lparr>poff := 40, plen := 2, tot_len := 2\<rparr>])"
proof -
  let ?q = "(ram_pbuf (replicate 40 0 @ [1, 2]))\<lparr>poff := 40, plen := 2, tot_len := 2\<rparr>"
  let ?p = "(ram_pbuf (replicate 40 0 @ [1, 2]))\<lparr>poff := 36, plen := 6, tot_len := 6\<rparr>"
  have h: "pbuf_header [?q] 4 = Some (0, [?p])"
    by (simp add: ram_pbuf_def move_payload_def)
  have "wf_chain [?q]" by (simp add: ram_pbuf_def wf_pbuf_def data_def)
  then show ?thesis
    using pbuf_header_roundtrip [OF _ _ _ h] h by (simp add: ram_pbuf_def data_def)
qed

section \<open>Filling\<close>

fun take_loop :: "pbuf list \<Rightarrow> u8 list \<Rightarrow> u16 \<Rightarrow> u16 \<Rightarrow> pbuf list option" where
  "take_loop [] src todo copied = (if todo = 0 then Some [] else None)"
| "take_loop (p # c) src todo copied =
     (if todo = 0 then Some (p # c)
      else
        let n = if plen p < todo then plen p else todo
        in do {
          r \<leftarrow> c_memcpy (room p) (poff p) src (unat copied) (unat n);
          d \<leftarrow> take_loop c src (todo - n) (copied + n);
          Some (p\<lparr>room := r\<rparr> # d)
        })"

text \<open>
  \<open>pbuf_take\<close>; for a null buffer the first of its two checks returns 0, which is \<open>ERR_OK\<close>.
\<close>

definition pbuf_take :: "pbuf list \<Rightarrow> u8 list option \<Rightarrow> u16 \<Rightarrow> (err_t \<times> pbuf list) option" where
  "pbuf_take buf dataptr len =
     (case (buf, dataptr) of
        (q # _, Some src) \<Rightarrow>
          if tot_len q < len then Some (ERR_ARG, buf)
          else map_option (\<lambda>d. (ERR_OK, d)) (take_loop buf src len 0)
      | _ \<Rightarrow> Some (ERR_OK, buf))"

lemma take_loop_spec:
  assumes "wf_chain c" "unat todo \<le> length (flat c)" "unat copied + unat todo \<le> length src"
    and "unat copied + unat todo < 65536"
  shows "\<exists>d. take_loop c src todo copied = Some d \<and> wf_chain d \<and> map tot_len d = map tot_len c \<and>
    flat d = take (unat todo) (drop (unat copied) src) @ drop (unat todo) (flat c)"
  using assms
proof (induction c src todo copied rule: take_loop.induct)
  case (2 p c src todo copied)
  have wf: "wf_pbuf p" "wf_chain c" using "2.prems"(1) by simp_all
  show ?case
  proof (cases "todo = 0")
    case True
    then show ?thesis using "2.prems"(1) by simp
  next
    case False
    define n where "n = (if plen p < todo then plen p else todo)"
    have n: "unat n = min (unat (plen p)) (unat todo)" by (simp add: n_def word_less_nat_alt min_def)
    have nt: "n \<le> todo" "unat (todo - n) = unat todo - unat n"
      using n by (simp_all add: word_le_nat_alt unat_sub)
    have nc: "unat (copied + n) = unat copied + unat n"
      using "2.prems"(4) n by (simp add: unat_word_ariths)
    define r where "r = blit (room p) (poff p) (take (unat n) (drop (unat copied) src))"
    have ln: "length (take (unat n) (drop (unat copied) src)) = unat n" using "2.prems"(3) n by simp
    have fits: "poff p + unat n \<le> length (room p)" using wf(1) n by (simp add: wf_pbuf_def)
    have cpy: "c_memcpy (room p) (poff p) src (unat copied) (unat n) = Some r"
      using fits "2.prems"(3) n by (simp add: r_def)
    have dat: "data (p\<lparr>room := r\<rparr>) = take (unat n) (drop (unat copied) src) @ drop (unat n) (data p)"
      "wf_pbuf (p\<lparr>room := r\<rparr>)"
      using wf(1) fits ln n unfolding r_def data_def wf_pbuf_def blit_def
      by (auto simp: drop_take add.commute min_def)
    have len: "length (flat (p # c)) = unat (plen p) + length (flat c)" using wf(1) by simp
    have "\<exists>d. take_loop c src (todo - n) (copied + n) = Some d \<and> wf_chain d \<and> map tot_len d = map tot_len c \<and>
      flat d = take (unat (todo - n)) (drop (unat (copied + n)) src) @ drop (unat (todo - n)) (flat c)"
    proof (rule "2.IH" [OF False n_def cpy wf(2)])
      show "unat (todo - n) \<le> length (flat c)" using "2.prems"(2) nt(2) n len by linarith
      show "unat (copied + n) + unat (todo - n) \<le> length src"
        and "unat (copied + n) + unat (todo - n) < 65536"
        using "2.prems"(3,4) nt n nc by (auto simp: word_le_nat_alt)
    qed
    then obtain d where d: "take_loop c src (todo - n) (copied + n) = Some d" "wf_chain d"
      "map tot_len d = map tot_len c"
      "flat d = take (unat todo - unat n) (drop (unat copied + unat n) src) @ drop (unat todo - unat n) (flat c)"
      unfolding nt(2) nc by blast
    have "unat todo - unat n \<le> length (flat c)" "unat copied + unat n + (unat todo - unat n) \<le> length src"
      using "2.prems"(2,3) n len by auto
    then have ld: "length (flat d) = length (flat c)" unfolding d(4) by simp
    have "flat (p\<lparr>room := r\<rparr> # d) = take (unat todo) (drop (unat copied) src) @ drop (unat todo) (flat (p # c))"
    proof (cases "unat (plen p) \<le> unat todo")
      case True
      then have "unat n = unat (plen p)" using n by simp
      moreover have "take (unat todo) xs = take (unat n) xs @ take (unat todo - unat n) (drop (unat n) xs)" for xs :: "u8 list"
        using True \<open>unat n = unat (plen p)\<close> by (metis le_add_diff_inverse take_add)
      ultimately show ?thesis using wf(1) True d(4) dat(1)
        by (simp only: flat_simps drop_append length_data) (simp add: add.commute)
    next
      case False
      then have "unat n = unat todo" using n by simp
      then show ?thesis using wf(1) False d(4) dat(1) by simp
    qed
    moreover have "wf_chain (p\<lparr>room := r\<rparr> # d)"
      using dat ld d(2) "2.prems"(1) ln n wf(1) by (simp add: min_def)
    moreover have "take_loop (p # c) src todo copied = Some (p\<lparr>room := r\<rparr> # d)"
      using False by (simp add: n_def [symmetric] cpy d(1) Let_def)
    ultimately show ?thesis using d(3) by auto
  qed
qed (simp add: unat_eq_0)

text \<open>
  \<open>pbuf_take\<close> puts \<open>len\<close> bytes at the front of a packet, across its buffers, keeps what is
  behind them and the packet well formed; longer data is refused with \<open>ERR_ARG\<close> and nothing is
  written.
\<close>

theorem pbuf_take_spec:
  assumes "wf_chain c" "c \<noteq> []" "unat n \<le> length src"
  shows "if unat n \<le> length (flat c)
    then \<exists>d. pbuf_take c (Some src) n = Some (ERR_OK, d) \<and> wf_chain d \<and>
      flat d = take (unat n) src @ drop (unat n) (flat c)
    else pbuf_take c (Some src) n = Some (ERR_ARG, c)"
proof -
  obtain q e where c: "c = q # e" using assms(2) by (cases c) auto
  have t: "unat (tot_len q) = length (flat c)" using assms(1) by (simp add: c)
  have "unat n < 65536" using unsigned_less [of n, where ?'a = nat] by simp
  then show ?thesis
    using take_loop_spec [OF assms(1), of n 0 src] assms(3) t
    by (auto simp: pbuf_take_def c word_less_nat_alt)
qed

lemma pbuf_take_spec_witness:
  "\<exists>d. pbuf_take [ram_pbuf [1]\<lparr>tot_len := 3\<rparr>, ram_pbuf [2, 3]] (Some [8, 9]) 2 = Some (ERR_OK, d) \<and> flat d = [8, 9, 3]"
proof -
  have "wf_chain [ram_pbuf [1]\<lparr>tot_len := 3\<rparr>, ram_pbuf [2, 3]]"
    by (simp add: ram_pbuf_def wf_pbuf_def data_def)
  from pbuf_take_spec [OF this, of 2 "[8, 9]"] show ?thesis by (auto simp: ram_pbuf_def data_def)
qed

section \<open>Copying packets\<close>

text \<open>
  The loop of \<open>pbuf_copy\<close>; \<open>None\<close> is the null pointer read when the destination ends first. The
  result is the destination from its current buffer on.
\<close>

definition is_queue :: "pbuf list \<Rightarrow> bool" where
  "is_queue c \<longleftrightarrow> (case c of [] \<Rightarrow> False | q # d \<Rightarrow> plen q = tot_len q \<and> d \<noteq> [])"

function copy_chain :: "pbuf list \<Rightarrow> u16 \<Rightarrow> pbuf list \<Rightarrow> u16 \<Rightarrow> (err_t \<times> pbuf list) option" where
  "copy_chain [] offset_to from offset_from = None"
| "copy_chain (p # to) offset_to [] offset_from = None"
| "copy_chain (p # to) offset_to (q # from) offset_from =
     (let n = if int (unat (plen q)) - int (unat offset_from) \<le> int (unat (plen p)) - int (unat offset_to)
              then plen q - offset_from else plen p - offset_to
      in case c_memcpy (room p) (poff p + unat offset_to) (room q) (poff q + unat offset_from) (unat n) of
           None \<Rightarrow> None
         | Some r \<Rightarrow>
             let p' = p\<lparr>room := r\<rparr>;
                 next_to = offset_to + n = plen p;
                 next_from = plen q \<le> offset_from + n;
                 from' = if next_from then from else q # from;
                 to' = if next_to then to else p' # to;
                 res = (if is_queue from' \<or> is_queue to' then Some (ERR_VAL, to')
                        else if from' = [] then Some (ERR_OK, to')
                        else copy_chain to' (if next_to then 0 else offset_to + n)
                          from' (if next_from then 0 else offset_from + n))
             in if next_to then map_option (\<lambda>(e, d). (e, p' # d)) res else res)"
  by pat_completeness auto
termination
  by (relation "measure (\<lambda>(to, _, from, _). length to + length from)") (auto split: if_splits)

definition pbuf_copy :: "pbuf list \<Rightarrow> pbuf list \<Rightarrow> (err_t \<times> pbuf list) option" where
  "pbuf_copy p_to p_from =
     (case (p_to, p_from) of
        (p # _, q # _) \<Rightarrow> if tot_len q \<le> tot_len p then copy_chain p_to 0 p_from 0 else Some (ERR_ARG, p_to)
      | _ \<Rightarrow> Some (ERR_ARG, p_to))"

lemma not_queue: "wf_chain c \<Longrightarrow> \<forall>q \<in> set c. 0 < plen q \<Longrightarrow> \<not> is_queue c"
proof (cases c)
  case (Cons q d)
  assume wf: "wf_chain c" and pos: "\<forall>q \<in> set c. 0 < plen q"
  show ?thesis
  proof (cases d)
    case (Cons p e)
    have "0 < unat (plen p)" using pos by (simp add: \<open>c = q # d\<close> Cons word_less_nat_alt)
    moreover have "wf_pbuf p" using wf by (simp add: \<open>c = q # d\<close> Cons)
    ultimately have "0 < length (flat d)" by (simp add: Cons)
    then have "unat (plen q) \<noteq> unat (tot_len q)" using wf by (simp add: \<open>c = q # d\<close>)
    then show ?thesis by (auto simp: is_queue_def \<open>c = q # d\<close>)
  qed (simp add: is_queue_def Cons)
qed (simp add: is_queue_def)

text \<open>One round of the loop, with the copied piece by its length in bytes.\<close>

lemma copy_chain_step:
  assumes "wf_pbuf p" "wf_pbuf q" "ot < plen p" "off < plen q"
  defines "n \<equiv> min (unat (plen p) - unat ot) (unat (plen q) - unat off)"
  obtains p' m where "unat m = n" "wf_pbuf p'" "tot_len p' = tot_len p" "plen p' = plen p"
    "data p' = take (unat ot) (data p) @ take n (drop (unat off) (data q)) @ drop (unat ot + n) (data p)"
    "unat (ot + m) = unat ot + n" "unat (off + m) = unat off + n"
    "copy_chain (p # to) ot (q # from) off =
       (let next_to = unat ot + n = unat (plen p); next_from = unat off + n = unat (plen q);
            from' = if next_from then from else q # from; to' = if next_to then to else p' # to;
            res = (if is_queue from' \<or> is_queue to' then Some (ERR_VAL, to')
                   else if from' = [] then Some (ERR_OK, to')
                   else copy_chain to' (if next_to then 0 else ot + m) from' (if next_from then 0 else off + m))
        in if next_to then map_option (\<lambda>(e, d). (e, p' # d)) res else res)"
proof -
  have lt: "unat ot < unat (plen p)" "unat off < unat (plen q)"
    using assms(3,4) by (simp_all add: word_less_nat_alt)
  define m where "m = (if int (unat (plen q)) - int (unat off) \<le> int (unat (plen p)) - int (unat ot)
    then plen q - off else plen p - ot)"
  have sub: "unat (plen q - off) = unat (plen q) - unat off" "unat (plen p - ot) = unat (plen p) - unat ot"
    using assms(3,4) by (simp_all add: unat_sub)
  have "int (unat (plen q)) - int (unat off) \<le> int (unat (plen p)) - int (unat ot) \<longleftrightarrow>
      unat (plen q) - unat off \<le> unat (plen p) - unat ot"
    using lt by linarith
  then have m: "unat m = n"
    unfolding m_def n_def by (cases "unat (plen q) - unat off \<le> unat (plen p) - unat ot") (simp_all only: sub if_True if_False min_def split: if_split, simp_all)
  have b: "unat (plen p) < 65536" "unat (plen q) < 65536"
    using unsigned_less [of "plen p", where ?'a = nat] unsigned_less [of "plen q", where ?'a = nat] by simp_all
  have n: "unat ot + n \<le> unat (plen p)" "unat off + n \<le> unat (plen q)" using lt by (auto simp: n_def)
  have um: "unat (ot + m) = unat ot + n" "unat (off + m) = unat off + n"
    using n b m by (simp_all add: unat_word_ariths)
  let ?piece = "take n (drop (unat off) (data q))"
  have slice: "take n (drop (poff q + unat off) (room q)) = ?piece"
    by (rule data_slice [OF assms(2) n(2)])
  have lp: "length ?piece = n" using n(2) assms(2) by simp
  define p' where "p' = p\<lparr>room := blit (room p) (poff p + unat ot) ?piece\<rparr>"
  have rp: "poff p + unat ot + n \<le> length (room p)" using n(1) assms(1) by (simp add: wf_pbuf_def)
  have rq: "poff q + unat off + n \<le> length (room q)" using n(2) assms(2) by (simp add: wf_pbuf_def)
  have cpy: "c_memcpy (room p) (poff p + unat ot) (room q) (poff q + unat off) (unat m) = Some (room p')"
    using rp rq by (simp add: m slice p'_def)
  have wf: "wf_pbuf p'" using assms(1) rp lp by (simp add: wf_pbuf_def p'_def)
  let ?x = "drop (poff p) (room p)"
  have "drop (poff p) (blit (room p) (poff p + unat ot) ?piece) = take (unat ot) ?x @ ?piece @ drop (unat ot + n) ?x"
    using rp lp by (simp add: blit_def take_drop ac_simps)
  moreover have "length (take (unat ot) ?x) = unat ot" using rp by simp
  ultimately have "data p' = take (unat ot) ?x @ ?piece @ take (unat (plen p) - (unat ot + n)) (drop (unat ot + n) ?x)"
    using lp n(1) by (simp add: data_def p'_def)
  then have dat: "data p' = take (unat ot) (data p) @ ?piece @ drop (unat ot + n) (data p)"
    using lt by (simp add: data_def drop_take min_absorb1)
  have nx: "ot + m = plen p \<longleftrightarrow> unat ot + n = unat (plen p)" "plen q \<le> off + m \<longleftrightarrow> unat off + n = unat (plen q)"
    using um n by (auto simp: word_unat_eq_iff word_le_nat_alt)
  show thesis
  proof (rule that [of m p'])
    show "copy_chain (p # to) ot (q # from) off =
       (let next_to = unat ot + n = unat (plen p); next_from = unat off + n = unat (plen q);
            from' = if next_from then from else q # from; to' = if next_to then to else p' # to;
            res = (if is_queue from' \<or> is_queue to' then Some (ERR_VAL, to')
                   else if from' = [] then Some (ERR_OK, to')
                   else copy_chain to' (if next_to then 0 else ot + m) from' (if next_from then 0 else off + m))
        in if next_to then map_option (\<lambda>(e, d). (e, p' # d)) res else res)"
      unfolding copy_chain.simps m_def [symmetric] Let_def cpy option.case nx
      by (simp add: p'_def)
  qed (use m wf dat um in \<open>simp_all add: p'_def\<close>)
qed

lemma copy_chain_spec:
  assumes "wf_chain to" "wf_chain from" "\<forall>q \<in> set to. 0 < plen q" "\<forall>q \<in> set from. 0 < plen q"
    and "to \<noteq> []" "from \<noteq> []" "ot < plen (hd to)" "off < plen (hd from)"
    and "length (flat from) - unat off \<le> length (flat to) - unat ot"
  shows "\<exists>d. copy_chain to ot from off = Some (ERR_OK, d) \<and> wf_chain d \<and> map tot_len d = map tot_len to \<and>
    flat d = take (unat ot) (flat to) @ drop (unat off) (flat from) @
      drop (unat ot + (length (flat from) - unat off)) (flat to)"
  using assms
proof (induction "length to + length from" arbitrary: to ot "from" off rule: less_induct)
  case less
  obtain p to0 q from0 where tf: "to = p # to0" "from = q # from0"
    using less.prems(5,6) by (meson neq_Nil_conv)
  have wf: "wf_pbuf p" "wf_pbuf q" "wf_chain to0" "wf_chain from0" "wf_chain to" "wf_chain from"
    and lt: "unat ot < unat (plen p)" "unat off < unat (plen q)" "ot < plen p" "off < plen q"
    using less.prems by (simp_all add: tf word_less_nat_alt)
  define n where "n = min (unat (plen p) - unat ot) (unat (plen q) - unat off)"
  obtain p' m where m: "unat m = n" "unat (ot + m) = unat ot + n" "unat (off + m) = unat off + n"
    and p': "wf_pbuf p'" "tot_len p' = tot_len p" "plen p' = plen p"
      "data p' = take (unat ot) (data p) @ take n (drop (unat off) (data q)) @ drop (unat ot + n) (data p)"
    and step: "copy_chain to ot from off =
       (let next_to = unat ot + n = unat (plen p); next_from = unat off + n = unat (plen q);
            from' = if next_from then from0 else from; to' = if next_to then to0 else p' # to0;
            res = (if is_queue from' \<or> is_queue to' then Some (ERR_VAL, to')
                   else if from' = [] then Some (ERR_OK, to')
                   else copy_chain to' (if next_to then 0 else ot + m) from' (if next_from then 0 else off + m))
        in if next_to then map_option (\<lambda>(e, d). (e, p' # d)) res else res)"
    using copy_chain_step [OF wf(1,2) lt(3,4), of to0 from0] unfolding n_def tf by metis
  have wf': "wf_chain (p' # to0)" using p'(1-3) wf by (simp add: tf)
  have pos': "\<forall>q \<in> set (p' # to0). 0 < plen q" using less.prems(3) p'(3) by (simp add: tf)
  have nq: "\<not> is_queue to0" "\<not> is_queue (p' # to0)" "\<not> is_queue from0" "\<not> is_queue from"
    using not_queue [OF wf(3)] not_queue [OF wf' pos'] not_queue [OF wf(4)] not_queue [OF wf(6)] less.prems(3,4)
    by (simp_all add: tf)
  have lq: "length (data q) = unat (plen q)" "length (data p) = unat (plen p)" using wf by simp_all
  define D where "D = drop (unat off) (flat from)"
  define to' where "to' = (if unat ot + n = unat (plen p) then to0 else p' # to0)"
  define ot' where "ot' = (if unat ot + n = unat (plen p) then 0 else ot + m)"
  define from' where "from' = (if unat off + n = unat (plen q) then from0 else from)"
  define off' where "off' = (if unat off + n = unat (plen q) then 0 else off + m)"
  have n: "unat ot + n \<le> unat (plen p)" "unat off + n \<le> unat (plen q)"
    "unat ot + n = unat (plen p) \<or> unat off + n = unat (plen q)" using lt by (auto simp: n_def)
  have piece: "take n (drop (unat off) (data q)) = take n D" "length (take n D) = n"
    using n(2) lq by (simp_all add: D_def tf)
  have R: "length D \<le> length (flat to) - unat ot" "n \<le> length D"
    using less.prems(9) n(2) lq by (simp_all add: D_def tf)
  have F: "flat (p' # to0) = take (unat ot) (flat to) @ take n D @ drop (unat ot + n) (flat to)"
    using p'(4) n(1) lq by (simp add: piece(1) tf)
  have rest: "drop (unat off') (flat from') = drop n D"
  proof (cases "unat off + n = unat (plen q)")
    case True
    then have "drop (unat off + n) (flat from) = flat from0" using lq by (simp add: tf)
    then show ?thesis using True by (simp add: from'_def off'_def D_def add.commute)
  qed (use m(3) in \<open>simp add: from'_def off'_def D_def add.commute\<close>)
  have "\<exists>d. (if is_queue from' \<or> is_queue to' then Some (ERR_VAL, to') else if from' = [] then Some (ERR_OK, to')
      else copy_chain to' ot' from' off') = Some (ERR_OK, d) \<and> wf_chain d \<and> map tot_len d = map tot_len to' \<and>
    flat d = take (unat ot') (flat to') @ drop n D @ drop (unat ot' + (length D - n)) (flat to')"
  proof (cases "from' = []")
    case True
    then have "drop n D = []" using rest by simp
    then show ?thesis using True nq wf' wf(3) by (auto simp: to'_def is_queue_def)
  next
    case False
    have tot: "unat ot' + (length D - n) \<le> length (flat to')"
      using R n lq m(2) p'(1,3) by (auto simp: ot'_def to'_def tf)
    have q: "\<not> is_queue from'" "\<not> is_queue to'" using nq by (auto simp: from'_def to'_def)
    have "off' < plen (hd from')" using False less.prems(4) lt(2) n(2) m(3)
      by (auto simp: from'_def off'_def tf neq_Nil_conv word_less_nat_alt)
    moreover have "0 < length D - n"
    proof -
      have "0 < length (drop (unat off') (flat from'))"
        using False \<open>off' < plen (hd from')\<close> wf(4,6) by (auto simp: neq_Nil_conv word_less_nat_alt from'_def)
      then show ?thesis by (simp add: rest)
    qed
    then have ne: "to' \<noteq> []" using tot by auto
    moreover have "ot' < plen (hd to')" using ne less.prems(3) n(1) m(2) p'(3)
      by (auto simp: to'_def ot'_def tf neq_Nil_conv word_less_nat_alt)
    moreover have "length to' + length from' < length to + length from"
      using n(3) by (auto simp: to'_def from'_def tf)
    moreover have "length (flat from') - unat off' = length D - n"
      using arg_cong [OF rest, of length] by simp
    ultimately have "\<exists>d. copy_chain to' ot' from' off' = Some (ERR_OK, d) \<and> wf_chain d \<and> map tot_len d = map tot_len to' \<and>
        flat d = take (unat ot') (flat to') @ drop (unat off') (flat from') @
          drop (unat ot' + (length D - n)) (flat to')"
      using less.hyps [of to' from' ot' off'] False wf' wf less.prems(3,4) pos' tot
      by (auto simp: to'_def from'_def tf)
    then show ?thesis using q False by (simp add: rest)
  qed
  then obtain d where d: "wf_chain d" "map tot_len d = map tot_len to'"
    "flat d = take (unat ot') (flat to') @ drop n D @ drop (unat ot' + (length D - n)) (flat to')"
    "(if is_queue from' \<or> is_queue to' then Some (ERR_VAL, to') else if from' = [] then Some (ERR_OK, to')
      else copy_chain to' ot' from' off') = Some (ERR_OK, d)" by blast
  have res: "copy_chain to ot from off =
      Some (ERR_OK, if unat ot + n = unat (plen p) then p' # d else d)"
    unfolding step Let_def from'_def [symmetric] to'_def [symmetric] ot'_def [symmetric] off'_def [symmetric] d(4)
    by simp
  have DL: "length (flat from) - unat off = length D" by (simp add: D_def)
  show ?case
  proof (cases "unat ot + n = unat (plen p)")
    case True
    have td: "to' = to0" "unat ot' = 0" using True by (simp_all add: to'_def ot'_def)
    have "length (flat d) = length (flat to0)"
    proof -
      have "length D - n \<le> length (flat to0)" using R(1) n(1) True lq by (simp add: tf)
      then show ?thesis using d(3) by (simp add: td)
    qed
    then have "wf_chain (p' # d)" using p' wf' d(1) by simp
    moreover have "flat (p' # d) = take (unat ot) (flat to) @ D @ drop (unat ot + length D) (flat to)"
    proof -
      have "data p' = take (unat ot) (flat to) @ take n D" using p'(4) True lq by (simp add: piece(1) tf)
      moreover have "drop (length D - n) (flat to0) = drop (unat ot + length D) (flat to)"
        using True lq R(2) by (simp add: tf) (metis add.commute add_diff_assoc2 add_diff_cancel_left' diff_diff_add)
      ultimately show ?thesis using d(3) by (simp add: td)
    qed
    moreover have "map tot_len (p' # d) = map tot_len to" using d(2) p'(2) by (simp add: td tf)
    ultimately show ?thesis unfolding res DL D_def [symmetric] if_P [OF True] by blast
  next
    case False
    then have td: "to' = p' # to0" "unat ot' = unat ot + n" using m(2) by (simp_all add: to'_def ot'_def)
    have lt: "length (take (unat ot) (flat to)) = unat ot" using n(1) lq by (simp add: tf)
    have "flat d = take (unat ot) (flat to) @ D @ drop (unat ot + length D) (flat to)"
      unfolding d(3) td F using lt piece(2) R(2) by (simp add: add.commute add.left_commute)
    moreover have "map tot_len d = map tot_len to" using d(2) p'(2) by (simp add: td tf)
    ultimately show ?thesis unfolding res DL D_def [symmetric] if_not_P [OF False] using d(1) by blast
  qed
qed

text \<open>
  \<open>pbuf_copy\<close> of a packet into another one that is large enough, neither of them with an
  empty buffer: whatever the two ways of cutting them into buffers, the bytes of the source end
  up at the front of the destination, which keeps the rest of its bytes and stays well formed.
\<close>

theorem pbuf_copy_spec:
  assumes "wf_chain to" "wf_chain from" "\<forall>q \<in> set to. 0 < plen q" "\<forall>q \<in> set from. 0 < plen q"
    and "from \<noteq> []" "length (flat from) \<le> length (flat to)"
  shows "\<exists>d. pbuf_copy to from = Some (ERR_OK, d) \<and> wf_chain d \<and>
    flat d = flat from @ drop (length (flat from)) (flat to)"
proof -
  obtain q f where f: "from = q # f" using assms(5) by (cases "from") auto
  have "0 < length (flat from)" using assms(2,4) by (simp add: f word_less_nat_alt)
  then obtain p t where t: "to = p # t" using assms(6) by (cases to) auto
  have "tot_len q \<le> tot_len p" using assms(1,2,6) by (simp add: f t word_le_nat_alt)
  then have "pbuf_copy to from = copy_chain to 0 from 0" by (simp add: pbuf_copy_def f t)
  then show ?thesis using copy_chain_spec [OF assms(1-4), of 0 0] assms(3,4,6) by (auto simp: f t)
qed

text \<open>With an empty last buffer in the source the loop reads a null pointer.\<close>

lemma pbuf_copy_empty_tail:
  "wf_chain [ram_pbuf [1], ram_pbuf []] \<and> pbuf_copy [ram_pbuf [9]] [ram_pbuf [1], ram_pbuf []] = None"
  by (simp add: ram_pbuf_def wf_pbuf_def data_def pbuf_copy_def is_queue_def)

lemma pbuf_copy_spec_witness:
  "\<exists>d. pbuf_copy [ram_pbuf [9]\<lparr>tot_len := 4\<rparr>, ram_pbuf [9, 9, 9]] [ram_pbuf [1, 2]\<lparr>tot_len := 3\<rparr>, ram_pbuf [3]] =
     Some (ERR_OK, d) \<and> flat d = [1, 2, 3, 9]"
proof -
  have "wf_chain [ram_pbuf [9]\<lparr>tot_len := 4\<rparr>, ram_pbuf [9, 9, 9]]" "wf_chain [ram_pbuf [1, 2]\<lparr>tot_len := 3\<rparr>, ram_pbuf [3]]"
    by (simp_all add: ram_pbuf_def wf_pbuf_def data_def)
  from pbuf_copy_spec [OF this] show ?thesis by (auto simp: ram_pbuf_def data_def)
qed

end
