(* ===== verification/PbufHeap.thy ===== *)
theory PbufHeap
  imports PbufEdit
begin

text \<open>
  The reference counts of packet buffers (\<open>lwip/core/pbuf.c\<close>): \<open>pbuf_free\<close>, \<open>pbuf_ref\<close>,
  \<open>pbuf_cat\<close>, \<open>pbuf_chain\<close> and \<open>pbuf_dechain\<close> on a heap of buffers, a map from addresses (0 is the
  null pointer) to their fields. \<open>None\<close> is an access to memory that is not allocated. Beside it
  stands what the code only says in comments: who holds how many pointers to each buffer.
\<close>

section \<open>The heap\<close>

record hbuf =
  nxt :: nat
  htot :: u16
  hlen :: u16
  htype :: pbuf_type
  refs :: u16
  eb :: nat

type_synonym heap = "nat \<rightharpoonup> hbuf"

text \<open>Who gets the memory of a buffer back, and the receive buffer of the driver with it.\<close>

datatype freed = memp_free_pool nat | memp_free_pbuf nat nat | mem_free nat

fun freed_addr :: "freed \<Rightarrow> nat" where
  "freed_addr (memp_free_pool p) = p"
| "freed_addr (memp_free_pbuf p e) = p"
| "freed_addr (mem_free p) = p"

definition give_back :: "nat \<Rightarrow> hbuf \<Rightarrow> freed" where
  "give_back p b =
     (if htype b = PBUF_POOL then memp_free_pool p
      else if htype b = PBUF_ROM \<or> htype b = PBUF_REF \<or> htype b = PBUF_ESF_RX then memp_free_pbuf p (eb b)
      else mem_free p)"

text \<open>The loop of \<open>pbuf_free\<close>, with the count it returns and the buffers given back so far.\<close>

partial_function (option) free_loop :: "nat \<Rightarrow> u8 \<Rightarrow> heap \<Rightarrow> freed list \<Rightarrow> (u8 \<times> heap \<times> freed list) option" where
  "free_loop p count h out =
     (if p = 0 then Some (count, h, out)
      else case h p of
        None \<Rightarrow> None
      | Some b \<Rightarrow>
          let ref = refs b - 1
          in if ref = 0 then free_loop (nxt b) (count + 1) (h(p := None)) (out @ [give_back p b])
             else Some (count, h(p \<mapsto> b\<lparr>refs := ref\<rparr>), out))"

declare free_loop.simps [code]

definition pbuf_free :: "nat \<Rightarrow> heap \<Rightarrow> (u8 \<times> heap \<times> freed list) option" where
  "pbuf_free p h = free_loop p 0 h []"

definition pbuf_ref :: "nat \<Rightarrow> heap \<Rightarrow> heap option" where
  "pbuf_ref p h =
     (if p \<noteq> 0 then map_option (\<lambda>b. h(p \<mapsto> b\<lparr>refs := refs b + 1\<rparr>)) (h p) else Some h)"

text \<open>
  \<open>pbuf_cat\<close>: every buffer of the first chain gets the length of the second added, and the last one
  its address. The length is read again for every buffer.
\<close>

partial_function (option) cat_loop :: "nat \<Rightarrow> nat \<Rightarrow> heap \<Rightarrow> heap option" where
  "cat_loop p t h =
     (case h p of
        None \<Rightarrow> None
      | Some b \<Rightarrow>
          (case h t of
             None \<Rightarrow> None
           | Some tb \<Rightarrow>
               if nxt b \<noteq> 0 then cat_loop (nxt b) t (h(p \<mapsto> b\<lparr>htot := htot b + htot tb\<rparr>))
               else Some (h(p \<mapsto> b\<lparr>htot := htot b + htot tb, nxt := t\<rparr>))))"

declare cat_loop.simps [code]

definition heap_cat :: "nat \<Rightarrow> nat \<Rightarrow> heap \<Rightarrow> heap option" where
  "heap_cat p t h = (if p \<noteq> 0 \<and> t \<noteq> 0 then cat_loop p t h else Some h)"

definition pbuf_chain :: "nat \<Rightarrow> nat \<Rightarrow> heap \<Rightarrow> heap option" where
  "pbuf_chain p t h = do { h \<leftarrow> heap_cat p t h; pbuf_ref t h }"

definition pbuf_dechain :: "nat \<Rightarrow> heap \<Rightarrow> (nat \<times> heap \<times> freed list) option" where
  "pbuf_dechain p h = do {
     b \<leftarrow> h p;
     let q = nxt b;
     (tail_gone, h, out) \<leftarrow>
       (if q \<noteq> 0 then do {
          qb \<leftarrow> h q;
          let h = h(q \<mapsto> qb\<lparr>htot := htot b - hlen b\<rparr>);
          b \<leftarrow> h p;
          pbuf_free q (h(p \<mapsto> b\<lparr>nxt := 0, htot := hlen b\<rparr>))
        }
        else Some (1, h, []));
     Some (if 0 < tail_gone then 0 else q, h, out)
   }"

text \<open>A new buffer of one piece, as \<open>pbuf_alloc\<close> leaves it.\<close>

definition new_pbuf :: "nat \<Rightarrow> u16 \<Rightarrow> pbuf_type \<Rightarrow> nat \<Rightarrow> heap \<Rightarrow> heap" where
  "new_pbuf p n type e h = h(p \<mapsto> \<lparr>nxt = 0, htot = n, hlen = n, htype = type, refs = 1, eb = e\<rparr>)"

section \<open>References\<close>

text \<open>The buffers whose \<open>next\<close> is \<open>p\<close>, and the links of the heap.\<close>

definition preds :: "heap \<Rightarrow> nat \<Rightarrow> nat set" where
  "preds h p = {q. \<exists>b. h q = Some b \<and> nxt b = p}"

definition edges :: "heap \<Rightarrow> (nat \<times> nat) set" where
  "edges h = {(q, p). p \<noteq> 0 \<and> q \<in> preds h p}"

text \<open>
  The invariant of \<open>pbuf.h\<close>, "the reference count always equals the number of pointers that refer to
  this pbuf", where \<open>own p\<close> is the number of pointers held outside the heap: no count is 0, and no
  pointer, inside or outside, leads to memory that is not allocated.
\<close>

definition counts :: "heap \<Rightarrow> (nat \<Rightarrow> nat) \<Rightarrow> bool" where
  "counts h own \<longleftrightarrow> finite (dom h) \<and> h 0 = None \<and>
     (\<forall>p b. h p = Some b \<longrightarrow> refs b \<noteq> 0 \<and> unat (refs b) = own p + card (preds h p) \<and> (nxt b \<noteq> 0 \<longrightarrow> h (nxt b) \<noteq> None)) \<and>
     (\<forall>p. 0 < own p \<longrightarrow> h p \<noteq> None)"

lemma counts_own: "counts h own \<Longrightarrow> 0 < own p \<Longrightarrow> \<exists>b. h p = Some b"
  by (simp add: counts_def)

lemma preds_fin: "finite (dom h) \<Longrightarrow> finite (preds h p)"
  by (rule finite_subset [of _ "dom h"]) (auto simp: preds_def)

lemma preds_upd: "h x = Some b \<Longrightarrow> nxt b' = nxt b \<Longrightarrow> preds (h(x \<mapsto> b')) p = preds h p"
  by (auto simp: preds_def)

lemma edges_upd: "h x = Some b \<Longrightarrow> nxt b' = nxt b \<Longrightarrow> edges (h(x \<mapsto> b')) = edges h"
  by (simp add: edges_def preds_upd)

lemma preds_delete: "preds (h(x := None)) p = preds h p - {x}"
  by (auto simp: preds_def)

lemma preds_link: "h x = Some b \<Longrightarrow> preds (h(x \<mapsto> b')) p = (if nxt b' = p then insert x (preds h p) else preds h p - {x})"
  by (auto simp: preds_def)

lemma countsD:
  assumes "counts h own" "h p = Some b"
  shows "p \<noteq> 0" "refs b \<noteq> 0" "unat (refs b) = own p + card (preds h p)" "nxt b \<noteq> 0 \<Longrightarrow> \<exists>c. h (nxt b) = Some c"
proof -
  show "p \<noteq> 0" using assms by (cases "p = 0") (simp_all add: counts_def)
qed (use assms in \<open>auto simp: counts_def\<close>)

text \<open>Giving back a buffer with one reference: its link becomes a pointer held by the loop.\<close>

lemma counts_give_back:
  assumes c: "counts h own" and p: "h p = Some b" "refs b = 1" "0 < own p"
  shows "counts (h(p := None)) (if nxt b = 0 then own(p := 0) else own(p := 0, nxt b := Suc (own (nxt b))))"
    and "nxt b \<noteq> p" "own p = 1" "preds h p = {}"
proof -
  have fin: "finite (dom h)" using c by (simp add: counts_def)
  have one: "own p = 1" "card (preds h p) = 0" using countsD(3) [OF c p(1)] p(2,3) by simp_all
  then show e: "preds h p = {}" "own p = 1" using preds_fin [OF fin] by simp_all
  then show n: "nxt b \<noteq> p" using p(1) by (auto simp: preds_def)
  let ?o = "if nxt b = 0 then own(p := 0) else own(p := 0, nxt b := Suc (own (nxt b)))"
  have "refs a \<noteq> 0 \<and> unat (refs a) = ?o x + card (preds (h(p := None)) x) \<and> (nxt a \<noteq> 0 \<longrightarrow> (h(p := None)) (nxt a) \<noteq> None)"
    if "(h(p := None)) x = Some a" for x a
  proof -
    have x: "x \<noteq> p" "h x = Some a" using that by (auto split: if_splits)
    have "nxt a \<noteq> p" using e(1) x(2) by (auto simp: preds_def)
    moreover have "card (preds h x) = (if x = nxt b then Suc (card (preds h x - {p})) else card (preds h x - {p}))"
    proof (cases "x = nxt b")
      case True
      then have "p \<in> preds h x" using p(1) by (auto simp: preds_def)
      then have "card (preds h x) = Suc (card (preds h x - {p}))" by (rule card.remove [OF preds_fin [OF fin]])
      then show ?thesis using True by argo
    next
      case False
      then have "p \<notin> preds h x" using p(1) by (auto simp: preds_def)
      then show ?thesis using False by simp
    qed
    moreover have "?o x = (if x = nxt b then Suc (own x) else own x)"
      using x(1) countsD(1) [OF c x(2)] by auto
    ultimately have "unat (refs a) = ?o x + card (preds h x - {p})" using countsD(3) [OF c x(2)] by presburger
    moreover have "nxt a \<noteq> 0 \<longrightarrow> (h(p := None)) (nxt a) \<noteq> None" using countsD(4) [OF c x(2)] \<open>nxt a \<noteq> p\<close> by auto
    ultimately show ?thesis using countsD(2) [OF c x(2)] by (simp only: preds_delete) blast
  qed
  moreover have "(h(p := None)) x \<noteq> None" if "0 < ?o x" for x
    using that c n countsD(4) [OF c p(1)] by (auto simp: counts_def split: if_splits)
  moreover have "finite (dom (h(p := None)))" "(h(p := None)) 0 = None" using c by (auto simp: counts_def)
  ultimately show "counts (h(p := None)) ?o" unfolding counts_def by blast
qed

text \<open>One reference less.\<close>

lemma counts_unref:
  assumes c: "counts h own" and p: "h p = Some b" "refs b \<noteq> 1" "0 < own p"
  shows "counts (h(p \<mapsto> b\<lparr>refs := refs b - 1\<rparr>)) (own(p := own p - 1))"
proof -
  have r: "refs b - 1 \<noteq> 0" "unat (refs b - 1) = unat (refs b) - 1"
    using p(2) countsD(2) [OF c p(1)] by (auto simp: unat_sub_if' word_unat_eq_iff)
  have e: "preds (h(p \<mapsto> b\<lparr>refs := refs b - 1\<rparr>)) x = preds h x" for x using preds_upd p(1) by simp
  have o: "0 < unat (refs b) - 1" using r by (metis unat_eq_0 gr0I)
  show ?thesis unfolding counts_def e
  proof (intro conjI allI impI)
    fix x a assume "(h(p \<mapsto> b\<lparr>refs := refs b - 1\<rparr>)) x = Some a"
    then have x: "x = p \<and> a = b\<lparr>refs := refs b - 1\<rparr> \<or> x \<noteq> p \<and> h x = Some a" by (auto split: if_splits)
    show "refs a \<noteq> 0" using x r(1) countsD(2) [OF c] by auto
    show "unat (refs a) = (own(p := own p - 1)) x + card (preds h x)"
      using x r(2) p(3) countsD(3) [OF c] countsD(3) [OF c p(1)] by auto
    show "nxt a \<noteq> 0 \<Longrightarrow> (h(p \<mapsto> b\<lparr>refs := refs b - 1\<rparr>)) (nxt a) \<noteq> None"
      using x countsD(4) [OF c] p(1) by fastforce
  qed (use c countsD(1) [OF c p(1)] in \<open>auto simp: counts_def split: if_splits\<close>)
qed

text \<open>What is left of a heap: some of its buffers, with other counts.\<close>

definition survives :: "heap \<Rightarrow> heap \<Rightarrow> bool" where
  "survives h h' \<longleftrightarrow> (\<forall>x b'. h' x = Some b' \<longrightarrow> (\<exists>b. h x = Some b \<and> b' = b\<lparr>refs := refs b'\<rparr>))"

lemma survivesD: "survives h h' \<Longrightarrow> h' x = Some b' \<Longrightarrow> \<exists>b. h x = Some b \<and> b' = b\<lparr>refs := refs b'\<rparr>"
  by (simp add: survives_def)

lemma survives_dom: "survives h h' \<Longrightarrow> dom h' \<subseteq> dom h"
  using survivesD by blast

lemma survives_nxt: "survives h h' \<Longrightarrow> h' x = Some b' \<Longrightarrow> \<exists>b. h x = Some b \<and> nxt b' = nxt b"
  by (metis survivesD hbuf.ext_inject hbuf.surjective hbuf.update_convs(5))

lemma survives_trans: "survives h h1 \<Longrightarrow> survives h1 h2 \<Longrightarrow> survives h h2"
  unfolding survives_def
proof (intro allI impI)
  fix x b2
  assume 1: "\<forall>x b'. h1 x = Some b' \<longrightarrow> (\<exists>b. h x = Some b \<and> b' = b\<lparr>refs := refs b'\<rparr>)"
    and 2: "\<forall>x b'. h2 x = Some b' \<longrightarrow> (\<exists>b. h1 x = Some b \<and> b' = b\<lparr>refs := refs b'\<rparr>)" "h2 x = Some b2"
  obtain b1 where b1: "h1 x = Some b1" "b2 = b1\<lparr>refs := refs b2\<rparr>" using 2 by blast
  obtain b where b: "h x = Some b" "b1 = b\<lparr>refs := refs b1\<rparr>" using 1 b1(1) by blast
  have "b1\<lparr>refs := refs b2\<rparr> = b\<lparr>refs := refs b2\<rparr>" by (subst b(2)) simp
  then show "\<exists>b. h x = Some b \<and> b2 = b\<lparr>refs := refs b2\<rparr>" using b(1) b1(2) by metis
qed

lemma survives_edges: "survives h h' \<Longrightarrow> edges h' \<subseteq> edges h"
  using survives_nxt by (fastforce simp: edges_def preds_def)

lemma freed_addr_give_back [simp]: "freed_addr (give_back p b) = p"
  by (simp add: give_back_def)

lemma free_loop_spec:
  assumes "counts h own" "0 < own p"
  shows "\<exists>h' out'. free_loop p c h out = Some (c + of_nat (length out'), h', out @ out') \<and>
    counts h' (own(p := own p - 1)) \<and> survives h h' \<and> distinct (map freed_addr out') \<and>
    freed_addr ` set out' = dom h - dom h' \<and> (out' = [] \<longleftrightarrow> p \<in> dom h') \<and>
    (\<forall>f \<in> set out'. f = give_back (freed_addr f) (the (h (freed_addr f))))"
  using assms
proof (induction "card (dom h)" arbitrary: h own p c out rule: less_induct)
  case less
  obtain b where b: "h p = Some b" using counts_own [OF less.prems] by blast
  note p0 = countsD(1) [OF less.prems(1) b]
  show ?case
  proof (cases "refs b = 1")
    case True
    let ?h = "h(p := None)"
    note g = counts_give_back [OF less.prems(1) b True less.prems(2)]
    have s: "survives h ?h" by (auto simp: survives_def)
    have step: "free_loop p c h out = free_loop (nxt b) (c + 1) ?h (out @ [give_back p b])"
      using True b p0 by (simp add: free_loop.simps [of p])
    show ?thesis
    proof (cases "nxt b = 0")
      case z: True
      have "own(p := 0) = own(p := own p - 1)" using g(3) by simp
      then have "counts ?h (own(p := own p - 1))" using g(1) z by simp
      then show ?thesis using step s z b
        by (intro exI [of _ ?h] exI [of _ "[give_back p b]"]) (auto simp: free_loop.simps [of 0])
    next
      case n: False
      let ?o = "own(p := 0, nxt b := Suc (own (nxt b)))"
      have "card (dom ?h) < card (dom h)"
        using less.prems(1) b by (auto simp: counts_def intro!: psubset_card_mono)
      from less.hyps [OF this, of ?o "nxt b" "c + 1" "out @ [give_back p b]"] obtain h' out' where r:
        "free_loop (nxt b) (c + 1) ?h (out @ [give_back p b]) =
          Some (c + 1 + of_nat (length out'), h', (out @ [give_back p b]) @ out')"
        "counts h' (?o(nxt b := ?o (nxt b) - 1))" "survives ?h h'" "distinct (map freed_addr out')"
        "freed_addr ` set out' = dom ?h - dom h'"
        "\<forall>f \<in> set out'. f = give_back (freed_addr f) (the (?h (freed_addr f)))"
        using g(1) n by auto
      have o: "?o(nxt b := ?o (nxt b) - 1) = own(p := own p - 1)" using g(2,3) by auto
      have "p \<notin> dom h'" using survives_dom [OF r(3)] by auto
      then have "freed_addr ` set (give_back p b # out') = dom h - dom h'" "distinct (map freed_addr (give_back p b # out'))"
        "(give_back p b # out' = []) = (p \<in> dom h')"
        using r(4,5) b by auto
      moreover have "\<forall>f \<in> set (give_back p b # out'). f = give_back (freed_addr f) (the (h (freed_addr f)))"
      proof
        fix f assume f: "f \<in> set (give_back p b # out')"
        show "f = give_back (freed_addr f) (the (h (freed_addr f)))"
        proof (cases "f = give_back p b")
          case False
          then have "freed_addr f \<noteq> p" "f \<in> set out'" using f r(5) by auto
          then show ?thesis using r(6) by auto
        qed (simp add: b)
      qed
      ultimately show ?thesis using step r(1,2) o survives_trans [OF s r(3)]
        by (intro exI [of _ h'] exI [of _ "give_back p b # out'"]) simp
    qed
  next
    case False
    let ?h = "h(p \<mapsto> b\<lparr>refs := refs b - 1\<rparr>)"
    have "refs b - 1 \<noteq> 0" using False by simp
    then have step: "free_loop p c h out = Some (c, ?h, out)" using b p0 by (simp add: free_loop.simps [of p] Let_def)
    have s: "survives h ?h" unfolding survives_def
    proof (intro allI impI)
      fix x b' assume "?h x = Some b'"
      then show "\<exists>a. h x = Some a \<and> b' = a\<lparr>refs := refs b'\<rparr>" using b by (cases "x = p") auto
    qed
    show ?thesis using step s counts_unref [OF less.prems(1) b False less.prems(2)] b
      by (intro exI [of _ ?h] exI [of _ "[]"]) auto
  qed
qed

text \<open>Without cycles, the buffers of a heap are those that can be reached from a pointer outside.\<close>

definition reach :: "heap \<Rightarrow> (nat \<Rightarrow> nat) \<Rightarrow> nat set" where
  "reach h own = {x. \<exists>q. 0 < own q \<and> (q, x) \<in> (edges h)\<^sup>*}"

lemma edges_finite: "finite (dom h) \<Longrightarrow> finite (edges h)"
  by (rule finite_subset [of _ "(\<lambda>x. (x, nxt (the (h x)))) ` dom h"]) (auto simp: edges_def preds_def image_iff)

lemma edge_iff: "(q, p) \<in> edges h \<longleftrightarrow> p \<noteq> 0 \<and> (\<exists>b. h q = Some b \<and> nxt b = p)"
  by (simp add: edges_def preds_def)

lemma dom_reach:
  assumes "counts h own" "acyclic (edges h)"
  shows "dom h = reach h own"
proof (intro set_eqI iffI)
  have wf: "wf (edges h)"
    using assms by (simp add: counts_def edges_finite finite_acyclic_wf)
  fix x
  show "x \<in> reach h own" if "x \<in> dom h"
    using wf that
  proof (induction x rule: wf_induct_rule)
    case (less x)
    then obtain b where b: "h x = Some b" by blast
    show ?case
    proof (cases "0 < own x")
      case False
      then have "card (preds h x) \<noteq> 0" using countsD(2,3) [OF assms(1) b] by (metis add_0 unat_eq_0 neq0_conv)
      then obtain q where "q \<in> preds h x" by fastforce
      then have q: "(q, x) \<in> edges h" "q \<in> dom h" using countsD(1) [OF assms(1) b] by (auto simp: edges_def preds_def)
      then show ?thesis using less.IH [OF q] by (auto simp: reach_def intro: rtrancl.rtrancl_into_rtrancl)
    qed (auto simp: reach_def)
  qed
next
  fix x assume "x \<in> reach h own"
  then obtain q where "0 < own q" "(q, x) \<in> (edges h)\<^sup>*" by (auto simp: reach_def)
  then show "x \<in> dom h"
  proof (induction rule: rtrancl_induct [OF \<open>(q, x) \<in> (edges h)\<^sup>*\<close>])
    case 1
    then show ?case using counts_own [OF assms(1)] by blast
  next
    case (2 y z)
    then show ?case using countsD(4) [OF assms(1)] by (auto simp: edge_iff)
  qed
qed

section \<open>The operations keep the references\<close>

text \<open>A sound heap: the counts are right and no chain is a ring.\<close>

definition sound :: "heap \<Rightarrow> (nat \<Rightarrow> nat) \<Rightarrow> bool" where
  "sound h own \<longleftrightarrow> counts h own \<and> acyclic (edges h)"

lemma free_sound:
  assumes "sound h own" "0 < own p"
  shows "\<exists>h' out. free_loop p c h acc = Some (c + of_nat (length out), h', acc @ out) \<and> sound h' (own(p := own p - 1)) \<and>
    survives h h' \<and> distinct (map freed_addr out) \<and> freed_addr ` set out = dom h - dom h' \<and> (out = [] \<longleftrightarrow> p \<in> dom h') \<and>
    (\<forall>f \<in> set out. f = give_back (freed_addr f) (the (h (freed_addr f))))"
proof -
  obtain h' out where r: "free_loop p c h acc = Some (c + of_nat (length out), h', acc @ out)"
    "counts h' (own(p := own p - 1))" "survives h h'" "distinct (map freed_addr out)"
    "freed_addr ` set out = dom h - dom h'" "out = [] \<longleftrightarrow> p \<in> dom h'"
    "\<forall>f \<in> set out. f = give_back (freed_addr f) (the (h (freed_addr f)))"
    using free_loop_spec [of h own p c acc] assms by (auto simp: sound_def)
  then show ?thesis using assms(1) acyclic_subset [OF _ survives_edges [OF r(3)]] by (auto simp: sound_def)
qed

lemma ref_sound:
  assumes s: "sound h own" and p: "h p = Some b" "unat (refs b) < 65535"
  shows "\<exists>h'. pbuf_ref p h = Some h' \<and> sound h' (own(p := Suc (own p)))"
proof -
  let ?h = "h(p \<mapsto> b\<lparr>refs := refs b + 1\<rparr>)"
  have c: "counts h own" using s by (simp add: sound_def)
  have r: "unat (refs b + 1) = Suc (unat (refs b))" using p(2) by (simp add: unat_word_ariths)
  then have nz: "refs b + 1 \<noteq> 0" by (metis unat_0 nat.distinct(1))
  have e: "preds ?h x = preds h x" for x using preds_upd p(1) by simp
  have "counts ?h (own(p := Suc (own p)))"
    unfolding counts_def e
  proof (intro conjI allI impI)
    fix x a assume "?h x = Some a"
    then have x: "x = p \<and> a = b\<lparr>refs := refs b + 1\<rparr> \<or> x \<noteq> p \<and> h x = Some a" by (auto split: if_splits)
    show "refs a \<noteq> 0" using x nz countsD(2) [OF c] by auto
    show "unat (refs a) = (own(p := Suc (own p))) x + card (preds h x)"
      using x r countsD(3) [OF c] countsD(3) [OF c p(1)] by auto
    show "nxt a \<noteq> 0 \<Longrightarrow> ?h (nxt a) \<noteq> None" using x countsD(4) [OF c] p(1) by fastforce
  qed (use c countsD(1) [OF c p(1)] p(1) in \<open>auto simp: counts_def split: if_splits\<close>)
  moreover have "edges ?h = edges h" using edges_upd p(1) by simp
  ultimately show ?thesis using p(1) countsD(1) [OF c p(1)] s by (auto simp: pbuf_ref_def sound_def)
qed

text \<open>Changing what is not a link or a count.\<close>

definition same_links :: "heap \<Rightarrow> heap \<Rightarrow> bool" where
  "same_links h h' \<longleftrightarrow> (\<forall>x. map_option (\<lambda>b. (nxt b, refs b)) (h' x) = map_option (\<lambda>b. (nxt b, refs b)) (h x))"

lemma same_linksD: "same_links h h' \<Longrightarrow> h' x = Some b' \<Longrightarrow> \<exists>b. h x = Some b \<and> nxt b' = nxt b \<and> refs b' = refs b"
  unfolding same_links_def by (drule spec [of _ x], cases "h x") auto

lemma same_links_sym: "same_links h h' \<Longrightarrow> same_links h' h"
  by (simp add: same_links_def)

lemma same_links_preds: "same_links h h' \<Longrightarrow> preds h' p = preds h p"
  unfolding preds_def using same_linksD same_links_sym by (fastforce intro!: Collect_cong)

lemma same_links_dom: "same_links h h' \<Longrightarrow> dom h' = dom h"
  using same_linksD same_links_sym by blast

lemma same_links_sound:
  assumes "same_links h h'" "sound h own"
  shows "sound h' own"
proof -
  have "counts h own" using assms(2) by (simp add: sound_def)
  note c = this [unfolded counts_def]
  have none: "h' x = None \<longleftrightarrow> h x = None" for x using same_links_dom [OF assms(1)] by (metis domIff)
  have "counts h' own"
    unfolding counts_def same_links_preds [OF assms(1)] none same_links_dom [OF assms(1)]
  proof (intro conjI allI impI)
    fix p b' assume "h' p = Some b'"
    then obtain b where b: "h p = Some b" "nxt b' = nxt b" "refs b' = refs b" using same_linksD [OF assms(1)] by blast
    show "refs b' \<noteq> 0" "unat (refs b') = own p + card (preds h p)" "nxt b' \<noteq> 0 \<Longrightarrow> h (nxt b') \<noteq> None" using b c by auto
  qed (use c in auto)
  moreover have "edges h' = edges h" by (simp add: edges_def same_links_preds [OF assms(1)])
  ultimately show ?thesis using assms(2) by (simp add: sound_def)
qed

text \<open>Appending a chain: a last buffer \<open>l\<close> gets the link to \<open>t\<close>.\<close>

lemma link_sound:
  assumes s: "sound h own" and l: "h l = Some b" "nxt b = 0" and t: "h t = Some tb" "0 < own t"
    and cyc: "(t, l) \<notin> (edges h)\<^sup>*"
  shows "sound (h(l \<mapsto> b\<lparr>nxt := t\<rparr>)) (own(t := own t - 1))"
proof -
  let ?h = "h(l \<mapsto> b\<lparr>nxt := t\<rparr>)"
  have c: "counts h own" using s by (simp add: sound_def)
  have t0: "t \<noteq> 0" by (rule countsD(1) [OF c t(1)])
  have fin: "finite (preds h x)" for x using preds_fin c by (simp add: counts_def)
  have pr: "preds ?h x = (if x = t then insert l (preds h x) else preds h x)" if "x \<noteq> 0" for x
    using l that by (auto simp: preds_def)
  have "l \<notin> preds h t" using l t0 by (auto simp: preds_def)
  then have ct: "card (preds ?h t) = Suc (card (preds h t))" using pr [OF t0] fin by simp
  have "counts ?h (own(t := own t - 1))"
    unfolding counts_def
  proof (intro conjI allI impI)
    fix x a assume "?h x = Some a"
    then have x: "x = l \<and> a = b\<lparr>nxt := t\<rparr> \<or> x \<noteq> l \<and> h x = Some a" by (auto split: if_splits)
    then have x0: "x \<noteq> 0" using countsD(1) [OF c] l(1) by blast
    show "refs a \<noteq> 0" using x countsD(2) [OF c] l(1) by auto
    have "unat (refs a) = own x + card (preds h x)" using x countsD(3) [OF c] l(1) by auto
    then show "unat (refs a) = (own(t := own t - 1)) x + card (preds ?h x)" using ct pr [OF x0] t(2) by (cases "x = t") auto
    show "nxt a \<noteq> 0 \<Longrightarrow> ?h (nxt a) \<noteq> None" using x countsD(4) [OF c] t(1) by fastforce
  qed (use c countsD(1) [OF c l(1)] l(1) in \<open>auto simp: counts_def split: if_splits\<close>)
  moreover have "edges ?h = insert (l, t) (edges h)" using l t0 by (auto simp: edge_iff split: if_splits)
  ultimately show ?thesis using s cyc by (simp add: sound_def)
qed

text \<open>Taking the link away again: the pointer to the second buffer is held outside.\<close>

lemma unlink_sound:
  assumes s: "sound h own" and p: "h p = Some b" "nxt b = q" "q \<noteq> 0"
  shows "sound (h(p \<mapsto> b\<lparr>nxt := 0\<rparr>)) (own(q := Suc (own q)))"
proof -
  let ?h = "h(p \<mapsto> b\<lparr>nxt := 0\<rparr>)"
  have c: "counts h own" using s by (simp add: sound_def)
  have fin: "finite (preds h x)" for x using preds_fin c by (simp add: counts_def)
  have pr: "preds ?h x = preds h x - {p}" if "x \<noteq> 0" for x using that by (auto simp: preds_def)
  have "p \<in> preds h q" using p by (auto simp: preds_def)
  then have cq: "card (preds h q) = Suc (card (preds ?h q))" using pr [OF p(3)] card.remove [OF fin] by simp
  have other: "preds ?h x = preds h x" if "x \<noteq> 0" "x \<noteq> q" for x using that p by (auto simp: preds_def)
  have "counts ?h (own(q := Suc (own q)))"
    unfolding counts_def
  proof (intro conjI allI impI)
    fix x a assume "?h x = Some a"
    then have x: "x = p \<and> a = b\<lparr>nxt := 0\<rparr> \<or> x \<noteq> p \<and> h x = Some a" by (auto split: if_splits)
    then have x0: "x \<noteq> 0" using countsD(1) [OF c] p(1) by blast
    show "refs a \<noteq> 0" using x countsD(2) [OF c] p(1) by auto
    have "unat (refs a) = own x + card (preds h x)" using x countsD(3) [OF c] p(1) by auto
    then show "unat (refs a) = (own(q := Suc (own q))) x + card (preds ?h x)"
      using cq other [OF x0] by (cases "x = q") auto
    show "nxt a \<noteq> 0 \<Longrightarrow> ?h (nxt a) \<noteq> None" using x countsD(4) [OF c] p(1) by fastforce
  next
    fix x assume "0 < (own(q := Suc (own q))) x"
    then show "?h x \<noteq> None" using counts_own [OF c, of x] countsD(4) [OF c p(1)] p(2,3) by (cases "x = q") auto
  qed (use c countsD(1) [OF c p(1)] in \<open>auto simp: counts_def\<close>)
  moreover have "edges ?h \<subseteq> edges h" by (auto simp: edge_iff split: if_splits)
  ultimately show ?thesis using s acyclic_subset by (auto simp: sound_def)
qed

text \<open>The walk of \<open>pbuf_cat\<close> ends at the last buffer of the chain.\<close>

lemma cat_loop_spec:
  assumes "sound h own" "same_links h g" "h p \<noteq> None" "h t \<noteq> None"
  shows "\<exists>l g' b. cat_loop p t g = Some (g'(l \<mapsto> b\<lparr>nxt := t\<rparr>)) \<and> (p, l) \<in> (edges h)\<^sup>* \<and> same_links h g' \<and>
    g' l = Some b \<and> nxt b = 0"
proof -
  have c: "counts h own" and wf: "wf ((edges h)\<inverse>)"
    using assms(1) edges_finite by (auto simp: sound_def counts_def finite_acyclic_wf_converse)
  show ?thesis using wf assms(2,3)
  proof (induction p arbitrary: g rule: wf_induct_rule)
    case (less p)
    obtain hb where hb: "h p = Some hb" using less.prems(2) by blast
    obtain b where b: "g p = Some b" "nxt b = nxt hb" "refs b = refs hb"
      using same_linksD [OF same_links_sym [OF less.prems(1)] hb] by metis
    obtain tb where tb: "g t = Some tb" using assms(4) same_links_dom [OF less.prems(1)] by blast
    let ?b = "b\<lparr>htot := htot b + htot tb\<rparr>"
    let ?g = "g(p \<mapsto> ?b)"
    have sl: "same_links h ?g" using less.prems(1) hb b by (simp add: same_links_def)
    show ?case
    proof (cases "nxt b = 0")
      case True
      then have "cat_loop p t g = Some (?g(p \<mapsto> ?b\<lparr>nxt := t\<rparr>))" using b(1) tb by (simp add: cat_loop.simps [of p])
      moreover have "?g p = Some ?b" "nxt ?b = 0" using True by simp_all
      ultimately show ?thesis using sl rtrancl.rtrancl_refl [of p "edges h"] by blast
    next
      case False
      then have e: "(p, nxt b) \<in> edges h" using hb b(2) by (simp add: edge_iff)
      then have "(nxt b, p) \<in> (edges h)\<inverse>" "h (nxt b) \<noteq> None" using countsD(4) [OF c hb] b(2) False by auto
      from less.IH [OF this(1) sl this(2)] obtain l g' b' where r: "cat_loop (nxt b) t ?g = Some (g'(l \<mapsto> b'\<lparr>nxt := t\<rparr>))"
        "(nxt b, l) \<in> (edges h)\<^sup>*" "same_links h g'" "g' l = Some b'" "nxt b' = 0" by blast
      have "cat_loop p t g = cat_loop (nxt b) t ?g" using False b(1) tb by (simp add: cat_loop.simps [of p])
      then have "cat_loop p t g = Some (g'(l \<mapsto> b'\<lparr>nxt := t\<rparr>))" using r(1) by (rule trans)
      then show ?thesis using r(3-5) converse_rtrancl_into_rtrancl [OF e r(2)] by blast
    qed
  qed
qed

definition apart :: "heap \<Rightarrow> nat \<Rightarrow> nat \<Rightarrow> bool" where
  "apart h p t \<longleftrightarrow> (\<forall>x. (p, x) \<in> (edges h)\<^sup>* \<longrightarrow> (t, x) \<notin> (edges h)\<^sup>*)"

lemma cat_sound:
  assumes s: "sound h own" and o: "0 < own p" "0 < own t" and a: "apart h p t"
  shows "\<exists>h'. heap_cat p t h = Some h' \<and> sound h' (own(t := own t - 1)) \<and>
    (\<forall>x b'. h' x = Some b' \<longrightarrow> (\<exists>b. h x = Some b \<and> refs b' = refs b)) \<and> dom h' = dom h"
proof -
  have c: "counts h own" using s by (simp add: sound_def)
  obtain pb tb where b: "h p = Some pb" "h t = Some tb" using counts_own [OF c] o by metis
  have z: "p \<noteq> 0" "t \<noteq> 0" using countsD(1) [OF c] b by simp_all
  obtain l g b' where r: "cat_loop p t h = Some (g(l \<mapsto> b'\<lparr>nxt := t\<rparr>))" "(p, l) \<in> (edges h)\<^sup>*" "same_links h g"
    "g l = Some b'" "nxt b' = 0" using cat_loop_spec [OF s, of h p t] b by (auto simp: same_links_def)
  have sg: "sound g own" by (rule same_links_sound [OF r(3) s])
  obtain tb' where tb': "g t = Some tb'" using same_links_dom [OF r(3)] b(2) by blast
  have e: "edges g = edges h" by (simp add: edges_def same_links_preds [OF r(3)])
  have "(t, l) \<notin> (edges g)\<^sup>*" using a r(2) by (simp add: apart_def e)
  then have "sound (g(l \<mapsto> b'\<lparr>nxt := t\<rparr>)) (own(t := own t - 1))" by (rule link_sound [OF sg r(4,5) tb' o(2)])
  moreover have "\<exists>d. h x = Some d \<and> refs d' = refs d" if d: "(g(l \<mapsto> b'\<lparr>nxt := t\<rparr>)) x = Some d'" for x d'
  proof (cases "x = l")
    case True
    then show ?thesis using d same_linksD [OF r(3,4)] by auto
  next
    case False
    then show ?thesis using d same_linksD [OF r(3), of x d'] by auto
  qed
  moreover have "dom (g(l \<mapsto> b'\<lparr>nxt := t\<rparr>)) = dom h" using same_links_dom [OF r(3)] r(4) by auto
  ultimately show ?thesis using r(1) z by (intro exI [of _ "g(l \<mapsto> b'\<lparr>nxt := t\<rparr>)"]) (simp add: heap_cat_def)
qed

lemma chain_sound:
  assumes s: "sound h own" and o: "0 < own p" "0 < own t" and a: "apart h p t"
    and t: "h t = Some tb" "unat (refs tb) < 65535"
  shows "\<exists>h'. pbuf_chain p t h = Some h' \<and> sound h' own"
proof -
  obtain h1 where h1: "heap_cat p t h = Some h1" "sound h1 (own(t := own t - 1))"
    "\<forall>x b'. h1 x = Some b' \<longrightarrow> (\<exists>b. h x = Some b \<and> refs b' = refs b)" "dom h1 = dom h"
    using cat_sound [OF s o a] by blast
  obtain b where b: "h1 t = Some b" using h1(4) t(1) by blast
  have "refs b = refs tb" using h1(3) t(1) b by (metis option.inject)
  then have "unat (refs b) < 65535" using t(2) by simp
  then obtain h' where h': "pbuf_ref t h1 = Some h'" "sound h' ((own(t := own t - 1))(t := Suc ((own(t := own t - 1)) t)))"
    using ref_sound [OF h1(2) b] by blast
  have "(own(t := own t - 1))(t := Suc ((own(t := own t - 1)) t)) = own" using o(2) by auto
  then show ?thesis using h' h1(1) by (simp add: pbuf_chain_def)
qed

text \<open>\<open>pbuf_dechain\<close> unlinks the rest of the chain and drops the reference of the link.\<close>

lemma dechain_sound:
  assumes s: "sound h own" and o: "0 < own p" and b: "h p = Some b"
  shows "\<exists>h' out. pbuf_dechain p h =
      Some (if nxt b = 0 \<or> (of_nat (length out) :: u8) \<noteq> 0 then 0 else nxt b, h', out) \<and>
    sound h' own \<and> distinct (map freed_addr out) \<and> freed_addr ` set out = dom h - dom h' \<and>
    (nxt b \<noteq> 0 \<longrightarrow> (out = [] \<longleftrightarrow> nxt b \<in> dom h')) \<and> (\<exists>b'. h' p = Some b' \<and> nxt b' = 0)"
proof (cases "nxt b = 0")
  case True
  then show ?thesis using s b by (intro exI [of _ h] exI [of _ "[]"]) (simp add: pbuf_dechain_def)
next
  case False
  have c: "counts h own" using s by (simp add: sound_def)
  obtain qb where q: "h (nxt b) = Some qb" using countsD(4) [OF c b False] by blast
  let ?q = "nxt b"
  let ?h1 = "h(?q \<mapsto> qb\<lparr>htot := htot b - hlen b\<rparr>)"
  have "(p, p) \<notin> edges h" using s unfolding sound_def acyclic_def by blast
  then have qp: "?q \<noteq> p" using b False by (auto simp: edge_iff)
  let ?h2 = "?h1(p \<mapsto> b\<lparr>htot := hlen b\<rparr>)"
  let ?h3 = "?h1(p \<mapsto> b\<lparr>nxt := 0, htot := hlen b\<rparr>)"
  have "same_links h ?h2" using b q by (simp add: same_links_def)
  then have "sound ?h2 own" by (rule same_links_sound [OF _ s])
  from unlink_sound [OF this, of p "b\<lparr>htot := hlen b\<rparr>" ?q] False
  have "sound (?h2(p \<mapsto> b\<lparr>htot := hlen b\<rparr>\<lparr>nxt := 0\<rparr>)) (own(?q := Suc (own ?q)))" by simp
  moreover have "b\<lparr>htot := hlen b\<rparr>\<lparr>nxt := 0\<rparr> = b\<lparr>nxt := 0, htot := hlen b\<rparr>" by simp
  ultimately have s3: "sound ?h3 (own(?q := Suc (own ?q)))" by (simp only: fun_upd_upd)
  have d3: "dom ?h3 = dom h" using b q by auto
  obtain h' out where r: "pbuf_free ?q ?h3 = Some (of_nat (length out), h', out)" "sound h' own"
    "survives ?h3 h'" "distinct (map freed_addr out)" "freed_addr ` set out = dom h - dom h'" "out = [] \<longleftrightarrow> ?q \<in> dom h'"
    using free_sound [OF s3, of ?q 0 "[]"] unfolding pbuf_free_def d3 by auto
  have step: "pbuf_dechain p h = do {
      (tail_gone, h', out) \<leftarrow> pbuf_free ?q ?h3; Some (if 0 < tail_gone then 0 else ?q, h', out) }"
    using b q False qp by (simp add: pbuf_dechain_def Let_def)
  have "\<exists>b'. h' p = Some b'" using counts_own [of h' own p] r(2) o by (simp add: sound_def)
  then obtain b' where b': "h' p = Some b'" by blast
  then have "nxt b' = 0" using survives_nxt [OF r(3) b'] by auto
  then show ?thesis using step r b' False by (intro exI [of _ h'] exI [of _ out]) (simp add: word_neq_0_conv)
qed

section \<open>Every use\<close>

text \<open>
  The uses the comments of \<open>pbuf.c\<close> allow: a pointer is used by who holds it, is given up with
  \<open>pbuf_free\<close> and \<open>pbuf_cat\<close>, and the chains that are put together have no buffer in common.
\<close>

inductive pbuf_use :: "heap \<Rightarrow> (nat \<Rightarrow> nat) \<Rightarrow> bool" where
  use_start: "pbuf_use Map.empty (\<lambda>_. 0)"
| use_alloc: "pbuf_use h own \<Longrightarrow> p \<noteq> 0 \<Longrightarrow> h p = None \<Longrightarrow> pbuf_use (new_pbuf p n type e h) (own(p := 1))"
| use_ref: "pbuf_use h own \<Longrightarrow> 0 < own p \<Longrightarrow> h p = Some b \<Longrightarrow> unat (refs b) < 65535 \<Longrightarrow>
    pbuf_ref p h = Some h' \<Longrightarrow> pbuf_use h' (own(p := Suc (own p)))"
| use_free: "pbuf_use h own \<Longrightarrow> 0 < own p \<Longrightarrow> pbuf_free p h = Some (n, h', out) \<Longrightarrow> pbuf_use h' (own(p := own p - 1))"
| use_cat: "pbuf_use h own \<Longrightarrow> 0 < own p \<Longrightarrow> 0 < own t \<Longrightarrow> apart h p t \<Longrightarrow> heap_cat p t h = Some h' \<Longrightarrow>
    pbuf_use h' (own(t := own t - 1))"
| use_chain: "pbuf_use h own \<Longrightarrow> 0 < own p \<Longrightarrow> 0 < own t \<Longrightarrow> apart h p t \<Longrightarrow> h t = Some b \<Longrightarrow> unat (refs b) < 65535 \<Longrightarrow>
    pbuf_chain p t h = Some h' \<Longrightarrow> pbuf_use h' own"
| use_dechain: "pbuf_use h own \<Longrightarrow> 0 < own p \<Longrightarrow> pbuf_dechain p h = Some (q, h', out) \<Longrightarrow> pbuf_use h' own"

lemma new_sound:
  assumes s: "sound h own" and p: "p \<noteq> 0" "h p = None"
  shows "sound (new_pbuf p n type e h) (own(p := 1))"
proof -
  let ?h = "new_pbuf p n type e h"
  have c: "counts h own" using s by (simp add: sound_def)
  have "preds h p = {}"
  proof -
    have "h q = Some b \<Longrightarrow> nxt b \<noteq> p" for q b using countsD(4) [OF c, of q b] p by auto
    then show ?thesis by (auto simp: preds_def)
  qed
  have pr: "preds ?h x = preds h x" if "x \<noteq> 0" for x using that p(2) by (auto simp: preds_def new_pbuf_def)
  have o: "own p = 0" using counts_own [OF c, of p] p(2) by (cases "own p") auto
  have "counts ?h (own(p := 1))"
    unfolding counts_def
  proof (intro conjI allI impI)
    fix x a assume "?h x = Some a"
    then have x: "x = p \<and> nxt a = 0 \<and> refs a = 1 \<or> x \<noteq> p \<and> h x = Some a" by (auto simp: new_pbuf_def split: if_splits)
    then have x0: "x \<noteq> 0" using countsD(1) [OF c] p(1) by blast
    show "refs a \<noteq> 0" using x countsD(2) [OF c] by auto
    show "unat (refs a) = (own(p := 1)) x + card (preds ?h x)"
      using x countsD(3) [OF c] pr [OF x0] \<open>preds h p = {}\<close> by auto
    show "nxt a \<noteq> 0 \<Longrightarrow> ?h (nxt a) \<noteq> None" using x countsD(4) [OF c, of x a] by (auto simp: new_pbuf_def)
  next
    fix x assume "0 < (own(p := 1)) x"
    then show "?h x \<noteq> None" using counts_own [OF c, of x] by (auto simp: new_pbuf_def split: if_splits)
  qed (use c p(1) in \<open>auto simp: counts_def new_pbuf_def\<close>)
  moreover have "edges ?h \<subseteq> edges h" using pr by (auto simp: edges_def)
  ultimately show ?thesis using s acyclic_subset by (auto simp: sound_def)
qed

lemma use_sound: "pbuf_use h own \<Longrightarrow> sound h own"
proof (induction rule: pbuf_use.induct)
  case use_start
  show ?case by (simp add: sound_def counts_def edges_def preds_def acyclic_def)
next
  case (use_alloc h own p n type e)
  then show ?case by (intro new_sound)
next
  case (use_ref h own p b h')
  then show ?case using ref_sound [OF use_ref.IH use_ref.hyps(3,4)] by (metis option.inject)
next
  case (use_free h own p n h' out)
  obtain h'' out' where r: "free_loop p 0 h [] = Some (0 + of_nat (length out'), h'', [] @ out')" "sound h'' (own(p := own p - 1))"
    using free_sound [OF use_free.IH use_free.hyps(2), of 0 "[]"] by blast
  have "h'' = h'" using r(1) use_free.hyps(3) by (simp add: pbuf_free_def)
  then show ?case using r(2) by blast
next
  case (use_cat h own p t h')
  then show ?case using cat_sound [OF use_cat.IH use_cat.hyps(2-4)] by (metis option.inject)
next
  case (use_chain h own p t b h')
  then show ?case using chain_sound [OF use_chain.IH use_chain.hyps(2-6)] by (metis option.inject)
next
  case (use_dechain h own p q h' out)
  obtain b where "h p = Some b" using counts_own [of h own p] use_dechain by (auto simp: sound_def)
  then show ?case using dechain_sound [OF use_dechain.IH use_dechain.hyps(2)] use_dechain.hyps(3) by auto
qed

lemma survivors_reach:
  assumes "sound h' own" "survives h h'"
  shows "dom h' = reach h own"
proof -
  have d: "dom h' = reach h' own" using dom_reach assms(1) by (simp add: sound_def)
  have c: "counts h' own" using assms(1) by (simp add: sound_def)
  have "x \<in> dom h'" if "0 < own q" "(q, x) \<in> (edges h)\<^sup>*" for q x
    using that(2)
  proof (induction rule: rtrancl_induct)
    case base
    then show ?case using counts_own [OF c that(1)] by blast
  next
    case (step y z)
    then obtain b' where b': "h' y = Some b'" by blast
    then obtain b where "h y = Some b" "nxt b' = nxt b" using survives_nxt [OF assms(2)] by blast
    then show ?case using step(2) countsD(4) [OF c b'] by (auto simp: edge_iff)
  qed
  moreover have "reach h' own \<subseteq> reach h own"
    using rtrancl_mono [OF survives_edges [OF assms(2)]] by (auto simp: reach_def)
  ultimately show ?thesis using d by (auto simp: reach_def)
qed

text \<open>
  C3: \<open>pbuf_free\<close> frees exactly what nobody can reach any more. On a heap with right counts it gives up
  one pointer of the caller, reads no freed memory, and leaves the buffers that the remaining pointers
  reach through the links, unchanged but for their counts; every other buffer goes back once to where it
  came from (a buffer of the driver with its receive buffer), and the number of them is returned, as a
  byte.
\<close>

theorem pbuf_free_collects:
  assumes "sound h own" "0 < own p"
  shows "\<exists>h' out. pbuf_free p h = Some (of_nat (card (dom h - dom h')), h', out) \<and>
    dom h' = reach h (own(p := own p - 1)) \<and> sound h' (own(p := own p - 1)) \<and>
    (\<forall>x b'. h' x = Some b' \<longrightarrow> (\<exists>b. h x = Some b \<and> b' = b\<lparr>refs := refs b'\<rparr>)) \<and>
    distinct out \<and> set out = (\<lambda>x. give_back x (the (h x))) ` (dom h - dom h')"
proof -
  obtain h' out where r: "pbuf_free p h = Some (of_nat (length out), h', out)" "sound h' (own(p := own p - 1))"
    "survives h h'" "distinct (map freed_addr out)" "freed_addr ` set out = dom h - dom h'"
    "\<forall>f \<in> set out. f = give_back (freed_addr f) (the (h (freed_addr f)))"
    using free_sound [OF assms, of 0 "[]"] by (auto simp: pbuf_free_def)
  have "length out = card (dom h - dom h')" using distinct_card [OF r(4)] r(5) by simp
  moreover have "set out = (\<lambda>x. give_back x (the (h x))) ` (dom h - dom h')"
    unfolding r(5) [symmetric] image_image using r(6) by (auto simp: image_iff)
  ultimately show ?thesis using r(1-4) survivors_reach [OF r(2,3)]
    by (intro exI [of _ h'] exI [of _ out]) (simp add: survives_def distinct_map)
qed

text \<open>The example of the comment: with counts 1, 2 and 3, freeing a->b->c leaves 1 and 3 on b and c.\<close>

definition link :: "nat \<Rightarrow> u16 \<Rightarrow> hbuf" where
  "link n r = \<lparr>nxt = n, htot = 0, hlen = 0, htype = PBUF_RAM, refs = r, eb = 0\<rparr>"

lemma pbuf_free_collects_witness:
  "\<exists>h' out. pbuf_free 4 [4 \<mapsto> link 5 1, 5 \<mapsto> link 6 2, 6 \<mapsto> link 0 3] = Some (of_nat (card ({4, 5, 6} - dom h')), h', out) \<and>
    dom h' = {5, 6} \<and> set out = {mem_free 4}"
proof -
  let ?h = "[4 \<mapsto> link 5 1, 5 \<mapsto> link 6 2, 6 \<mapsto> link 0 3]"
  let ?own = "(\<lambda>_ :: nat. 0 :: nat)(4 := 1, 5 := 1, 6 := 2)"
  have d: "dom ?h = {4, 5, 6}" by auto
  have p: "preds ?h x = (if x = 5 then {4} else if x = 6 then {5} else if x = 0 then {6} else {})" for x
    by (auto simp: preds_def link_def split: if_splits)
  have e: "edges ?h = {(4, 5), (5, 6)}" by (auto simp: edges_def p split: if_splits)
  have "nxt (link n r) = n" "refs (link n r) = r" for n r by (simp_all add: link_def)
  then have "counts ?h ?own" by (auto simp: counts_def p split: if_splits)
  moreover have "acyclic (edges ?h)" by (rule acyclicI_order [where f = "\<lambda>x. 10 - x"]) (auto simp: e)
  ultimately have s: "sound ?h ?own" by (simp add: sound_def)
  have cl: "(q, x) \<in> (edges ?h)\<^sup>* \<Longrightarrow> q \<in> {5, 6} \<Longrightarrow> x \<in> {5, 6}" for q x
    by (induction rule: rtrancl_induct) (auto simp: e)
  have own: "0 < (?own(4 := ?own 4 - 1)) q \<longleftrightarrow> q \<in> {5, 6}" for q by auto
  have "reach ?h (?own(4 := ?own 4 - 1)) = {5, 6}" unfolding reach_def own using cl by blast
  moreover have "{4, 5, 6} - {5, 6} = {4 :: nat}" by auto
  moreover have g: "give_back 4 (link 5 1) = mem_free 4" by (simp add: give_back_def link_def)
  ultimately obtain h' out where r: "pbuf_free 4 ?h = Some (of_nat (card (dom ?h - dom h')), h', out)" "dom h' = {5, 6}"
    "set out = (\<lambda>x. give_back x (the (?h x))) ` ({4, 5, 6} - {5, 6})"
    using pbuf_free_collects [OF s, of 4] unfolding d by auto
  have "set out = {mem_free 4}" using r(3) g by (simp add: \<open>{4, 5, 6} - {5, 6} = {4}\<close>)
  then show ?thesis using r(1,2) unfolding d by blast
qed



text \<open>
  \<open>pbuf_dechain\<close> returns the rest of the chain if it is still there and the null pointer if the last
  reference was the link that was cut, provided that fewer than 256 buffers are freed (the test is on
  the count modulo 256); the first buffer stays, alone.
\<close>

theorem pbuf_dechain_returns_rest:
  assumes "sound h own" "0 < own p" "h p = Some b" "card (dom h) \<le> 256"
  shows "\<exists>q h' out. pbuf_dechain p h = Some (q, h', out) \<and> sound h' own \<and>
    q = (if nxt b \<in> dom h' then nxt b else 0) \<and> (\<exists>b'. h' p = Some b' \<and> nxt b' = 0)"
proof -
  obtain h' out where r: "pbuf_dechain p h = Some (if nxt b = 0 \<or> (of_nat (length out) :: u8) \<noteq> 0 then 0 else nxt b, h', out)"
    "sound h' own" "distinct (map freed_addr out)" "freed_addr ` set out = dom h - dom h'"
    "nxt b \<noteq> 0 \<longrightarrow> (out = [] \<longleftrightarrow> nxt b \<in> dom h')" "\<exists>b'. h' p = Some b' \<and> nxt b' = 0"
    using dechain_sound [OF assms(1-3)] by blast
  have fin: "finite (dom h)" "h' 0 = None" using assms(1) r(2) by (simp_all add: sound_def counts_def)
  have "card (dom h - dom h') < card (dom h)"
    using assms(3) r(6) fin by (intro psubset_card_mono) auto
  then have "length out < 256" using distinct_card [OF r(3)] r(4) assms(4) by simp
  then have "(of_nat (length out) :: u8) \<noteq> 0 \<longleftrightarrow> out \<noteq> []" by (auto simp: word_unat_eq_iff unat_of_nat)
  then show ?thesis using r fin(2) by (cases "nxt b = 0") (auto simp: domIff)
qed

lemma pbuf_dechain_returns_rest_witness:
  "\<exists>q h' out. pbuf_dechain 4 (new_pbuf 4 10 PBUF_RAM 0 Map.empty) = Some (q, h', out) \<and> q = 0 \<and> h' 4 \<noteq> None"
proof -
  let ?h = "new_pbuf 4 10 PBUF_RAM 0 Map.empty"
  have s: "sound ?h ((\<lambda>_. 0)(4 := 1))" by (rule use_sound [OF use_alloc [OF use_start]]) simp_all
  obtain b where b: "?h 4 = Some b" "nxt b = 0" by (simp add: new_pbuf_def)
  have "card (dom ?h) \<le> 256" by (simp add: new_pbuf_def)
  from pbuf_dechain_returns_rest [OF s _ b(1) this] show ?thesis using b(2) by fastforce
qed

end
