(* ===== verification/Timeouts.thy ===== *)
theory Timeouts
  imports Prelude
begin

text \<open>
  The timeouts of the bundled lwIP (\<open>lwip/core/timers.c\<close>): one list of one-shot timers, each
  with its time relative to the one before it, and the loop that calls the expired ones. A
  handler and its argument are values of any type, so that the users of the list bring their own;
  whether \<open>memp_malloc\<close> has memory for a new entry is an argument.
\<close>

section \<open>The list\<close>

record 'h sys_timeo =
  time :: u32
  hnd :: 'h

text \<open>The loop of \<open>sys_timeout\<close> behind an entry that is not later than the new one.\<close>

fun timeout_walk :: "'h sys_timeo list \<Rightarrow> 'h sys_timeo \<Rightarrow> 'h sys_timeo list" where
  "timeout_walk [] x = [x]"
| "timeout_walk [t] x = [t, x\<lparr>time := time x - time t\<rparr>]"
| "timeout_walk (t # u # ts) x =
     (let x = x\<lparr>time := time x - time t\<rparr>
      in if time x < time u then t # x # u\<lparr>time := time u - time x\<rparr> # ts
         else t # timeout_walk (u # ts) x)"

definition sys_timeout :: "bool \<Rightarrow> u32 \<Rightarrow> 'h \<Rightarrow> 'h sys_timeo list \<Rightarrow> 'h sys_timeo list" where
  "sys_timeout has_memory msecs h ts =
     (if \<not> has_memory then ts
      else
        let x = \<lparr>time = msecs, hnd = h\<rparr>
        in case ts of
             [] \<Rightarrow> [x]
           | t # r \<Rightarrow> if msecs < time t then x # t\<lparr>time := time t - msecs\<rparr> # r else timeout_walk ts x)"

text \<open>\<open>sys_untimeout\<close>: the first match is unlinked, its time added to the one behind it.\<close>

fun sys_untimeout :: "'h \<Rightarrow> 'h sys_timeo list \<Rightarrow> 'h sys_timeo list" where
  "sys_untimeout h [] = []"
| "sys_untimeout h (t # ts) =
     (if hnd t = h
      then (case ts of [] \<Rightarrow> [] | u # r \<Rightarrow> u\<lparr>time := time u + time t\<rparr> # r)
      else t # sys_untimeout h ts)"

section \<open>What the list stands for\<close>

text \<open>The schedule: every entry with the time it is due, counted from the base of the list.\<close>

fun due :: "nat \<Rightarrow> 'h sys_timeo list \<Rightarrow> (nat \<times> 'h) list" where
  "due b [] = []"
| "due b (t # ts) = (b + unat (time t), hnd t) # due (b + unat (time t)) ts"

fun total_time :: "'h sys_timeo list \<Rightarrow> nat" where
  "total_time [] = 0"
| "total_time (t # ts) = unat (time t) + total_time ts"

text \<open>The well-formedness of a list: its times fit into 32 bits when added up.\<close>

definition wf_timeouts :: "'h sys_timeo list \<Rightarrow> bool" where
  "wf_timeouts ts \<longleftrightarrow> total_time ts < 2 ^ 32"

text \<open>The operations on a schedule: insertion behind everything not later; removal of the first match.\<close>

definition schedule :: "nat \<Rightarrow> 'h \<Rightarrow> (nat \<times> 'h) list \<Rightarrow> (nat \<times> 'h) list" where
  "schedule d h ds = takeWhile (\<lambda>e. fst e \<le> d) ds @ (d, h) # dropWhile (\<lambda>e. fst e \<le> d) ds"

fun cancel :: "'h \<Rightarrow> (nat \<times> 'h) list \<Rightarrow> (nat \<times> 'h) list" where
  "cancel h [] = []"
| "cancel h (e # ds) = (if snd e = h then ds else e # cancel h ds)"

lemma due_ge: "e \<in> set (due b ts) \<Longrightarrow> b \<le> fst e"
  by (induction ts arbitrary: b) (auto, fastforce)

lemma sorted_due: "sorted_wrt (\<lambda>d e. fst d \<le> fst e) (due b ts)"
  by (induction ts arbitrary: b) (auto dest: due_ge)

lemma due_shift: "due (b + k) ts = map (\<lambda>e. (fst e + k, snd e)) (due b ts)"
proof (induction ts arbitrary: b)
  case (Cons t ts)
  then show ?case using Cons [of "b + unat (time t)"] by (simp add: ac_simps)
qed simp

lemma due_Nil [simp]: "due b ts = [] \<longleftrightarrow> ts = []"
  by (cases ts) simp_all

lemma due_last: "ts \<noteq> [] \<Longrightarrow> fst (last (due b ts)) = b + total_time ts"
  by (induction ts arbitrary: b) auto

lemma takeWhile_none: "(\<And>e. e \<in> set ds \<Longrightarrow> d < fst e) \<Longrightarrow>
    takeWhile (\<lambda>e. fst e \<le> d) ds = [] \<and> dropWhile (\<lambda>e. fst e \<le> d) ds = (ds :: (nat \<times> 'h) list)"
proof (cases ds)
  case (Cons e r)
  assume "\<And>e. e \<in> set ds \<Longrightarrow> d < fst e"
  then have "d < fst e" using Cons by simp
  then show ?thesis by (simp add: Cons)
qed simp

lemma schedule_first: "(\<And>e. e \<in> set ds \<Longrightarrow> d < fst e) \<Longrightarrow> schedule d h ds = (d, h) # ds"
  using takeWhile_none [of ds d] by (simp add: schedule_def)

lemma schedule_Cons: "fst e \<le> d \<Longrightarrow> schedule d h (e # ds) = e # schedule d h ds"
  by (simp add: schedule_def)

lemma timeout_walk_due:
  assumes "ts \<noteq> []" "time (hd ts) \<le> time x" "total_time ts < 2 ^ 32"
  shows "due b (timeout_walk ts x) = schedule (b + unat (time x)) (hnd x) (due b ts) \<and>
    total_time (timeout_walk ts x) = max (total_time ts) (unat (time x))"
  using assms
proof (induction ts x arbitrary: b rule: timeout_walk.induct)
  case (2 t x)
  then have "unat (time x - time t) = unat (time x) - unat (time t)" "unat (time t) \<le> unat (time x)"
    by (simp_all add: unat_sub word_le_nat_alt)
  then show ?case by (simp add: schedule_def)
next
  case (3 t u ts x)
  define y where "y = x\<lparr>time := time x - time t\<rparr>"
  have y: "unat (time y) = unat (time x) - unat (time t)" "unat (time t) \<le> unat (time x)" "hnd y = hnd x"
    using 3(3) by (simp_all add: y_def unat_sub word_le_nat_alt)
  show ?case
  proof (cases "time y < time u")
    case True
    then have u: "unat (time u - time y) = unat (time u) - unat (time y)" "unat (time y) < unat (time u)"
      by (simp_all add: unat_sub word_less_nat_alt word_le_nat_alt)
    have "schedule (b + unat (time x)) (hnd x) (due b (t # u # ts)) =
        (b + unat (time t), hnd t) # (b + unat (time x), hnd x) # due (b + unat (time t)) (u # ts)"
      using y u due_ge [of _ "b + unat (time t) + unat (time u)" ts]
      by (simp add: schedule_Cons) (subst schedule_first, force+)
    then show ?thesis using True y u by (simp add: y_def [symmetric] Let_def ac_simps)
  next
    case False
    have "due (b + unat (time t)) (timeout_walk (u # ts) y) =
        schedule (b + unat (time t) + unat (time y)) (hnd y) (due (b + unat (time t)) (u # ts)) \<and>
      total_time (timeout_walk (u # ts) y) = max (total_time (u # ts)) (unat (time y))"
      using 3(1) [OF y_def] False 3(4) by (simp add: y_def)
    then show ?thesis using False y by (simp add: y_def [symmetric] Let_def schedule_Cons)
  qed
qed simp

lemma sys_timeout_due:
  assumes "total_time ts < 2 ^ 32"
  shows "due b (sys_timeout True ms h ts) = schedule (b + unat ms) h (due b ts) \<and>
    total_time (sys_timeout True ms h ts) = max (total_time ts) (unat ms)"
proof (cases ts)
  case Nil
  then show ?thesis by (simp add: sys_timeout_def schedule_def)
next
  case (Cons t r)
  show ?thesis
  proof (cases "ms < time t")
    case True
    then have u: "unat (time t - ms) = unat (time t) - unat ms" "unat ms < unat (time t)"
      by (simp_all add: unat_sub word_less_nat_alt word_le_nat_alt)
    have "schedule (b + unat ms) h (due b ts) = (b + unat ms, h) # due b ts"
      using u due_ge [of _ "b + unat (time t)" r] by (intro schedule_first) (force simp: Cons)
    then show ?thesis using True u by (simp add: sys_timeout_def Cons)
  next
    case False
    then show ?thesis using assms timeout_walk_due [of ts "\<lparr>time = ms, hnd = h\<rparr>" b]
      by (simp add: sys_timeout_def Cons)
  qed
qed

lemma sys_untimeout_due:
  assumes "total_time ts < 2 ^ 32"
  shows "due b (sys_untimeout h ts) = cancel h (due b ts) \<and> total_time (sys_untimeout h ts) \<le> total_time ts"
  using assms
proof (induction ts arbitrary: b)
  case (Cons t ts)
  show ?case
  proof (cases "hnd t = h")
    case True
    show ?thesis
    proof (cases ts)
      case (Cons u r)
      have "unat (time u + time t) = unat (time u) + unat (time t)"
        using Cons.prems by (simp add: Cons unat_word_ariths)
      then show ?thesis using True by (simp add: Cons ac_simps)
    qed (simp add: True)
  qed (use Cons in simp)
qed simp

text \<open>
  C19: the list of relative times is a sorted schedule of absolute times. Adding a timeout puts
  it at its time, behind everything due not later, and moves nothing else; cancelling removes the
  first entry with that handler and moves nothing else; both keep the list well formed (its
  times never exceed 32 bits when added up), and a well-formed list is sorted. Without memory
  nothing is added.
\<close>

theorem timeouts_refine_schedule:
  assumes "wf_timeouts ts"
  shows "due b (sys_timeout True ms h ts) = schedule (b + unat ms) h (due b ts) \<and>
    due b (sys_untimeout h ts) = cancel h (due b ts) \<and>
    wf_timeouts (sys_timeout ok ms h ts) \<and> wf_timeouts (sys_untimeout h ts) \<and>
    sorted_wrt (\<lambda>d e. fst d \<le> fst e) (due b ts) \<and> sys_timeout False ms h ts = ts"
  using assms sys_timeout_due [of ts b ms h] sys_untimeout_due [of ts b h] unsigned_less [of ms, where ?'a = nat]
  by (cases ok) (auto simp: wf_timeouts_def sorted_due sys_timeout_def)

lemma timeouts_refine_schedule_witness:
  "due 0 (sys_timeout True 5 ''b'' [\<lparr>time = 5, hnd = ''a''\<rparr>, \<lparr>time = 2, hnd = ''c''\<rparr>]) =
   [(5, ''a''), (5, ''b''), (7, ''c'')]"
proof -
  have "wf_timeouts [\<lparr>time = 5, hnd = ''a''\<rparr>, \<lparr>time = 2, hnd = ''c''\<rparr>]" by (simp add: wf_timeouts_def)
  from timeouts_refine_schedule [OF this, of 0 5 "''b''" True] show ?thesis by (simp add: schedule_def)
qed

section \<open>Calling the expired timeouts\<close>

text \<open>
  \<open>sys_check_timeouts\<close>. What a handler does to the list (without the entry that is being called)
  and to the rest of the world is a parameter. Outcomes: \<open>None\<close>, the loop does not end;
  \<open>Some None\<close>, the loop reads the null pointer at the end of the list.
\<close>

type_synonym ('h, 'x) tstate = "'h sys_timeo list \<times> 'x"

partial_function (option) check_loop ::
    "('h \<Rightarrow> ('h, 'x) tstate \<Rightarrow> ('h, 'x) tstate) \<Rightarrow> u32 \<Rightarrow> ('h, 'x) tstate \<Rightarrow> ('h, 'x) tstate option option" where
  "check_loop call diff s =
     (case fst s of
        [] \<Rightarrow> Some None
      | t # r \<Rightarrow>
          if time t \<le> diff then check_loop call (diff - time t) (call (hnd t) (r, snd s))
          else Some (Some s))"

definition LWIP_U32_DIFF :: "u32 \<Rightarrow> u32 \<Rightarrow> u32" where
  "LWIP_U32_DIFF a b = (if b \<le> a then a - b else a + (b XOR 0xFFFFFFFF) + 1)"

text \<open>Timer ticks per millisecond with the prescaler at 16 and at 256, rounded down.\<close>

definition ticks_per_ms :: "bool \<Rightarrow> u32" where
  "ticks_per_ms timer2_ms_flag = (if timer2_ms_flag then drop_bit 8 (80 * 1000000) div 1000 else drop_bit 4 (80 * 1000000) div 1000)"

definition sys_check_timeouts ::
    "('h \<Rightarrow> ('h, 'x) tstate \<Rightarrow> ('h, 'x) tstate) \<Rightarrow> bool \<Rightarrow> u32 \<Rightarrow> ('h, 'x) tstate \<times> u32 \<Rightarrow>
     (('h, 'x) tstate \<times> u32) option option" where
  "sys_check_timeouts call timer2_ms_flag now sl =
     (case fst (fst sl) of
        [] \<Rightarrow> Some (Some sl)
      | t # _ \<Rightarrow>
          let diff = LWIP_U32_DIFF now (snd sl) div ticks_per_ms timer2_ms_flag;
              last_time = (if time t \<le> diff then now else snd sl)
          in map_option (map_option (\<lambda>s. (s, last_time))) (check_loop call diff (fst sl)))"

definition sys_restart_timeouts :: "u32 \<Rightarrow> ('h, 'x) tstate \<times> u32 \<Rightarrow> ('h, 'x) tstate \<times> u32" where
  "sys_restart_timeouts now sl = (fst sl, now)"

lemma LWIP_U32_DIFF_wraps: "LWIP_U32_DIFF a b = a - b"
proof -
  have "b XOR 0xFFFFFFFF = NOT b"
  proof -
    have "(0xFFFFFFFF :: u32) = - 1" by simp
    then show ?thesis by (simp only: bit.xor_one_right)
  qed
  moreover have "NOT b + 1 = - b" by (simp add: not_eq_complement)
  ultimately show ?thesis by (simp add: LWIP_U32_DIFF_def add.assoc)
qed

text \<open>
  What the loop does on the schedule, for an elapsed time \<open>d\<close>: it calls the handlers in the
  order of their due times, as if each were called exactly when it is due (the base \<open>b\<close> moves
  there), until the next one is due later than \<open>d\<close>.
\<close>

inductive fires ::
    "('h \<Rightarrow> ('h, 'x) tstate \<Rightarrow> ('h, 'x) tstate) \<Rightarrow> nat \<Rightarrow> nat \<Rightarrow> ('h, 'x) tstate \<Rightarrow> (nat \<times> 'h) list \<Rightarrow>
     nat \<Rightarrow> ('h, 'x) tstate \<Rightarrow> bool" for call d where
  fires_stop: "fst s = t # r \<Longrightarrow> d < b + unat (time t) \<Longrightarrow> fires call d b s [] b s"
| fires_step: "fst s = t # r \<Longrightarrow> b + unat (time t) \<le> d \<Longrightarrow>
    fires call d (b + unat (time t)) (call (hnd t) (r, snd s)) l b' s' \<Longrightarrow>
    fires call d b s ((b + unat (time t), hnd t) # l) b' s'"

lemma fires_check_loop:
  "fires call d b s l b' s' \<Longrightarrow> b \<le> d \<Longrightarrow> unat diff = d - b \<Longrightarrow> check_loop call diff s = Some (Some s')"
proof (induction arbitrary: diff rule: fires.induct)
  case (fires_stop s t r b)
  then have "\<not> time t \<le> diff" by (simp add: word_le_nat_alt)
  then show ?case using fires_stop(1) by (simp add: check_loop.simps [of call diff s])
next
  case (fires_step s t r b l b' s')
  then have le: "time t \<le> diff" "unat (diff - time t) = d - (b + unat (time t))"
    by (simp_all add: word_le_nat_alt unat_sub)
  then show ?case using fires_step by (simp add: check_loop.simps [of call diff s])
qed

lemma fires_log:
  "fires call d b s l b' s' \<Longrightarrow> b \<le> d \<Longrightarrow>
   sorted_wrt (\<lambda>x y. fst x \<le> fst y) l \<and> (\<forall>e \<in> set l. b \<le> fst e \<and> fst e \<le> d) \<and> b \<le> b' \<and> b' \<le> d \<and>
   fst s' \<noteq> [] \<and> (\<forall>e \<in> set (due b' (fst s')). d < fst e)"
proof (induction rule: fires.induct)
  case (fires_stop s t r b)
  then show ?case using due_ge [of _ "b + unat (time t)" r] by fastforce
next
  case (fires_step s t r b l b' s')
  then have IH: "sorted_wrt (\<lambda>x y. fst x \<le> fst y) l \<and> (\<forall>e \<in> set l. b + unat (time t) \<le> fst e \<and> fst e \<le> d) \<and>
      b + unat (time t) \<le> b' \<and> b' \<le> d \<and> fst s' \<noteq> [] \<and> (\<forall>e \<in> set (due b' (fst s')). d < fst e)" by blast
  then show ?case using fires_step(2) by fastforce
qed

text \<open>
  The loop ends if no handler can postpone the end: entries due at once do not become more, and
  the list does not become empty.
\<close>

fun zeros :: "'h sys_timeo list \<Rightarrow> nat" where
  "zeros [] = 0"
| "zeros (t # ts) = (if time t = 0 then Suc (zeros ts) else 0)"

lemma fires_total:
  assumes step: "\<And>t r x. ok (t # r, x) \<Longrightarrow> ok (call (hnd t) (r, x)) \<and> zeros (fst (call (hnd t) (r, x))) \<le> zeros r"
    and ne: "\<And>x. \<not> ok ([], x)"
    and "ok s" "b \<le> d"
  shows "\<exists>l b' s'. fires call d b s l b' s' \<and> ok s'"
  using assms(3,4)
proof (induction "d - b" arbitrary: b s rule: less_induct)
  case (less b)
  note outer = less.hyps
  from less.prems show ?case
  proof (induction "zeros (fst s)" arbitrary: s rule: less_induct)
    case (less s)
    obtain t r x where s: "s = (t # r, x)" using ne less.prems(1) by (cases s, cases "fst s") auto
    show ?case
    proof (cases "b + unat (time t) \<le> d")
      case False
      then show ?thesis using less.prems(1) by (intro exI [of _ "[]"] exI [of _ b] exI [of _ s] conjI fires_stop [of _ t r])
        (simp_all add: s)
    next
      case True
      let ?s = "call (hnd t) (r, x)"
      have ok: "ok ?s" "zeros (fst ?s) \<le> zeros r" using step less.prems(1) by (simp_all add: s)
      have "\<exists>l b' s'. fires call d (b + unat (time t)) ?s l b' s' \<and> ok s'"
      proof (cases "time t = 0")
        case True
        then have "zeros (fst ?s) < zeros (fst s)" using ok(2) by (simp add: s)
        then show ?thesis using less.hyps ok(1) less.prems(2) True by simp
      next
        case False
        then have "0 < unat (time t)" by (simp add: unat_gt_0)
        then show ?thesis using outer [of "b + unat (time t)" ?s] ok(1) True by simp
      qed
      then obtain l b' s' where "fires call d (b + unat (time t)) ?s l b' s'" "ok s'" by blast
      then show ?thesis
        using True by (intro exI [of _ "(b + unat (time t), hnd t) # l"] exI [of _ b'] exI [of _ s'] conjI fires_step)
          (simp_all add: s)
    qed
  qed
qed

lemma zeros_insert_loop:
  "ts \<noteq> [] \<Longrightarrow> time (hd ts) \<le> time x \<Longrightarrow> 0 < time x \<Longrightarrow> zeros (timeout_walk ts x) \<le> zeros ts"
proof (induction ts x rule: timeout_walk.induct)
  case (2 t x)
  then show ?case by auto
next
  case (3 t u ts x)
  then show ?case by (cases "time t = 0"; cases "time u = 0") (simp_all add: Let_def not_less)
qed simp

lemma zeros_sys_timeout: "0 < ms \<Longrightarrow> zeros (sys_timeout ok ms h ts) \<le> zeros ts"
  using zeros_insert_loop [of ts "\<lparr>time = ms, hnd = h\<rparr>"]
  by (cases ts; cases "time (hd ts) = 0") (auto simp: sys_timeout_def not_less Let_def word_gt_0)

section \<open>The timers of the stack\<close>

text \<open>
  The periodic timers of \<open>timers.c\<close> in this configuration (\<open>LWIP_ARP\<close>, \<open>LWIP_DHCP\<close>,
  \<open>LWIP_IGMP\<close>, \<open>LWIP_DNS\<close>, \<open>LWIP_TCP\<close> set; \<open>IP_REASSEMBLY\<close>, \<open>LWIP_AUTOIP\<close> not). Parameters:
  what the module's own timer function does to the rest of the world (\<open>tmr\<close>, for example
  \<open>etharp_tmr\<close>), and whether a connection is active or in time-wait there (\<open>pcbs\<close>). The world is
  paired with the flag \<open>tcpip_tcp_timer_active\<close>.
\<close>

datatype stack_timer =
  tcpip_tcp_timer | arp_timer | dhcp_timer_coarse | dhcp_timer_fine | igmp_timer | dns_timer

fun interval :: "stack_timer \<Rightarrow> u32" where
  "interval tcpip_tcp_timer = 125"
| "interval arp_timer = 5000"
| "interval dhcp_timer_coarse = 60 * 1000"
| "interval dhcp_timer_fine = 500"
| "interval igmp_timer = 100"
| "interval dns_timer = 1000"

fun run_timer ::
    "bool \<Rightarrow> (stack_timer \<Rightarrow> 'w \<Rightarrow> 'w) \<Rightarrow> ('w \<Rightarrow> bool) \<Rightarrow> stack_timer \<Rightarrow>
     (stack_timer, bool \<times> 'w) tstate \<Rightarrow> (stack_timer, bool \<times> 'w) tstate" where
  "run_timer mem tmr pcbs f (ts, active, w) =
     (let w = tmr f w
      in if f = tcpip_tcp_timer \<and> \<not> pcbs w then (ts, False, w)
         else (sys_timeout mem (interval f) f ts, active, w))"

definition tcp_timer_needed ::
    "bool \<Rightarrow> ('w \<Rightarrow> bool) \<Rightarrow> (stack_timer, bool \<times> 'w) tstate \<Rightarrow> (stack_timer, bool \<times> 'w) tstate" where
  "tcp_timer_needed mem pcbs s =
     (let (ts, active, w) = s
      in if \<not> active \<and> pcbs w then (sys_timeout mem (interval tcpip_tcp_timer) tcpip_tcp_timer ts, True, w) else s)"

text \<open>The entries \<open>sys_timeouts_init\<close> makes, in its order.\<close>

definition sys_timeouts_init :: "bool \<Rightarrow> stack_timer sys_timeo list \<Rightarrow> stack_timer sys_timeo list" where
  "sys_timeouts_init mem ts =
     fold (\<lambda>f. sys_timeout mem (interval f) f)
       [arp_timer, dhcp_timer_coarse, dhcp_timer_fine, igmp_timer, dns_timer, tcpip_tcp_timer] ts"

lemma interval_pos [simp]: "0 < interval f" "0 < unat (interval f)" "unat (interval f) \<le> 60000"
  by (cases f; simp)+

abbreviation of_timer :: "stack_timer \<Rightarrow> (nat \<times> stack_timer) list \<Rightarrow> (nat \<times> stack_timer) list" where
  "of_timer f \<equiv> filter (\<lambda>e. snd e = f)"

lemma of_timer_schedule:
  "f \<noteq> h \<Longrightarrow> of_timer f (schedule d h ds) = of_timer f ds"
  "of_timer f ds = [] \<Longrightarrow> of_timer f (schedule d f ds) = [(d, f)]"
proof -
  let ?l = "takeWhile (\<lambda>e. fst e \<le> d) ds" and ?r = "dropWhile (\<lambda>e. fst e \<le> d) ds"
  have eq: "of_timer f ds = of_timer f ?l @ of_timer f ?r"
    by (metis filter_append takeWhile_dropWhile_id)
  show "f \<noteq> h \<Longrightarrow> of_timer f (schedule d h ds) = of_timer f ds" by (simp add: schedule_def eq)
  assume "of_timer f ds = []"
  then have "of_timer f ?l = []" "of_timer f ?r = []" using eq by simp_all
  then show "of_timer f (schedule d f ds) = [(d, f)]" unfolding schedule_def filter_append by simp
qed

text \<open>
  The invariant while the expired timers are called: \<open>n f\<close> calls of \<open>f\<close> so far, and its only
  entry is due one interval after the last of them.
\<close>

definition on_time :: "nat \<Rightarrow> (stack_timer \<Rightarrow> nat) \<Rightarrow> (stack_timer, 'x) tstate \<Rightarrow> bool" where
  "on_time b n s \<longleftrightarrow> total_time (fst s) < 2 ^ 32 \<and>
     (\<forall>f. f \<noteq> tcpip_tcp_timer \<longrightarrow> of_timer f (due b (fst s)) = [(unat (interval f) * (n f + 1), f)])"

lemma of_timer_head: "of_timer h ((c, h) # ds) = [(d, h)] \<Longrightarrow> c = d \<and> of_timer h ds = []"
  by simp

lemma on_time_step:
  assumes ot: "on_time b n (t # r, x)" and c: "c = b + unat (time t)"
  defines "n' \<equiv> n(hnd t := n (hnd t) + 1)"
  shows "on_time c n' (run_timer True tmr pcbs (hnd t) (r, x)) \<and>
    zeros (fst (run_timer True tmr pcbs (hnd t) (r, x))) \<le> zeros r \<and>
    (hnd t \<noteq> tcpip_tcp_timer \<longrightarrow> c = unat (interval (hnd t)) * (n (hnd t) + 1))"
proof -
  let ?h = "hnd t"
  obtain a w where x: "x = (a, w)" by (cases x)
  have tot: "total_time r < 2 ^ 32" using ot by (simp add: on_time_def)
  have all: "of_timer f ((c, ?h) # due c r) = [(unat (interval f) * (n f + 1), f)]" if "f \<noteq> tcpip_tcp_timer" for f
    using ot that by (simp add: on_time_def c del: filter.simps)
  note st = sys_timeout_due [OF tot, of c "interval ?h" ?h]
  have tot': "total_time (sys_timeout True (interval ?h) ?h r) < 2 ^ 32"
    using st tot unsigned_less [of "interval ?h", where ?'a = nat] by (simp add: max_def)
  have other: "of_timer f (due c r) = [(unat (interval f) * (n' f + 1), f)] \<and>
      of_timer f (due c (sys_timeout True (interval ?h) ?h r)) = [(unat (interval f) * (n' f + 1), f)]"
    if "f \<noteq> ?h" "f \<noteq> tcpip_tcp_timer" for f
    using all [OF that(2)] that(1) st by (simp add: of_timer_schedule n'_def)
  show ?thesis
  proof (cases "?h = tcpip_tcp_timer")
    case True
    then show ?thesis using other tot tot' zeros_sys_timeout [of "interval ?h" True ?h r]
      by (auto simp: x on_time_def Let_def)
  next
    case False
    note own = of_timer_head [OF all [OF False], THEN conjunct1] of_timer_head [OF all [OF False], THEN conjunct2]
    have "of_timer ?h (due c (sys_timeout True (interval ?h) ?h r)) = [(c + unat (interval ?h), ?h)]"
      by (simp only: st of_timer_schedule(2) [OF own(2)])
    moreover have "c + unat (interval ?h) = unat (interval ?h) * (n' ?h + 1)" using own(1) by (simp add: n'_def)
    ultimately have "of_timer ?h (due c (sys_timeout True (interval ?h) ?h r)) = [(unat (interval ?h) * (n' ?h + 1), ?h)]"
      by (simp only:)
    then have "of_timer f (due c (sys_timeout True (interval ?h) ?h r)) = [(unat (interval f) * (n' f + 1), f)]"
      if "f \<noteq> tcpip_tcp_timer" for f using other that by (cases "f = ?h") auto
    then show ?thesis using False own(1) tot' zeros_sys_timeout [of "interval ?h" True ?h r]
      by (simp add: x on_time_def Let_def)
  qed
qed

lemma fires_on_time:
  "fires (run_timer True tmr pcbs) d b s l b' s' \<Longrightarrow> on_time b n s \<Longrightarrow>
   \<exists>n'. on_time b' n' s' \<and> (\<forall>f. f \<noteq> tcpip_tcp_timer \<longrightarrow> n f \<le> n' f \<and>
     of_timer f l = map (\<lambda>k. (unat (interval f) * (k + 1), f)) [n f..<n' f])"
proof (induction arbitrary: n rule: fires.induct)
  case (fires_stop s t r b)
  then show ?case by auto
next
  case (fires_step s t r b l b' s')
  let ?c = "b + unat (time t)"
  have "on_time b n (t # r, snd s)" using fires_step by (cases s) simp
  note step = on_time_step [OF this refl, of tmr pcbs]
  then obtain n' where n': "on_time b' n' s'"
    "\<And>f. f \<noteq> tcpip_tcp_timer \<Longrightarrow> (n(hnd t := n (hnd t) + 1)) f \<le> n' f \<and>
       of_timer f l = map (\<lambda>k. (unat (interval f) * (k + 1), f)) [(n(hnd t := n (hnd t) + 1)) f..<n' f]"
    using fires_step.IH [of "n(hnd t := n (hnd t) + 1)"] by blast
  have "n f \<le> n' f \<and> of_timer f ((?c, hnd t) # l) = map (\<lambda>k. (unat (interval f) * (k + 1), f)) [n f..<n' f]"
    if "f \<noteq> tcpip_tcp_timer" for f
  proof (cases "f = hnd t")
    case True
    then have "n f < n' f" "?c = unat (interval f) * (n f + 1)" using n'(2) [OF that] step that by auto
    then show ?thesis using n'(2) [OF that] True by (simp add: upt_conv_Cons)
  next
    case False
    then show ?thesis using n'(2) [OF that] by simp
  qed
  then show ?case using n'(1) by blast
qed

definition elapsed :: "u32 \<Rightarrow> u32 \<Rightarrow> bool \<Rightarrow> nat" where
  "elapsed now prev ms_flag = unat (LWIP_U32_DIFF now prev div ticks_per_ms ms_flag)"



section \<open>One-shot timeouts\<close>

lemma check_loop_one_shot:
  "check_loop (\<lambda>h s. s) diff (ts, x) =
     Some (if total_time ts \<le> unat diff then None
           else Some (let n = length (takeWhile (\<lambda>e. fst e \<le> unat diff) (due 0 ts)) in (drop n ts, x)))"
proof (induction ts arbitrary: diff)
  case Nil
  then show ?case by (simp add: check_loop.simps [of _ diff "([], x)"])
next
  case (Cons t ts)
  show ?case
  proof (cases "time t \<le> diff")
    case True
    then have le: "unat (time t) \<le> unat diff" "unat (diff - time t) = unat diff - unat (time t)"
      by (simp_all add: word_le_nat_alt unat_sub)
    have "takeWhile (\<lambda>e. fst e \<le> unat diff) (due (unat (time t)) ts) =
        map (\<lambda>e. (fst e + unat (time t), snd e)) (takeWhile (\<lambda>e. fst e \<le> unat diff - unat (time t)) (due 0 ts))"
      using due_shift [of 0 "unat (time t)" ts] le(1) by (simp add: takeWhile_map o_def le_diff_conv2)
    moreover have "total_time (t # ts) \<le> unat diff \<longleftrightarrow> total_time ts \<le> unat diff - unat (time t)" using le(1) by auto
    ultimately show ?thesis using True le
      by (simp add: check_loop.simps [of _ diff "(t # ts, x)"] Cons Let_def)
  next
    case False
    then have "\<not> unat (time t) \<le> unat diff" by (simp add: word_le_nat_alt)
    then show ?thesis using False by (simp add: check_loop.simps [of _ diff "(t # ts, x)"] Let_def)
  qed
qed

text \<open>
  With timeouts that no handler renews, \<open>sys_check_timeouts\<close> reads the null pointer exactly
  when every timeout of a non-empty list has expired; otherwise it leaves the timeouts that are
  not due, counts the next one from now on although only the remainder of its time is left (it
  comes late), and keeps its old time stamp if none was due.
\<close>

theorem sys_check_timeouts_one_shot:
  "sys_check_timeouts (\<lambda>h s. s) ms_flag now ((ts, x), prev) =
    (let d = elapsed now prev ms_flag; n = length (takeWhile (\<lambda>e. fst e \<le> d) (due 0 ts))
     in if ts \<noteq> [] \<and> total_time ts \<le> d then Some None
        else Some (Some ((drop n ts, x), if n = 0 then prev else now)))"
proof (cases ts)
  case Nil
  then show ?thesis by (simp add: sys_check_timeouts_def)
next
  case (Cons t r)
  then show ?thesis
    by (simp add: sys_check_timeouts_def check_loop_one_shot elapsed_def Let_def word_le_nat_alt)
qed

end
