(* ===== verification/SntpTime.thy ===== *)
theory SntpTime
  imports Prelude "HOL-Library.Signed_Division"
begin

text \<open>
  The calendar of the SNTP client (\<open>lwip/core/sntp.c\<close>): from seconds since 1970 to a broken-down
  time, and the text of it. C's division truncates, so \<open>/\<close> and \<open>%\<close> are \<open>sdiv\<close> and \<open>smod\<close>; the
  numbers stay within 32 bits and are kept as integers. An array index out of range is \<open>None\<close>.
\<close>

section \<open>The code\<close>

record tm =
  tm_sec :: int
  tm_min :: int
  tm_hour :: int
  tm_mday :: int
  tm_mon :: int
  tm_year :: int
  tm_wday :: int
  tm_yday :: int
  tm_isdst :: int

abbreviation "SECSPERMIN \<equiv> 60 :: int"
abbreviation "MINSPERHOUR \<equiv> 60 :: int"
abbreviation "HOURSPERDAY \<equiv> 24 :: int"
abbreviation "SECSPERHOUR \<equiv> SECSPERMIN * MINSPERHOUR"
abbreviation "SECSPERDAY \<equiv> SECSPERHOUR * HOURSPERDAY"
abbreviation "DAYSPERWEEK \<equiv> 7 :: int"
abbreviation "YEAR_BASE \<equiv> 1900 :: int"
abbreviation "EPOCH_YEAR \<equiv> 1970 :: int"
abbreviation "EPOCH_WDAY \<equiv> 4 :: int"

definition isleap :: "int \<Rightarrow> bool" where
  "isleap y \<longleftrightarrow> y smod 4 = 0 \<and> y smod 100 \<noteq> 0 \<or> y smod 400 = 0"

definition mon_lengths :: "bool \<Rightarrow> int list" where
  "mon_lengths leap = [31, if leap then 29 else 28, 31, 30, 31, 30, 31, 31, 30, 31, 30, 31]"

definition year_lengths :: "bool \<Rightarrow> int" where
  "year_lengths leap = (if leap then 366 else 365)"

lemma year_lengths_pos: "0 < year_lengths l"
  by (simp add: year_lengths_def)

text \<open>The loops that bring the rest of the day into range.\<close>

function borrow_day :: "int \<Rightarrow> int \<Rightarrow> int \<times> int" where
  "borrow_day days rem = (if rem < 0 then borrow_day (days - 1) (rem + SECSPERDAY) else (days, rem))"
  by pat_completeness auto
termination by (relation "measure (\<lambda>(_, rem). nat (- rem))") auto

function carry_day :: "int \<Rightarrow> int \<Rightarrow> int \<times> int" where
  "carry_day days rem = (if SECSPERDAY \<le> rem then carry_day (days + 1) (rem - SECSPERDAY) else (days, rem))"
  by pat_completeness auto
termination by (relation "measure (\<lambda>(_, rem). nat rem)") auto

text \<open>The two year loops, from 1970 up and down, and the month loop.\<close>

function year_up :: "int \<Rightarrow> int \<Rightarrow> int \<times> int" where
  "year_up y days =
     (if days < year_lengths (isleap y) then (y, days) else year_up (y + 1) (days - year_lengths (isleap y)))"
  by pat_completeness auto
termination
proof (relation "measure (\<lambda>(_, days). nat days)")
  fix y days
  assume "\<not> days < year_lengths (isleap y)"
  then show "((y + 1, days - year_lengths (isleap y)), y, days) \<in> measure (\<lambda>(_, days). nat days)"
    using year_lengths_pos [of "isleap y"] by simp
qed simp

function year_down :: "int \<Rightarrow> int \<Rightarrow> int \<times> int" where
  "year_down y days =
     (let y = y - 1; days = days + year_lengths (isleap y)
      in if days < 0 then year_down y days else (y, days))"
  by pat_completeness auto
termination
proof (relation "measure (\<lambda>(_, days). nat (- days))")
  fix y days x xa :: int
  assume "x = y - 1" "xa = days + year_lengths (isleap x)" "xa < 0"
  then show "((x, xa), y, days) \<in> measure (\<lambda>(_, days). nat (- days))"
    using year_lengths_pos [of "isleap x"] by simp
qed simp

declare borrow_day.simps [simp del] carry_day.simps [simp del] year_up.simps [simp del] year_down.simps [simp del]

fun month_loop :: "int list \<Rightarrow> int \<Rightarrow> int \<Rightarrow> (int \<times> int) option" where
  "month_loop [] mon days = None"
| "month_loop (m # ip) mon days = (if m \<le> days then month_loop ip (mon + 1) (days - m) else Some (mon, days))"

text \<open>The first half of \<open>sntp_mktm_r\<close>: the time in GMT, and whether its year is a leap year.\<close>

definition break_down :: "int \<Rightarrow> (tm \<times> bool) option" where
  "break_down t =
     (let (days, rem) = borrow_day (t sdiv SECSPERDAY) (t smod SECSPERDAY);
          (days, rem) = carry_day days rem;
          hour = rem sdiv SECSPERHOUR;
          rem = rem smod SECSPERHOUR;
          wday = (EPOCH_WDAY + days) smod DAYSPERWEEK;
          wday = (if wday < 0 then wday + DAYSPERWEEK else wday);
          (y, yday) = (if 0 \<le> days then year_up EPOCH_YEAR days else year_down EPOCH_YEAR days)
      in map_option (\<lambda>(mon, d).
           (\<lparr>tm_sec = rem smod SECSPERMIN, tm_min = rem sdiv SECSPERMIN, tm_hour = hour, tm_mday = d + 1,
             tm_mon = mon, tm_year = y - YEAR_BASE, tm_wday = wday, tm_yday = yday, tm_isdst = 0\<rparr>, isleap y))
           (month_loop (mon_lengths (isleap y)) 0 yday))"

text \<open>The second half, for local time: the zone's offset is subtracted and carried upwards.\<close>

definition sub_offset :: "int \<Rightarrow> tm \<Rightarrow> tm" where
  "sub_offset offset r =
     (let hours = offset sdiv SECSPERHOUR; rest = offset smod SECSPERHOUR
      in r\<lparr>tm_sec := tm_sec r - rest smod SECSPERMIN, tm_min := tm_min r - rest sdiv SECSPERMIN,
           tm_hour := tm_hour r - hours\<rparr>)"

definition carry_sec :: "tm \<Rightarrow> tm" where
  "carry_sec r =
     (if SECSPERMIN \<le> tm_sec r then r\<lparr>tm_min := tm_min r + 1, tm_sec := tm_sec r - SECSPERMIN\<rparr>
      else if tm_sec r < 0 then r\<lparr>tm_min := tm_min r - 1, tm_sec := tm_sec r + SECSPERMIN\<rparr> else r)"

definition carry_min :: "tm \<Rightarrow> tm" where
  "carry_min r =
     (if MINSPERHOUR \<le> tm_min r then r\<lparr>tm_hour := tm_hour r + 1, tm_min := tm_min r - MINSPERHOUR\<rparr>
      else if tm_min r < 0 then r\<lparr>tm_hour := tm_hour r - 1, tm_min := tm_min r + MINSPERHOUR\<rparr> else r)"

definition next_day :: "int list \<Rightarrow> tm \<Rightarrow> tm option" where
  "next_day ip r =
     (let r = r\<lparr>tm_yday := tm_yday r + 1, tm_wday := (if 6 < tm_wday r + 1 then 0 else tm_wday r + 1),
           tm_mday := tm_mday r + 1, tm_hour := tm_hour r - HOURSPERDAY\<rparr>
      in do {
        m \<leftarrow> ld ip (nat (tm_mon r));
        Some (if m < tm_mday r then
          let r = r\<lparr>tm_mday := tm_mday r - m, tm_mon := tm_mon r + 1\<rparr>
          in if tm_mon r = 12 then r\<lparr>tm_mon := 0, tm_year := tm_year r + 1, tm_yday := 0\<rparr> else r
        else r)
      })"

definition prev_day :: "int list \<Rightarrow> tm \<Rightarrow> tm option" where
  "prev_day ip r =
     (let r = r\<lparr>tm_yday := tm_yday r - 1, tm_wday := (if tm_wday r - 1 < 0 then 6 else tm_wday r - 1),
           tm_mday := tm_mday r - 1, tm_hour := tm_hour r + 24\<rparr>
      in if tm_mday r = 0 then
           let r = r\<lparr>tm_mon := tm_mon r - 1\<rparr>;
               r = (if tm_mon r < 0
                    then let r = r\<lparr>tm_mon := 11, tm_year := tm_year r - 1\<rparr>
                         in r\<lparr>tm_yday := 365 + of_bool (isleap (tm_year r))\<rparr>
                    else r)
           in map_option (\<lambda>m. r\<lparr>tm_mday := m\<rparr>) (ld ip (nat (tm_mon r)))
         else Some r)"

definition carry_hour :: "int list \<Rightarrow> tm \<Rightarrow> tm option" where
  "carry_hour ip r =
     (if HOURSPERDAY \<le> tm_hour r then next_day ip r else if tm_hour r < 0 then prev_day ip r else Some r)"

text \<open>
  \<open>sntp_mktm_r\<close>; \<open>offset\<close> is \<open>sntp__tzrule[0].offset\<close>, which nothing in the program sets (it is
  zero). \<open>sntp_localtime_r\<close> is the case of local time.
\<close>

definition sntp_mktm_r :: "int \<Rightarrow> int \<Rightarrow> bool \<Rightarrow> tm option" where
  "sntp_mktm_r offset t is_gmtime = do {
     (r, leap) \<leftarrow> break_down t;
     if is_gmtime then Some r
     else carry_hour (mon_lengths leap) (carry_min (carry_sec (sub_offset offset r)))
   }"

definition sntp_localtime_r :: "int \<Rightarrow> int \<Rightarrow> tm option" where
  "sntp_localtime_r offset t = sntp_mktm_r offset t False"

section \<open>The calendar\<close>

text \<open>Days of the proleptic Gregorian calendar, counted from 1 January 1970.\<close>

definition leaps :: "int \<Rightarrow> int" where
  "leaps y = y div 4 - y div 100 + y div 400"

definition year_start :: "int \<Rightarrow> int" where
  "year_start y = 365 * (y - 1970) + leaps (y - 1) - leaps 1969"

definition month_start :: "int \<Rightarrow> int \<Rightarrow> int" where
  "month_start y mon = year_start y + sum_list (take (nat mon) (mon_lengths (isleap y)))"

text \<open>A time on the calendar, its day number and its second.\<close>

definition on_calendar :: "tm \<Rightarrow> bool" where
  "on_calendar r \<longleftrightarrow> 0 \<le> tm_sec r \<and> tm_sec r < 60 \<and> 0 \<le> tm_min r \<and> tm_min r < 60 \<and>
     0 \<le> tm_hour r \<and> tm_hour r < 24 \<and> 0 \<le> tm_mon r \<and> tm_mon r < 12 \<and>
     1 \<le> tm_mday r \<and> tm_mday r \<le> mon_lengths (isleap (1900 + tm_year r)) ! nat (tm_mon r)"

definition day_number :: "tm \<Rightarrow> int" where
  "day_number r = month_start (1900 + tm_year r) (tm_mon r) + tm_mday r - 1"

definition seconds :: "tm \<Rightarrow> int" where
  "seconds r = 86400 * day_number r + 3600 * tm_hour r + 60 * tm_min r + tm_sec r"

definition weekday_ok :: "tm \<Rightarrow> bool" where
  "weekday_ok r \<longleftrightarrow> tm_wday r = (4 + day_number r) mod 7"

definition yearday_ok :: "tm \<Rightarrow> bool" where
  "yearday_ok r \<longleftrightarrow> tm_yday r = day_number r - year_start (1900 + tm_year r)"

lemma isleap_mod: "isleap y \<longleftrightarrow> y mod 4 = 0 \<and> y mod 100 \<noteq> 0 \<or> y mod 400 = 0"
proof -
  have "y smod k = 0 \<longleftrightarrow> y mod k = 0" for k
    by (cases "y = 0") (simp_all add: smod_int_alt_def sgn_0_0 flip: dvd_eq_mod_eq_0)
  then show ?thesis by (simp add: isleap_def)
qed

lemma of_bool_nested: "(b \<Longrightarrow> a) \<Longrightarrow> (c \<Longrightarrow> b) \<Longrightarrow>
    of_bool a - of_bool b + of_bool c = (of_bool (a \<and> \<not> b \<or> c) :: int)"
  by auto

lemma leaps_step: "leaps y - leaps (y - 1) = of_bool (isleap y)"
proof -
  have d: "y div k - (y - 1) div k = of_bool (y mod k = 0)" if "0 < k" for k :: int
  proof (cases "y mod k = 0")
    case True
    then obtain c where c: "y = k * c" by blast
    have "k * c - 1 = k * (c - 1) + (k - 1)" by (simp add: right_diff_distrib)
    then have "(y - 1) div k = y div k - 1" using that c int_div_pos_eq [of "y - 1" k "c - 1" "k - 1"] by simp
    then show ?thesis using True by simp
  next
    case False
    moreover have "0 \<le> y mod k" "y mod k < k" "k * (y div k) + y mod k = y" using that by simp_all
    ultimately have "y - 1 = k * (y div k) + (y mod k - 1)" "0 \<le> y mod k - 1" "y mod k - 1 < k"
      by linarith+
    then have "(y - 1) div k = y div k" by (intro int_div_pos_eq)
    then show ?thesis using False by simp
  qed
  have "y mod 100 mod 4 = y mod 4" "y mod 400 mod 100 = y mod 100" by (simp_all add: mod_mod_cancel)
  then have h: "y mod 100 = 0 \<Longrightarrow> y mod 4 = 0" "y mod 400 = 0 \<Longrightarrow> y mod 100 = 0" by (metis mod_0)+
  have "leaps y - leaps (y - 1) =
      (y div 4 - (y - 1) div 4) - (y div 100 - (y - 1) div 100) + (y div 400 - (y - 1) div 400)"
    by (simp only: leaps_def)
  also have "\<dots> = of_bool (y mod 4 = 0) - of_bool (y mod 100 = 0) + of_bool (y mod 400 = 0)"
    by (simp only: d zero_less_numeral)
  also have "\<dots> = of_bool (isleap y)" unfolding isleap_mod by (rule of_bool_nested [OF h])
  finally show ?thesis .
qed

lemma year_start_Suc: "year_start (y + 1) = year_start y + year_lengths (isleap y)"
  using leaps_step [of y] by (cases "isleap y") (simp_all add: year_start_def year_lengths_def)

lemma year_start_epoch [simp]: "year_start 1970 = 0"
  by (simp add: year_start_def)

lemma year_up_spec:
  "0 \<le> days \<Longrightarrow> year_up y days = (y', d) \<Longrightarrow>
   0 \<le> d \<and> d < year_lengths (isleap y') \<and> year_start y' + d = year_start y + days"
proof (induction y days rule: year_up.induct)
  case (1 y days)
  show ?case
  proof (cases "days < year_lengths (isleap y)")
    case True
    then show ?thesis using 1(2,3) by (auto simp: year_up.simps [of y])
  next
    case False
    then show ?thesis using 1(1) [OF False] 1(3) year_start_Suc [of y] by (auto simp: year_up.simps [of y])
  qed
qed

lemma year_down_spec:
  "days < 0 \<Longrightarrow> year_down y days = (y', d) \<Longrightarrow>
   0 \<le> d \<and> d < year_lengths (isleap y') \<and> year_start y' + d = year_start y + days"
proof (induction y days rule: year_down.induct)
  case (1 y days)
  let ?d = "days + year_lengths (isleap (y - 1))"
  have s: "year_start y = year_start (y - 1) + year_lengths (isleap (y - 1))"
    using year_start_Suc [of "y - 1"] by simp
  show ?case
  proof (cases "?d < 0")
    case True
    then show ?thesis using 1(1) [OF refl refl True] 1(3) s by (auto simp: year_down.simps [of y] Let_def)
  next
    case False
    then show ?thesis using 1(2,3) s by (auto simp: year_down.simps [of y] Let_def)
  qed
qed

lemma month_loop_spec:
  "0 \<le> days \<Longrightarrow> days < sum_list ip \<Longrightarrow>
   \<exists>n d. month_loop ip mon days = Some (mon + int n, d) \<and> n < length ip \<and> 0 \<le> d \<and> d < ip ! n \<and>
     sum_list (take n ip) + d = days"
proof (induction ip mon days rule: month_loop.induct)
  case (2 m ip mon days)
  show ?case
  proof (cases "m \<le> days")
    case True
    then obtain n d where "month_loop ip (mon + 1) (days - m) = Some (mon + 1 + int n, d)" "n < length ip"
      "0 \<le> d" "d < ip ! n" "sum_list (take n ip) + d = days - m" using 2 by auto
    then show ?thesis using True by (intro exI [of _ "Suc n"] exI [of _ d]) (simp add: add.assoc)
  qed (use 2 in \<open>auto intro: exI [of _ 0]\<close>)
qed simp

lemma mon_lengths_facts:
  "length (mon_lengths l) = 12" "sum_list (mon_lengths l) = year_lengths l"
  "n < 12 \<Longrightarrow> 28 \<le> mon_lengths l ! n"
proof -
  show "length (mon_lengths l) = 12" "sum_list (mon_lengths l) = year_lengths l"
    by (simp_all add: mon_lengths_def year_lengths_def)
  have "\<forall>m \<in> set (mon_lengths l). 28 \<le> m" "length (mon_lengths l) = 12" by (simp_all add: mon_lengths_def)
  then show "n < 12 \<Longrightarrow> 28 \<le> mon_lengths l ! n" by (metis nth_mem)
qed

text \<open>Truncated division, and the division the calendar means.\<close>

lemma sdiv_smod_borrow:
  fixes t k :: int
  assumes "0 < k"
  shows "t smod k < 0 \<Longrightarrow> t div k = t sdiv k - 1 \<and> t mod k = t smod k + k"
    and "0 \<le> t smod k \<Longrightarrow> t div k = t sdiv k \<and> t mod k = t smod k"
proof -
  have t: "t = k * (t sdiv k) + t smod k" by (simp add: mult_sdiv_smod_eq)
  have r: "- k < t smod k" "t smod k < k" using smod_int_range [of k t] assms by auto
  show "t div k = t sdiv k - 1 \<and> t mod k = t smod k + k" if "t smod k < 0"
  proof -
    have "t = k * (t sdiv k - 1) + (t smod k + k)" using t by (simp add: right_diff_distrib)
    moreover have "0 \<le> t smod k + k" "t smod k + k < k" using that r by simp_all
    ultimately show ?thesis by (intro conjI int_div_pos_eq int_mod_pos_eq)
  qed
  show "t div k = t sdiv k \<and> t mod k = t smod k" if "0 \<le> t smod k"
    using that t r(2) by (intro conjI int_div_pos_eq int_mod_pos_eq)
qed

lemma smod_above: "0 \<le> t smod 86400 + (86400 :: int)"
  using smod_int_range [of 86400 t] by simp

lemma split_day:
  fixes t :: int
  defines "p \<equiv> borrow_day (t sdiv SECSPERDAY) (t smod SECSPERDAY)"
  shows "carry_day (fst p) (snd p) = (t div 86400, t mod 86400)"
proof -
  have b: "borrow_day d r = (d, r)" if "0 \<le> r" for d r :: int using that by (simp add: borrow_day.simps)
  have c: "carry_day d r = (d, r)" if "r < 86400" for d r :: int using that by (simp add: carry_day.simps)
  have "p = (t div 86400, t mod 86400)"
    using sdiv_smod_borrow [of 86400 t] b by (cases "t smod 86400 < 0") (simp_all add: p_def borrow_day.simps [of "t sdiv 86400"] smod_above)
  then show ?thesis using c by simp
qed

lemma sdiv_nonneg: "0 \<le> a \<Longrightarrow> 0 < b \<Longrightarrow> a sdiv b = a div b \<and> a smod b = a mod (b :: int)"
  by (auto simp: signed_divide_int_def smod_mod_positive sgn_if)

lemma clock_parts:
  fixes rem :: int
  assumes "0 \<le> rem" "rem < 86400"
  shows "0 \<le> rem mod 3600 div 60 \<and> rem mod 3600 div 60 < 60 \<and> 0 \<le> rem div 3600 \<and> rem div 3600 < 24"
    and "3600 * (rem div 3600) + 60 * (rem mod 3600 div 60) + rem mod 3600 mod 60 = rem"
proof -
  note d = mult_div_mod_eq [of 3600 rem] mult_div_mod_eq [of 60 "rem mod 3600"]
  have r: "0 \<le> rem mod 3600" "rem mod 3600 < 3600" "0 \<le> rem mod 3600 mod 60" "rem mod 3600 mod 60 < 60" by simp_all
  have "0 \<le> rem div 3600" "0 \<le> rem mod 3600 div 60" using assms r by (simp_all add: pos_imp_zdiv_nonneg_iff)
  then show "0 \<le> rem mod 3600 div 60 \<and> rem mod 3600 div 60 < 60 \<and> 0 \<le> rem div 3600 \<and> rem div 3600 < 24"
    using d r assms(2) by linarith
  show "3600 * (rem div 3600) + 60 * (rem mod 3600 div 60) + rem mod 3600 mod 60 = rem" using d by linarith
qed

lemma break_down_spec:
  "\<exists>r. break_down t = Some (r, isleap (1900 + tm_year r)) \<and> on_calendar r \<and> seconds r = t \<and>
    weekday_ok r \<and> yearday_ok r \<and> tm_isdst r = 0"
proof -
  define days where "days = t div 86400"
  define rem where "rem = t mod 86400"
  have rem: "0 \<le> rem" "rem < 86400" "t = 86400 * days + rem" by (simp_all add: rem_def days_def)
  obtain y d where yd: "(if 0 \<le> days then year_up EPOCH_YEAR days else year_down EPOCH_YEAR days) = (y, d)"
    by fastforce
  then have d: "0 \<le> d" "d < year_lengths (isleap y)" "year_start y + d = days"
    using year_up_spec [of days EPOCH_YEAR y d] year_down_spec [of days EPOCH_YEAR y d] by (auto split: if_splits)
  obtain n e where m: "month_loop (mon_lengths (isleap y)) 0 d = Some (int n, e)" "n < 12"
    "0 \<le> e" "e < mon_lengths (isleap y) ! n" "sum_list (take n (mon_lengths (isleap y))) + e = d"
    using month_loop_spec [of d "mon_lengths (isleap y)" 0] d by (auto simp: mon_lengths_facts)
  have wd: "(if (EPOCH_WDAY + days) smod 7 < 0 then (EPOCH_WDAY + days) smod 7 + 7 else (EPOCH_WDAY + days) smod 7) =
      (4 + days) mod 7"
    using sdiv_smod_borrow [of 7 "4 + days"] by simp
  define r where "r = \<lparr>tm_sec = rem smod 3600 smod 60, tm_min = rem smod 3600 sdiv 60, tm_hour = rem sdiv 3600,
    tm_mday = e + 1, tm_mon = int n, tm_year = y - 1900, tm_wday = (4 + days) mod 7, tm_yday = d, tm_isdst = 0\<rparr>"
  have r: "r = \<lparr>tm_sec = rem mod 3600 mod 60, tm_min = rem mod 3600 div 60, tm_hour = rem div 3600,
    tm_mday = e + 1, tm_mon = int n, tm_year = y - 1900, tm_wday = (4 + days) mod 7, tm_yday = d, tm_isdst = 0\<rparr>"
    using rem by (simp add: r_def sdiv_nonneg)
  have "break_down t = Some (r, isleap y)"
    using split_day [of t, folded days_def rem_def] wd yd m(1)
    by (cases "borrow_day (t sdiv SECSPERDAY) (t smod SECSPERDAY)") (simp add: break_down_def Let_def r_def)
  moreover have n: "day_number r = days" using m(5) d(3) by (simp add: day_number_def month_start_def r)
  moreover have "on_calendar r" using m clock_parts(1) [OF rem(1,2)] by (simp add: on_calendar_def r)
  moreover have "seconds r = t"
  proof -
    have "seconds r = 86400 * days + (3600 * (rem div 3600) + 60 * (rem mod 3600 div 60) + rem mod 3600 mod 60)"
      by (simp only: seconds_def n) (simp add: r)
    then show ?thesis by (simp only: clock_parts(2) [OF rem(1,2)] rem(3))
  qed
  moreover have "weekday_ok r" "yearday_ok r" using d(3) by (simp_all add: weekday_ok_def yearday_ok_def n) (simp_all add: r)
  moreover have "isleap (1900 + tm_year r) = isleap y" "tm_isdst r = 0" by (simp_all add: r)
  ultimately show ?thesis by (intro exI [of _ r]) simp
qed

end
