(* ===== verification/SntpLocal.thy ===== *)
theory SntpLocal
  imports SntpTime
begin

text \<open>
  The calendar of the SNTP client, continued: every time on the calendar is reached by exactly one
  second count, local time is the count moved by the zone's offset, the text of a time, and the
  change-over days of a daylight-saving rule (\<open>sntp__tzcalc_limits\<close>).
\<close>

section \<open>The text of a time\<close>

definition day_name :: "string list" where
  "day_name = [''Sun'', ''Mon'', ''Tue'', ''Wed'', ''Thu'', ''Fri'', ''Sat'']"

definition mon_name :: "string list" where
  "mon_name = [''Jan'', ''Feb'', ''Mar'', ''Apr'', ''May'', ''Jun'', ''Jul'', ''Aug'', ''Sep'', ''Oct'', ''Nov'', ''Dec'']"

text \<open>\<open>%d\<close> of a number that is not negative, and \<open>%02d\<close> (a minus sign counts for the width).\<close>

fun dec_digits :: "nat \<Rightarrow> string" where
  "dec_digits n = (if n < 10 then [char_of (48 + n)] else dec_digits (n div 10) @ [char_of (48 + n mod 10)])"

declare dec_digits.simps [simp del]

definition pct02d :: "int \<Rightarrow> string" where
  "pct02d i =
     (if i < 0 then ''-'' @ dec_digits (nat (- i))
      else if i < 10 then ''0'' @ dec_digits (nat i) else dec_digits (nat i))"

definition sntp_asctime_r :: "tm \<Rightarrow> string option" where
  "sntp_asctime_r r = do {
     day \<leftarrow> if tm_wday r < 0 then None else ld day_name (nat (tm_wday r));
     mon \<leftarrow> if tm_mon r < 0 then None else ld mon_name (nat (tm_mon r));
     Some (day @ '' '' @ mon @ '' '' @ pct02d (tm_mday r) @ '' '' @ pct02d (tm_hour r) @ '':'' @
       pct02d (tm_min r) @ '':'' @ pct02d (tm_sec r) @ '' '' @ pct02d (1900 + tm_year r) @ [CHR 0x0A])
   }"

text \<open>\<open>sntp_get_real_time\<close>: the text goes to \<open>reult[100]\<close>, with its terminator.\<close>

definition sntp_get_real_time :: "int \<Rightarrow> int \<Rightarrow> string option" where
  "sntp_get_real_time offset t = do {
     s \<leftarrow> do { r \<leftarrow> sntp_localtime_r offset t; sntp_asctime_r r };
     if length s + 1 \<le> 100 then Some s else None
   }"

section \<open>Daylight-saving rules\<close>

record tzrule =
  rule_ch :: char
  rule_m :: int
  rule_n :: int
  rule_d :: int
  rule_s :: int
  rule_change :: int
  rule_offset :: int

fun days_before :: "int list \<Rightarrow> nat \<Rightarrow> int \<Rightarrow> int option" where
  "days_before ip 0 days = Some days"
| "days_before ip (Suc j) days = do { days \<leftarrow> days_before ip j days; m \<leftarrow> ld ip j; Some (days + m) }"

partial_function (option) last_week :: "int \<Rightarrow> int \<Rightarrow> int option" where
  "last_week m m_day = (if m \<le> m_day then last_week m (m_day - DAYSPERWEEK) else Some m_day)"

declare last_week.simps [code]

definition long32 :: "int \<Rightarrow> int" where
  "long32 x = sint (word_of_int x :: 32 word)"

definition year_days_before :: "int \<Rightarrow> int" where
  "year_days_before year =
     (let years = year - EPOCH_YEAR
      in years * 365 + (years - 1 + 2) sdiv 4 - (years - 1 + 70) sdiv 100 + (years - 1 + 370) sdiv 400)"

definition rule_day :: "int \<Rightarrow> tzrule \<Rightarrow> int option" where
  "rule_day year rule =
     (if rule_ch rule = CHR ''J''
      then Some (year_days_before year + rule_d rule + of_bool (isleap year \<and> 60 \<le> rule_d rule))
      else if rule_ch rule = CHR ''D'' then Some (year_days_before year + rule_d rule)
      else do {
        days \<leftarrow> days_before (mon_lengths (isleap year)) (nat (rule_m rule - 1)) (year_days_before year);
        let wday_diff = rule_d rule - (EPOCH_WDAY + days) smod DAYSPERWEEK;
        let wday_diff = (if wday_diff < 0 then wday_diff + DAYSPERWEEK else wday_diff);
        m \<leftarrow> ld (mon_lengths (isleap year)) (nat (rule_m rule - 1));
        m_day \<leftarrow> last_week m ((rule_n rule - 1) * DAYSPERWEEK + wday_diff);
        Some (days + m_day)
      })"

definition set_change :: "int \<Rightarrow> tzrule \<Rightarrow> tzrule option" where
  "set_change year rule = do {
     days \<leftarrow> rule_day year rule;
     Some (rule\<lparr>rule_change := long32 (days * SECSPERDAY + rule_s rule + rule_offset rule)\<rparr>)
   }"

text \<open>
  \<open>sntp__tzcalc_limits\<close>: the two rules with their changes, \<open>__tznorth\<close> (whether the first comes
  before the second) and the returned 1; \<open>Inl ()\<close> is the return of 0 that changes nothing.
\<close>

definition sntp__tzcalc_limits :: "int \<Rightarrow> tzrule \<times> tzrule \<Rightarrow> (unit + (tzrule \<times> tzrule) \<times> bool) option" where
  "sntp__tzcalc_limits year rules =
     (if year < EPOCH_YEAR then Some (Inl ())
      else do {
        r0 \<leftarrow> set_change year (fst rules);
        r1 \<leftarrow> set_change year (snd rules);
        Some (Inr ((r0, r1), rule_change r0 < rule_change r1))
      })"

section \<open>One time for every second\<close>

lemma year_start_mono: "a \<le> b \<Longrightarrow> year_start a \<le> year_start b"
proof (induction "nat (b - a)" arbitrary: b)
  case (Suc n)
  then have "year_start a \<le> year_start (b - 1)" by simp
  then show ?case using year_start_Suc [of "b - 1"] year_lengths_pos [of "isleap (b - 1)"] by simp
qed simp

text \<open>A number that falls inside two ranges of an increasing sequence falls inside the same range.\<close>

lemma same_year:
  assumes "year_start a \<le> d" "d < year_start (a + 1)" "year_start b \<le> d" "d < year_start (b + 1)"
  shows "a = b"
proof (rule ccontr)
  assume "a \<noteq> b"
  then have "a + 1 \<le> b \<or> b + 1 \<le> a" by linarith
  then show False using year_start_mono [of "a + 1" b] year_start_mono [of "b + 1" a] assms by linarith
qed

lemma sum_take_mono:
  fixes xs :: "int list"
  assumes "\<And>x. x \<in> set xs \<Longrightarrow> 0 \<le> x"
  shows "m \<le> n \<Longrightarrow> sum_list (take m xs) \<le> sum_list (take n xs)"
proof (induction n)
  case (Suc n)
  have "sum_list (take n xs) \<le> sum_list (take (Suc n) xs)"
    using assms by (cases "n < length xs") (simp_all add: take_Suc_conv_app_nth)
  then show ?case using Suc by (cases "m = Suc n") auto
qed simp

lemma mon_lengths_pos: "x \<in> set (mon_lengths l) \<Longrightarrow> 0 \<le> x"
  by (auto simp: mon_lengths_def split: if_splits)

lemma sum_months_mono: "m \<le> n \<Longrightarrow> sum_list (take m (mon_lengths l)) \<le> sum_list (take n (mon_lengths l))"
  by (rule sum_take_mono [OF mon_lengths_pos])

lemma month_start_Suc:
  "n < 12 \<Longrightarrow> month_start y (int (Suc n)) = month_start y (int n) + mon_lengths (isleap y) ! n"
  by (simp add: month_start_def mon_lengths_facts take_Suc_conv_app_nth nat_add_distrib)

lemma month_start_bounds: "year_start y \<le> month_start y mon" "month_start y mon \<le> year_start (y + 1)"
  using sum_months_mono [of 0 "nat mon" "isleap y"] sum_months_mono [of "nat mon" "12 + nat mon" "isleap y"] year_start_Suc [of y]
  by (simp_all add: month_start_def mon_lengths_facts)

lemma month_start_mono: "a \<le> b \<Longrightarrow> month_start y a \<le> month_start y b"
  using sum_months_mono [of "nat a" "nat b" "isleap y"] by (simp add: month_start_def)

lemma month_start_12: "month_start y 12 = year_start (y + 1)" "month_start y 0 = year_start y"
  using year_start_Suc [of y] by (simp_all add: month_start_def mon_lengths_facts)

text \<open>The day number of a date lies within its month and its year.\<close>

definition on_date :: "tm \<Rightarrow> bool" where
  "on_date r \<longleftrightarrow> 0 \<le> tm_mon r \<and> tm_mon r < 12 \<and> 1 \<le> tm_mday r \<and>
     tm_mday r \<le> mon_lengths (isleap (1900 + tm_year r)) ! nat (tm_mon r)"

lemma on_calendar_alt:
  "on_calendar r \<longleftrightarrow> on_date r \<and> 0 \<le> tm_sec r \<and> tm_sec r < 60 \<and> 0 \<le> tm_min r \<and> tm_min r < 60 \<and>
     0 \<le> tm_hour r \<and> tm_hour r < 24"
  by (auto simp: on_calendar_def on_date_def)

lemma day_in_month:
  assumes "on_date r"
  shows "month_start (1900 + tm_year r) (tm_mon r) \<le> day_number r"
    and "day_number r < month_start (1900 + tm_year r) (tm_mon r + 1)"
  using assms month_start_Suc [of "nat (tm_mon r)" "1900 + tm_year r"]
  by (auto simp: on_date_def day_number_def add.commute)

lemma day_in_year:
  assumes "on_date r"
  shows "year_start (1900 + tm_year r) \<le> day_number r" "day_number r < year_start (1900 + tm_year r + 1)"
  using day_in_month [OF assms] month_start_bounds [of "1900 + tm_year r"]
  by (blast intro: order_trans, blast intro: less_le_trans)

lemma same_date:
  assumes "on_date a" "on_date b" "day_number a = day_number b"
  shows "tm_year a = tm_year b \<and> tm_mon a = tm_mon b \<and> tm_mday a = tm_mday b"
proof -
  have y: "1900 + tm_year a = 1900 + tm_year b"
    using day_in_year [OF assms(1)] day_in_year [OF assms(2)] assms(3) by (intro same_year [where d = "day_number a"]) simp_all
  have "\<not> tm_mon a + 1 \<le> tm_mon b" "\<not> tm_mon b + 1 \<le> tm_mon a"
    using day_in_month [OF assms(1)] day_in_month [OF assms(2)] month_start_mono [of _ _ "1900 + tm_year b"] assms(3) y
    by (metis not_less order_trans)+
  then have "tm_mon a = tm_mon b" by simp
  then show ?thesis using y assms(3) by (simp add: day_number_def)
qed

lemma split_seconds:
  fixes d h m s :: int
  assumes "0 \<le> s" "s < 60" "0 \<le> m" "m < 60" "0 \<le> h" "h < 24"
    and "0 \<le> s'" "s' < 60" "0 \<le> m'" "m' < 60" "0 \<le> h'" "h' < 24"
    and "86400 * d + 3600 * h + 60 * m + s = 86400 * d' + 3600 * h' + 60 * m' + s'"
  shows "d = d' \<and> h = h' \<and> m = m' \<and> s = s'"
proof -
  have d: "d = d'" using assms by linarith
  moreover have h: "h = h'" using assms d by linarith
  moreover have m: "m = m'" using assms d h by linarith
  moreover have "s = s'" using assms d h m by linarith
  ultimately show ?thesis by blast
qed

lemma same_time:
  assumes "on_calendar a" "on_calendar b" "seconds a = seconds b"
    and "weekday_ok a" "weekday_ok b" "yearday_ok a" "yearday_ok b" "tm_isdst a = tm_isdst b"
  shows "a = b"
proof -
  have *: "day_number a = day_number b \<and> tm_hour a = tm_hour b \<and> tm_min a = tm_min b \<and> tm_sec a = tm_sec b"
    using assms(1-3) unfolding on_calendar_alt seconds_def by (intro split_seconds) simp_all
  moreover have "tm_year a = tm_year b \<and> tm_mon a = tm_mon b \<and> tm_mday a = tm_mday b"
    using assms(1,2) * by (intro same_date) (simp_all add: on_calendar_alt)
  ultimately show ?thesis using assms(4-) by (simp add: weekday_ok_def yearday_ok_def)
qed

section \<open>Local time\<close>

lemma weekday_step:
  fixes d w :: int
  assumes "w = (4 + d) mod 7"
  shows "(if 6 < w + 1 then 0 else w + 1) = (4 + (d + 1)) mod 7"
    and "(if w - 1 < 0 then 6 else w - 1) = (4 + (d - 1)) mod 7"
proof -
  have "0 \<le> w" "w \<le> 6" using assms by simp_all
  moreover have "(4 + (d + 1)) mod 7 = (w + 1) mod 7" "(4 + (d - 1)) mod 7 = (w - 1) mod 7"
    unfolding assms by (simp_all add: mod_simps algebra_simps)
  ultimately show "(if 6 < w + 1 then 0 else w + 1) = (4 + (d + 1)) mod 7"
    "(if w - 1 < 0 then 6 else w - 1) = (4 + (d - 1)) mod 7"
    by (cases "w = 6"; cases "w = 0"; simp)+
qed

definition same_clock :: "tm \<Rightarrow> tm \<Rightarrow> bool" where
  "same_clock r r' \<longleftrightarrow> tm_min r' = tm_min r \<and> tm_sec r' = tm_sec r \<and> tm_isdst r' = tm_isdst r"

lemma next_day_spec:
  assumes d: "on_date r" and w: "weekday_ok r"
  shows "\<exists>r'. next_day (mon_lengths (isleap (1900 + tm_year r))) r = Some r' \<and> on_date r' \<and>
    day_number r' = day_number r + 1 \<and> tm_hour r' = tm_hour r - 24 \<and> same_clock r r' \<and> weekday_ok r'"
proof -
  let ?y = "1900 + tm_year r" and ?n = "nat (tm_mon r)"
  let ?m = "mon_lengths (isleap ?y) ! ?n"
  have n: "?n < 12" "tm_mon r = int ?n" "0 \<le> tm_mon r" "tm_mon r < 12" using d by (auto simp: on_date_def)
  have ld: "ld (mon_lengths (isleap ?y)) ?n = Some ?m" using n by (simp add: mon_lengths_facts)
  note wd = weekday_step(1) [OF w [unfolded weekday_ok_def]]
  have step: "month_start ?y (tm_mon r + 1) = month_start ?y (tm_mon r) + ?m"
    using month_start_Suc [OF n(1), of ?y] n by (simp add: add.commute)
  have first: "1 \<le> mon_lengths l ! i" if "i < 12" for l i using mon_lengths_facts(3) [OF that, of l] by simp
  consider (same) "tm_mday r + 1 \<le> ?m" | (month) "tm_mday r = ?m" "tm_mon r + 1 < 12"
    | (year) "tm_mday r = ?m" "tm_mon r = 11"
  proof -
    have "tm_mday r \<le> ?m" "tm_mon r < 12" using d by (simp_all add: on_date_def)
    then have "tm_mday r + 1 \<le> ?m \<or> tm_mday r = ?m \<and> tm_mon r + 1 < 12 \<or> tm_mday r = ?m \<and> tm_mon r = 11" by linarith
    then show thesis using that by blast
  qed
  then show ?thesis
  proof cases
    case same
    then show ?thesis using d n ld wd w
      by (simp add: next_day_def Let_def on_date_def day_number_def same_clock_def weekday_ok_def add.assoc)
  next
    case month
    have "nat (tm_mon r + 1) < 12" using month(2) by simp
    then show ?thesis using month d n(3,4) ld wd step first
      by (simp add: next_day_def Let_def on_date_def day_number_def same_clock_def weekday_ok_def algebra_simps)
  next
    case year
    then have "month_start (?y + 1) 0 = month_start ?y (tm_mon r) + ?m" using step month_start_12 by simp
    then show ?thesis using year d ld wd first [of 0]
      by (simp add: next_day_def Let_def on_date_def day_number_def same_clock_def weekday_ok_def algebra_simps)
  qed
qed

lemma prev_day_spec:
  assumes d: "on_date r" and w: "weekday_ok r"
  shows "\<exists>r'. prev_day (mon_lengths (isleap (1900 + tm_year r))) r = Some r' \<and> on_date r' \<and>
    day_number r' = day_number r - 1 \<and> tm_hour r' = tm_hour r + 24 \<and> same_clock r r' \<and> weekday_ok r'"
proof -
  let ?y = "1900 + tm_year r"
  note wd = weekday_step(2) [OF w [unfolded weekday_ok_def]]
  have ld: "ld (mon_lengths l) n = Some (mon_lengths l ! n)" if "n < 12" for l n using that by (simp add: mon_lengths_facts)
  consider (same) "1 < tm_mday r" | (month) "tm_mday r = 1" "1 \<le> tm_mon r" | (year) "tm_mday r = 1" "tm_mon r = 0"
    using d by (force simp: on_date_def)
  then show ?thesis
  proof cases
    case same
    then show ?thesis using d wd
      by (simp add: prev_day_def Let_def on_date_def day_number_def same_clock_def weekday_ok_def algebra_simps)
  next
    case month
    let ?n = "nat (tm_mon r - 1)"
    have n: "?n < 12" "tm_mon r - 1 = int ?n" "int (Suc ?n) = tm_mon r" using month(2) d by (auto simp: on_date_def)
    have "month_start ?y (tm_mon r) = month_start ?y (tm_mon r - 1) + mon_lengths (isleap ?y) ! ?n"
      using month_start_Suc [OF n(1), of ?y] n(2,3) by simp
    moreover have "1 \<le> mon_lengths (isleap ?y) ! ?n" using mon_lengths_facts(3) [OF n(1), of "isleap ?y"] by simp
    ultimately show ?thesis using month d n(1) ld [OF n(1)] wd
      by (simp add: prev_day_def Let_def on_date_def day_number_def same_clock_def weekday_ok_def algebra_simps)
  next
    case year
    have "month_start (?y - 1) 12 = month_start (?y - 1) 11 + mon_lengths (isleap (?y - 1)) ! 11"
      using month_start_Suc [of 11 "?y - 1"] by simp
    then have "month_start ?y 0 = month_start (?y - 1) 11 + 31"
      using month_start_12 [of "?y - 1"] month_start_12(2) [of ?y] by (simp add: mon_lengths_def)
    then show ?thesis using year d wd ld [of 11]
      by (simp add: prev_day_def Let_def on_date_def day_number_def same_clock_def weekday_ok_def mon_lengths_def algebra_simps)
  qed
qed

text \<open>The offset of the zone is taken off the clock.\<close>

lemma carry_clock:
  assumes "- 60 < tm_sec r" "tm_sec r < 120" "- 60 < tm_min r" "tm_min r < 119"
  defines "r' \<equiv> carry_min (carry_sec r)"
  shows "0 \<le> tm_sec r' \<and> tm_sec r' < 60 \<and> 0 \<le> tm_min r' \<and> tm_min r' < 60 \<and>
    3600 * tm_hour r' + 60 * tm_min r' + tm_sec r' = 3600 * tm_hour r + 60 * tm_min r + tm_sec r \<and>
    tm_hour r - 1 \<le> tm_hour r' \<and> tm_hour r' \<le> tm_hour r + 1 \<and>
    tm_year r' = tm_year r \<and> tm_mon r' = tm_mon r \<and> tm_mday r' = tm_mday r \<and> tm_wday r' = tm_wday r \<and>
    tm_yday r' = tm_yday r \<and> tm_isdst r' = tm_isdst r"
  using assms by (auto simp: carry_min_def carry_sec_def)

lemma sdiv_bound:
  fixes a b k :: int
  assumes "0 < b" "\<bar>a\<bar> < b * k"
  shows "- k < a sdiv b \<and> a sdiv b < k"
proof -
  have "\<bar>a sdiv b\<bar> \<le> \<bar>a\<bar> div b"
    using assms(1) by (cases "a = 0") (simp_all add: signed_divide_int_def abs_mult abs_sgn_eq pos_imp_zdiv_nonneg_iff)
  moreover have "\<bar>a\<bar> div b < k"
  proof -
    have "b * (\<bar>a\<bar> div b) \<le> \<bar>a\<bar>" using mult_div_mod_eq [of b "\<bar>a\<bar>"] pos_mod_sign [OF assms(1), of "\<bar>a\<bar>"] by linarith
    then have "b * (\<bar>a\<bar> div b) < b * k" using assms(2) by linarith
    then show ?thesis using assms(1) by simp
  qed
  ultimately show ?thesis by linarith
qed

lemma sub_offset_spec:
  assumes "on_calendar r" "- 86400 < offset" "offset < 86400"
  defines "r' \<equiv> sub_offset offset r"
  shows "- 60 < tm_sec r' \<and> tm_sec r' < 120 \<and> - 60 < tm_min r' \<and> tm_min r' < 119 \<and>
    3600 * tm_hour r' + 60 * tm_min r' + tm_sec r' = 3600 * tm_hour r + 60 * tm_min r + tm_sec r - offset \<and>
    - 24 < tm_hour r' \<and> tm_hour r' < 47 \<and>
    tm_year r' = tm_year r \<and> tm_mon r' = tm_mon r \<and> tm_mday r' = tm_mday r \<and> tm_wday r' = tm_wday r \<and>
    tm_yday r' = tm_yday r \<and> tm_isdst r' = tm_isdst r"
proof -
  let ?h = "offset sdiv 3600" and ?q = "offset smod 3600"
  let ?m = "?q sdiv 60" and ?s = "?q smod 60"
  have e: "3600 * ?h + ?q = offset" "60 * ?m + ?s = ?q" by (simp_all only: mult_sdiv_smod_eq)
  have "- 3600 < ?q" "?q < 3600" "- 60 < ?s" "?s < 60"
    using smod_int_range [of 3600 offset] smod_int_range [of 60 ?q] by simp_all
  moreover from this have "- 60 < ?m \<and> ?m < 60" "- 24 < ?h \<and> ?h < 24"
    using assms(2,3) by (intro sdiv_bound; simp)+
  ultimately show ?thesis using assms(1) e by (simp add: r'_def sub_offset_def Let_def on_calendar_alt)
qed

lemma local_time_spec:
  assumes "- 86400 < offset" "offset < 86400"
  shows "\<exists>r. sntp_localtime_r offset t = Some r \<and> on_calendar r \<and> seconds r = t - offset \<and> weekday_ok r"
proof -
  obtain g where g: "break_down t = Some (g, isleap (1900 + tm_year g))" "on_calendar g" "seconds g = t" "weekday_ok g"
    using break_down_spec [of t] by blast
  define r where "r = carry_min (carry_sec (sub_offset offset g))"
  note s = sub_offset_spec [OF g(2) assms]
  have c: "0 \<le> tm_sec r \<and> tm_sec r < 60 \<and> 0 \<le> tm_min r \<and> tm_min r < 60 \<and>
    3600 * tm_hour r + 60 * tm_min r + tm_sec r = 3600 * tm_hour g + 60 * tm_min g + tm_sec g - offset \<and>
    - 24 \<le> tm_hour r \<and> tm_hour r < 48 \<and>
    tm_year r = tm_year g \<and> tm_mon r = tm_mon g \<and> tm_mday r = tm_mday g \<and> tm_wday r = tm_wday g"
    using carry_clock [of "sub_offset offset g"] s unfolding r_def by auto
  have d: "on_date r" "day_number r = day_number g" "weekday_ok r"
    using c g(2,4) by (simp_all add: on_calendar_alt on_date_def day_number_def weekday_ok_def)
  have t: "86400 * day_number g + (3600 * tm_hour r + 60 * tm_min r + tm_sec r) = t - offset"
    using c g(3) by (simp add: seconds_def)
  have "sntp_localtime_r offset t = carry_hour (mon_lengths (isleap (1900 + tm_year r))) r"
    using c g(1) by (simp add: sntp_localtime_r_def sntp_mktm_r_def r_def)
  moreover consider (above) "24 \<le> tm_hour r" | (below) "tm_hour r < 0" | (same) "0 \<le> tm_hour r" "tm_hour r < 24" by linarith
  then have "\<exists>r'. carry_hour (mon_lengths (isleap (1900 + tm_year r))) r = Some r' \<and> on_calendar r' \<and>
    seconds r' = t - offset \<and> weekday_ok r'"
  proof cases
    case above
    obtain r' where r': "next_day (mon_lengths (isleap (1900 + tm_year r))) r = Some r'" "on_date r'"
      "day_number r' = day_number r + 1" "tm_hour r' = tm_hour r - 24" "same_clock r r'" "weekday_ok r'"
      using next_day_spec [OF d(1,3)] by blast
    then show ?thesis using above c d(2) t by (intro exI [of _ r']) (auto simp: carry_hour_def on_calendar_alt seconds_def same_clock_def)
  next
    case below
    obtain r' where r': "prev_day (mon_lengths (isleap (1900 + tm_year r))) r = Some r'" "on_date r'"
      "day_number r' = day_number r - 1" "tm_hour r' = tm_hour r + 24" "same_clock r r'" "weekday_ok r'"
      using prev_day_spec [OF d(1,3)] by blast
    then show ?thesis using below c d(2) t by (intro exI [of _ r']) (auto simp: carry_hour_def on_calendar_alt seconds_def same_clock_def)
  next
    case same
    then show ?thesis using c d t by (intro exI [of _ r]) (auto simp: carry_hour_def on_calendar_alt seconds_def)
  qed
  ultimately show ?thesis by simp
qed

text \<open>The text of a time has 25 characters.\<close>

lemma length_dec_digits: "length (dec_digits n) = (if n < 10 then 1 else Suc (length (dec_digits (n div 10))))"
  by (simp add: dec_digits.simps [of n])

lemma length_pct02d:
  "0 \<le> i \<Longrightarrow> i < 100 \<Longrightarrow> length (pct02d i) = 2"
  "1000 \<le> i \<Longrightarrow> i < 10000 \<Longrightarrow> length (pct02d i) = 4"
  by (auto simp: pct02d_def length_dec_digits [of "nat i"] length_dec_digits [of "nat i div 10"]
    length_dec_digits [of "nat i div 100"] length_dec_digits [of "nat i div 1000"] simp flip: div_mult2_eq)

lemma year_range:
  assumes "on_calendar r" "- (2 ^ 31) - 86400 \<le> seconds r" "seconds r < 2 ^ 31 + 86400"
  shows "1901 \<le> 1900 + tm_year r \<and> 1900 + tm_year r \<le> 2038"
proof -
  have "on_date r" using assms(1) by (simp add: on_calendar_alt)
  note d = day_in_year [OF this]
  have s: "86400 * day_number r \<le> seconds r" "seconds r < 86400 * day_number r + 86400"
    using assms(1) unfolding on_calendar_alt seconds_def by linarith+
  have "year_start 1901 = - 25202" "year_start 2039 = 25202" by (simp_all add: year_start_def leaps_def)
  moreover have "- 24858 \<le> day_number r" "day_number r < 24858" using s assms(2,3) by simp_all
  ultimately have "\<not> 1900 + tm_year r + 1 \<le> 1901" "\<not> 2039 \<le> 1900 + tm_year r"
    using d year_start_mono [of "1900 + tm_year r + 1" 1901] year_start_mono [of 2039 "1900 + tm_year r"] by linarith+
  then show ?thesis by simp
qed

lemma asctime_length:
  assumes "on_calendar r" "weekday_ok r" "1000 \<le> 1900 + tm_year r" "1900 + tm_year r < 10000"
  shows "\<exists>s. sntp_asctime_r r = Some s \<and> length s = 25"
proof -
  have three: "\<forall>n \<in> set day_name. length n = 3" "\<forall>n \<in> set mon_name. length n = 3"
    and len: "length day_name = 7" "length mon_name = 12" by (simp_all add: day_name_def mon_name_def)
  have w: "0 \<le> tm_wday r" "nat (tm_wday r) < 7" using assms(2) by (simp_all add: weekday_ok_def)
  have m: "0 \<le> tm_mon r" "nat (tm_mon r) < 12" using assms(1) by (auto simp: on_calendar_def)
  have "mon_lengths (isleap (1900 + tm_year r)) ! nat (tm_mon r) \<in> set (mon_lengths (isleap (1900 + tm_year r)))"
    using m by (simp add: mon_lengths_facts)
  then have "tm_mday r \<le> 31" using assms(1) by (auto simp: on_calendar_def mon_lengths_def split: if_splits)
  moreover have "length (day_name ! nat (tm_wday r)) = 3" "length (mon_name ! nat (tm_mon r)) = 3"
    using three w m len by (metis nth_mem)+
  ultimately show ?thesis using assms(1,3,4) w m len
    by (simp add: sntp_asctime_r_def length_pct02d on_calendar_def)
qed

text \<open>
  The GMT calendar is right for every second count: \<open>sntp_mktm_r\<close> returns a date that exists, at
  exactly that many seconds from 1 January 1970 in the Gregorian calendar, with its day of the week and
  of the year.
\<close>

theorem sntp_gmtime_calendar:
  "\<exists>r. sntp_mktm_r offset t True = Some r \<and> on_calendar r \<and> seconds r = t \<and> weekday_ok r \<and> yearday_ok r"
proof -
  obtain r where "break_down t = Some (r, isleap (1900 + tm_year r))" "on_calendar r" "seconds r = t"
    "weekday_ok r" "yearday_ok r" using break_down_spec [of t] by blast
  then show ?thesis by (simp add: sntp_mktm_r_def)
qed

text \<open>
  C16: breaking a second count down inverts counting the seconds of a date: every date of the calendar,
  with its weekday and its day of the year, is what \<open>sntp_mktm_r\<close> returns for its count.
\<close>

theorem sntp_gmtime_roundtrip:
  assumes "on_calendar r" "weekday_ok r" "yearday_ok r" "tm_isdst r = 0"
  shows "sntp_mktm_r offset (seconds r) True = Some r"
proof -
  obtain r' where r': "break_down (seconds r) = Some (r', isleap (1900 + tm_year r'))" "on_calendar r'"
    "seconds r' = seconds r" "weekday_ok r'" "yearday_ok r'" "tm_isdst r' = 0"
    using break_down_spec [of "seconds r"] by blast
  then have "r' = r" using assms same_time [of r' r] by simp
  then show ?thesis using r'(1) by (simp add: sntp_mktm_r_def)
qed

lemma sntp_gmtime_roundtrip_witness:
  "\<exists>r. tm_year r = 100 \<and> tm_mon r = 1 \<and> tm_mday r = 29 \<and> sntp_mktm_r 0 (seconds r) True = Some r"
  by (rule exI [of _ "\<lparr>tm_sec = 59, tm_min = 59, tm_hour = 23, tm_mday = 29, tm_mon = 1, tm_year = 100,
      tm_wday = 2, tm_yday = 59, tm_isdst = 0\<rparr>"])
    (simp only: tm.simps simp_thms, rule sntp_gmtime_roundtrip,
      simp_all add: on_calendar_def weekday_ok_def yearday_ok_def day_number_def month_start_def year_start_def
        leaps_def mon_lengths_def isleap_mod)

lemma real_time_text:
  assumes "- 86400 < offset" "offset < 86400" "- (2 ^ 31) \<le> t" "t < 2 ^ 31"
  shows "\<exists>r s. sntp_localtime_r offset t = Some r \<and> on_calendar r \<and> seconds r = t - offset \<and> weekday_ok r \<and>
    sntp_asctime_r r = Some s \<and> sntp_get_real_time offset t = Some s \<and> length s = 25"
proof -
  obtain r where r: "sntp_localtime_r offset t = Some r" "on_calendar r" "seconds r = t - offset" "weekday_ok r"
    using local_time_spec [OF assms(1,2)] by blast
  have "1901 \<le> 1900 + tm_year r \<and> 1900 + tm_year r \<le> 2038"
    using assms r(2,3) by (intro year_range) linarith+
  then obtain s where "sntp_asctime_r r = Some s" "length s = 25" using asctime_length [OF r(2,4)] by auto
  then show ?thesis using r by (simp add: sntp_get_real_time_def)
qed

text \<open>
  C31: local time is the second count moved by the zone's offset: for offsets of less than a day
  \<open>sntp_localtime_r\<close> returns the date of \<open>t - offset\<close> and its weekday, and for 32-bit counts
  \<open>sntp_asctime_r\<close> finds both names in its tables and writes 25 characters, which fit the buffer.
\<close>

theorem sntp_local_time_text:
  assumes "- 86400 < offset" "offset < 86400" "- (2 ^ 31) \<le> t" "t < 2 ^ 31"
  shows "\<exists>r s. sntp_localtime_r offset t = Some r \<and> on_calendar r \<and> seconds r = t - offset \<and> weekday_ok r \<and>
    sntp_get_real_time offset t = Some s \<and> length s = 25"
  using real_time_text [OF assms] by blast

lemma sntp_local_time_text_witness:
  "\<exists>r s. sntp_localtime_r (- 28800) 1500000000 = Some r \<and> on_calendar r \<and> seconds r = 1500028800 \<and> weekday_ok r \<and>
    sntp_get_real_time (- 28800) 1500000000 = Some s \<and> length s = 25"
  using sntp_local_time_text [of "- 28800" 1500000000] by simp

text \<open>
  Going back over New Year, the day of the year is wrong: one hour west of Greenwich, the second 0 is
  31 December 1969, which is day 364 counted from 0, and the code says 365.
\<close>

lemma sntp_local_new_year:
  "\<exists>r. sntp_localtime_r 3600 0 = Some r \<and> tm_mday r = 31 \<and> tm_mon r = 11 \<and> tm_year r = 69 \<and> tm_yday r = 365"
  by (simp add: sntp_localtime_r_def sntp_mktm_r_def break_down_def borrow_day.simps carry_day.simps year_up.simps
    isleap_def year_lengths_def mon_lengths_def sub_offset_def carry_sec_def carry_min_def carry_hour_def prev_day_def
    signed_divide_int_def signed_modulo_int_def Let_def)

section \<open>The change-over days\<close>

lemma year_days_before_spec:
  assumes "1970 \<le> year"
  shows "year_days_before year = year_start year"
proof -
  have "(year - 1 + 0) div 4 = (year - 1969) div 4 + 492" using div_mult_self2 [of 4 "year - 1969" 492] by simp
  moreover have "(year - 1) div 100 = (year - 1901) div 100 + 19" using div_mult_self2 [of 100 "year - 1901" 19] by simp
  moreover have "(year - 1) div 400 = (year - 1601) div 400 + 4" using div_mult_self2 [of 400 "year - 1601" 4] by simp
  ultimately show ?thesis using assms
    by (simp add: year_days_before_def year_start_def leaps_def sdiv_nonneg Let_def)
qed

lemma days_before_spec: "j \<le> length ip \<Longrightarrow> days_before ip j days = Some (days + sum_list (take j ip))"
  by (induction j) (simp_all add: take_Suc_conv_app_nth)

text \<open>The last step back by weeks ends, within the month.\<close>

lemma last_week_spec:
  assumes "28 \<le> m" "0 \<le> d" "d < 35"
  shows "\<exists>k. last_week m d = Some (d - 7 * k) \<and> (k = 0 \<or> k = 1 \<and> m \<le> d) \<and> 0 \<le> d - 7 * k \<and> d - 7 * k < m"
  using assms by (cases "m \<le> d") (auto simp: last_week.simps [of m] intro: exI [of _ 0] exI [of _ 1])

text \<open>
  A rule of the form "day \<open>d\<close> of the week, the \<open>n\<close>-th time in month \<open>m\<close>" gives a day of that month
  of that weekday: the \<open>n\<close>-th such day, or the last one when the month has only four.
\<close>

theorem sntp_rule_day:
  assumes "1970 \<le> year" "rule_ch rule \<noteq> CHR ''J''" "rule_ch rule \<noteq> CHR ''D''"
    and "1 \<le> rule_m rule" "rule_m rule \<le> 12" "1 \<le> rule_n rule" "rule_n rule \<le> 5" "0 \<le> rule_d rule" "rule_d rule \<le> 6"
  shows "\<exists>mday. rule_day year rule = Some (month_start year (rule_m rule - 1) + mday - 1) \<and>
    1 \<le> mday \<and> mday \<le> mon_lengths (isleap year) ! nat (rule_m rule - 1) \<and>
    (4 + (month_start year (rule_m rule - 1) + mday - 1)) mod 7 = rule_d rule \<and>
    ((mday - 1) div 7 = rule_n rule - 1 \<or>
     (mday - 1) div 7 = rule_n rule - 2 \<and> mon_lengths (isleap year) ! nat (rule_m rule - 1) < mday + 7)"
proof -
  let ?j = "nat (rule_m rule - 1)" and ?ip = "mon_lengths (isleap year)" and ?n = "rule_n rule - 1"
  let ?m = "?ip ! ?j" and ?s = "month_start year (rule_m rule - 1)"
  have j: "?j < 12" "?j \<le> length ?ip" using assms(4,5) by (auto simp: mon_lengths_facts)
  have days: "days_before ?ip ?j (year_days_before year) = Some ?s"
    using days_before_spec [OF j(2), of "year_start year"]
    by (simp only: year_days_before_spec [OF assms(1)] month_start_def)
  have "0 \<le> ?s"
    using month_start_bounds(1) [of year "rule_m rule - 1"] year_start_mono [OF assms(1)] by simp
  then have w: "(4 + ?s) smod 7 = (4 + ?s) mod 7" using sdiv_nonneg [of "4 + ?s" 7] by simp
  define w where "w = (4 + ?s) mod 7"
  define diff where "diff = (if rule_d rule - w < 0 then rule_d rule - w + 7 else rule_d rule - w)"
  have w7: "0 \<le> w" "w < 7" by (simp_all add: w_def)
  have diff: "0 \<le> diff" "diff < 7" using assms(8,9) w7 by (auto simp: diff_def)
  have wd: "(w + diff) mod 7 = rule_d rule" using assms(8,9) w7 by (auto simp: diff_def)
  have "28 \<le> ?m" by (rule mon_lengths_facts(3) [OF j(1)])
  moreover have "0 \<le> ?n * 7 + diff" "?n * 7 + diff < 35" using diff assms(6,7) by (simp_all add: left_diff_distrib)
  ultimately obtain k where k: "last_week ?m (?n * 7 + diff) = Some (?n * 7 + diff - 7 * k)"
    "k = 0 \<or> k = 1 \<and> ?m \<le> ?n * 7 + diff" "0 \<le> ?n * 7 + diff - 7 * k" "?n * 7 + diff - 7 * k < ?m"
    using last_week_spec by blast
  define e where "e = ?n * 7 + diff - 7 * k"
  have e: "e = diff + (?n - k) * 7" by (simp add: e_def algebra_simps)
  have "rule_day year rule = Some (?s + e)"
    using days j k(1) assms(2,3) w
    by (cases "rule_d rule < w") (simp_all add: rule_day_def mon_lengths_facts Let_def w_def [symmetric] diff_def e_def)
  moreover have "e div 7 = ?n - k" using diff by (simp add: e)
  moreover have "(4 + (?s + e)) mod 7 = rule_d rule"
  proof -
    have "(4 + (?s + e)) mod 7 = (w + e) mod 7" by (simp add: w_def mod_simps add.assoc)
    also have "w + e = (w + diff) + (?n - k) * 7" by (simp only: e add.assoc)
    also have "\<dots> mod 7 = (w + diff) mod 7" by (rule mod_mult_self1)
    finally show ?thesis using wd by simp
  qed
  moreover have "0 \<le> e" "e < ?m" using k(3,4) by (simp_all add: e_def)
  moreover have "k = 0 \<or> k = 1 \<and> ?m < e + 1 + 7" using k(2) by (auto simp: e_def)
  ultimately show ?thesis by (intro exI [of _ "e + 1"]) (auto simp: algebra_simps)
qed

text \<open>The European rule, the last Sunday of March: in 2017 the 26th.\<close>

lemma sntp_rule_day_witness:
  "\<exists>mday. rule_day 2017 \<lparr>rule_ch = CHR ''M'', rule_m = 3, rule_n = 5, rule_d = 0, rule_s = 0, rule_change = 0, rule_offset = 0\<rparr>
      = Some (month_start 2017 2 + mday - 1) \<and> 24 < mday \<and> mday \<le> 31 \<and> (4 + (month_start 2017 2 + mday - 1)) mod 7 = 0"
proof -
  obtain mday where "rule_day 2017 \<lparr>rule_ch = CHR ''M'', rule_m = 3, rule_n = 5, rule_d = 0, rule_s = 0, rule_change = 0, rule_offset = 0\<rparr>
      = Some (month_start 2017 2 + mday - 1)" "1 \<le> mday" "mday \<le> mon_lengths (isleap 2017) ! 2"
      "(4 + (month_start 2017 2 + mday - 1)) mod 7 = 0"
      "(mday - 1) div 7 = 4 \<or> (mday - 1) div 7 = 3 \<and> mon_lengths (isleap 2017) ! 2 < mday + 7"
    using sntp_rule_day [of 2017 "\<lparr>rule_ch = CHR ''M'', rule_m = 3, rule_n = 5, rule_d = 0, rule_s = 0, rule_change = 0, rule_offset = 0\<rparr>"]
    by auto
  moreover from this have "24 < mday" by (auto simp: mon_lengths_def)
  ultimately show ?thesis by (intro exI [of _ mday]) (simp add: mon_lengths_def)
qed

text \<open>
  A rule of the form "Julian day \<open>d\<close>, from 1 to 365" gives the day after: day 1 is 2 January, whose
  number is 1.
\<close>

lemma sntp_julian_rule_late:
  "rule_ch rule = CHR ''J'' \<Longrightarrow> rule_d rule = 1 \<Longrightarrow> 1970 \<le> year \<Longrightarrow> rule_day year rule = Some (year_start year + 1)"
  by (simp add: rule_day_def year_days_before_spec)

end
