(* ===== verification/SntpClient.thy ===== *)
theory SntpClient
  imports Timeouts Pbuf SntpLocal IpAddr "HOL-Library.Multiset"
begin

text \<open>
  The SNTP client (\<open>lwip/core/sntp.c\<close>, with three servers and server names, as \<open>lwip/sntp.h\<close>
  configures it). Its state is the module's static variables, the timeout list of \<open>Timeouts\<close> with the
  handlers of this module and of others, the number of resolver queries that will call
  \<open>sntp_dns_found\<close>, and what went out: datagrams and console lines. Whether memory was there and
  what the resolver answered at once come with each call. \<open>None\<close> is an access outside an array.
\<close>

section \<open>State\<close>

datatype handler = h_sntp_request | h_sntp_try_next_server | h_other nat

record sntp_server =
  srv_name :: "u8 list option"
  srv_addr :: u32

record datagram =
  from_pcb :: bool
  dest :: u32
  payload :: "u8 list"

record sntp =
  sntp_pcb :: bool
  time_zone :: u8
  sntp_servers :: "sntp_server list"
  sntp_current_server :: u8
  sntp_retry_timeout :: u32
  realtime_stamp :: u32
  sntp_timer :: bool
  timeouts :: "handler sys_timeo list"
  dns_waiting :: nat
  udp_out :: "datagram list"
  printed :: "string list"

text \<open>The static initialisers: no pcb, GMT + 8, no servers.\<close>

definition sntp_start :: sntp where
  "sntp_start = \<lparr>sntp_pcb = False, time_zone = 8,
     sntp_servers = replicate 3 \<lparr>srv_name = None, srv_addr = 0\<rparr>, sntp_current_server = 0,
     sntp_retry_timeout = 0, realtime_stamp = 0, sntp_timer = False, timeouts = [], dns_waiting = 0,
     udp_out = [], printed = []\<rparr>"

text \<open>What the world answers during one call: the allocations, and \<open>dns_gethostbyname\<close>.\<close>

datatype dns_answer = dns_ok u32 | dns_inprogress | dns_failed

record world =
  timeo_memory :: bool
  pbuf_memory :: bool
  pcb_memory :: bool
  dns :: dns_answer

abbreviation "SNTP_MAX_SERVERS \<equiv> 3 :: u8"
abbreviation "SNTP_RECV_TIMEOUT \<equiv> 3000 :: u32"
abbreviation "SNTP_UPDATE_DELAY \<equiv> 3600000 :: u32"
abbreviation "SNTP_RETRY_TIMEOUT \<equiv> SNTP_RECV_TIMEOUT"
abbreviation "SNTP_RETRY_TIMEOUT_MAX \<equiv> SNTP_RETRY_TIMEOUT * 10"
abbreviation "SNTP_MSG_LEN \<equiv> 48 :: u16"
abbreviation "DIFF_SEC_1900_1970 \<equiv> 2208988800 :: u32"

section \<open>The operations\<close>

definition timeout :: "world \<Rightarrow> u32 \<Rightarrow> handler \<Rightarrow> sntp \<Rightarrow> sntp" where
  "timeout w ms h s = s\<lparr>timeouts := sys_timeout (timeo_memory w) ms h (timeouts s)\<rparr>"

definition untimeout :: "handler \<Rightarrow> sntp \<Rightarrow> sntp" where
  "untimeout h s = s\<lparr>timeouts := sys_untimeout h (timeouts s)\<rparr>"

definition sntp_initialize_request :: "u8 list" where
  "sntp_initialize_request = (replicate (unat SNTP_MSG_LEN) 0)[0 := 0x00 OR push_bit 3 4 OR 0x03]"

definition sntp_retry :: "world \<Rightarrow> sntp \<Rightarrow> sntp" where
  "sntp_retry w s =
     (let s = timeout w (sntp_retry_timeout s) h_sntp_request s;
          new_retry_timeout = push_bit 1 (sntp_retry_timeout s)
      in if new_retry_timeout \<le> SNTP_RETRY_TIMEOUT_MAX \<and> sntp_retry_timeout s < new_retry_timeout
         then s\<lparr>sntp_retry_timeout := new_retry_timeout\<rparr> else s)"

definition sntp_send_request :: "world \<Rightarrow> u32 \<Rightarrow> sntp \<Rightarrow> sntp" where
  "sntp_send_request w server_addr s =
     (if pbuf_memory w
      then timeout w SNTP_RECV_TIMEOUT h_sntp_try_next_server
             (s\<lparr>udp_out := udp_out s @ [\<lparr>from_pcb = sntp_pcb s, dest = server_addr, payload = sntp_initialize_request\<rparr>]\<rparr>)
      else timeout w SNTP_RETRY_TIMEOUT h_sntp_request s)"

definition set_addr :: "u8 \<Rightarrow> u32 \<Rightarrow> sntp \<Rightarrow> sntp option" where
  "set_addr idx a s = do {
     sv \<leftarrow> ld (sntp_servers s) (unat idx);
     svs \<leftarrow> st (sntp_servers s) (unat idx) (sv\<lparr>srv_addr := a\<rparr>);
     Some (s\<lparr>sntp_servers := svs\<rparr>)
   }"

definition sntp_request :: "world \<Rightarrow> sntp \<Rightarrow> sntp option" where
  "sntp_request w s = do {
     sv \<leftarrow> ld (sntp_servers s) (unat (sntp_current_server s));
     if srv_name sv \<noteq> None then do {
       s \<leftarrow> set_addr (sntp_current_server s) 0 s;
       case dns w of
         dns_inprogress \<Rightarrow> Some (s\<lparr>dns_waiting := dns_waiting s + 1\<rparr>)
       | dns_ok a \<Rightarrow> do {
           s \<leftarrow> set_addr (sntp_current_server s) a s;
           Some (sntp_send_request w a s)
         }
       | dns_failed \<Rightarrow> Some (timeout w SNTP_RETRY_TIMEOUT h_sntp_try_next_server s)
     }
     else if srv_addr sv = 0 then Some (timeout w SNTP_RETRY_TIMEOUT h_sntp_try_next_server s)
     else Some (sntp_send_request w (srv_addr sv) s)
   }"

definition configured :: "sntp_server \<Rightarrow> bool" where
  "configured sv \<longleftrightarrow> srv_addr sv \<noteq> 0 \<or> srv_name sv \<noteq> None"

text \<open>The loop of \<open>sntp_try_next_server\<close>: the next configured server within \<open>i\<close> steps, if any.\<close>

fun next_server :: "nat \<Rightarrow> sntp_server list \<Rightarrow> u8 \<Rightarrow> u8 option option" where
  "next_server 0 servers current = Some None"
| "next_server (Suc i) servers current =
     (let current = current + 1;
          current = (if SNTP_MAX_SERVERS \<le> current then 0 else current)
      in do {
        sv \<leftarrow> ld servers (unat current);
        if configured sv then Some (Some current) else next_server i servers current
      })"

definition sntp_try_next_server :: "world \<Rightarrow> sntp \<Rightarrow> sntp option" where
  "sntp_try_next_server w s = do {
     found \<leftarrow> next_server (unat (SNTP_MAX_SERVERS - 1)) (sntp_servers s) (sntp_current_server s);
     case found of
       Some c \<Rightarrow> sntp_request w (s\<lparr>sntp_current_server := c, sntp_retry_timeout := SNTP_RETRY_TIMEOUT\<rparr>)
     | None \<Rightarrow> Some (sntp_retry w s)
   }"

text \<open>
  \<open>sntp_process\<close>: the time stamp as it lies in memory; \<open>time_t\<close> is a 32-bit \<open>long\<close>. The offset of the
  zone rule is never set, so it is 0 in \<open>sntp_localtime\<close>.
\<close>

definition sntp_process :: "u32 \<Rightarrow> sntp \<Rightarrow> sntp option" where
  "sntp_process receive_timestamp s =
     (let t = lwip_htonl receive_timestamp - DIFF_SEC_1900_1970;
          t = t + word_of_int (sint (time_zone s) * 60 * 60)
      in do {
        line \<leftarrow> sntp_get_real_time 0 (sint t);
        Some (s\<lparr>realtime_stamp := t, sntp_timer := True, printed := printed s @ [line @ [CHR 0x0A]]\<rparr>)
      })"

text \<open>The four bytes of a word in memory.\<close>

definition word_of_bytes :: "u8 list \<Rightarrow> u32" where
  "word_of_bytes bs = ucast (bs ! 0) OR push_bit 8 (ucast (bs ! 1)) OR push_bit 16 (ucast (bs ! 2)) OR
     push_bit 24 (ucast (bs ! 3))"

datatype verdict = reply_ok "u8 list" | reply_kod | reply_bad

text \<open>The first half of \<open>sntp_recv\<close>: the local variable \<open>err\<close>, and the time stamp with \<open>ERR_OK\<close>.\<close>

definition check_reply :: "pbuf list \<Rightarrow> verdict option" where
  "check_reply p = do {
     q \<leftarrow> ld p 0;
     if tot_len q = SNTP_MSG_LEN then do {
       (_, mode) \<leftarrow> pbuf_copy_partial p [0] 1 0;
       let mode = mode ! 0 AND 0x07;
       if mode = 0x04 \<or> mode = 0x05 then do {
         (_, stratum) \<leftarrow> pbuf_copy_partial p [0] 1 1;
         if stratum ! 0 = 0x00 then Some reply_kod
         else do {
           (_, receive_timestamp) \<leftarrow> pbuf_copy_partial p [0, 0, 0, 0] 4 32;
           Some (reply_ok receive_timestamp)
         }
       }
       else Some reply_bad
     }
     else Some reply_bad
   }"

definition sntp_recv :: "world \<Rightarrow> pbuf list \<Rightarrow> sntp \<Rightarrow> sntp option" where
  "sntp_recv w p s = do {
     let s = untimeout h_sntp_request (untimeout h_sntp_try_next_server s);
     v \<leftarrow> check_reply p;
     case v of
       reply_ok ts \<Rightarrow> do {
         s \<leftarrow> sntp_process (word_of_bytes ts) (s\<lparr>sntp_retry_timeout := SNTP_RETRY_TIMEOUT\<rparr>);
         Some (timeout w SNTP_UPDATE_DELAY h_sntp_request s)
       }
     | reply_kod \<Rightarrow> sntp_try_next_server w s
     | reply_bad \<Rightarrow> Some (sntp_retry w s)
   }"

definition sntp_dns_found :: "world \<Rightarrow> u32 option \<Rightarrow> sntp \<Rightarrow> sntp option" where
  "sntp_dns_found w ipaddr s =
     (case ipaddr of Some a \<Rightarrow> Some (sntp_send_request w a s) | None \<Rightarrow> sntp_try_next_server w s)"

definition sntp_init :: "world \<Rightarrow> sntp \<Rightarrow> sntp option" where
  "sntp_init w s =
     (if \<not> sntp_pcb s
      then let s = s\<lparr>sntp_retry_timeout := SNTP_RETRY_TIMEOUT, sntp_pcb := pcb_memory w\<rparr>
           in if sntp_pcb s then sntp_request w s else Some s
      else Some s)"

definition sntp_stop :: "sntp \<Rightarrow> sntp" where
  "sntp_stop s =
     (let s = (if sntp_pcb s then (untimeout h_sntp_request s)\<lparr>sntp_pcb := False\<rparr> else s)
      in s\<lparr>sntp_timer := False, realtime_stamp := 0\<rparr>)"

definition sntp_time_inc :: "sntp \<Rightarrow> sntp" where
  "sntp_time_inc s = s\<lparr>realtime_stamp := realtime_stamp s + 1\<rparr>"

definition sntp_get_current_timestamp :: "sntp \<Rightarrow> u32 \<times> sntp" where
  "sntp_get_current_timestamp s =
     (if realtime_stamp s = 0 then (0, s\<lparr>printed := printed s @ [''please start sntp first !'' @ [CHR 0x0A]]\<rparr>)
      else (realtime_stamp s, s))"

definition sntp_get_timezone :: "sntp \<Rightarrow> u8" where
  "sntp_get_timezone s = time_zone s"

definition sntp_set_timezone :: "u8 \<Rightarrow> sntp \<Rightarrow> bool \<times> sntp" where
  "sntp_set_timezone timezone s =
     (if - 11 \<le> sint timezone \<or> sint timezone \<le> 13 then (True, s\<lparr>time_zone := timezone\<rparr>) else (False, s))"

definition sntp_setserver :: "u8 \<Rightarrow> u32 option \<Rightarrow> sntp \<Rightarrow> sntp option" where
  "sntp_setserver idx server s =
     (if idx < SNTP_MAX_SERVERS then do {
        s \<leftarrow> set_addr idx (case server of Some a \<Rightarrow> a | None \<Rightarrow> 0) s;
        sv \<leftarrow> ld (sntp_servers s) (unat idx);
        svs \<leftarrow> st (sntp_servers s) (unat idx) (sv\<lparr>srv_name := None\<rparr>);
        Some (s\<lparr>sntp_servers := svs\<rparr>)
      }
      else Some s)"

definition sntp_getserver :: "u8 \<Rightarrow> sntp \<Rightarrow> u32 option" where
  "sntp_getserver idx s =
     (if idx < SNTP_MAX_SERVERS then map_option srv_addr (ld (sntp_servers s) (unat idx)) else Some 0)"

definition sntp_setservername :: "u8 \<Rightarrow> u8 list option \<Rightarrow> sntp \<Rightarrow> sntp option" where
  "sntp_setservername idx server s =
     (if idx < SNTP_MAX_SERVERS then do {
        sv \<leftarrow> ld (sntp_servers s) (unat idx);
        svs \<leftarrow> st (sntp_servers s) (unat idx) (sv\<lparr>srv_name := server\<rparr>);
        Some (s\<lparr>sntp_servers := svs\<rparr>)
      }
      else Some s)"

definition sntp_getservername :: "u8 \<Rightarrow> sntp \<Rightarrow> u8 list option option" where
  "sntp_getservername idx s =
     (if idx < SNTP_MAX_SERVERS then map_option srv_name (ld (sntp_servers s) (unat idx)) else Some None)"

section \<open>The run of the client\<close>

text \<open>
  One event: a call of the program, the first timeout of the list expiring (this module's handler is
  called without its entry, another module's does what it likes with its own), the resolver calling
  back, a datagram arriving at the pcb, the one-second timer.
\<close>

fun sntp_handler :: "world \<Rightarrow> handler \<Rightarrow> sntp \<Rightarrow> sntp option" where
  "sntp_handler w h_sntp_request s = sntp_request w s"
| "sntp_handler w h_sntp_try_next_server s = sntp_try_next_server w s"
| "sntp_handler w (h_other n) s = Some s"

datatype sntp_event =
    ev_init | ev_stop | ev_expire | ev_dns "u32 option" | ev_recv "pbuf list" | ev_second
  | ev_setserver u8 "u32 option" | ev_setservername u8 "u8 list option" | ev_set_timezone u8
  | ev_other_timeout u32 nat | ev_other_untimeout nat

fun sntp_handle :: "world \<Rightarrow> sntp_event \<Rightarrow> sntp \<Rightarrow> sntp option" where
  "sntp_handle w ev_init s = sntp_init w s"
| "sntp_handle w ev_stop s = Some (sntp_stop s)"
| "sntp_handle w ev_expire s =
     (case timeouts s of [] \<Rightarrow> Some s | t # r \<Rightarrow> sntp_handler w (hnd t) (s\<lparr>timeouts := r\<rparr>))"
| "sntp_handle w (ev_dns ipaddr) s = sntp_dns_found w ipaddr (s\<lparr>dns_waiting := dns_waiting s - 1\<rparr>)"
| "sntp_handle w (ev_recv p) s = sntp_recv w p s"
| "sntp_handle w ev_second s = Some (sntp_time_inc s)"
| "sntp_handle w (ev_setserver i a) s = sntp_setserver i a s"
| "sntp_handle w (ev_setservername i n) s = sntp_setservername i n s"
| "sntp_handle w (ev_set_timezone z) s = Some (snd (sntp_set_timezone z s))"
| "sntp_handle w (ev_other_timeout ms n) s = Some (timeout w ms (h_other n) s)"
| "sntp_handle w (ev_other_untimeout n) s = Some (untimeout (h_other n) s)"

text \<open>When an event can happen.\<close>

fun sntp_enabled :: "sntp_event \<Rightarrow> sntp \<Rightarrow> bool" where
  "sntp_enabled (ev_dns ipaddr) s \<longleftrightarrow> 0 < dns_waiting s"
| "sntp_enabled (ev_recv p) s \<longleftrightarrow> sntp_pcb s \<and> p \<noteq> [] \<and> wf_chain p"
| "sntp_enabled ev_second s \<longleftrightarrow> sntp_timer s"
| "sntp_enabled e s \<longleftrightarrow> True"

text \<open>The states reached when there is always memory for a timeout, with the events that led there.\<close>

inductive sntp_run :: "sntp_event list \<Rightarrow> sntp \<Rightarrow> bool" where
  run_start: "sntp_run [] sntp_start"
| run_step: "sntp_run es s \<Longrightarrow> sntp_enabled e s \<Longrightarrow> timeo_memory w \<Longrightarrow> sntp_handle w e s = Some s' \<Longrightarrow> sntp_run (e # es) s'"

section \<open>The interface to the timeouts\<close>

definition number :: "'h set \<Rightarrow> 'h multiset \<Rightarrow> nat" where
  "number hs m = size (filter_mset (\<lambda>h. h \<in> hs) m)"

text \<open>
  What the client needs of the list of timeouts: adding makes one more entry of its handler pending,
  cancelling takes one away if there is one.
\<close>

locale timeout_queue =
  fixes add :: "u32 \<Rightarrow> 'h \<Rightarrow> 'q \<Rightarrow> 'q"
    and cancel :: "'h \<Rightarrow> 'q \<Rightarrow> 'q"
    and pending :: "'q \<Rightarrow> 'h multiset"
  assumes pending_add: "pending (add ms h q) = add_mset h (pending q)"
    and pending_cancel: "pending (cancel h q) = pending q - {#h#}"
begin

lemma number_add: "number hs (pending (add ms h q)) = number hs (pending q) + of_bool (h \<in> hs)"
  by (simp add: number_def pending_add)

lemma number_cancel: "number hs (pending (cancel h q)) =
    (if h \<in> hs \<and> h \<in># pending q then number hs (pending q) - 1 else number hs (pending q))"
  by (auto simp: number_def pending_cancel size_Diff_singleton filter_diff_mset)

lemma number_cancel_le: "number hs (pending (cancel h q)) \<le> number hs (pending q)"
  by (simp add: number_cancel)

text \<open>If at most one entry of \<open>{a, b}\<close> is pending, cancelling both and adding one leaves exactly one.\<close>

lemma restart_one:
  assumes "number {a, b} (pending q) \<le> 1"
  shows "number {a, b} (pending (cancel b (cancel a q))) = 0"
proof (cases "a \<in># pending q")
  case True
  then show ?thesis using assms number_cancel_le [of "{a, b}" b "cancel a q"] number_cancel [of "{a, b}" a q] by simp
next
  case False
  then have "pending (cancel a q) = pending q" by (simp add: pending_cancel diff_single_trivial)
  then have n: "number {a, b} (pending (cancel a q)) = number {a, b} (pending q)" by (simp add: number_def)
  show ?thesis
  proof (cases "b \<in># pending q")
    case True
    then show ?thesis using assms n number_cancel [of "{a, b}" b "cancel a q"] \<open>pending (cancel a q) = pending q\<close> by simp
  next
    case b: False
    have "filter_mset (\<lambda>h. h \<in> {a, b}) (pending q) = {#}"
      using False b by auto
    then have "number {a, b} (pending q) = 0" by (simp add: number_def)
    then show ?thesis using n number_cancel_le [of "{a, b}" b "cancel a q"] by simp
  qed
qed

end

lemma mset_timeout_walk: "mset (map hnd (timeout_walk ts x)) = add_mset (hnd x) (mset (map hnd ts))"
  by (induction ts x rule: timeout_walk.induct) (auto simp: Let_def)

interpretation tq: timeout_queue "sys_timeout True" sys_untimeout "\<lambda>ts. mset (map hnd ts)"
proof
  show "mset (map hnd (sys_timeout True ms h ts)) = add_mset h (mset (map hnd ts))" for ms h and ts :: "'h sys_timeo list"
    using mset_timeout_walk [of ts "\<lparr>time = ms, hnd = h\<rparr>"] by (cases ts) (simp_all add: sys_timeout_def Let_def)
  show "mset (map hnd (sys_untimeout h ts)) = mset (map hnd ts) - {#h#}" for h and ts :: "'h sys_timeo list"
  proof (induction h ts rule: sys_untimeout.induct)
    case (2 h t ts)
    then show ?case by (cases ts) auto
  qed simp
qed

section \<open>Every operation keeps the client going\<close>

abbreviation own :: "handler set" where
  "own \<equiv> {h_sntp_try_next_server, h_sntp_request}"

text \<open>The continuations of the client: its pending timeouts and resolver calls.\<close>

definition conts :: "sntp \<Rightarrow> nat" where
  "conts s = number own (mset (map hnd (timeouts s))) + dns_waiting s"

definition retry_ok :: "u32 \<Rightarrow> bool" where
  "retry_ok ms \<longleftrightarrow> ms \<in> {3000, 6000, 12000, 24000}"

definition wf_sntp :: "sntp \<Rightarrow> bool" where
  "wf_sntp s \<longleftrightarrow> length (sntp_servers s) = 3 \<and> sntp_current_server s < 3 \<and>
     (sntp_retry_timeout s = 0 \<or> retry_ok (sntp_retry_timeout s)) \<and>
     (sntp_pcb s \<or> 0 < conts s \<longrightarrow> sntp_retry_timeout s \<noteq> 0)"

text \<open>A step that uses up nothing and adds one continuation.\<close>

definition goes_on :: "sntp \<Rightarrow> sntp \<Rightarrow> bool" where
  "goes_on s s' \<longleftrightarrow> conts s' = Suc (conts s) \<and> sntp_pcb s' = sntp_pcb s \<and> length (sntp_servers s') = 3 \<and>
     sntp_current_server s' < 3 \<and> retry_ok (sntp_retry_timeout s')"

definition ready :: "sntp \<Rightarrow> bool" where
  "ready s \<longleftrightarrow> length (sntp_servers s) = 3 \<and> sntp_current_server s < 3 \<and> retry_ok (sntp_retry_timeout s)"

lemma conts_timeout: "timeo_memory w \<Longrightarrow> h \<in> own \<Longrightarrow> conts (timeout w ms h s) = Suc (conts s)"
  using tq.number_add [of own ms h "timeouts s"] by (simp add: conts_def timeout_def)

lemma timeout_frame [simp]:
  "sntp_pcb (timeout w ms h s) = sntp_pcb s" "sntp_servers (timeout w ms h s) = sntp_servers s"
  "sntp_current_server (timeout w ms h s) = sntp_current_server s"
  "sntp_retry_timeout (timeout w ms h s) = sntp_retry_timeout s"
  "dns_waiting (timeout w ms h s) = dns_waiting s"
  by (simp_all add: timeout_def)

lemma conts_frame [simp]:
  "conts (s\<lparr>sntp_servers := svs\<rparr>) = conts s" "conts (s\<lparr>sntp_retry_timeout := ms\<rparr>) = conts s"
  "conts (s\<lparr>sntp_current_server := c\<rparr>) = conts s" "conts (s\<lparr>udp_out := ds\<rparr>) = conts s"
  "conts (s\<lparr>sntp_pcb := b\<rparr>) = conts s" "conts (s\<lparr>dns_waiting := n\<rparr>) + dns_waiting s = conts s + n"
  "conts (s\<lparr>realtime_stamp := t\<rparr>) = conts s" "conts (s\<lparr>sntp_timer := b\<rparr>) = conts s"
  "conts (s\<lparr>printed := ps\<rparr>) = conts s" "conts (s\<lparr>time_zone := z\<rparr>) = conts s"
  by (simp_all add: conts_def)

lemma retry_ok_doubled:
  assumes "retry_ok ms" "push_bit 1 ms \<le> 3000 * 10"
  shows "retry_ok (push_bit 1 ms)"
  using assms by (auto simp: retry_ok_def push_bit_eq_mult)

lemma retry_goes_on: "timeo_memory w \<Longrightarrow> ready s \<Longrightarrow> goes_on s (sntp_retry w s)"
  using retry_ok_doubled [of "sntp_retry_timeout s"]
  by (simp add: sntp_retry_def Let_def goes_on_def ready_def conts_timeout)

lemma send_request_frame [simp]:
  "sntp_pcb (sntp_send_request w a s) = sntp_pcb s" "sntp_servers (sntp_send_request w a s) = sntp_servers s"
  "sntp_current_server (sntp_send_request w a s) = sntp_current_server s"
  "sntp_retry_timeout (sntp_send_request w a s) = sntp_retry_timeout s"
  "timeo_memory w \<Longrightarrow> conts (sntp_send_request w a s) = Suc (conts s)"
  by (simp_all add: sntp_send_request_def conts_timeout)

lemma send_request_goes_on: "timeo_memory w \<Longrightarrow> ready s \<Longrightarrow> goes_on s (sntp_send_request w a s)"
  by (simp add: goes_on_def ready_def)

lemma server_in_table: "ready s \<Longrightarrow> unat (sntp_current_server s) < length (sntp_servers s)"
  by (simp add: ready_def word_less_nat_alt)

lemma set_addr_in: "unat i < length (sntp_servers s) \<Longrightarrow>
    set_addr i a s = Some (s\<lparr>sntp_servers := (sntp_servers s)[unat i := (sntp_servers s ! unat i)\<lparr>srv_addr := a\<rparr>]\<rparr>)"
  by (simp add: set_addr_def)

lemma request_goes_on:
  assumes "timeo_memory w" "ready s"
  shows "\<exists>s'. sntp_request w s = Some s' \<and> goes_on s s'"
proof -
  have w: "conts (s\<lparr>sntp_servers := svs, dns_waiting := Suc (dns_waiting s)\<rparr>) = Suc (conts s)" for svs
    by (simp add: conts_def)
  show ?thesis
    using assms server_in_table [OF assms(2)]
    by (auto simp: sntp_request_def set_addr_in goes_on_def conts_timeout ready_def w split: dns_answer.split)
qed

lemma next_server_in:
  assumes "length servers = 3" "current < 3"
  shows "\<exists>c. next_server n servers current = Some c \<and> (\<forall>i. c = Some i \<longrightarrow> i < 3)"
  using assms(2)
proof (induction n arbitrary: current)
  case (Suc n)
  define c where "c = (if 3 \<le> current + 1 then 0 else current + 1)"
  have c: "c < 3" "unat c < length servers" using assms(1) by (auto simp: c_def word_less_nat_alt word_le_nat_alt)
  then show ?case using Suc.IH [OF c(1)] by (simp add: Let_def c_def [symmetric])
qed simp

lemma try_next_server_goes_on:
  assumes "timeo_memory w" "ready s"
  shows "\<exists>s'. sntp_try_next_server w s = Some s' \<and> goes_on s s'"
proof -
  obtain c where c: "next_server 2 (sntp_servers s) (sntp_current_server s) = Some c" "\<forall>i. c = Some i \<longrightarrow> i < 3"
    using next_server_in [of "sntp_servers s" "sntp_current_server s" 2] assms(2) by (auto simp: ready_def)
  have g: "goes_on s s'" if "goes_on (s\<lparr>sntp_current_server := i, sntp_retry_timeout := 3000\<rparr>) s'" for i s'
    using that by (simp add: goes_on_def)
  show ?thesis
  proof (cases c)
    case None
    then show ?thesis using c retry_goes_on [OF assms] by (simp add: sntp_try_next_server_def)
  next
    case (Some i)
    then have "ready (s\<lparr>sntp_current_server := i, sntp_retry_timeout := 3000\<rparr>)"
      using assms(2) c(2) by (simp add: ready_def retry_ok_def)
    then show ?thesis
      using Some c(1) request_goes_on [OF assms(1)] g by (fastforce simp: sntp_try_next_server_def)
  qed
qed

text \<open>A datagram is always handled, whatever it holds.\<close>

lemma check_reply_spec:
  assumes "wf_chain p" "p \<noteq> []"
  shows "check_reply p = Some
    (if length (flat p) \<noteq> 48 \<or> flat p ! 0 AND 7 \<noteq> 4 \<and> flat p ! 0 AND 7 \<noteq> 5 then reply_bad
     else if flat p ! 1 = 0 then reply_kod else reply_ok (take 4 (drop 32 (flat p))))"
proof -
  obtain q r where p: "p = q # r" using assms(2) by (cases p) auto
  have "unat (tot_len q) = length (flat p)" using assms(1) by (simp add: p)
  then have l: "tot_len q = 48 \<longleftrightarrow> length (flat p) = 48" by (simp add: word_unat_eq_iff)
  show ?thesis
  proof (cases "length (flat p) = 48")
    case True
    then obtain a b r where f: "flat p = a # b # r" by (metis Suc_length_conv numeral_eq_Suc pred_numeral_simps(2) BitM.simps)
    have "pbuf_copy_partial p [0] 1 0 = Some (1, [flat p ! 0])" "pbuf_copy_partial p [0] 1 1 = Some (1, [flat p ! 1])"
      "pbuf_copy_partial p [0, 0, 0, 0] 4 32 = Some (4, take 4 (drop 32 (flat p)))"
      using True by (simp_all add: copy_partial_bytes [OF assms(1)] f blit_def)
    moreover have "ld p 0 = Some q" by (simp add: p)
    ultimately show ?thesis using True l by (auto simp: check_reply_def Let_def)
  next
    case False
    then show ?thesis using l by (simp add: check_reply_def p)
  qed
qed

text \<open>The local time of a stamp, and that its text is always printed.\<close>

definition local_stamp :: "u8 \<Rightarrow> u32 \<Rightarrow> u32" where
  "local_stamp zone ts = lwip_htonl ts - 2208988800 + word_of_int (sint zone * 60 * 60)"

lemma process_total:
  "\<exists>line. sntp_process ts s = Some (s\<lparr>realtime_stamp := local_stamp (time_zone s) ts, sntp_timer := True,
       printed := printed s @ [line @ [CHR 0x0A]]\<rparr>) \<and>
     sntp_get_real_time 0 (sint (local_stamp (time_zone s) ts)) = Some line"
proof -
  let ?t = "local_stamp (time_zone s) ts"
  have "- (2 ^ 31) \<le> sint ?t" "sint ?t < 2 ^ 31" using sint_range_size [of ?t] by (simp_all add: word_size)
  then obtain line where "sntp_get_real_time 0 (sint ?t) = Some line" using real_time_text [of 0 "sint ?t"] by auto
  then show ?thesis by (simp only: sntp_process_def Let_def local_stamp_def [symmetric]) simp
qed

lemma untimeout_frame [simp]:
  "sntp_pcb (untimeout h s) = sntp_pcb s" "sntp_servers (untimeout h s) = sntp_servers s"
  "sntp_current_server (untimeout h s) = sntp_current_server s"
  "sntp_retry_timeout (untimeout h s) = sntp_retry_timeout s" "dns_waiting (untimeout h s) = dns_waiting s"
  "ready (untimeout h s) = ready s" "time_zone (untimeout h s) = time_zone s"
  "conts (untimeout h s) \<le> conts s"
  using tq.number_cancel_le [of own h "timeouts s"] by (simp_all add: untimeout_def ready_def conts_def)

text \<open>A reply takes the continuations off the list and leaves one more than there were then.\<close>

lemma recv_goes_on:
  assumes "timeo_memory w" "ready s" "wf_chain p" "p \<noteq> []"
  shows "\<exists>s'. sntp_recv w p s = Some s' \<and> goes_on (untimeout h_sntp_request (untimeout h_sntp_try_next_server s)) s'"
proof -
  let ?s = "untimeout h_sntp_request (untimeout h_sntp_try_next_server s)"
  have r: "ready ?s" using assms(2) by simp
  obtain v where v: "check_reply p = Some v" using check_reply_spec [OF assms(3,4)] by blast
  show ?thesis
  proof (cases v)
    case (reply_ok ts)
    obtain line where "sntp_process (word_of_bytes ts) (?s\<lparr>sntp_retry_timeout := 3000\<rparr>) = Some
      (?s\<lparr>sntp_retry_timeout := 3000, realtime_stamp := local_stamp (time_zone ?s) (word_of_bytes ts), sntp_timer := True,
        printed := printed ?s @ [line @ [CHR 0x0A]]\<rparr>)"
      using process_total [of "word_of_bytes ts" "?s\<lparr>sntp_retry_timeout := 3000\<rparr>"] by auto
    then show ?thesis using v reply_ok r assms(1)
      by (simp add: sntp_recv_def Let_def goes_on_def conts_timeout ready_def retry_ok_def)
  next
    case reply_kod
    then show ?thesis using v try_next_server_goes_on [OF assms(1) r] by (simp add: sntp_recv_def Let_def)
  next
    case reply_bad
    then show ?thesis using v retry_goes_on [OF assms(1) r] by (simp add: sntp_recv_def Let_def)
  qed
qed

lemma dns_found_goes_on:
  "timeo_memory w \<Longrightarrow> ready s \<Longrightarrow> \<exists>s'. sntp_dns_found w a s = Some s' \<and> goes_on s s'"
  using send_request_goes_on try_next_server_goes_on by (cases a) (simp_all add: sntp_dns_found_def)

lemma goes_on_wf: "goes_on s s' \<Longrightarrow> wf_sntp s' \<and> 0 < conts s'"
  by (auto simp: goes_on_def wf_sntp_def retry_ok_def)

text \<open>The invariant of the client: it is well formed, and has a continuation while it has a pcb.\<close>

definition lives :: "sntp \<Rightarrow> bool" where
  "lives s \<longleftrightarrow> wf_sntp s \<and> (sntp_pcb s \<longrightarrow> 0 < conts s)"

lemma lives_ready: "lives s \<Longrightarrow> 0 < conts s \<Longrightarrow> ready s"
  by (auto simp: lives_def wf_sntp_def ready_def)

lemma goes_on_lives: "goes_on s s' \<Longrightarrow> lives s'"
  using goes_on_wf by (simp add: lives_def)

text \<open>What touches neither the timeouts of the client nor its variables keeps it alive.\<close>

lemma lives_frame:
  assumes "lives s" "length (sntp_servers s') = length (sntp_servers s)"
    "sntp_current_server s' = sntp_current_server s" "sntp_retry_timeout s' = sntp_retry_timeout s"
    "conts s' = conts s" "sntp_pcb s' = sntp_pcb s"
  shows "lives s'"
  using assms by (simp add: lives_def wf_sntp_def)

lemma conts_other: "conts (timeout w ms (h_other n) s) = conts s" "conts (untimeout (h_other n) s) = conts s"
  using tq.number_add [of own ms "h_other n" "timeouts s"] tq.number_cancel [of own "h_other n" "timeouts s"]
  by (cases "timeo_memory w"; simp add: conts_def timeout_def untimeout_def sys_timeout_def [of False])+

lemma stop_lives: "lives s \<Longrightarrow> lives (sntp_stop s)"
  using untimeout_frame(8) [of h_sntp_request s] by (auto simp: lives_def wf_sntp_def sntp_stop_def Let_def)

lemma set_tables:
  assumes "length (sntp_servers s) = 3"
  shows "\<exists>svs. sntp_setserver i a s = Some (s\<lparr>sntp_servers := svs\<rparr>) \<and> length svs = 3"
    and "\<exists>svs. sntp_setservername i n s = Some (s\<lparr>sntp_servers := svs\<rparr>) \<and> length svs = 3"
proof -
  have u: "i < 3 \<Longrightarrow> unat i < 3" by (simp add: word_less_nat_alt)
  have n: "\<not> i < 3 \<Longrightarrow> \<exists>svs. s = s\<lparr>sntp_servers := svs\<rparr> \<and> length svs = 3"
    using assms by (intro exI [of _ "sntp_servers s"]) simp
  show "\<exists>svs. sntp_setserver i a s = Some (s\<lparr>sntp_servers := svs\<rparr>) \<and> length svs = 3"
    using assms u n by (cases "i < 3") (auto simp: sntp_setserver_def set_addr_in)
  show "\<exists>svs. sntp_setservername i n s = Some (s\<lparr>sntp_servers := svs\<rparr>) \<and> length svs = 3"
    using assms u n by (cases "i < 3") (auto simp: sntp_setservername_def)
qed

lemma lives_handle:
  assumes "lives s" "sntp_enabled e s" "timeo_memory w"
  shows "\<exists>s'. sntp_handle w e s = Some s' \<and> lives s'"
proof (cases e)
  case ev_init
  show ?thesis
  proof (cases "\<not> sntp_pcb s \<and> pcb_memory w")
    case True
    have "ready (s\<lparr>sntp_retry_timeout := 3000, sntp_pcb := True\<rparr>)"
      using assms(1) by (simp add: lives_def wf_sntp_def ready_def retry_ok_def)
    then show ?thesis using True request_goes_on [OF assms(3)] goes_on_lives
      by (fastforce simp: ev_init sntp_init_def)
  next
    case False
    then show ?thesis using assms(1) by (auto simp: ev_init sntp_init_def lives_def wf_sntp_def retry_ok_def)
  qed
next
  case ev_expire
  show ?thesis
  proof (cases "timeouts s")
    case Nil
    then show ?thesis using assms(1) by (simp add: ev_expire)
  next
    case (Cons t r)
    let ?s = "s\<lparr>timeouts := r\<rparr>"
    have c: "conts s = conts ?s + of_bool (hnd t \<in> own)" by (simp add: conts_def Cons number_def)
    show ?thesis
    proof (cases "hnd t \<in> own")
      case True
      then have "ready ?s" using c lives_ready [OF assms(1)] by (simp add: ready_def)
      then show ?thesis using True request_goes_on [OF assms(3)] try_next_server_goes_on [OF assms(3)] goes_on_lives
        by (fastforce simp: ev_expire Cons)
    next
      case False
      then have "sntp_handler w (hnd t) ?s = Some ?s" by (cases "hnd t") simp_all
      moreover have "lives ?s" using c False assms(1) by (simp add: lives_def wf_sntp_def)
      ultimately show ?thesis by (simp add: ev_expire Cons)
    qed
  qed
next
  case (ev_dns a)
  have "0 < conts s" using assms(2) by (simp add: ev_dns conts_def)
  then have "ready (s\<lparr>dns_waiting := dns_waiting s - 1\<rparr>)" using lives_ready [OF assms(1)] by (simp add: ready_def)
  then show ?thesis using dns_found_goes_on [OF assms(3)] goes_on_lives by (fastforce simp: ev_dns)
next
  case (ev_recv p)
  then have "ready s" "wf_chain p" "p \<noteq> []" using assms(1,2) lives_ready [OF assms(1)] by (auto simp: lives_def)
  then show ?thesis using recv_goes_on [OF assms(3)] goes_on_lives by (fastforce simp: ev_recv)
next
  case ev_stop
  then show ?thesis using stop_lives [OF assms(1)] by simp
next
  case ev_second
  then show ?thesis using lives_frame [OF assms(1)] by (simp add: sntp_time_inc_def)
next
  case (ev_setserver i a)
  then show ?thesis using lives_frame [OF assms(1)] set_tables(1) [of s i a] assms(1)
    by (force simp: lives_def wf_sntp_def)
next
  case (ev_setservername i n)
  then show ?thesis using lives_frame [OF assms(1)] set_tables(2) [of s i n] assms(1)
    by (force simp: lives_def wf_sntp_def)
next
  case (ev_set_timezone z)
  then show ?thesis using lives_frame [OF assms(1)] assms(1) by (simp add: sntp_set_timezone_def)
next
  case (ev_other_timeout ms n)
  then show ?thesis using lives_frame [OF assms(1)] by (simp add: conts_other)
next
  case (ev_other_untimeout n)
  then show ?thesis using lives_frame [OF assms(1)] by (simp add: conts_other)
qed

lemma run_lives: "sntp_run es s \<Longrightarrow> lives s"
proof (induction rule: sntp_run.induct)
  case run_start
  show ?case by (simp add: lives_def wf_sntp_def sntp_start_def conts_def number_def)
next
  case (run_step es s e w s')
  then show ?case using lives_handle [of s e w] by auto
qed


text \<open>
  The retry time is one of four: 3, 6, 12 and 24 seconds (or 0 before the client was first
  started), so it never overflows and never reaches the maximum of 30 seconds, and the current server
  is one of the table.
\<close>

theorem sntp_retry_bounds:
  assumes "sntp_run es s"
  shows "sntp_retry_timeout s \<in> {0, 3000, 6000, 12000, 24000} \<and> (sntp_pcb s \<longrightarrow> sntp_retry_timeout s \<noteq> 0) \<and>
    unat (sntp_current_server s) < length (sntp_servers s)"
  using run_lives [OF assms] by (auto simp: lives_def wf_sntp_def retry_ok_def word_less_nat_alt)

text \<open>
  A run: two servers with addresses, the client started, and stopped before the reply; the timeout that
  remains then fires.
\<close>

abbreviation all_memory :: world where
  "all_memory \<equiv> \<lparr>timeo_memory = True, pbuf_memory = True, pcb_memory = True, dns = dns_failed\<rparr>"

definition two_servers :: sntp where
  "two_servers = sntp_start\<lparr>sntp_servers := [\<lparr>srv_name = None, srv_addr = 1\<rparr>, \<lparr>srv_name = None, srv_addr = 2\<rparr>,
     \<lparr>srv_name = None, srv_addr = 0\<rparr>]\<rparr>"

definition started_client :: sntp where
  "started_client = two_servers\<lparr>sntp_pcb := True, sntp_retry_timeout := 3000,
     timeouts := [\<lparr>time = 3000, hnd = h_sntp_try_next_server\<rparr>],
     udp_out := [\<lparr>from_pcb = True, dest = 1, payload = sntp_initialize_request\<rparr>]\<rparr>"

lemma two_servers_run: "sntp_run [ev_setserver 1 (Some 2), ev_setserver 0 (Some 1)] two_servers"
proof -
  have h: "sntp_handle all_memory (ev_setserver 0 (Some 1)) sntp_start = Some (sntp_start\<lparr>sntp_servers :=
      [\<lparr>srv_name = None, srv_addr = 1\<rparr>, \<lparr>srv_name = None, srv_addr = 0\<rparr>, \<lparr>srv_name = None, srv_addr = 0\<rparr>]\<rparr>)"
    "sntp_handle all_memory (ev_setserver 1 (Some 2)) (sntp_start\<lparr>sntp_servers :=
      [\<lparr>srv_name = None, srv_addr = 1\<rparr>, \<lparr>srv_name = None, srv_addr = 0\<rparr>, \<lparr>srv_name = None, srv_addr = 0\<rparr>]\<rparr>) = Some two_servers"
    by (simp_all add: sntp_setserver_def set_addr_def two_servers_def sntp_start_def numeral_3_eq_3)
  show ?thesis by (rule run_step [OF run_step [OF run_start _ _ h(1)] _ _ h(2)]) simp_all
qed

lemma started_client_run: "sntp_run [ev_init, ev_setserver 1 (Some 2), ev_setserver 0 (Some 1)] started_client"
proof (rule run_step [OF two_servers_run])
  show "sntp_handle all_memory ev_init two_servers = Some started_client"
    by (simp add: sntp_init_def sntp_request_def sntp_send_request_def timeout_def sys_timeout_def two_servers_def
      started_client_def sntp_start_def)
qed simp_all


lemma sntp_retry_bounds_witness: "sntp_retry_timeout started_client = 3000 \<and> unat (sntp_current_server started_client) < 3"
  using sntp_retry_bounds [OF started_client_run] by (simp add: started_client_def two_servers_def)



section \<open>Replies\<close>

text \<open>The number of a time stamp: its four bytes, the first one the highest.\<close>

definition be_value :: "u8 list \<Rightarrow> nat" where
  "be_value bs = fold (\<lambda>b n. 256 * n + unat b) bs 0"

lemma bytes_disjoint:
  fixes a b c d :: u8
  shows "(ucast a :: u32) + push_bit 8 (ucast b) + push_bit 16 (ucast c) + push_bit 24 (ucast d) =
    ucast a OR push_bit 8 (ucast b) OR push_bit 16 (ucast c) OR push_bit 24 (ucast d)"
proof -
  have "(ucast a :: u32) + push_bit 8 (ucast b) = ucast a OR push_bit 8 (ucast b)"
    by (rule disjunctive_add) (auto simp: bit_ucast_iff bit_push_bit_iff dest: bit_imp_le_length)
  moreover have "(ucast a OR push_bit 8 (ucast b) :: u32) + push_bit 16 (ucast c) =
      (ucast a OR push_bit 8 (ucast b)) OR push_bit 16 (ucast c)"
    by (rule disjunctive_add) (auto simp: bit_ucast_iff bit_push_bit_iff bit_or_iff dest: bit_imp_le_length)
  moreover have "((ucast a OR push_bit 8 (ucast b)) OR push_bit 16 (ucast c) :: u32) + push_bit 24 (ucast d) =
      ((ucast a OR push_bit 8 (ucast b)) OR push_bit 16 (ucast c)) OR push_bit 24 (ucast d)"
    by (rule disjunctive_add) (auto simp: bit_ucast_iff bit_push_bit_iff bit_or_iff dest: bit_imp_le_length)
  ultimately show ?thesis by (simp only: or.assoc)
qed

lemma bytes_sum:
  "word_of_bytes [a, b, c, d] = (of_nat (unat a + 256 * unat b + 65536 * unat c + 16777216 * unat d) :: u32)"
proof -
  have "word_of_bytes [a, b, c, d] =
      (ucast a :: u32) + push_bit 8 (ucast b) + push_bit 16 (ucast c) + push_bit 24 (ucast d)"
    by (simp add: word_of_bytes_def bytes_disjoint)
  then show ?thesis by (simp add: push_bit_eq_mult)
qed

lemma htonl_bytes: "lwip_htonl (word_of_bytes [a, b, c, d]) = word_of_bytes [d, c, b, a]"
  by (rule bit_word_eqI)
    (auto simp: bit_lwip_htonl word_of_bytes_def bit_or_iff bit_push_bit_iff bit_ucast_iff dest: bit_imp_le_length)

lemma list4_cases: "length bs = 4 \<Longrightarrow> \<exists>a b c d. bs = [a, b, c, d]"
  by (auto simp: length_Suc_conv numeral_eq_Suc)

lemma htonl_be: "length bs = 4 \<Longrightarrow> lwip_htonl (word_of_bytes bs) = of_nat (be_value bs)"
proof -
  assume "length bs = 4"
  then obtain a b c d where bs: "bs = [a, b, c, d]" using list4_cases by blast
  have "be_value [a, b, c, d] = unat d + 256 * unat c + 65536 * unat b + 16777216 * unat a"
    by (simp add: be_value_def algebra_simps)
  then show ?thesis unfolding bs htonl_bytes by (simp only: bytes_sum)
qed

text \<open>
  C26: what \<open>sntp_recv\<close> does with any datagram. It is a reply if the packet has exactly 48 bytes, mode 4
  or 5 and a stratum that is not 0: then the clock is set from the receive time stamp, its text is
  printed, the retry time is reset and the next request comes in an hour. With stratum 0 the next
  server is tried, and anything else is retried; the clock stays as it was.
\<close>

theorem sntp_recv_cases:
  assumes "wf_chain p" "p \<noteq> []"
  shows "sntp_recv w p s =
    (let t = untimeout h_sntp_request (untimeout h_sntp_try_next_server s);
         byts = flat p;
         now = of_nat (be_value (take 4 (drop 32 byts))) - 2208988800 + word_of_int (sint (time_zone s) * 60 * 60)
     in if length byts \<noteq> 48 \<or> byts ! 0 AND 7 \<notin> {4, 5} then Some (sntp_retry w t)
        else if byts ! 1 = 0 then sntp_try_next_server w t
        else map_option (\<lambda>line. timeout w 3600000 h_sntp_request
          (t\<lparr>sntp_retry_timeout := 3000, realtime_stamp := now, sntp_timer := True,
             printed := printed s @ [line @ [CHR 0x0A]]\<rparr>)) (sntp_get_real_time 0 (sint now)))"
proof -
  let ?t = "untimeout h_sntp_request (untimeout h_sntp_try_next_server s)"
  have p: "printed ?t = printed s" by (simp add: untimeout_def)
  show ?thesis
  proof (cases "length (flat p) = 48")
    case True
    let ?b = "take 4 (drop 32 (flat p))"
    have now: "local_stamp (time_zone s) (word_of_bytes ?b) =
        of_nat (be_value ?b) - 2208988800 + word_of_int (sint (time_zone s) * 60 * 60)"
      using True by (simp only: local_stamp_def) (subst htonl_be; simp)
    obtain line where line: "sntp_process (word_of_bytes ?b) (?t\<lparr>sntp_retry_timeout := 3000\<rparr>) = Some
        (?t\<lparr>sntp_retry_timeout := 3000, realtime_stamp := local_stamp (time_zone s) (word_of_bytes ?b),
          sntp_timer := True, printed := printed s @ [line @ [CHR 0x0A]]\<rparr>)"
      "sntp_get_real_time 0 (sint (local_stamp (time_zone s) (word_of_bytes ?b))) = Some line"
      using process_total [of "word_of_bytes ?b" "?t\<lparr>sntp_retry_timeout := 3000\<rparr>"] p by auto
    then show ?thesis using True
      by (simp only: now sntp_recv_def check_reply_spec [OF assms] Let_def) auto
  next
    case False
    then show ?thesis by (simp add: sntp_recv_def check_reply_spec [OF assms] Let_def)
  qed
qed

lemma sntp_recv_cases_witness:
  "sntp_recv all_memory [ram_pbuf (replicate 48 0)] started_client = Some (sntp_retry all_memory (started_client\<lparr>timeouts := []\<rparr>))"
proof -
  have "wf_chain [ram_pbuf (replicate 48 0)]" "flat [ram_pbuf (replicate 48 0)] = replicate 48 0"
    by (simp_all add: ram_pbuf_def wf_pbuf_def data_def)
  then show ?thesis using sntp_recv_cases [of "[ram_pbuf (replicate 48 0)]" all_memory started_client]
    by (simp add: untimeout_def started_client_def two_servers_def sntp_start_def)
qed

lemma sint_in_range: "- (2 ^ 31) \<le> x \<Longrightarrow> x < 2 ^ 31 \<Longrightarrow> sint (word_of_int x :: u32) = x"
  by (simp add: sint_sbintrunc' signed_take_bit_int_eq_self)

text \<open>
  C27: the clock shows the local time. For any second \<open>u\<close> of Unix time, a time stamp that is the server's
  count of seconds since 1900 modulo \<open>2 ^ 32\<close> (in either NTP era) sets the clock to the seconds of the
  local time, and the line printed is the text of the date that is \<open>u\<close> and the zone's hours after 1970,
  as long as that count fits 32 bits.
\<close>

theorem sntp_shows_local_time:
  assumes "length byts = 4" "int (be_value byts) = (u + 2208988800) mod 2 ^ 32"
    and "- (2 ^ 31) \<le> u + 3600 * sint (time_zone s)" "u + 3600 * sint (time_zone s) < 2 ^ 31"
  shows "\<exists>s' r line. sntp_process (word_of_bytes byts) s = Some s' \<and>
    sint (realtime_stamp s') = u + 3600 * sint (time_zone s) \<and>
    on_calendar r \<and> weekday_ok r \<and> seconds r = u + 3600 * sint (time_zone s) \<and>
    sntp_asctime_r r = Some line \<and> printed s' = printed s @ [line @ [CHR 0x0A]] \<and> sntp_timer s'"
proof -
  let ?z = "sint (time_zone s)" and ?t = "local_stamp (time_zone s) (word_of_bytes byts)"
  have "(of_nat (be_value byts) :: u32) = word_of_int ((u + 2208988800) mod 2 ^ 32)"
    by (simp only: assms(2) [symmetric] of_int_of_nat_eq)
  then have "?t = word_of_int ((u + 2208988800) mod 2 ^ 32 - 2208988800 + ?z * 60 * 60)"
    by (simp only: local_stamp_def htonl_be [OF assms(1)]) simp
  also have "\<dots> = word_of_int (u + 3600 * ?z)"
  proof -
    have "(x mod m - d + z) mod m = (x - d + z) mod m" for x m d z :: int
      using mod_add_left_eq [of x m "z - d"] by (simp add: algebra_simps)
    from this [of "u + 2208988800" "2 ^ 32" 2208988800 "?z * 60 * 60"] show ?thesis
      by (simp only: word_of_int_eq_iff take_bit_eq_mod) (simp add: algebra_simps)
  qed
  finally have t: "sint ?t = u + 3600 * ?z" using sint_in_range [OF assms(3,4)] by (simp only:)
  obtain r line where r: "sntp_localtime_r 0 (u + 3600 * ?z) = Some r" "on_calendar r" "seconds r = u + 3600 * ?z"
    "weekday_ok r" "sntp_asctime_r r = Some line" "sntp_get_real_time 0 (u + 3600 * ?z) = Some line"
    using real_time_text [of 0 "u + 3600 * ?z"] assms(3,4) by auto
  obtain line' where p: "sntp_process (word_of_bytes byts) s = Some (s\<lparr>realtime_stamp := ?t, sntp_timer := True,
       printed := printed s @ [line' @ [CHR 0x0A]]\<rparr>)" "sntp_get_real_time 0 (sint ?t) = Some line'"
    using process_total [of "word_of_bytes byts" s] by blast
  then have "line' = line" using r(6) by (simp only: t) simp
  then show ?thesis using p(1) r(2-5) t by auto
qed

lemma sntp_shows_local_time_witness:
  "\<exists>s' r line. sntp_process (word_of_bytes [0xDD, 0x12, 0xAF, 0x00]) sntp_start = Some s' \<and>
    sint (realtime_stamp s') = 1500029184 \<and> seconds r = 1500029184 \<and> sntp_asctime_r r = Some line \<and>
    printed s' = [line @ [CHR 0x0A]]"
proof -
  have z: "sint (time_zone sntp_start) = 8" "printed sntp_start = []" by (simp_all add: sntp_start_def)
  have "int (be_value [0xDD, 0x12, 0xAF, 0x00]) = (1500000384 + 2208988800) mod 2 ^ 32" by (simp add: be_value_def)
  from sntp_shows_local_time [OF _ this, of sntp_start] show ?thesis by (simp add: z) blast
qed

text \<open>
  The next server is the first of the two behind the current one, in a circle, that has an address or
  a name: it gets a request at once and the first retry time. Without one the current server stays and
  is retried.
\<close>

theorem sntp_next_server:
  assumes "length (sntp_servers s) = 3" "sntp_current_server s < 3"
  shows "sntp_try_next_server w s =
    (let c = unat (sntp_current_server s)
     in case find (\<lambda>k. configured (sntp_servers s ! k)) [(c + 1) mod 3, (c + 2) mod 3] of
          Some k \<Rightarrow> sntp_request w (s\<lparr>sntp_current_server := of_nat k, sntp_retry_timeout := 3000\<rparr>)
        | None \<Rightarrow> Some (sntp_retry w s))"
proof -
  have "unat (sntp_current_server s) < 3" using assms(2) by (simp add: word_less_nat_alt)
  then have "sntp_current_server s \<in> {0, 1, 2}" by (auto simp: word_unat_eq_iff)
  then consider "sntp_current_server s = 0" | "sntp_current_server s = 1" | "sntp_current_server s = 2" by blast
  moreover have n: "next_server (unat (SNTP_MAX_SERVERS - 1)) svs c = next_server (Suc (Suc 0)) svs c" for svs c
  proof -
    have "unat (SNTP_MAX_SERVERS - 1) = Suc (Suc 0)" by simp
    then show ?thesis by (simp only:)
  qed
  have l: "ld (sntp_servers s) 0 = Some (sntp_servers s ! 0)" "ld (sntp_servers s) 1 = Some (sntp_servers s ! 1)"
    "ld (sntp_servers s) 2 = Some (sntp_servers s ! 2)" using assms(1) by simp_all
  have m: "(0 + 1) mod 3 = (1 :: nat)" "(0 + 2) mod 3 = (2 :: nat)" "(1 + 1) mod 3 = (2 :: nat)" "(1 + 2) mod 3 = (0 :: nat)"
    "(2 + 1) mod 3 = (0 :: nat)" "(2 + 2) mod 3 = (1 :: nat)" by simp_all
  have u: "unat (0 :: u8) = 0" "unat (1 :: u8) = 1" "unat (2 :: u8) = 2" "(0 :: u8) + 1 = 1" "(1 :: u8) + 1 = 2"
    "(2 :: u8) + 1 = 3" "\<not> (3 :: u8) \<le> 1" "\<not> (3 :: u8) \<le> 2" "(3 :: u8) \<le> 3"
    "(of_nat 0 :: u8) = 0" "(of_nat 1 :: u8) = 1" "(of_nat 2 :: u8) = 2" by (simp_all add: word_le_nat_alt)
  ultimately show ?thesis
    unfolding sntp_try_next_server_def Let_def n next_server.simps
    by cases (simp_all only: l m u if_True if_False bind.bind_lunit find.simps option.case split: if_split, simp_all)
qed

lemma sntp_next_server_witness:
  "sntp_try_next_server all_memory two_servers =
   sntp_request all_memory (two_servers\<lparr>sntp_current_server := 1, sntp_retry_timeout := 3000\<rparr>)"
  using sntp_next_server [of two_servers all_memory] by (simp add: two_servers_def sntp_start_def configured_def)

section \<open>Stopping\<close>

text \<open>
  Stopping the client does not stop it. \<open>sntp_stop\<close> cancels \<open>sntp_request\<close> but not
  \<open>sntp_try_next_server\<close>, so the timeout of a request that was not yet answered stays; when it fires, a
  client without a pcb sends a request through the null pointer, and goes on for ever.
\<close>

theorem sntp_stop_leaves_a_timeout:
  "\<exists>es s. sntp_run (ev_expire # ev_stop # es) s \<and> \<not> sntp_pcb s \<and> 0 < conts s \<and>
     (\<exists>d. udp_out s = [\<lparr>from_pcb = True, dest = 1, payload = sntp_initialize_request\<rparr>, d] \<and> \<not> from_pcb d)"
proof -
  let ?d = "\<lparr>from_pcb = False, dest = 2, payload = sntp_initialize_request\<rparr>"
  define s where "s = started_client\<lparr>sntp_pcb := False\<rparr>"
  define s' where "s' = s\<lparr>sntp_current_server := 1, udp_out := udp_out started_client @ [?d]\<rparr>"
  have "sntp_stop started_client = s"
    by (simp add: sntp_stop_def untimeout_def s_def started_client_def two_servers_def sntp_start_def)
  then have "sntp_run [ev_stop, ev_init, ev_setserver 1 (Some 2), ev_setserver 0 (Some 1)] s"
    by (intro run_step [OF started_client_run, of _ all_memory]) simp_all
  moreover have "sntp_handle all_memory ev_expire s = Some s'"
  proof -
    have "sntp_handle all_memory ev_expire s = sntp_try_next_server all_memory (s\<lparr>timeouts := []\<rparr>)"
      by (simp add: s_def started_client_def)
    also have "\<dots> = sntp_request all_memory (s\<lparr>timeouts := [], sntp_current_server := 1, sntp_retry_timeout := 3000\<rparr>)"
    proof -
      have "next_server (Suc (Suc 0)) (sntp_servers s) 0 = Some (Some 1)"
        by (simp add: s_def started_client_def two_servers_def configured_def word_le_nat_alt)
      moreover have "unat (SNTP_MAX_SERVERS - 1) = Suc (Suc 0)" by simp
      ultimately have "next_server (unat (SNTP_MAX_SERVERS - 1)) (sntp_servers s) 0 = Some (Some 1)" by (simp only:)
      moreover have "sntp_current_server s = 0" by (simp add: s_def started_client_def two_servers_def sntp_start_def)
      ultimately show ?thesis by (simp only: sntp_try_next_server_def sntp.select_convs sntp.update_convs) simp
    qed
    also have "\<dots> = Some s'"
      by (simp add: s'_def s_def started_client_def two_servers_def sntp_start_def sntp_request_def sntp_send_request_def
          timeout_def sys_timeout_def)
    finally show ?thesis .
  qed
  ultimately have "sntp_run [ev_expire, ev_stop, ev_init, ev_setserver 1 (Some 2), ev_setserver 0 (Some 1)] s'"
    using run_step [of _ s ev_expire all_memory s'] by simp
  moreover have "\<not> sntp_pcb s'" "0 < conts s'"
    "udp_out s' = [\<lparr>from_pcb = True, dest = 1, payload = sntp_initialize_request\<rparr>, ?d]"
    by (simp_all add: s'_def s_def started_client_def conts_def number_def)
  ultimately show ?thesis by fastforce
qed

text \<open>Without memory for a timeout, a client that retries has no continuation left.\<close>

lemma sntp_dies_without_memory:
  "\<not> timeo_memory w \<Longrightarrow> conts (sntp_retry w s) = conts s \<and> sntp_pcb (sntp_retry w s) = sntp_pcb s"
  by (simp add: sntp_retry_def timeout_def sys_timeout_def Let_def conts_def)

text \<open>
  Every zone is accepted: the test for -11 to 13 hours is a disjunction that always holds.
\<close>

lemma sntp_set_timezone_accepts: "sntp_set_timezone z s = (True, s\<lparr>time_zone := z\<rparr>)"
  by (auto simp: sntp_set_timezone_def)

end
