(* ===== verification/UdpPcb.thy ===== *)
theory UdpPcb
  imports PbufEdit IpAddr "HOL-Library.Multiset"
begin

text \<open>
  The UDP control blocks of the bundled lwIP (\<open>lwip/core/udp.c\<close>, \<open>include/lwip/udp.h\<close>): creating,
  binding, connecting and removing them, and the choice of the block that gets a datagram. Blocks
  are objects of a heap; the list over \<open>next\<close> that starts at \<open>udp_pcbs\<close> is a list of addresses.
  \<open>None\<close> is an access to a block that has been freed. In this configuration \<open>SO_REUSE\<close> and the
  broadcast options are off, so \<open>so_options\<close> is never read and not modelled.
\<close>

section \<open>State\<close>

record udp_pcb =
  local_ip :: u32
  remote_ip :: u32
  tos :: u8
  ttl :: u8
  udp_flags :: u8
  local_port :: u16
  remote_port :: u16
  multicast_ip :: u32
  recv :: "(nat \<times> nat) option"

record udp =
  pcb :: "nat \<rightharpoonup> udp_pcb"
  udp_pcbs :: "nat list"

abbreviation "UDP_FLAGS_CONNECTED \<equiv> 0x04 :: u8"
abbreviation "UDP_FLAGS_NOCHKSUM \<equiv> 0x01 :: u8"
abbreviation "UDP_TTL \<equiv> 128 :: u8"
abbreviation "UDP_LOCAL_PORT_RANGE_START \<equiv> 4096 :: u16"
abbreviation "UDP_LOCAL_PORT_RANGE_END \<equiv> 0x7fff :: u16"

definition ip_addr_isany :: "u32 option \<Rightarrow> bool" where
  "ip_addr_isany ip \<longleftrightarrow> ip = None \<or> ip = Some 0"

definition ip_addr_set :: "u32 option \<Rightarrow> u32" where
  "ip_addr_set ip = (case ip of None \<Rightarrow> 0 | Some a \<Rightarrow> a)"

text \<open>A store to fields of a block.\<close>

definition set_pcb :: "nat \<Rightarrow> (udp_pcb \<Rightarrow> udp_pcb) \<Rightarrow> udp \<Rightarrow> udp option" where
  "set_pcb p f u = map_option (\<lambda>x. u\<lparr>pcb := (pcb u)(p \<mapsto> f x)\<rparr>) (pcb u p)"

section \<open>Creating and binding\<close>

text \<open>\<open>a\<close> is what \<open>memp_malloc\<close> returns.\<close>

definition udp_new :: "nat option \<Rightarrow> udp \<Rightarrow> nat option \<times> udp" where
  "udp_new a u =
     (case a of
        None \<Rightarrow> (None, u)
      | Some p \<Rightarrow> (Some p, u\<lparr>pcb := (pcb u)(p \<mapsto> \<lparr>local_ip = 0, remote_ip = 0, tos = 0, ttl = UDP_TTL,
          udp_flags = 0, local_port = 0, remote_port = 0, multicast_ip = 0, recv = None\<rparr>)\<rparr>))"

text \<open>
  The loop that looks for a double bind: \<open>None\<close> within is \<open>ERR_USE\<close>, otherwise whether the block
  is on the list.
\<close>

fun bind_check :: "(nat \<rightharpoonup> udp_pcb) \<Rightarrow> nat \<Rightarrow> u32 option \<Rightarrow> u16 \<Rightarrow> nat list \<Rightarrow> bool \<Rightarrow> bool option option" where
  "bind_check h p ip port [] rebind = Some (Some rebind)"
| "bind_check h p ip port (q # qs) rebind =
     (if p = q then bind_check h p ip port qs True
      else do {
        c \<leftarrow> h q;
        if local_port c = port \<and> (local_ip c = 0 \<or> ip_addr_isany ip \<or> ip = Some (local_ip c)) then Some None
        else bind_check h p ip port qs rebind
      })"

lemma port_step: "port \<noteq> e \<Longrightarrow> unat (e - (port + 1)) < unat (e - port :: u16)"
proof -
  assume "port \<noteq> e"
  then have "e - port \<noteq> 0" by simp
  then have "unat (e - port - 1) < unat (e - port)" by (simp add: unat_minus_one unat_gt_0)
  then show ?thesis by (simp add: diff_diff_eq)
qed

text \<open>The search for a free port: the port, and whether the scan of the list has come to its end.\<close>

function port_scan :: "(nat \<rightharpoonup> udp_pcb) \<Rightarrow> nat list \<Rightarrow> nat list \<Rightarrow> u16 \<Rightarrow> (u16 \<times> bool) option" where
  "port_scan h all [] port = Some (port, True)"
| "port_scan h all (q # qs) port =
     (if port = UDP_LOCAL_PORT_RANGE_END then Some (port, False)
      else do {
        c \<leftarrow> h q;
        if local_port c = port then port_scan h all all (port + 1) else port_scan h all qs port
      })"
  by pat_completeness auto

termination
  by (relation "measures [\<lambda>(h, all, rest, port). unat (UDP_LOCAL_PORT_RANGE_END - port), \<lambda>(h, all, rest, port). length rest]")
    (use port_step [of _ UDP_LOCAL_PORT_RANGE_END] in auto)

definition udp_bind :: "nat \<Rightarrow> u32 option \<Rightarrow> u16 \<Rightarrow> udp \<Rightarrow> (err_t \<times> udp) option" where
  "udp_bind p ipaddr port u = do {
     r \<leftarrow> bind_check (pcb u) p ipaddr port (udp_pcbs u) False;
     case r of
       None \<Rightarrow> Some (ERR_USE, u)
     | Some rebind \<Rightarrow> do {
         u \<leftarrow> set_pcb p (local_ip_update (\<lambda>_. ip_addr_set ipaddr)) u;
         (port, found) \<leftarrow>
           (if port = 0 then port_scan (pcb u) (udp_pcbs u) (udp_pcbs u) UDP_LOCAL_PORT_RANGE_START
            else Some (port, True));
         if \<not> found then Some (ERR_USE, u)
         else do {
           u \<leftarrow> set_pcb p (local_port_update (\<lambda>_. port)) u;
           Some (ERR_OK, if rebind then u else u\<lparr>udp_pcbs := p # udp_pcbs u\<rparr>)
         }
       }
   }"

section \<open>Connecting and removing\<close>

definition udp_connect :: "nat \<Rightarrow> u32 option \<Rightarrow> u16 \<Rightarrow> udp \<Rightarrow> (err_t \<times> udp) option" where
  "udp_connect p ipaddr port u = do {
     x \<leftarrow> pcb u p;
     (err, u) \<leftarrow> (if local_port x = 0 then udp_bind p (Some (local_ip x)) (local_port x) u else Some (ERR_OK, u));
     if err \<noteq> ERR_OK then Some (err, u)
     else do {
       u \<leftarrow> set_pcb p (\<lambda>x. x\<lparr>remote_ip := ip_addr_set ipaddr, remote_port := port,
              udp_flags := udp_flags x OR UDP_FLAGS_CONNECTED\<rparr>) u;
       Some (ERR_OK, if p \<in> set (udp_pcbs u) then u else u\<lparr>udp_pcbs := p # udp_pcbs u\<rparr>)
     }
   }"

definition udp_disconnect :: "nat \<Rightarrow> udp \<Rightarrow> udp option" where
  "udp_disconnect p u =
     set_pcb p (\<lambda>x. x\<lparr>remote_ip := 0, remote_port := 0, udp_flags := udp_flags x AND NOT UDP_FLAGS_CONNECTED\<rparr>) u"

definition udp_recv :: "nat \<Rightarrow> (nat \<times> nat) option \<Rightarrow> udp \<Rightarrow> udp option" where
  "udp_recv p fn u = set_pcb p (recv_update (\<lambda>_. fn)) u"

text \<open>The loop that unlinks a block that is not the first.\<close>

fun unlink_next :: "nat \<Rightarrow> nat list \<Rightarrow> nat list" where
  "unlink_next p (x # y # r) = (if y = p then x # unlink_next p r else x # unlink_next p (y # r))"
| "unlink_next p l = l"

definition udp_remove :: "nat \<Rightarrow> udp \<Rightarrow> udp option" where
  "udp_remove p u = do {
     _ \<leftarrow> pcb u p;
     let l = udp_pcbs u;
     Some (u\<lparr>udp_pcbs := (if l \<noteq> [] \<and> hd l = p then tl l else unlink_next p l), pcb := (pcb u)(p := None)\<rparr>)
   }"

section \<open>Choosing the block of a datagram\<close>

text \<open>
  A network interface: \<open>nif_addr\<close> is the address of the structure, for comparing pointers, the
  other two fields are the blocks of its DHCP client (if it has one with a block) and server.
\<close>

record lwnetif = netif +
  nif_addr :: nat
  dhcp_pcb :: "nat option"
  dhcps_pcb :: "nat option"

definition ip_addr_isbroadcast :: "u32 \<Rightarrow> lwnetif \<Rightarrow> bool" where
  "ip_addr_isbroadcast a n = ip4_addr_isbroadcast a (netif.truncate n)"

text \<open>Addresses are little-endian words of bytes in network order: the first byte is the lowest.\<close>

definition ip_addr_ismulticast :: "u32 \<Rightarrow> bool" where
  "ip_addr_ismulticast a \<longleftrightarrow> a AND 0xf0 = 0xe0"

abbreviation "DHCP_CLIENT_PORT \<equiv> 68 :: u16"
abbreviation "DHCP_SERVER_PORT \<equiv> 67 :: u16"

definition local_match :: "u16 \<Rightarrow> u32 \<Rightarrow> bool \<Rightarrow> udp_pcb \<Rightarrow> bool" where
  "local_match dest dst_ip broadcast c \<longleftrightarrow> local_port c = dest \<and>
     (\<not> broadcast \<and> local_ip c = 0 \<or> local_ip c = dst_ip \<or> ip_addr_ismulticast dst_ip \<or> broadcast)"

definition remote_match :: "u16 \<Rightarrow> u32 \<Rightarrow> udp_pcb \<Rightarrow> bool" where
  "remote_match src src_ip c \<longleftrightarrow> remote_port c = src \<and> (remote_ip c = 0 \<or> remote_ip c = src_ip)"

definition unconnected :: "udp_pcb \<Rightarrow> bool" where
  "unconnected c \<longleftrightarrow> udp_flags c AND UDP_FLAGS_CONNECTED = 0"

text \<open>
  The loop of \<open>udp_input\<close>: \<open>before\<close> are the blocks already passed (the last is \<open>prev\<close>), \<open>uncon\<close>
  the first unconnected match among them. The result is the block and the list afterwards: a full
  match is moved to the front.
\<close>

fun demux_loop ::
    "(nat \<rightharpoonup> udp_pcb) \<Rightarrow> (udp_pcb \<Rightarrow> bool) \<Rightarrow> (udp_pcb \<Rightarrow> bool) \<Rightarrow> nat list \<Rightarrow> nat list \<Rightarrow> nat option \<Rightarrow>
     (nat option \<times> nat list) option" where
  "demux_loop h lm rm before [] uncon = Some (uncon, before)"
| "demux_loop h lm rm before (q # qs) uncon = do {
     c \<leftarrow> h q;
     let uncon' = (if lm c \<and> uncon = None \<and> unconnected c then Some q else uncon);
     if lm c \<and> rm c then Some (Some q, if before \<noteq> [] then q # before @ qs else q # qs)
     else demux_loop h lm rm (before @ [q]) qs uncon'
   }"

definition udp_demux ::
    "lwnetif \<Rightarrow> u32 \<Rightarrow> u32 \<Rightarrow> u16 \<Rightarrow> u16 \<Rightarrow> udp \<Rightarrow> (nat option \<times> udp) option" where
  "udp_demux inp src_ip dst_ip src dest u =
     (let broadcast = ip_addr_isbroadcast dst_ip inp in
      if dest = DHCP_CLIENT_PORT then
        (case dhcp_pcb inp of
           Some p \<Rightarrow>
             if src = DHCP_SERVER_PORT then do {
               c \<leftarrow> pcb u p;
               Some (if remote_ip c = 0 \<or> remote_ip c = src_ip then Some p else None, u)
             } else Some (None, u)
         | None \<Rightarrow> Some (None, u))
      else if dest = DHCP_SERVER_PORT then
        (case dhcps_pcb inp of
           Some p \<Rightarrow>
             if src = DHCP_CLIENT_PORT then do {
               c \<leftarrow> pcb u p;
               Some (if local_ip c = 0 \<or> local_ip c = dst_ip then Some p else None, u)
             } else Some (None, u)
         | None \<Rightarrow> Some (None, u))
      else do {
        (r, l) \<leftarrow> demux_loop (pcb u) (local_match dest dst_ip broadcast) (remote_match src src_ip) [] (udp_pcbs u) None;
        Some (r, u\<lparr>udp_pcbs := l\<rparr>)
      })"

section \<open>The invariant\<close>

text \<open>
  Two blocks may be bound at the same time: different ports, or two different addresses none of
  which is the wildcard.
\<close>

definition apart_pcbs :: "udp_pcb \<Rightarrow> udp_pcb \<Rightarrow> bool" where
  "apart_pcbs c d \<longleftrightarrow> local_port c \<noteq> local_port d \<or> local_ip c \<noteq> 0 \<and> local_ip d \<noteq> 0 \<and> local_ip c \<noteq> local_ip d"

definition udp_ok :: "udp \<Rightarrow> bool" where
  "udp_ok u \<longleftrightarrow> distinct (udp_pcbs u) \<and>
     (\<forall>p \<in> set (udp_pcbs u). p \<in> dom (pcb u)) \<and>
     (\<forall>p c. pcb u p = Some c \<longrightarrow> (local_port c = 0 \<longleftrightarrow> p \<notin> set (udp_pcbs u))) \<and>
     (\<forall>p \<in> set (udp_pcbs u). \<forall>q \<in> set (udp_pcbs u). \<forall>c d. p \<noteq> q \<longrightarrow> pcb u p = Some c \<longrightarrow> pcb u q = Some d \<longrightarrow>
        apart_pcbs c d)"

lemma udp_okD:
  assumes "udp_ok u"
  shows "distinct (udp_pcbs u)" "\<And>p. p \<in> set (udp_pcbs u) \<Longrightarrow> \<exists>c. pcb u p = Some c"
    "\<And>p c. pcb u p = Some c \<Longrightarrow> local_port c = 0 \<longleftrightarrow> p \<notin> set (udp_pcbs u)"
    "\<And>p q c d. \<lbrakk>p \<in> set (udp_pcbs u); q \<in> set (udp_pcbs u); p \<noteq> q; pcb u p = Some c; pcb u q = Some d\<rbrakk> \<Longrightarrow> apart_pcbs c d"
  using assms by (auto simp: udp_ok_def)

lemma set_pcb_Some: "pcb u p = Some c \<Longrightarrow> set_pcb p f u = Some (u\<lparr>pcb := (pcb u)(p \<mapsto> f c)\<rparr>)"
  by (simp add: set_pcb_def)

text \<open>What does not touch ports, local addresses or the blocks on the list keeps the invariant.\<close>

lemma udp_ok_transfer:
  assumes u: "udp_ok u" and l: "distinct (udp_pcbs u')" "set (udp_pcbs u') = set (udp_pcbs u)"
    and d: "dom (pcb u') = dom (pcb u)"
    and same: "\<And>x e. pcb u' x = Some e \<Longrightarrow> \<exists>e0. pcb u x = Some e0 \<and> local_port e0 = local_port e \<and> local_ip e0 = local_ip e"
  shows "udp_ok u'"
  unfolding udp_ok_def
proof (intro conjI ballI allI impI)
  show "distinct (udp_pcbs u')" by (rule l)
  show "p \<in> dom (pcb u')" if "p \<in> set (udp_pcbs u')" for p
    using that l d u by (simp add: udp_ok_def)
  show "(local_port c = 0) = (p \<notin> set (udp_pcbs u'))" if "pcb u' p = Some c" for p c
    using same [OF that] udp_okD(3) [OF u] l by metis
  show "apart_pcbs c d" if *: "p \<in> set (udp_pcbs u')" "q \<in> set (udp_pcbs u')" "p \<noteq> q"
    and c: "pcb u' p = Some c" and d: "pcb u' q = Some d" for p q c d
  proof -
    obtain c0 d0 where e: "pcb u p = Some c0" "pcb u q = Some d0"
      "local_port c0 = local_port c" "local_ip c0 = local_ip c" "local_port d0 = local_port d" "local_ip d0 = local_ip d"
      using same [OF c] same [OF d] by blast
    have "apart_pcbs c0 d0" using udp_okD(4) [OF u _ _ *(3) e(1,2)] *(1,2) l(2) by simp
    then show ?thesis by (simp add: apart_pcbs_def e(3-))
  qed
qed

lemma udp_ok_update:
  assumes "udp_ok u" "pcb u p = Some c" "local_port d = local_port c" "local_ip d = local_ip c"
  shows "udp_ok (u\<lparr>pcb := (pcb u)(p \<mapsto> d)\<rparr>)"
  by (rule udp_ok_transfer [OF assms(1)]) (use assms udp_okD(1) [OF assms(1)] in \<open>auto split: if_splits\<close>)

lemma udp_ok_reorder: "udp_ok u \<Longrightarrow> mset l = mset (udp_pcbs u) \<Longrightarrow> udp_ok (u\<lparr>udp_pcbs := l\<rparr>)"
  by (rule udp_ok_transfer) (auto simp: udp_okD(1) dest: mset_eq_setD mset_eq_imp_distinct_iff)

subsection \<open>Binding\<close>

definition clashes :: "(nat \<rightharpoonup> udp_pcb) \<Rightarrow> nat \<Rightarrow> u32 option \<Rightarrow> u16 \<Rightarrow> nat \<Rightarrow> bool" where
  "clashes h p ip port q \<longleftrightarrow> q \<noteq> p \<and>
     (\<exists>c. h q = Some c \<and> local_port c = port \<and> (local_ip c = 0 \<or> ip_addr_isany ip \<or> ip = Some (local_ip c)))"

lemma bind_check_spec:
  assumes "\<forall>q \<in> set qs. \<exists>c. h q = Some c"
  shows "bind_check h p ip port qs rb =
    Some (if \<exists>q \<in> set qs. clashes h p ip port q then None else Some (rb \<or> p \<in> set qs))"
  using assms
proof (induction qs arbitrary: rb)
  case (Cons q qs)
  then obtain c where c: "h q = Some c" by auto
  have IH: "bind_check h p ip port qs rb =
      Some (if \<exists>q \<in> set qs. clashes h p ip port q then None else Some (rb \<or> p \<in> set qs))" for rb
    using Cons by simp
  show ?case
  proof (cases "clashes h p ip port q")
    case True
    then show ?thesis using c by (simp add: clashes_def)
  next
    case False
    then have "bind_check h p ip port (q # qs) rb = bind_check h p ip port qs (rb \<or> p = q)"
      using c by (cases "p = q") (auto simp: clashes_def)
    then show ?thesis using False by (simp add: IH disj_assoc)
  qed
qed simp

definition used_port :: "(nat \<rightharpoonup> udp_pcb) \<Rightarrow> nat list \<Rightarrow> u16 \<Rightarrow> bool" where
  "used_port h l x \<longleftrightarrow> (\<exists>q \<in> set l. \<exists>c. h q = Some c \<and> local_port c = x)"

lemma port_scan_spec:
  assumes "\<forall>q \<in> set all. \<exists>c. h q = Some c" "set rest \<subseteq> set all" "port \<le> UDP_LOCAL_PORT_RANGE_END"
    and "\<forall>q \<in> set all - set rest. \<forall>c. h q = Some c \<longrightarrow> local_port c \<noteq> port"
    and "port = UDP_LOCAL_PORT_RANGE_END \<longrightarrow> rest \<noteq> []"
  shows "\<exists>r ok. port_scan h all rest port = Some (r, ok) \<and> port \<le> r \<and> r \<le> UDP_LOCAL_PORT_RANGE_END \<and>
    (\<forall>x. port \<le> x \<and> x < r \<longrightarrow> used_port h all x) \<and>
    (if ok then r \<noteq> UDP_LOCAL_PORT_RANGE_END \<and> \<not> used_port h all r else r = UDP_LOCAL_PORT_RANGE_END)"
  using assms
proof (induction h all rest port rule: port_scan.induct)
  case (1 h all port)
  have "\<not> used_port h all port" using 1(4) by (auto simp: used_port_def)
  then show ?case using 1(3,5) by (intro exI [of _ port] exI [of _ True]) (auto dest: leD)
next
  case (2 h all q qs port)
  obtain c where c: "h q = Some c" "q \<in> set all" using 2(3,4) by auto
  show ?case
  proof (cases "port = UDP_LOCAL_PORT_RANGE_END")
    case True
    then show ?thesis by (intro exI [of _ port] exI [of _ False]) (auto dest: leD)
  next
    case ne: False
    show ?thesis
    proof (cases "local_port c = port")
      case True
      have le: "port < UDP_LOCAL_PORT_RANGE_END" using ne 2(5) by simp
      have suc: "unat (port + 1) = unat port + 1"
        using le by (simp add: unat_word_ariths word_less_nat_alt)
      have le': "port + 1 \<le> UDP_LOCAL_PORT_RANGE_END"
        using le suc by (simp only: word_le_nat_alt word_less_nat_alt)
      have "all \<noteq> []" using c(2) by auto
      then obtain r ok where r: "port_scan h all all (port + 1) = Some (r, ok)" "port + 1 \<le> r"
        "r \<le> UDP_LOCAL_PORT_RANGE_END" "\<forall>x. port + 1 \<le> x \<and> x < r \<longrightarrow> used_port h all x"
        "if ok then r \<noteq> UDP_LOCAL_PORT_RANGE_END \<and> \<not> used_port h all r else r = UDP_LOCAL_PORT_RANGE_END"
        using 2(1) [OF ne c(1) True 2(3) subset_refl le'] by (simp only: Diff_cancel) blast
      have "port \<le> x \<and> x < r \<longrightarrow> used_port h all x" for x
      proof (cases "x = port")
        case True
        then show ?thesis using c \<open>local_port c = port\<close> by (auto simp: used_port_def)
      next
        case False
        then show ?thesis using r(4) suc by (simp add: word_le_nat_alt word_unat_eq_iff)
      qed
      moreover have "port \<le> r" using r(2) suc by (simp add: word_le_nat_alt)
      ultimately show ?thesis using r ne c True by auto
    next
      case False
      have "\<forall>q' \<in> set all - set qs. \<forall>c. h q' = Some c \<longrightarrow> local_port c \<noteq> port"
        using 2(6) c False by auto
      then show ?thesis using 2(2) [OF ne c(1) False 2(3)] 2(4,5) ne c False by auto
    qed
  qed
qed

text \<open>The state after a successful bind.\<close>

definition bound :: "nat \<Rightarrow> u32 \<Rightarrow> u16 \<Rightarrow> udp \<Rightarrow> udp" where
  "bound p a x u = u\<lparr>pcb := (pcb u)(p \<mapsto> (the (pcb u p))\<lparr>local_ip := a, local_port := x\<rparr>),
     udp_pcbs := (if p \<in> set (udp_pcbs u) then udp_pcbs u else p # udp_pcbs u)\<rparr>"

lemma bound_simps [simp]:
  "pcb (bound p a x u) = (pcb u)(p \<mapsto> (the (pcb u p))\<lparr>local_ip := a, local_port := x\<rparr>)"
  "set (udp_pcbs (bound p a x u)) = insert p (set (udp_pcbs u))"
  by (auto simp: bound_def)

lemma bound_dom: "pcb u p = Some c \<Longrightarrow> dom (pcb (bound p a x u)) = dom (pcb u)"
  by (simp add: insert_absorb domI)

lemma bound_ok:
  assumes u: "udp_ok u" and p: "pcb u p = Some c" and x: "x \<noteq> 0"
    and free: "\<forall>q \<in> set (udp_pcbs u). \<not> clashes (pcb u) p (Some a) x q"
  shows "udp_ok (bound p a x u)"
  unfolding udp_ok_def
proof (intro conjI ballI allI impI)
  show "distinct (udp_pcbs (bound p a x u))" using udp_okD(1) [OF u] by (simp add: bound_def)
  show "q \<in> dom (pcb (bound p a x u))" if "q \<in> set (udp_pcbs (bound p a x u))" for q
    using that udp_okD(2) [OF u] by auto
  show "(local_port e = 0) = (q \<notin> set (udp_pcbs (bound p a x u)))"
    if "pcb (bound p a x u) q = Some e" for q e
    using that x udp_okD(3) [OF u] by (auto split: if_splits)
  have new: "apart_pcbs ((the (pcb u p))\<lparr>local_ip := a, local_port := x\<rparr>) e"
    if "q \<in> set (udp_pcbs u)" "q \<noteq> p" "pcb u q = Some e" for q e
    using bspec [OF free that(1)] that(2,3) by (auto simp: clashes_def apart_pcbs_def ip_addr_isany_def)
  have sym: "apart_pcbs d e" if "apart_pcbs e d" for d e using that by (auto simp: apart_pcbs_def)
  show "apart_pcbs d e" if "q \<in> set (udp_pcbs (bound p a x u))" "r \<in> set (udp_pcbs (bound p a x u))" "q \<noteq> r"
    "pcb (bound p a x u) q = Some d" "pcb (bound p a x u) r = Some e" for q r d e
  proof (cases "q = p \<or> r = p")
    case True
    then show ?thesis using that new sym by auto
  next
    case False
    then show ?thesis using that udp_okD(4) [OF u, of q r] by simp
  qed
qed

text \<open>Everything \<open>udp_bind\<close> does, by the outcome of its two searches.\<close>

lemma udp_bind_port:
  assumes "udp_ok u" "pcb u p = Some c" "port \<noteq> 0"
  shows "udp_bind p ip port u = Some (if \<exists>q \<in> set (udp_pcbs u). clashes (pcb u) p ip port q then (ERR_USE, u)
    else (ERR_OK, bound p (ip_addr_set ip) port u))"
proof -
  have "\<forall>q \<in> set (udp_pcbs u). \<exists>c. pcb u q = Some c" using udp_okD(2) [OF assms(1)] by blast
  note chk = bind_check_spec [OF this, of p ip port False]
  show ?thesis using assms(2,3)
    by (simp add: udp_bind_def chk set_pcb_Some bound_def)
qed

lemma used_port_local_ip:
  "used_port ((pcb u)(p \<mapsto> (the (pcb u p))\<lparr>local_ip := a\<rparr>)) l x \<longleftrightarrow> used_port (pcb u) l x"
  if "p \<in> dom (pcb u)"
  using that unfolding used_port_def by (intro bex_cong) auto

lemma udp_bind_any:
  assumes u: "udp_ok u" and p: "pcb u p = Some c"
  obtains (found) r where "udp_bind p ip 0 u = Some (ERR_OK, bound p (ip_addr_set ip) r u)"
      "UDP_LOCAL_PORT_RANGE_START \<le> r" "r < UDP_LOCAL_PORT_RANGE_END" "\<not> used_port (pcb u) (udp_pcbs u) r"
      "\<forall>x. UDP_LOCAL_PORT_RANGE_START \<le> x \<and> x < r \<longrightarrow> used_port (pcb u) (udp_pcbs u) x"
    | (full) "udp_bind p ip 0 u = Some (ERR_USE, u\<lparr>pcb := (pcb u)(p \<mapsto> c\<lparr>local_ip := ip_addr_set ip\<rparr>)\<rparr>)"
      "\<forall>x. UDP_LOCAL_PORT_RANGE_START \<le> x \<and> x < UDP_LOCAL_PORT_RANGE_END \<longrightarrow> used_port (pcb u) (udp_pcbs u) x"
proof -
  have al: "\<forall>q \<in> set (udp_pcbs u). \<exists>c. pcb u q = Some c" using udp_okD(2) [OF u] by blast
  have "\<not> clashes (pcb u) p ip 0 q" if "q \<in> set (udp_pcbs u)" for q
    using that udp_okD(3) [OF u] by (auto simp: clashes_def)
  then have chk: "bind_check (pcb u) p ip 0 (udp_pcbs u) False = Some (Some (p \<in> set (udp_pcbs u)))"
    using bind_check_spec [OF al, of p ip 0 False] by auto
  define h where "h = (pcb u)(p \<mapsto> c\<lparr>local_ip := ip_addr_set ip\<rparr>)"
  have "\<forall>q \<in> set (udp_pcbs u). \<exists>c. h q = Some c" using al by (simp add: h_def)
  from port_scan_spec [OF this subset_refl, of UDP_LOCAL_PORT_RANGE_START] obtain r ok where
    s: "port_scan h (udp_pcbs u) (udp_pcbs u) UDP_LOCAL_PORT_RANGE_START = Some (r, ok)"
      "UDP_LOCAL_PORT_RANGE_START \<le> r" "r \<le> UDP_LOCAL_PORT_RANGE_END"
      "\<forall>x. UDP_LOCAL_PORT_RANGE_START \<le> x \<and> x < r \<longrightarrow> used_port h (udp_pcbs u) x"
      "if ok then r \<noteq> UDP_LOCAL_PORT_RANGE_END \<and> \<not> used_port h (udp_pcbs u) r else r = UDP_LOCAL_PORT_RANGE_END"
    by (simp only: Diff_cancel) force
  have us: "used_port h (udp_pcbs u) x \<longleftrightarrow> used_port (pcb u) (udp_pcbs u) x" for x
    using used_port_local_ip [of p u "ip_addr_set ip"] p by (simp add: dom_def h_def)
  show thesis
  proof (cases ok)
    case True
    then have "udp_bind p ip 0 u = Some (ERR_OK, bound p (ip_addr_set ip) r u)"
      using p s(1) [unfolded h_def] by (simp add: udp_bind_def chk set_pcb_Some h_def bound_def)
    then show thesis by (rule found) (use s True us in auto)
  next
    case False
    then have "udp_bind p ip 0 u = Some (ERR_USE, u\<lparr>pcb := h\<rparr>)"
      using p s(1) [unfolded h_def] by (simp add: udp_bind_def chk set_pcb_Some h_def)
    then show thesis unfolding h_def by (rule full) (use s False us in auto)
  qed
qed

subsection \<open>The search of \<open>udp_input\<close>\<close>

lemma demux_loop_spec:
  assumes "\<forall>q \<in> set qs. \<exists>c. h q = Some c"
  shows "demux_loop h lm rm before qs uncon = Some
    (case List.find (\<lambda>q. lm (the (h q)) \<and> rm (the (h q))) qs of
       Some q \<Rightarrow> (Some q, q # before @ remove1 q qs)
     | None \<Rightarrow> (if uncon = None then List.find (\<lambda>q. lm (the (h q)) \<and> unconnected (the (h q))) qs else uncon, before @ qs))"
  using assms
proof (induction qs arbitrary: before uncon)
  case (Cons q qs)
  then obtain c where c: "h q = Some c" by auto
  show ?case
  proof (cases "lm c \<and> rm c")
    case True
    then show ?thesis by (simp add: c)
  next
    case False
    have ne: "x \<noteq> q" if "List.find (\<lambda>q. lm (the (h q)) \<and> rm (the (h q))) qs = Some x" for x
      using that False c by (auto simp: find_Some_iff)
    show ?thesis using False Cons by (auto simp: c dest: ne split: option.splits)
  qed
qed simp

lemma demux_loop_mset:
  assumes "\<forall>q \<in> set qs. \<exists>c. h q = Some c" "demux_loop h lm rm before qs uncon = Some (r, l)"
  shows "mset l = mset (before @ qs)"
proof -
  have "x \<in> set qs" if "List.find P qs = Some x" for P x using that by (auto simp: find_Some_iff)
  then show ?thesis
    using assms(2) unfolding demux_loop_spec [OF assms(1)] by (auto split: option.splits if_splits)
qed

section \<open>Runs\<close>

text \<open>The calls and events, each as a change of the state; the blocks they name must be allocated.\<close>

datatype udp_call =
    call_bind nat "u32 option" u16
  | call_connect nat "u32 option" u16
  | call_disconnect nat
  | call_recv nat "(nat \<times> nat) option"
  | call_remove nat
  | datagram_in lwnetif u32 u32 u16 u16

fun udp_do :: "udp_call \<Rightarrow> udp \<Rightarrow> udp option" where
  "udp_do (call_bind p ip port) u = map_option snd (udp_bind p ip port u)"
| "udp_do (call_connect p ip port) u = map_option snd (udp_connect p ip port u)"
| "udp_do (call_disconnect p) u = udp_disconnect p u"
| "udp_do (call_recv p fn) u = udp_recv p fn u"
| "udp_do (call_remove p) u = udp_remove p u"
| "udp_do (datagram_in inp sip dip src dest) u = map_option snd (udp_demux inp sip dip src dest u)"

fun call_blocks :: "udp_call \<Rightarrow> nat set" where
  "call_blocks (call_bind p ip port) = {p}"
| "call_blocks (call_connect p ip port) = {p}"
| "call_blocks (call_disconnect p) = {p}"
| "call_blocks (call_recv p fn) = {p}"
| "call_blocks (call_remove p) = {p}"
| "call_blocks (datagram_in inp sip dip src dest) = set_option (dhcp_pcb inp) \<union> set_option (dhcps_pcb inp)"

text \<open>
  The one case that is left out: a block that is bound already is bound again to any port, and
  there is none (see \<open>udp_failed_rebind_clashes\<close>).
\<close>

definition failed_rebind :: "udp_call \<Rightarrow> udp \<Rightarrow> bool" where
  "failed_rebind c u \<longleftrightarrow> (\<exists>p ip. c = call_bind p ip 0 \<and> p \<in> set (udp_pcbs u) \<and>
     map_option fst (udp_bind p ip 0 u) = Some ERR_USE)"

inductive udp_run :: "udp \<Rightarrow> bool" where
  udp_init: "udp_run \<lparr>pcb = Map.empty, udp_pcbs = []\<rparr>"
| udp_alloc: "udp_run u \<Longrightarrow> p \<notin> dom (pcb u) \<Longrightarrow> udp_run (snd (udp_new (Some p) u))"
| udp_event: "udp_run u \<Longrightarrow> call_blocks c \<subseteq> dom (pcb u) \<Longrightarrow> \<not> failed_rebind c u \<Longrightarrow> udp_do c u = Some u' \<Longrightarrow> udp_run u'"

lemma unlink_next_remove: "distinct l \<Longrightarrow> l = [] \<or> hd l \<noteq> p \<Longrightarrow> unlink_next p l = remove1 p l"
proof (induction p l rule: unlink_next.induct)
  case (1 p x y r)
  have id: "unlink_next p r = r" if "p \<notin> set r" for r
    using that by (induction p r rule: unlink_next.induct) auto
  show ?case
  proof (cases "y = p")
    case True
    then show ?thesis using 1(3,4) id [of r] by simp
  next
    case False
    then show ?thesis using 1 by simp
  qed
qed auto

lemma udp_ok_remove:
  assumes u: "udp_ok u"
  shows "udp_ok (u\<lparr>udp_pcbs := remove1 p (udp_pcbs u), pcb := (pcb u)(p := None)\<rparr>)" (is "udp_ok ?v")
  unfolding udp_ok_def
proof (intro conjI ballI allI impI)
  have s: "q \<in> set (udp_pcbs ?v) \<longleftrightarrow> q \<in> set (udp_pcbs u) \<and> q \<noteq> p" for q
    using udp_okD(1) [OF u] by simp
  have h: "pcb ?v q = Some e \<longleftrightarrow> pcb u q = Some e \<and> q \<noteq> p" for q e by simp
  show "distinct (udp_pcbs ?v)" using udp_okD(1) [OF u] by simp
  show "q \<in> dom (pcb ?v)" if "q \<in> set (udp_pcbs ?v)" for q
    using that udp_okD(2) [OF u] unfolding s by auto
  show "(local_port e = 0) = (q \<notin> set (udp_pcbs ?v))" if "pcb ?v q = Some e" for q e
    using that udp_okD(3) [OF u, of q e] unfolding s h by blast
  show "apart_pcbs d e" if "q \<in> set (udp_pcbs ?v)" "r \<in> set (udp_pcbs ?v)" "q \<noteq> r" "pcb ?v q = Some d" "pcb ?v r = Some e"
    for q r d e
    using that udp_okD(4) [OF u, of q r] unfolding s h by blast
qed

lemma udp_remove_list:
  "udp_ok u \<Longrightarrow> pcb u p = Some c \<Longrightarrow>
   udp_remove p u = Some (u\<lparr>udp_pcbs := remove1 p (udp_pcbs u), pcb := (pcb u)(p := None)\<rparr>)"
  using unlink_next_remove [OF udp_okD(1), of u p]
  by (cases "udp_pcbs u") (auto simp: udp_remove_def)

lemma udp_bind_ok:
  assumes u: "udp_ok u" and p: "pcb u p = Some c" and b: "udp_bind p ip port u = Some (e, u')"
    and r: "p \<notin> set (udp_pcbs u) \<or> port \<noteq> 0 \<or> e = ERR_OK"
  shows "udp_ok u' \<and> dom (pcb u') = dom (pcb u) \<and> (e = ERR_OK \<longrightarrow> p \<in> set (udp_pcbs u'))"
proof (cases "port = 0")
  case False
  have "clashes (pcb u) p (Some (ip_addr_set ip)) port q \<longleftrightarrow> clashes (pcb u) p ip port q" for q
    by (auto simp: clashes_def ip_addr_set_def ip_addr_isany_def split: option.splits)
  then show ?thesis
    using b u p bound_ok [OF u p False, of "ip_addr_set ip"] unfolding udp_bind_port [OF u p False]
    by (auto split: if_splits)
next
  case True
  from u p show ?thesis
  proof (cases rule: udp_bind_any [of u p c ip])
    case (found x)
    have "\<not> clashes (pcb u) p (Some (ip_addr_set ip)) x q" if "q \<in> set (udp_pcbs u)" for q
      using found(4) that by (auto simp: clashes_def used_port_def)
    moreover have "x \<noteq> 0" using found(2) by auto
    ultimately have "udp_ok (bound p (ip_addr_set ip) x u)" by (intro bound_ok [OF u p]) simp_all
    moreover have "e = ERR_OK" "u' = bound p (ip_addr_set ip) x u" using b found(1) True by simp_all
    ultimately show ?thesis using bound_dom [OF p] by (simp del: bound_simps(1))
  next
    case full
    then have "p \<notin> set (udp_pcbs u)" using r b True by auto
    then have "udp_ok (u\<lparr>pcb := (pcb u)(p \<mapsto> c\<lparr>local_ip := ip_addr_set ip\<rparr>)\<rparr>)"
      using u p unfolding udp_ok_def by (simp add: dom_def)
    moreover have "e = ERR_USE" "u' = u\<lparr>pcb := (pcb u)(p \<mapsto> c\<lparr>local_ip := ip_addr_set ip\<rparr>)\<rparr>"
      using b full(1) True by simp_all
    ultimately show ?thesis using p by (simp add: insert_absorb domI)
  qed
qed

lemma udp_do_ok:
  assumes u: "udp_ok u" and b: "call_blocks c \<subseteq> dom (pcb u)"
  shows "\<exists>u'. udp_do c u = Some u' \<and> (\<not> failed_rebind c u \<longrightarrow> udp_ok u')"
proof (cases c)
  case (call_bind p ip port)
  obtain d where p: "pcb u p = Some d" using b by (auto simp: call_bind)
  have "\<exists>e u'. udp_bind p ip port u = Some (e, u')"
  proof (cases "port = 0")
    case True
    show ?thesis unfolding True by (rule udp_bind_any [OF u p, of ip]) simp_all
  qed (simp add: udp_bind_port [OF u p])
  then obtain e u' where r: "udp_bind p ip port u = Some (e, u')" by blast
  have "e = ERR_OK \<or> e = ERR_USE" if "port = 0"
    by (rule udp_bind_any [OF u p, of ip]) (use r that in auto)
  then show ?thesis using udp_bind_ok [OF u p r] r by (auto simp: call_bind failed_rebind_def)
next
  case (call_connect p ip port)
  obtain d where p: "pcb u p = Some d" using b by (auto simp: call_connect)
  have upd: "udp_ok w \<Longrightarrow> pcb w p = Some x \<Longrightarrow> udp_ok (w\<lparr>pcb := (pcb w)(p \<mapsto> x\<lparr>remote_ip := a, remote_port := y, udp_flags := f\<rparr>)\<rparr>)" for w x a y f
    by (rule udp_ok_update) simp_all
  show ?thesis
  proof (cases "local_port d = 0")
    case True
    then have np: "p \<notin> set (udp_pcbs u)" using udp_okD(3) [OF u p] by simp
    have "\<exists>e u'. udp_bind p (Some (local_ip d)) 0 u = Some (e, u')"
      by (rule udp_bind_any [OF u p, of "Some (local_ip d)"]) auto
    then obtain e u' where r: "udp_bind p (Some (local_ip d)) 0 u = Some (e, u')" by blast
    note ok = udp_bind_ok [OF u p r disjI1 [OF np]]
    then obtain x where "pcb u' p = Some x" using p by (metis domD domI)
    then show ?thesis using ok r upd [of u' x]
      by (cases "e = ERR_OK") (auto simp: call_connect udp_connect_def p True set_pcb_Some)
  next
    case False
    then have "p \<in> set (udp_pcbs u)" using udp_okD(3) [OF u p] by simp
    then show ?thesis using upd [OF u p] False p by (simp add: call_connect udp_connect_def set_pcb_Some)
  qed
next
  case (call_remove p)
  obtain d where p: "pcb u p = Some d" using b by (auto simp: call_remove)
  show ?thesis using udp_ok_remove [OF u, of p] by (simp add: call_remove udp_remove_list [OF u p])
next
  case (datagram_in inp sip dip src dest)
  have al: "\<forall>q \<in> set (udp_pcbs u). \<exists>c. pcb u q = Some c" using udp_okD(2) [OF u] by blast
  let ?lm = "local_match dest dip (ip_addr_isbroadcast dip inp)" and ?rm = "remote_match src sip"
  obtain x l where d: "demux_loop (pcb u) ?lm ?rm [] (udp_pcbs u) None = Some (x, l)"
    unfolding demux_loop_spec [OF al] by fastforce
  have ok: "udp_ok (u\<lparr>udp_pcbs := l\<rparr>)"
    using demux_loop_mset [OF al d] by (intro udp_ok_reorder [OF u]) simp
  have "\<exists>y u'. udp_demux inp sip dip src dest u = Some (y, u') \<and> udp_ok u'"
  proof (cases "dest = DHCP_CLIENT_PORT \<or> dest = DHCP_SERVER_PORT")
    case False
    then show ?thesis using ok d by (simp add: udp_demux_def Let_def)
  next
    case True
    have al: "\<exists>c. pcb u q = Some c" if "dhcp_pcb inp = Some q \<or> dhcps_pcb inp = Some q" for q
      using that b by (auto simp: datagram_in)
    show ?thesis using True
      by (cases "dhcp_pcb inp"; cases "dhcps_pcb inp") (use al u in \<open>force simp: udp_demux_def Let_def\<close>)+
  qed
  then show ?thesis by (auto simp: datagram_in)
qed (use b in \<open>auto simp: udp_disconnect_def udp_recv_def set_pcb_Some intro!: udp_ok_update [OF u]\<close>)

lemma udp_run_ok: "udp_run u \<Longrightarrow> udp_ok u"
proof (induction rule: udp_run.induct)
  case udp_init
  show ?case by (simp add: udp_ok_def)
next
  case (udp_alloc u p)
  then have "p \<notin> set (udp_pcbs u)" by (auto simp: udp_ok_def)
  then show ?case using udp_alloc(3) unfolding udp_ok_def udp_new_def by (simp add: dom_def)
next
  case (udp_event u c u')
  then show ?case using udp_do_ok [of u c] by auto
qed

section \<open>What the calls guarantee\<close>

text \<open>
  C18: the block list after any calls, by anybody, in any order, on allocated blocks, and any
  datagrams (and as long as no bind fails for want of ports on a block that had one): a block is
  on the list exactly when it has a local port; of two blocks with the same port neither has the
  wildcard address and their addresses differ, so no port is ever given twice; and no call reads
  or writes a block that has been freed.
\<close>

theorem udp_ports_exclusive:
  assumes "udp_run u"
  shows "(\<forall>p c. pcb u p = Some c \<longrightarrow> (p \<in> set (udp_pcbs u) \<longleftrightarrow> local_port c \<noteq> 0)) \<and>
    (\<forall>p q c d. p \<noteq> q \<and> pcb u p = Some c \<and> pcb u q = Some d \<and> local_port c = local_port d \<and> local_port c \<noteq> 0 \<longrightarrow>
       local_ip c \<noteq> 0 \<and> local_ip c \<noteq> local_ip d) \<and>
    (\<forall>c. call_blocks c \<subseteq> dom (pcb u) \<longrightarrow> udp_do c u \<noteq> None)"
proof (intro conjI allI impI)
  note u = udp_run_ok [OF assms]
  show on: "p \<in> set (udp_pcbs u) \<longleftrightarrow> local_port c \<noteq> 0" if "pcb u p = Some c" for p c
    using udp_okD(3) [OF u that] by simp
  show "local_ip c \<noteq> 0" "local_ip c \<noteq> local_ip d"
    if "p \<noteq> q \<and> pcb u p = Some c \<and> pcb u q = Some d \<and> local_port c = local_port d \<and> local_port c \<noteq> 0" for p q c d
    using that udp_okD(4) [OF u, of p q c d] on [of p c] on [of q d] by (auto simp: apart_pcbs_def)
  show "udp_do c u \<noteq> None" if "call_blocks c \<subseteq> dom (pcb u)" for c
    using udp_do_ok [OF u that] by auto
qed

text \<open>Two blocks, of which the second asks for the port of the first and is then given another.\<close>

definition two_blocks :: udp where
  "two_blocks = snd (udp_new (Some 2) (snd (udp_new (Some 1) \<lparr>pcb = Map.empty, udp_pcbs = []\<rparr>)))"

definition server_bound :: udp where
  "server_bound = bound 1 0 4096 two_blocks"

lemma server_bound_run: "udp_run server_bound"
proof -
  have t: "udp_run two_blocks" unfolding two_blocks_def
    by (intro udp_alloc udp_init) (simp_all add: udp_new_def)
  have "udp_do (call_bind 1 None 4096) two_blocks = Some server_bound"
    by (simp add: server_bound_def two_blocks_def udp_new_def udp_bind_def set_pcb_def bound_def ip_addr_set_def)
  from udp_event [OF t _ _ this] show ?thesis
    by (simp add: two_blocks_def udp_new_def failed_rebind_def)
qed

lemma udp_ports_exclusive_witness:
  "udp_do (call_bind 2 None 0) server_bound \<noteq> None \<and> local_port (the (pcb server_bound 1)) = 4096 \<and>
   1 \<in> set (udp_pcbs server_bound)"
proof -
  have d: "call_blocks (call_bind 2 None 0) \<subseteq> dom (pcb server_bound)"
    "pcb server_bound 1 = Some (the (pcb server_bound 1))" "local_port (the (pcb server_bound 1)) = 4096"
    by (simp_all add: server_bound_def two_blocks_def udp_new_def)
  note c = udp_ports_exclusive [OF server_bound_run]
  have "udp_do (call_bind 2 None 0) server_bound \<noteq> None" using c d(1) by blast
  moreover have "1 \<in> set (udp_pcbs server_bound) \<longleftrightarrow> local_port (the (pcb server_bound 1)) \<noteq> 0"
    using conjunct1 [OF c] d(2) by blast
  ultimately show ?thesis using d(3) by simp
qed

text \<open>
  Binding. With a port it succeeds unless another block on the list has the same port and one
  of the two addresses is the wildcard or they are equal; then nothing changes. Without a port the
  block gets the least port from 4096 to 32766 that no block uses, and \<open>ERR_USE\<close> comes only when
  all of them are in use (32767, the end of the range, is never given).
\<close>

theorem udp_bind_result:
  assumes "udp_run u" "pcb u p = Some c"
  shows "\<exists>e u'. udp_bind p ip port u = Some (e, u') \<and>
    (if port \<noteq> 0
     then e = (if \<exists>q \<in> set (udp_pcbs u). clashes (pcb u) p ip port q then ERR_USE else ERR_OK) \<and>
       u' = (if e = ERR_OK then bound p (ip_addr_set ip) port u else u)
     else if e = ERR_OK
     then \<exists>r. u' = bound p (ip_addr_set ip) r u \<and> 4096 \<le> r \<and> r \<le> 32766 \<and> \<not> used_port (pcb u) (udp_pcbs u) r \<and>
       (\<forall>x. 4096 \<le> x \<and> x < r \<longrightarrow> used_port (pcb u) (udp_pcbs u) x)
     else e = ERR_USE \<and> (\<forall>x. 4096 \<le> x \<and> x \<le> 32766 \<longrightarrow> used_port (pcb u) (udp_pcbs u) x))"
proof -
  have lt: "x < UDP_LOCAL_PORT_RANGE_END \<longleftrightarrow> x \<le> 32766" for x
    by (simp add: word_less_nat_alt word_le_nat_alt) arith
  note u = udp_run_ok [OF assms(1)]
  show ?thesis
  proof (cases "port = 0")
    case False
    then show ?thesis using udp_bind_port [OF u assms(2) False, of ip] by simp
  next
    case True
    show ?thesis
      using udp_bind_any [OF u assms(2), of ip, unfolded lt] unfolding True
      by (cases rule: udp_bind_any [OF u assms(2), of ip, unfolded lt]) auto
  qed
qed

lemma udp_bind_result_witness:
  "\<exists>e u'. udp_bind 2 (Some 7) 4096 server_bound = Some (e, u') \<and> e = ERR_USE \<and> u' = server_bound"
proof -
  have "pcb server_bound 2 = Some (the (pcb server_bound 2))"
    by (simp add: server_bound_def two_blocks_def udp_new_def)
  moreover have "\<exists>q \<in> set (udp_pcbs server_bound). clashes (pcb server_bound) 2 (Some 7) 4096 q"
    by (simp add: server_bound_def two_blocks_def udp_new_def clashes_def)
  ultimately show ?thesis using udp_bind_result [OF server_bound_run, of 2 _ "Some 7" 4096] by auto
qed

text \<open>
  Why that bind is left out: the address is stored before a port is looked for. A block that shares
  its port with another one, at different addresses, and is bound again to any address and port
  when all ports are taken, keeps its port but has the wildcard address now: \<open>ERR_USE\<close> is returned
  and two blocks are bound to the same port and address all the same.
\<close>

lemma udp_failed_rebind_clashes:
  assumes u: "udp_ok u" and "p \<in> set (udp_pcbs u)" "q \<in> set (udp_pcbs u)" "p \<noteq> q"
    and c: "pcb u p = Some c" "pcb u q = Some d" "local_port c = local_port d"
    and full: "\<forall>x. UDP_LOCAL_PORT_RANGE_START \<le> x \<and> x < UDP_LOCAL_PORT_RANGE_END \<longrightarrow> used_port (pcb u) (udp_pcbs u) x"
  shows "\<exists>u'. udp_bind p None 0 u = Some (ERR_USE, u') \<and> \<not> udp_ok u'"
proof -
  let ?u = "u\<lparr>pcb := (pcb u)(p \<mapsto> c\<lparr>local_ip := ip_addr_set None\<rparr>)\<rparr>"
  have "udp_bind p None 0 u = Some (ERR_USE, ?u)"
    by (rule udp_bind_any [OF u c(1), of None]) (use full in auto)
  moreover have "\<not> apart_pcbs (c\<lparr>local_ip := ip_addr_set None\<rparr>) d"
    using c(3) by (simp add: apart_pcbs_def ip_addr_set_def)
  then have "\<not> udp_ok ?u" using assms(2-4) c udp_okD(4) [of ?u p q] by auto
  ultimately show ?thesis by blast
qed

lemma find_unique:
  assumes "\<And>x y. x \<in> set l \<Longrightarrow> y \<in> set l \<Longrightarrow> P x \<Longrightarrow> P y \<Longrightarrow> x = y"
  shows "List.find P l = Some x \<longleftrightarrow> x \<in> set l \<and> P x"
proof
  assume "x \<in> set l \<and> P x"
  then obtain y where "List.find P l = Some y" by (metis find_None_iff option.exhaust)
  moreover from this have "y \<in> set l \<and> P y" by (auto simp: find_Some_iff)
  ultimately show "List.find P l = Some x" using assms \<open>x \<in> set l \<and> P x\<close> by blast
qed (auto simp: find_Some_iff)

lemma demux_unicast:
  assumes "udp_run u" "\<not> ip_addr_isbroadcast dip inp" "\<not> ip_addr_ismulticast dip"
    and "dest \<noteq> DHCP_CLIENT_PORT" "dest \<noteq> DHCP_SERVER_PORT"
  shows "\<exists>r u'. udp_demux inp sip dip src dest u = Some (r, u') \<and>
    pcb u' = pcb u \<and> mset (udp_pcbs u') = mset (udp_pcbs u) \<and>
    (\<forall>p. r = Some p \<longleftrightarrow> p \<in> set (udp_pcbs u) \<and> local_port (the (pcb u p)) = dest \<and>
      (local_ip (the (pcb u p)) = 0 \<or> local_ip (the (pcb u p)) = dip) \<and>
      (unconnected (the (pcb u p)) \<or> remote_match src sip (the (pcb u p))))"
proof -
  note u = udp_run_ok [OF assms(1)]
  let ?c = "\<lambda>p. the (pcb u p)"
  let ?lm = "local_match dest dip False" and ?rm = "remote_match src sip"
  have al: "\<forall>q \<in> set (udp_pcbs u). \<exists>c. pcb u q = Some c" using udp_okD(2) [OF u] by blast
  have lm: "?lm c \<longleftrightarrow> local_port c = dest \<and> (local_ip c = 0 \<or> local_ip c = dip)" for c
    using assms(3) by (auto simp: local_match_def)
  have one: "p = q" if m: "p \<in> set (udp_pcbs u)" "q \<in> set (udp_pcbs u)" "?lm (?c p)" "?lm (?c q)" for p q
  proof (rule ccontr)
    assume ne: "p \<noteq> q"
    obtain c d where e: "pcb u p = Some c" "pcb u q = Some d" using al m(1,2) by blast
    have "apart_pcbs c d" by (rule udp_okD(4) [OF u m(1,2) ne e])
    then show False using m(3,4) unfolding lm e option.sel apart_pcbs_def by metis
  qed
  obtain r l where d: "demux_loop (pcb u) ?lm ?rm [] (udp_pcbs u) None = Some (r, l)"
    unfolding demux_loop_spec [OF al] by fastforce
  have full: "List.find (\<lambda>q. ?lm (?c q) \<and> ?rm (?c q)) (udp_pcbs u) = Some p \<longleftrightarrow>
      p \<in> set (udp_pcbs u) \<and> ?lm (?c p) \<and> ?rm (?c p)" for p
    by (rule find_unique) (use one in blast)
  have unc: "List.find (\<lambda>q. ?lm (?c q) \<and> unconnected (?c q)) (udp_pcbs u) = Some p \<longleftrightarrow>
      p \<in> set (udp_pcbs u) \<and> ?lm (?c p) \<and> unconnected (?c p)" for p
    by (rule find_unique) (use one in blast)
  have "r = Some p \<longleftrightarrow> p \<in> set (udp_pcbs u) \<and> ?lm (?c p) \<and> (unconnected (?c p) \<or> ?rm (?c p))" for p
  proof (cases "List.find (\<lambda>q. ?lm (?c q) \<and> ?rm (?c q)) (udp_pcbs u)")
    case None
    then have "r = List.find (\<lambda>q. ?lm (?c q) \<and> unconnected (?c q)) (udp_pcbs u)"
      using d unfolding demux_loop_spec [OF al] by auto
    moreover have "\<not> (p \<in> set (udp_pcbs u) \<and> ?lm (?c p) \<and> ?rm (?c p))"
      using full [of p] None by simp
    ultimately show ?thesis using unc [of p] by (simp only:) blast
  next
    case (Some q)
    then have "r = Some q" using d unfolding demux_loop_spec [OF al] by simp
    then show ?thesis using Some full [of q] one [of p q] by blast
  qed
  then show ?thesis
    using d demux_loop_mset [OF al d] assms(2,4,5) by (simp add: udp_demux_def lm)
qed

text \<open>
  Who gets a unicast datagram. After any run, a datagram to an address that is neither a
  broadcast nor a multicast address, and to no DHCP port, goes to the block that is bound to its
  port at its address or the wildcard, provided this block is unconnected or the sender is its
  peer; there is at most one, so neither the order of the list nor the search for a better match
  has any influence. The blocks themselves do not change, the list is only reordered.
\<close>

theorem udp_unicast_delivery:
  assumes "udp_run u" "\<not> ip_addr_isbroadcast dip inp" "\<not> ip_addr_ismulticast dip"
    and "dest \<noteq> DHCP_CLIENT_PORT" "dest \<noteq> DHCP_SERVER_PORT"
  shows "\<exists>r u'. udp_demux inp sip dip src dest u = Some (r, u') \<and>
    pcb u' = pcb u \<and> mset (udp_pcbs u') = mset (udp_pcbs u) \<and>
    (\<forall>p. r = Some p \<longleftrightarrow> p \<in> set (udp_pcbs u) \<and> local_port (the (pcb u p)) = dest \<and>
      (local_ip (the (pcb u p)) = 0 \<or> local_ip (the (pcb u p)) = dip) \<and>
      (unconnected (the (pcb u p)) \<or> remote_match src sip (the (pcb u p))))"
  by (rule demux_unicast [OF assms])

lemma udp_unicast_delivery_witness:
  "\<exists>r u'. udp_demux \<lparr>netif_flags = 3, netif_ip = 0x0100000a, netif_mask = 0xffffff, nif_addr = 9,
      dhcp_pcb = None, dhcps_pcb = None\<rparr> 0x0200000a 0x0100000a 5000 4096 server_bound = Some (r, u') \<and> r = Some 1"
proof -
  let ?inp = "\<lparr>netif_flags = 3, netif_ip = 0x0100000a, netif_mask = 0xffffff, nif_addr = 9,
      dhcp_pcb = None, dhcps_pcb = None\<rparr>"
  have "\<not> ip_addr_isbroadcast 0x0100000a ?inp"
    by (simp add: ip_addr_isbroadcast_def netif.truncate_def ip4_addr_isbroadcast_def)
  moreover have "\<not> ip_addr_ismulticast 0x0100000a" by (simp add: ip_addr_ismulticast_def)
  moreover have m: "1 \<in> set (udp_pcbs server_bound)" "local_port (the (pcb server_bound 1)) = 4096"
      "local_ip (the (pcb server_bound 1)) = 0" "unconnected (the (pcb server_bound 1))"
    by (simp_all add: server_bound_def two_blocks_def udp_new_def bound_def unconnected_def)
  ultimately obtain r u' where "udp_demux ?inp 0x0200000a 0x0100000a 5000 4096 server_bound = Some (r, u')"
    "r = Some 1 \<longleftrightarrow> 1 \<in> set (udp_pcbs server_bound) \<and> local_port (the (pcb server_bound 1)) = 4096 \<and>
      (local_ip (the (pcb server_bound 1)) = 0 \<or> local_ip (the (pcb server_bound 1)) = 0x0100000a) \<and>
      (unconnected (the (pcb server_bound 1)) \<or> remote_match 5000 0x0200000a (the (pcb server_bound 1)))"
    using udp_unicast_delivery [OF server_bound_run, of "0x0100000a" ?inp 4096 "0x0200000a" 5000] by auto
  then show ?thesis using m by simp
qed

end
