(* ===== verification/Checksum.thy ===== *)
theory Checksum
  imports Pbuf IpAddr
begin

text \<open>
  The Internet checksum of the bundled lwIP (\<open>core/ipv4/inet_chksum.c\<close>): its three
  interchangeable summing routines, the checksums over buffers and packets built on them, and
  what they compute. A buffer is its address, of which only the alignment matters, and its bytes.
  The specification is a number: the bytes read as one little-endian number, reduced modulo
  65535, with 65535 for the multiples that are not zero.
\<close>

section \<open>The specification\<close>

fun le_num :: "u8 list \<Rightarrow> nat" where
  "le_num [] = 0"
| "le_num (b # bs) = unat b + 256 * le_num bs"

definition ocs :: "nat \<Rightarrow> nat" where
  "ocs n = (if n = 0 then 0 else (n - 1) mod 65535 + 1)"

text \<open>The procedure of RFC 1071: 16-bit words in network order, added with end-around carry.\<close>

fun be_words :: "u8 list \<Rightarrow> nat list" where
  "be_words (a # b # bs) = (256 * unat a + unat b) # be_words bs"
| "be_words [a] = [256 * unat a]"
| "be_words [] = []"

definition oc_add :: "nat \<Rightarrow> nat \<Rightarrow> nat" where
  "oc_add x y = (x + y) mod 65536 + (x + y) div 65536"

definition rfc1071 :: "u8 list \<Rightarrow> nat" where
  "rfc1071 bs = foldl oc_add 0 (be_words bs)"

lemma ocs_le: "ocs n \<le> 65535"
  by (simp add: ocs_def Suc_le_eq)

lemma ocs_0 [simp]: "ocs n = 0 \<longleftrightarrow> n = 0"
  by (simp add: ocs_def)

lemma ocs_mod: "ocs n mod 65535 = n mod 65535"
proof (cases n)
  case (Suc m)
  have "Suc (m mod 65535) mod 65535 = Suc m mod 65535" by (simp add: mod_Suc_eq)
  then show ?thesis by (simp add: ocs_def Suc)
qed (simp add: ocs_def)

lemma ocs_unique: "m \<le> 65535 \<Longrightarrow> m mod 65535 = n mod 65535 \<Longrightarrow> m = 0 \<longleftrightarrow> n = 0 \<Longrightarrow> ocs n = m"
proof (cases "m = 65535")
  case True
  assume "m mod 65535 = n mod 65535" "m = 0 \<longleftrightarrow> n = 0"
  then have n: "65535 dvd n" "0 < n" using True by (auto simp: mod_eq_0_iff_dvd)
  then obtain k where k: "n = 65535 * k" "0 < k" by auto
  then obtain j where "k = Suc j" using gr0_implies_Suc by blast
  then have "n - 1 = 65534 + 65535 * j" using k by simp
  then have "(n - 1) mod 65535 = 65534" by simp
  then show ?thesis using n True by (simp add: ocs_def)
next
  case False
  assume "m \<le> 65535" and md: "m mod 65535 = n mod 65535" and z: "m = 0 \<longleftrightarrow> n = 0"
  then have lt: "m < 65535" using False by simp
  have o: "ocs n mod 65535 = m" using lt md by (simp add: ocs_mod)
  show ?thesis
  proof (cases "ocs n = 65535")
    case True
    then have "m = 0" using o by simp
    then show ?thesis using z by simp
  next
    case False
    then have "ocs n < 65535" using ocs_le [of n] by simp
    then show ?thesis using o by simp
  qed
qed

lemma ocs_cong: "m mod 65535 = n mod 65535 \<Longrightarrow> m = 0 \<longleftrightarrow> n = 0 \<Longrightarrow> ocs m = ocs n"
  by (rule ocs_unique [symmetric, rotated -1]) (simp_all add: ocs_le ocs_mod)

lemma ocs_add: "ocs m = ocs m' \<Longrightarrow> ocs (m + k) = ocs (m' + k)"
  by (rule ocs_cong) (metis mod_add_left_eq ocs_mod, metis add_is_0 ocs_0)

lemma ocs_65536: "ocs (m + 65536 * k) = ocs (m + k)"
proof (rule ocs_cong)
  have "m + 65536 * k = m + k + 65535 * k" by simp
  then show "(m + 65536 * k) mod 65535 = (m + k) mod 65535" by (simp only: mod_mult_self2)
qed simp

text \<open>Weights: two bytes further a byte counts the same again.\<close>

lemma pow256_even: "even k \<Longrightarrow> (256 ^ k * n) mod 65535 = n mod (65535 :: nat)"
proof -
  assume "even k"
  then obtain j where k: "k = 2 * j" by auto
  have "(256 :: nat) ^ k = 65536 ^ j" unfolding k power_mult by simp
  moreover have "(65536 :: nat) ^ j mod 65535 = 1"
    using power_mod [of "65536 :: nat" 65535 j] by simp
  ultimately show ?thesis by (metis mod_mult_left_eq mult.left_neutral)
qed

lemma pow256_odd: "odd k \<Longrightarrow> (256 ^ k * n) mod 65535 = (256 * n) mod (65535 :: nat)"
proof -
  assume "odd k"
  then obtain j where k: "k = Suc j" "even j" by (metis even_Suc odd_pos gr0_implies_Suc)
  then show ?thesis using pow256_even [of j "256 * n"] by (simp add: ac_simps)
qed

lemma le_num_append: "le_num (xs @ ys) = le_num xs + 256 ^ length xs * le_num ys"
  by (induction xs) (simp_all add: algebra_simps)

lemma le_num_append_even:
  "even (length xs) \<Longrightarrow> le_num (xs @ ys) mod 65535 = (le_num xs + le_num ys) mod 65535"
  unfolding le_num_append by (intro mod_add_cong refl pow256_even)

lemma le_num_append_odd:
  "odd (length xs) \<Longrightarrow> le_num (xs @ ys) mod 65535 = (le_num xs + 256 * le_num ys) mod 65535"
  unfolding le_num_append by (intro mod_add_cong refl pow256_odd)

lemma le_num_0: "le_num bs = 0 \<longleftrightarrow> (\<forall>b \<in> set bs. b = 0)"
  by (induction bs) (auto simp: unat_eq_0)


section \<open>Folding and swapping\<close>

definition FOLD_U32T :: "u32 \<Rightarrow> u32" where
  "FOLD_U32T u = drop_bit 16 u + (u AND 0xffff)"

text \<open>\<open>SWAP_BYTES_IN_WORD\<close> and \<open>htons\<close> are \<open>LWIP_PLATFORM_HTONS\<close> on this platform.\<close>

definition SWAP_BYTES_IN_WORD :: "u32 \<Rightarrow> u16" where
  "SWAP_BYTES_IN_WORD w = ucast (push_bit 8 (w AND 0xff) OR (drop_bit 8 w AND 0xff))"

definition lwip_htons :: "u16 \<Rightarrow> u16" where
  "lwip_htons w = SWAP_BYTES_IN_WORD (ucast w)"

definition swap :: "nat \<Rightarrow> nat" where
  "swap x = 256 * (x mod 256) + x div 256 mod 256"

lemma unat_from_be16: "unat (from_be16 h l) = 256 * unat h + unat l"
proof -
  have "unat (from_be16 h l) = unat (push_bit 8 (ucast h) + ucast l :: u16)"
    unfolding from_be16_def
    by (subst disjunctive_add [symmetric]) (auto simp: bit_simps dest: bit_imp_le_length)
  also have "\<dots> = 256 * unat h + unat l"
  proof -
    have "256 * unat h + unat l < 65536" using unat_u8 [of h] unat_u8 [of l] by linarith
    then show ?thesis by (simp add: push_bit_eq_mult unat_word_ariths mult.commute)
  qed
  finally show ?thesis .
qed

lemma u32_low: "unat (w AND 0xffff :: u32) = unat w mod 65536" "unat (w AND 0xff :: u32) = unat w mod 256"
proof -
  have m: "(0xffff :: u32) = mask 16" "(0xff :: u32) = mask 8" by (simp_all add: mask_eq_exp_minus_1)
  show "unat (w AND 0xffff) = unat w mod 65536" "unat (w AND 0xff) = unat w mod 256"
    unfolding m take_bit_eq_mask [symmetric] by (simp_all add: take_bit_eq_mod unat_mod)
qed

lemma u32_shift: "unat (drop_bit 16 w :: u32) = unat w div 65536" "unat (drop_bit 8 w :: u32) = unat w div 256"
  by (simp_all add: drop_bit_eq_div unat_div)

lemma unat_FOLD: "unat (FOLD_U32T u) = unat u div 65536 + unat u mod 65536"
proof -
  have "unat (drop_bit 16 u) = unat u div 65536" by (rule u32_shift)
  moreover have "unat u div 65536 < 65536" using unsigned_less [of u, where ?'a = nat] by simp
  ultimately show ?thesis
    by (simp add: FOLD_U32T_def unat_word_ariths u32_low)
qed

lemma swap_le: "swap x \<le> 65535"
proof -
  have "x mod 256 < 256" "x div 256 mod 256 < 256" by simp_all
  then show ?thesis unfolding swap_def by linarith
qed

lemma swap_bytes: "h < 256 \<Longrightarrow> l < 256 \<Longrightarrow> swap (256 * h + l) = 256 * l + h"
  by (simp add: swap_def)

lemma two_bytes:
  assumes "x \<le> (65535 :: nat)"
  obtains h l where "x = 256 * h + l" "h < 256" "l < 256"
proof (rule that)
  show "x = 256 * (x div 256) + x mod 256" by simp
  show "x div 256 < 256" using assms by (simp add: less_mult_imp_div_less)
qed simp

lemma swap_swap: "x \<le> 65535 \<Longrightarrow> swap (swap x) = x"
  by (erule two_bytes) (simp add: swap_bytes)

lemma swap_0: "x \<le> 65535 \<Longrightarrow> swap x = 0 \<longleftrightarrow> x = 0"
  by (erule two_bytes) (auto simp: swap_bytes)

lemma swap_mod: "x \<le> 65535 \<Longrightarrow> swap x mod 65535 = (256 * x) mod 65535"
proof (erule two_bytes)
  fix h l :: nat
  assume x: "x = 256 * h + l" "h < 256" "l < 256"
  have "256 * x = 256 * l + h + 65535 * h" by (simp add: x(1))
  then have "256 * x mod 65535 = (256 * l + h) mod 65535" by (metis mod_mult_self2)
  then show "swap x mod 65535 = (256 * x) mod 65535" unfolding x(1) swap_bytes [OF x(2,3)] by (rule sym)
qed

lemma unat_SWAP: "unat (SWAP_BYTES_IN_WORD w) = swap (unat w)"
proof -
  have m: "(0xff :: u32) = mask 8" by (simp add: mask_eq_exp_minus_1)
  have "push_bit 8 (w AND 0xff) OR (drop_bit 8 w AND 0xff) = push_bit 8 (w AND 0xff) + (drop_bit 8 w AND 0xff)"
    unfolding m by (rule disjunctive_add [symmetric]) (auto simp: bit_simps)
  moreover have "unat (push_bit 8 (w AND 0xff)) = 256 * (unat w mod 256)"
    by (simp add: push_bit_eq_mult unat_word_ariths u32_low mult.commute)
  ultimately have "unat (push_bit 8 (w AND 0xff) OR (drop_bit 8 w AND 0xff)) = swap (unat w)"
    by (simp add: unat_word_ariths u32_low u32_shift swap_def)
  moreover have "swap (unat w) < 65536" using swap_le [of "unat w"] by simp
  ultimately show ?thesis
    by (simp add: SWAP_BYTES_IN_WORD_def unsigned_ucast_eq take_bit_nat_eq_self)
qed

lemma unat_htons: "unat (lwip_htons w) = swap (unat w)"
  by (simp add: lwip_htons_def unat_SWAP)

lemma swap_ocs: "swap (ocs n) = ocs (256 * n)"
proof (rule ocs_unique [symmetric])
  have "swap (ocs n) mod 65535 = 256 * ocs n mod 65535" by (rule swap_mod [OF ocs_le])
  also have "\<dots> = 256 * n mod 65535" by (metis mod_mult_right_eq ocs_mod)
  finally show "swap (ocs n) mod 65535 = 256 * n mod 65535" .
qed (use swap_le swap_0 [OF ocs_le] in simp_all)

text \<open>Folding keeps the residue, so two folds of a 32-bit sum give its ones-complement sum.\<close>

lemma fold_mod: "(x div 65536 + x mod 65536) mod 65535 = x mod (65535 :: nat)"
proof -
  have "x = x div 65536 + x mod 65536 + 65535 * (x div 65536)" by (simp add: algebra_simps)
  then show ?thesis by (metis mod_mult_self2)
qed

lemma fold_0: "x div 65536 + x mod 65536 = 0 \<longleftrightarrow> x = (0 :: nat)"
  by (metis add_is_0 div_0 mod_0 mod_div_trivial mult_div_mod_eq mult_0_right)

lemma fold_le: "x \<le> 131070 \<Longrightarrow> x div 65536 + x mod 65536 \<le> (65535 :: nat)"
proof -
  assume x: "x \<le> 131070"
  then have "x div 65536 < 2" by (intro less_mult_imp_div_less) simp
  moreover have "x = 65536 * (x div 65536) + x mod 65536" "x mod 65536 < 65536" by simp_all
  ultimately show ?thesis using x by linarith
qed

lemma FOLD_ocs:
  "unat (FOLD_U32T u) \<le> 65535 \<Longrightarrow> unat (FOLD_U32T u) = ocs (unat u)"
  by (rule ocs_unique [symmetric]) (simp_all only: unat_FOLD fold_mod fold_0)

lemma FOLD_le: "unat u \<le> 131070 \<Longrightarrow> unat (FOLD_U32T u) \<le> 65535"
  unfolding unat_FOLD by (rule fold_le)

lemma FOLD_FOLD: "unat (FOLD_U32T (FOLD_U32T u)) = ocs (unat u)"
proof -
  have "unat u < 65536 * 65536" using unsigned_less [of u, where ?'a = nat] by simp
  then have "unat (FOLD_U32T u) \<le> 131070" 
  proof -
    have "unat u div 65536 < 65536" by (rule less_mult_imp_div_less) fact
    moreover have "unat u mod 65536 < 65536" by simp
    ultimately show ?thesis unfolding unat_FOLD by linarith
  qed
  then have "unat (FOLD_U32T (FOLD_U32T u)) = ocs (unat (FOLD_U32T u))" by (intro FOLD_ocs FOLD_le)
  also have "\<dots> = ocs (unat u)" by (rule ocs_cong) (simp_all only: unat_FOLD fold_mod fold_0)
  finally show ?thesis .
qed

lemma oc_add_ocs: "x \<le> 65535 \<Longrightarrow> y \<le> 65535 \<Longrightarrow> oc_add x y = ocs (x + y)"
  unfolding oc_add_def add.commute [of "_ mod _"]
  by (rule ocs_unique [symmetric]) (simp_all only: fold_mod fold_0 fold_le)

lemma rfc1071_ocs: "rfc1071 bs = ocs (sum_list (be_words bs))"
proof -
  have "foldl oc_add (ocs s) (be_words bs) = ocs (s + sum_list (be_words bs))" for s
  proof (induction bs arbitrary: s rule: be_words.induct)
    case (1 a b bs)
    have le: "256 * unat a + unat b \<le> 65535" using unat_u8 [of a] unat_u8 [of b] by linarith
    have "oc_add (ocs s) (256 * unat a + unat b) = ocs (ocs s + (256 * unat a + unat b))"
      by (rule oc_add_ocs [OF ocs_le le])
    also have "\<dots> = ocs (s + (256 * unat a + unat b))"
      by (rule ocs_cong) (auto simp: mod_add_cong [OF ocs_mod])
    finally show ?case using 1 by (simp add: add.assoc)
  next
    case (2 a)
    have le: "256 * unat a \<le> 65535" using unat_u8 [of a] by linarith
    have "oc_add (ocs s) (256 * unat a) = ocs (ocs s + 256 * unat a)" by (rule oc_add_ocs [OF ocs_le le])
    also have "\<dots> = ocs (s + 256 * unat a)"
      by (rule ocs_cong) (auto simp: mod_add_cong [OF ocs_mod])
    finally show ?case by simp
  qed simp
  from this [of 0] show ?thesis by (simp add: rfc1071_def ocs_def)
qed

lemma sum_be_words: "sum_list (be_words bs) mod 65535 = 256 * le_num bs mod 65535 \<and>
  (sum_list (be_words bs) = 0 \<longleftrightarrow> le_num bs = 0)"
proof (induction bs rule: be_words.induct)
  case (1 a b bs)
  have "(256 * unat a + unat b + sum_list (be_words bs)) mod 65535 =
      (256 * unat a + unat b + 256 * le_num bs) mod 65535"
    using 1 by (intro mod_add_cong refl) simp
  also have "256 * le_num (a # b # bs) =
      256 * unat a + unat b + 256 * le_num bs + 65535 * (unat b + 256 * le_num bs)"
    by (simp add: algebra_simps)
  then have "(256 * unat a + unat b + 256 * le_num bs) mod 65535 = 256 * le_num (a # b # bs) mod 65535"
    by (simp only: mod_mult_self2)
  finally show ?case using 1 by simp
qed simp_all

text \<open>The two specifications agree, up to the order of the two bytes.\<close>

lemma rfc1071_le_num: "rfc1071 bs = swap (ocs (le_num bs))"
  unfolding rfc1071_ocs swap_ocs using sum_be_words [of bs] by (intro ocs_cong) simp_all

section \<open>The three summing routines\<close>

text \<open>
  \<open>lwip_standard_chksum\<close> as selected by \<open>LWIP_CHKSUM_ALGORITHM\<close> 1, 2 (the default) and 3. The
  first adds big-endian words; the other two read words as the little-endian core does, after
  aligning the pointer: \<open>t\<close> takes the odd byte in front and the one left over at the end.
\<close>

fun add_octets :: "u8 list \<Rightarrow> u32 \<Rightarrow> u32" where
  "add_octets (a # b # bs) acc = add_octets bs (acc + ucast (from_be16 a b))"
| "add_octets [a] acc = acc + ucast (push_bit 8 (ucast a) :: u16)"
| "add_octets [] acc = acc"

definition lwip_standard_chksum1 :: "u8 list \<Rightarrow> u16" where
  "lwip_standard_chksum1 bs =
     (let acc = FOLD_U32T (add_octets bs 0);
          acc = if acc AND 0xffff0000 \<noteq> 0 then FOLD_U32T acc else acc
      in lwip_htons (ucast acc))"

fun add_words :: "u8 list \<Rightarrow> u32 \<Rightarrow> u32 \<times> u8 list" where
  "add_words (a # b # bs) acc = add_words bs (acc + ucast (from_be16 b a))"
| "add_words bs acc = (acc, bs)"

text \<open>The byte in front of the first even address, put into the high byte of \<open>t\<close>.\<close>

definition align_even :: "nat \<Rightarrow> u8 list \<Rightarrow> u16 \<times> u8 list" where
  "align_even a bs = (if odd a \<and> bs \<noteq> [] then (push_bit 8 (ucast (hd bs)), tl bs) else (0, bs))"

definition add_ends :: "bool \<Rightarrow> u16 \<Rightarrow> u32 \<times> u8 list \<Rightarrow> u16" where
  "add_ends is_odd t sr =
     (let (sum, rest) = sr;
          t = if rest \<noteq> [] then t OR ucast (hd rest) else t;
          sum = FOLD_U32T (FOLD_U32T (sum + ucast t))
      in if is_odd then SWAP_BYTES_IN_WORD sum else ucast sum)"

definition lwip_standard_chksum2 :: "nat \<Rightarrow> u8 list \<Rightarrow> u16" where
  "lwip_standard_chksum2 a bs =
     (let (t, bs) = align_even a bs in add_ends (odd a) t (add_words bs 0))"

definition le32 :: "u8 list \<Rightarrow> u32" where
  "le32 bs = ucast (from_be16 (bs ! 1) (bs ! 0)) + 65536 * ucast (from_be16 (bs ! 3) (bs ! 2))"

definition add_carry :: "u32 \<Rightarrow> u32 \<Rightarrow> u32" where
  "add_carry acc w = (if acc + w < acc then acc + w + 1 else acc + w)"

function add_longs :: "u8 list \<Rightarrow> u32 \<Rightarrow> u32 \<times> u8 list" where
  "add_longs bs acc =
     (if 7 < length bs then add_longs (drop 8 bs) (add_carry (add_carry acc (le32 bs)) (le32 (drop 4 bs)))
      else (acc, bs))"
  by pat_completeness auto
termination by (relation "measure (length \<circ> fst)") auto

declare add_longs.simps [simp del]

definition lwip_standard_chksum3 :: "nat \<Rightarrow> u8 list \<Rightarrow> u16" where
  "lwip_standard_chksum3 a bs =
     (let (t, bs') = align_even a bs;
          ps = a + (length bs - length bs');
          (sum, bs') = (if ps mod 4 \<noteq> 0 \<and> 1 < length bs'
                        then (ucast (from_be16 (bs' ! 1) (bs' ! 0)), drop 2 bs') else (0, bs'));
          (sum, bs') = add_longs bs' sum
      in add_ends (odd a) t (add_words bs' (FOLD_U32T sum)))"

text \<open>The sums never exceed their 32 bits, up to the documented length of \<open>0x20000\<close> bytes.\<close>

lemma unat_add_u32: "unat x + unat y < 2 ^ 32 \<Longrightarrow> unat (x + y :: u32) = unat x + unat y"
  by (simp add: unat_word_ariths)

lemma from_be16_le: "unat (from_be16 a b) \<le> 65535"
  using unsigned_less [of "from_be16 a b", where ?'a = nat] by simp

lemma add_octets_sum:
  "unat acc + 65535 * ((length bs + 1) div 2) < 2 ^ 32 \<Longrightarrow>
   unat (add_octets bs acc) = unat acc + sum_list (be_words bs)"
proof (induction bs acc rule: add_octets.induct)
  case (1 a b bs acc)
  have "unat (acc + ucast (from_be16 a b)) = unat acc + unat (from_be16 a b)"
    using 1(2) from_be16_le [of a b] by (subst unat_add_u32) simp_all
  then show ?case using 1 from_be16_le [of a b] by (simp add: unat_from_be16)
next
  case (2 a acc)
  have p: "unat (push_bit 8 (ucast a) :: u16) = 256 * unat a"
    using unat_u8 [of a] by (simp add: push_bit_eq_mult unat_word_ariths mult.commute)
  have "256 * unat a \<le> 65535" using unat_u8 [of a] by linarith
  then show ?case using 2 p unat_add_u32 [of acc "ucast (push_bit 8 (ucast a) :: u16)"] by simp
qed simp

lemma add_words_num:
  assumes "unat acc + 65535 * (length bs div 2) < 2 ^ 32"
  obtains s r where "add_words bs acc = (s, r)" "length r = length bs mod 2"
    "ocs (unat s + le_num r) = ocs (unat acc + le_num bs)" "unat s \<le> unat acc + 65535 * (length bs div 2)"
  using assms
proof (induction bs acc arbitrary: thesis rule: add_words.induct)
  case (1 a b bs acc)
  let ?w = "256 * unat b + unat a"
  have le: "?w \<le> 65535" using unat_u8 [of a] unat_u8 [of b] by linarith
  have fits: "unat acc + ?w + 65535 * (length bs div 2) < 2 ^ 32" using 1(3) le by simp
  then have u: "unat (acc + ucast (from_be16 b a)) = unat acc + ?w"
    by (subst unat_add_u32) (simp_all add: unat_from_be16)
  obtain s r where IH: "add_words bs (acc + ucast (from_be16 b a)) = (s, r)" "length r = length bs mod 2"
    "ocs (unat s + le_num r) = ocs (unat acc + ?w + le_num bs)"
    "unat s \<le> unat acc + ?w + 65535 * (length bs div 2)"
    using 1(1) fits unfolding u by blast
  have "unat acc + le_num (a # b # bs) = unat acc + ?w + 65536 * le_num bs" by simp
  then have "ocs (unat acc + le_num (a # b # bs)) = ocs (unat acc + ?w + le_num bs)"
    by (simp only: ocs_65536)
  then show ?case using IH le by (intro 1(2) [of s r]) simp_all
qed simp_all

lemma align_even_cases:
  obtains "\<not> (odd a \<and> bs \<noteq> [])" "align_even a bs = (push_bit 8 (ucast (0 :: u8)), bs)"
  | b r where "odd a" "bs = b # r" "align_even a bs = (push_bit 8 (ucast b), r)"
  by (cases bs) (auto simp: align_even_def)

lemma u8_le: "unat (b :: u8) \<le> 255"
  using unat_u8 [of b] by linarith

lemma le_num_short: "length r \<le> 1 \<Longrightarrow> le_num r \<le> 255"
  using u8_le [of "hd r"] by (cases r) auto

lemma add_ends_num:
  fixes h :: u8
  assumes "length r \<le> 1" "unat s + 256 * unat h + le_num r < 2 ^ 32"
  shows "unat (add_ends od (push_bit 8 (ucast h)) (s, r)) =
    (if od then swap (ocs (unat s + (256 * unat h + le_num r))) else ocs (unat s + (256 * unat h + le_num r)))"
proof -
  define l where "l = (if r = [] then 0 else hd r)"
  have l: "le_num r = unat l" using assms(1) by (cases r) (auto simp: l_def)
  define t where "t = (if r \<noteq> [] then push_bit 8 (ucast h) OR ucast (hd r) else push_bit 8 (ucast h) :: u16)"
  have t: "t = from_be16 h l" by (simp add: t_def l_def from_be16_def)
  have "unat (s + ucast t) = unat s + (256 * unat h + le_num r)"
    using assms(2) by (subst unat_add_u32) (simp_all add: t unat_from_be16 l)
  then have f: "unat (FOLD_U32T (FOLD_U32T (s + ucast t))) = ocs (unat s + (256 * unat h + le_num r))"
    by (simp add: FOLD_FOLD)
  have "unat (ucast (FOLD_U32T (FOLD_U32T (s + ucast t))) :: u16) = ocs (unat s + (256 * unat h + le_num r))"
    unfolding f [symmetric] using f ocs_le [of "unat s + (256 * unat h + le_num r)"]
    by (simp add: unsigned_ucast_eq take_bit_nat_eq_self)
  then show ?thesis by (simp add: add_ends_def t_def [symmetric] unat_SWAP f)
qed

lemma ocs_odd: "swap (ocs (256 * unat b + le_num r)) = ocs (le_num (b # r))"
proof -
  have "256 * (256 * unat b + le_num r) = 256 * le_num r + 65536 * unat b" by simp
  then show ?thesis unfolding swap_ocs by (simp only: ocs_65536) (simp add: add.commute)
qed

lemma chksum2_ocs:
  assumes "length bs \<le> 0x20000"
  shows "unat (lwip_standard_chksum2 a bs) = ocs (le_num bs)"
proof (cases rule: align_even_cases [of a bs])
  case 1
  obtain s r where w: "add_words bs 0 = (s, r)" "length r = length bs mod 2"
    "ocs (unat s + le_num r) = ocs (unat (0 :: u32) + le_num bs)" "unat s \<le> unat (0 :: u32) + 65535 * (length bs div 2)"
    using assms by (rule_tac add_words_num [of 0 bs]) simp_all
  have "le_num r \<le> 255" using w(2) by (intro le_num_short) simp
  moreover have "length bs div 2 \<le> 0x10000" using assms by simp
  ultimately have "unat s + 256 * unat (0 :: u8) + le_num r < 2 ^ 32" "length r \<le> 1" using w(2,4) by simp_all
  from add_ends_num [OF this(2,1), of "odd a"] have
    "unat (lwip_standard_chksum2 a bs) = (if odd a then swap (ocs (le_num bs)) else ocs (le_num bs))"
    by (simp add: lwip_standard_chksum2_def 1(2) w(1,3))
  moreover have "swap (ocs (le_num bs)) = ocs (le_num bs)" if "odd a" using 1 that by (simp add: ocs_def swap_def)
  ultimately show ?thesis by simp
next
  case (2 b r0)
  obtain s r where w: "add_words r0 0 = (s, r)" "length r = length r0 mod 2"
    "ocs (unat s + le_num r) = ocs (unat (0 :: u32) + le_num r0)" "unat s \<le> unat (0 :: u32) + 65535 * (length r0 div 2)"
    using assms 2(2) by (rule_tac add_words_num [of 0 r0]) simp_all
  have "le_num r \<le> 255" using w(2) by (intro le_num_short) simp
  moreover have "length r0 div 2 \<le> 0xFFFF" using assms 2(2) by simp
  ultimately have fits: "unat s + 256 * unat b + le_num r < 2 ^ 32" "length r \<le> 1"
    using w(2,4) u8_le [of b] by simp_all
  have "ocs (unat s + (256 * unat b + le_num r)) = ocs (256 * unat b + le_num r0)"
    using ocs_add [OF w(3), of "256 * unat b"] by (simp add: ac_simps)
  then show ?thesis using add_ends_num [OF fits(2,1), of "odd a"] 2(1)
    by (simp add: lwip_standard_chksum2_def 2(3) w(1) ocs_odd) (simp add: 2(2))
qed

lemma chksum1_ocs:
  assumes "length bs \<le> 0xFFFF"
  shows "unat (lwip_standard_chksum1 bs) = ocs (le_num bs)"
proof -
  have "(length bs + 1) div 2 \<le> 0x8000" using assms by simp
  then have sum: "unat (add_octets bs 0) = sum_list (be_words bs)" by (subst add_octets_sum) simp_all
  define acc where "acc = FOLD_U32T (add_octets bs 0)"
  have acc2: "unat (FOLD_U32T acc) = rfc1071 bs" by (simp add: acc_def FOLD_FOLD sum rfc1071_ocs)
  have "unat (if acc AND 0xffff0000 \<noteq> 0 then FOLD_U32T acc else acc) = rfc1071 bs"
  proof (cases "acc AND 0xffff0000 = 0")
    case True
    have m: "(0xffff0000 :: u32) = push_bit 16 (mask 16)" by (simp add: mask_eq_exp_minus_1 push_bit_eq_mult)
    have z: "acc AND push_bit 16 (mask 16) = 0" by (rule True [unfolded m])
    have "push_bit 16 (drop_bit 16 acc) = acc AND push_bit 16 (mask 16)"
      by (rule bit_word_eqI) (auto simp: bit_simps)
    then have "push_bit 16 (drop_bit 16 acc) = 0" by (simp only: z)
    have "\<not> bit (drop_bit 16 acc) n" for n
    proof
      assume "bit (drop_bit 16 acc) n"
      then have n: "bit acc (n + 16)" by (simp add: bit_drop_bit_eq add.commute)
      then have "n + 16 < 32" using bit_imp_le_length [OF n] by simp
      then have "bit (push_bit 16 (drop_bit 16 acc)) (n + 16)" using n by (simp add: bit_simps add.commute)
      then show False by (simp add: \<open>push_bit 16 (drop_bit 16 acc) = 0\<close>)
    qed
    then have "drop_bit 16 acc = 0" by (intro bit_eqI) simp
    then have "unat acc div 65536 = 0" using u32_shift(1) [of acc] by simp
    then have "unat (FOLD_U32T acc) = unat acc" by (simp add: unat_FOLD)
    then show ?thesis using True acc2 by simp
  qed (simp add: acc2)
  then have f: "unat (if acc AND 0xffff0000 \<noteq> 0 then FOLD_U32T acc else acc) = rfc1071 bs" .
  have "unat (ucast (if acc AND 0xffff0000 \<noteq> 0 then FOLD_U32T acc else acc) :: u16) = rfc1071 bs"
    unfolding f [symmetric] using f ocs_le [of "sum_list (be_words bs)"]
    by (simp add: unsigned_ucast_eq take_bit_nat_eq_self rfc1071_ocs)
  then show ?thesis
    by (simp add: lwip_standard_chksum1_def acc_def [symmetric] Let_def unat_htons rfc1071_le_num swap_swap ocs_le)
qed

lemma add_carry_ocs: "ocs (unat (add_carry x y)) = ocs (unat x + unat y)"
proof (cases "unat x + unat y < 2 ^ 32")
  case True
  then have "unat (x + y) = unat x + unat y" by (rule unat_add_u32)
  then show ?thesis by (simp add: add_carry_def word_less_nat_alt)
next
  case False
  have lt: "unat x < 2 ^ 32" "unat y < 2 ^ 32"
    using unsigned_less [of x, where ?'a = nat] unsigned_less [of y, where ?'a = nat] by simp_all
  have m: "(unat x + unat y) mod 2 ^ 32 = unat x + unat y - 2 ^ 32"
    using False lt by (subst le_mod_geq) simp_all
  have xy: "unat (x + y) = unat x + unat y - 2 ^ 32" using m by (simp add: unat_word_ariths)
  have "unat (x + y + 1) = unat x + unat y - 2 ^ 32 + 1"
    using xy lt by (subst unat_add_u32) simp_all
  moreover have "x + y < x" using xy False lt by (simp add: word_less_nat_alt)
  ultimately have c: "unat (add_carry x y) = unat x + unat y - 2 ^ 32 + 1" by (simp add: add_carry_def)
  have "unat x + unat y = unat (add_carry x y) + 65535 * 65537" using c False by simp
  then have "(unat x + unat y) mod 65535 = unat (add_carry x y) mod 65535" by (metis mod_mult_self2)
  moreover have "0 < unat x + unat y" "0 < unat (add_carry x y)" using c False by simp_all linarith
  ultimately show ?thesis by (intro ocs_cong) linarith+
qed

lemma ocs_4: "4 \<le> length bs \<Longrightarrow> ocs (n + le_num bs) = ocs (n + unat (le32 bs) + le_num (drop 4 bs))"
proof -
  assume "4 \<le> length bs"
  then obtain a b c d r where bs: "bs = a # b # c # d # r"
    by (auto simp: numeral_eq_Suc Suc_le_length_iff)
  have w: "256 * unat b + unat a \<le> 65535" "256 * unat d + unat c \<le> 65535"
    using u8_le [of a] u8_le [of b] u8_le [of c] u8_le [of d] by linarith+
  have "unat (65536 * ucast (from_be16 d c) :: u32) = 65536 * (256 * unat d + unat c)"
    using w(2) by (simp add: unat_word_ariths unat_from_be16)
  then have l: "unat (le32 bs) = 256 * unat b + unat a + 65536 * (256 * unat d + unat c)"
    using w by (simp add: bs le32_def) (subst unat_add_u32, simp_all add: unat_from_be16)
  have "n + le_num bs = n + unat (le32 bs) + 65536 * (65536 * le_num r)" by (simp add: l) (simp add: bs)
  then have "ocs (n + le_num bs) = ocs (n + unat (le32 bs) + 65536 * le_num r)" by (simp only: ocs_65536)
  then show ?thesis by (simp only: ocs_65536) (simp add: bs)
qed

lemma add_longs_num:
  obtains s r where "add_longs bs acc = (s, r)" "length r \<le> 7" "ocs (unat s + le_num r) = ocs (unat acc + le_num bs)"
proof (induction bs acc arbitrary: thesis rule: add_longs.induct)
  case (1 bs acc)
  show ?case
  proof (cases "7 < length bs")
    case True
    let ?acc = "add_carry (add_carry acc (le32 bs)) (le32 (drop 4 bs))"
    obtain s r where IH: "add_longs (drop 8 bs) ?acc = (s, r)" "length r \<le> 7"
      "ocs (unat s + le_num r) = ocs (unat ?acc + le_num (drop 8 bs))"
      using 1(1) True by blast
    have "ocs (unat ?acc + le_num (drop 8 bs)) =
        ocs (unat (add_carry acc (le32 bs)) + unat (le32 (drop 4 bs)) + le_num (drop 8 bs))"
      by (rule ocs_add [OF add_carry_ocs])
    also have "\<dots> = ocs (unat acc + unat (le32 bs) + (unat (le32 (drop 4 bs)) + le_num (drop 8 bs)))"
      using ocs_add [OF add_carry_ocs] by (simp add: add.assoc)
    also have "\<dots> = ocs (unat acc + unat (le32 bs) + le_num (drop 4 bs))"
      using ocs_4 [of "drop 4 bs" "unat acc + unat (le32 bs)"] True by (simp add: add.assoc)
    also have "\<dots> = ocs (unat acc + le_num bs)" using ocs_4 [of bs "unat acc"] True by simp
    finally show ?thesis using 1(2) [of s r] IH True by (simp add: add_longs.simps [of bs])
  next
    case False
    then show ?thesis using 1(2) [of acc bs] by (simp add: add_longs.simps [of bs])
  qed
qed

text \<open>The part of the third routine behind the first even address.\<close>

lemma chksum3_tail:
  fixes c :: bool
  assumes "length bs \<le> 0x20000"
  defines "f \<equiv> (if c \<and> 1 < length bs then (ucast (from_be16 (bs ! 1) (bs ! 0)), drop 2 bs) else (0 :: u32, bs))"
  obtains s r where "(let (sum, bs) = f; (sum, bs) = add_longs bs sum in add_words bs (FOLD_U32T sum)) = (s, r)"
    "length r \<le> 1" "unat s \<le> 0x60000" "ocs (unat s + le_num r) = ocs (le_num bs)"
proof -
  obtain s0 r0 where f: "f = (s0, r0)" by (cases f)
  have "ocs (unat s0 + le_num r0) = ocs (le_num bs)"
  proof (cases "c \<and> 1 < length bs")
    case True
    then obtain a b d where bs: "bs = a # b # d" by (auto simp: numeral_eq_Suc Suc_le_length_iff Suc_le_eq [symmetric])
    have "le_num bs = 256 * unat b + unat a + 65536 * le_num d" by (simp add: bs)
    then show ?thesis using f True by (simp only: ocs_65536) (auto simp: f_def bs unat_from_be16)
  next
    case False
    then show ?thesis using f by (auto simp: f_def)
  qed
  moreover obtain s1 r1 where l: "add_longs r0 s0 = (s1, r1)" "length r1 \<le> 7"
    "ocs (unat s1 + le_num r1) = ocs (unat s0 + le_num r0)" by (rule add_longs_num)
  moreover have "ocs (unat (FOLD_U32T s1) + le_num r1) = ocs (unat s1 + le_num r1)"
    by (rule ocs_add) (rule ocs_cong, simp_all only: unat_FOLD fold_mod fold_0)
  moreover have F: "unat (FOLD_U32T s1) \<le> 131070"
  proof -
    have "unat s1 < 65536 * 65536" using unsigned_less [of s1, where ?'a = nat] by simp
    then have "unat s1 div 65536 < 65536" by (rule less_mult_imp_div_less)
    moreover have "unat s1 mod 65536 < 65536" by simp
    ultimately show ?thesis unfolding unat_FOLD by linarith
  qed
  moreover obtain s r where w: "add_words r1 (FOLD_U32T s1) = (s, r)" "length r = length r1 mod 2"
    "ocs (unat s + le_num r) = ocs (unat (FOLD_U32T s1) + le_num r1)"
    "unat s \<le> unat (FOLD_U32T s1) + 65535 * (length r1 div 2)"
    using F l(2) by (rule_tac add_words_num [of "FOLD_U32T s1" r1]) simp_all
  moreover have "65535 * (length r1 div 2) \<le> 65535 * 3" using l(2) by simp
  ultimately show ?thesis by (intro that [of s r]) (simp_all add: f)
qed

lemma chksum3_ocs:
  assumes "length bs \<le> 0x20000"
  shows "unat (lwip_standard_chksum3 a bs) = ocs (le_num bs)"
proof (cases rule: align_even_cases [of a bs])
  case 1
  obtain s r where w: "(let (sum, bs) = (if a mod 4 \<noteq> 0 \<and> 1 < length bs
      then (ucast (from_be16 (bs ! 1) (bs ! 0)), drop 2 bs) else (0, bs));
      (sum, bs) = add_longs bs sum in add_words bs (FOLD_U32T sum)) = (s, r)"
    "length r \<le> 1" "unat s \<le> 0x60000" "ocs (unat s + le_num r) = ocs (le_num bs)"
    by (rule chksum3_tail [OF assms, of "a mod 4 \<noteq> 0"])
  have "unat s + 256 * unat (0 :: u8) + le_num r < 2 ^ 32" using w(3) le_num_short [OF w(2)] by simp
  from add_ends_num [OF w(2) this, of "odd a"] have
    "unat (lwip_standard_chksum3 a bs) = (if odd a then swap (ocs (le_num bs)) else ocs (le_num bs))"
    by (simp add: lwip_standard_chksum3_def 1(2) w(1) [symmetric] w(4) Let_def split_beta)
  moreover have "swap (ocs (le_num bs)) = ocs (le_num bs)" if "odd a" using 1 that by (simp add: ocs_def swap_def)
  ultimately show ?thesis by simp
next
  case (2 b r0)
  have l0: "length r0 \<le> 0x20000" using assms 2(2) by simp
  obtain s r where w: "(let (sum, bs) = (if (a + (length bs - length r0)) mod 4 \<noteq> 0 \<and> 1 < length r0
      then (ucast (from_be16 (r0 ! 1) (r0 ! 0)), drop 2 r0) else (0, r0));
      (sum, bs) = add_longs bs sum in add_words bs (FOLD_U32T sum)) = (s, r)"
    "length r \<le> 1" "unat s \<le> 0x60000" "ocs (unat s + le_num r) = ocs (le_num r0)"
    by (rule chksum3_tail [OF l0, of "(a + (length bs - length r0)) mod 4 \<noteq> 0"])
  have "unat s + 256 * unat b + le_num r < 2 ^ 32" using w(3) le_num_short [OF w(2)] u8_le [of b] by simp
  note ends = add_ends_num [OF w(2) this, of "odd a"]
  have "ocs (unat s + (256 * unat b + le_num r)) = ocs (256 * unat b + le_num r0)"
    using ocs_add [OF w(4), of "256 * unat b"] by (simp add: ac_simps)
  then show ?thesis using ends 2(1) ocs_odd [of b r0]
    by (simp add: lwip_standard_chksum3_def 2(3) w(1) [symmetric] Let_def split_beta) (simp add: 2(2))
qed

text \<open>
  C30: the three checksum routines are interchangeable and compute the checksum of RFC 1071: for
  any bytes at any address, all three return the ones-complement sum of the big-endian 16-bit
  words (an odd last byte padded with a zero), with its bytes in network order; the default and
  the unrolled one for every length up to the documented \<open>0x20000\<close>, the first for every length
  its 16-bit parameter can hold.
\<close>

theorem lwip_standard_chksum_rfc1071:
  assumes "length bs \<le> 0x20000"
  shows "unat (lwip_standard_chksum2 a bs) = swap (rfc1071 bs) \<and>
    lwip_standard_chksum3 a bs = lwip_standard_chksum2 a bs \<and>
    (length bs \<le> 0xFFFF \<longrightarrow> lwip_standard_chksum1 bs = lwip_standard_chksum2 a bs)"
  using chksum1_ocs [of bs] chksum2_ocs [OF assms, of a] chksum3_ocs [OF assms, of a]
  by (simp add: rfc1071_le_num swap_swap ocs_le word_unat_eq_iff)

lemma lwip_standard_chksum_rfc1071_witness:
  "rfc1071 [0x00, 0x01, 0xf2, 0x03, 0xf4, 0xf5, 0xf6, 0xf7] = 0xddf2 \<and>
   lwip_standard_chksum2 1 [0x00, 0x01, 0xf2, 0x03, 0xf4, 0xf5, 0xf6, 0xf7] = 0xf2dd \<and>
   lwip_standard_chksum3 1 [0x00, 0x01, 0xf2, 0x03, 0xf4, 0xf5, 0xf6, 0xf7] = 0xf2dd"
proof -
  have r: "rfc1071 [0x00, 0x01, 0xf2, 0x03, 0xf4, 0xf5, 0xf6, 0xf7] = 0xddf2"
    by (simp add: rfc1071_def oc_add_def)
  from lwip_standard_chksum_rfc1071 [of "[0x00, 0x01, 0xf2, 0x03, 0xf4, 0xf5, 0xf6, 0xf7]" 1]
  show ?thesis unfolding r by (simp add: swap_def word_unat_eq_iff)
qed

section \<open>Checksums of buffers and packets\<close>

definition inet_chksum :: "nat \<Rightarrow> u8 list \<Rightarrow> u16" where
  "inet_chksum a bs = NOT (lwip_standard_chksum2 a bs)"

text \<open>\<open>lwip_chksum_copy\<close>: the destination as an object with the address \<open>a\<close> of the copy.\<close>

definition lwip_chksum_copy :: "nat \<Rightarrow> u8 list \<Rightarrow> nat \<Rightarrow> u8 list \<Rightarrow> nat \<Rightarrow> u16 \<Rightarrow> (u8 list \<times> u16) option" where
  "lwip_chksum_copy a dst di src si n =
     map_option (\<lambda>d. (d, lwip_standard_chksum2 a (take (unat n) (drop di d)))) (c_memcpy dst di src si (unat n))"

text \<open>The first \<open>n\<close> bytes of a buffer; \<open>None\<close> if it does not have them.\<close>

definition pbuf_chksum :: "pbuf \<Rightarrow> u16 \<Rightarrow> u16 option" where
  "pbuf_chksum q n =
     (if poff q + unat n \<le> length (room q)
      then Some (lwip_standard_chksum2 (addr q + poff q) (take (unat n) (drop (poff q) (room q)))) else None)"

text \<open>
  The loop over a packet; \<open>swapped\<close> is whether an odd number of bytes went before, so that the
  accumulator has its bytes exchanged.
\<close>

fun chain_sum :: "pbuf list \<Rightarrow> u32 \<Rightarrow> bool \<Rightarrow> (u32 \<times> bool) option" where
  "chain_sum [] acc swapped = Some (acc, swapped)"
| "chain_sum (q # c) acc swapped =
     do {
       s \<leftarrow> pbuf_chksum q (plen q);
       let acc = FOLD_U32T (acc + ucast s);
       if odd (unat (plen q)) then chain_sum c (ucast (SWAP_BYTES_IN_WORD acc)) (\<not> swapped)
       else chain_sum c acc swapped
     }"

fun chain_sum_partial :: "pbuf list \<Rightarrow> u16 \<Rightarrow> u32 \<Rightarrow> bool \<Rightarrow> (u32 \<times> bool) option" where
  "chain_sum_partial [] chksum_len acc swapped = Some (acc, swapped)"
| "chain_sum_partial (q # c) chksum_len acc swapped =
     (if chksum_len = 0 then Some (acc, swapped)
      else
        let chklen = if chksum_len < plen q then chksum_len else plen q
        in do {
          s \<leftarrow> pbuf_chksum q chklen;
          let acc = FOLD_U32T (acc + ucast s);
          if odd (unat (plen q)) then chain_sum_partial c (chksum_len - chklen) (ucast (SWAP_BYTES_IN_WORD acc)) (\<not> swapped)
          else chain_sum_partial c (chksum_len - chklen) acc swapped
        })"

definition unswap :: "u32 \<times> bool \<Rightarrow> u32" where
  "unswap r = (if snd r then ucast (SWAP_BYTES_IN_WORD (fst r)) else fst r)"

definition inet_chksum_pbuf :: "pbuf list \<Rightarrow> u16 option" where
  "inet_chksum_pbuf p = map_option (\<lambda>r. NOT (ucast (unswap r AND 0xffff))) (chain_sum p 0 False)"

text \<open>The pseudo header; addresses are words in network order.\<close>

definition add_pseudo_header :: "u32 \<Rightarrow> u32 \<Rightarrow> u32 \<Rightarrow> u8 \<Rightarrow> u16 \<Rightarrow> u32" where
  "add_pseudo_header acc src dest proto proto_len =
     (let acc = acc + (src AND 0xffff);
          acc = acc + (drop_bit 16 src AND 0xffff);
          acc = acc + (dest AND 0xffff);
          acc = acc + (drop_bit 16 dest AND 0xffff);
          acc = acc + ucast (lwip_htons (ucast proto));
          acc = acc + ucast (lwip_htons proto_len)
      in acc)"

definition finish_pseudo :: "u32 \<Rightarrow> u16" where
  "finish_pseudo acc = NOT (ucast (FOLD_U32T (FOLD_U32T acc) AND 0xffff))"

definition inet_chksum_pseudo :: "pbuf list \<Rightarrow> u32 \<Rightarrow> u32 \<Rightarrow> u8 \<Rightarrow> u16 \<Rightarrow> u16 option" where
  "inet_chksum_pseudo p src dest proto proto_len =
     map_option (\<lambda>r. finish_pseudo (add_pseudo_header (unswap r) src dest proto proto_len)) (chain_sum p 0 False)"

definition inet_chksum_pseudo_partial :: "pbuf list \<Rightarrow> u32 \<Rightarrow> u32 \<Rightarrow> u8 \<Rightarrow> u16 \<Rightarrow> u16 \<Rightarrow> u16 option" where
  "inet_chksum_pseudo_partial p src dest proto proto_len chksum_len =
     map_option (\<lambda>r. finish_pseudo (add_pseudo_header (unswap r) src dest proto proto_len))
       (chain_sum_partial p chksum_len 0 False)"

lemma pbuf_chksum_ocs:
  assumes "poff q + unat n \<le> length (room q)"
  obtains s where "pbuf_chksum q n = Some s" "unat s = ocs (le_num (take (unat n) (drop (poff q) (room q))))"
proof (rule that)
  have "unat n < 65536" using unsigned_less [of n, where ?'a = nat] by simp
  then have "length (take (unat n) (drop (poff q) (room q))) \<le> 0x20000" by simp
  then show "unat (lwip_standard_chksum2 (addr q + poff q) (take (unat n) (drop (poff q) (room q)))) =
    ocs (le_num (take (unat n) (drop (poff q) (room q))))" by (rule chksum2_ocs)
qed (use assms in \<open>simp add: pbuf_chksum_def\<close>)

text \<open>
  The invariant of both loops: the accumulator is the checksum of the bytes so far, with its
  bytes exchanged when there is an odd number of them.
\<close>

definition acc_ok :: "u8 list \<Rightarrow> u32 \<Rightarrow> bool \<Rightarrow> bool" where
  "acc_ok bs acc swapped \<longleftrightarrow> swapped = odd (length bs) \<and>
     unat acc = (if swapped then swap (ocs (le_num bs)) else ocs (le_num bs))"

lemma ocs_append:
  "ocs (le_num (xs @ ys)) =
    (if odd (length xs) then swap (ocs (swap (ocs (le_num xs)) + ocs (le_num ys))) else ocs (ocs (le_num xs) + ocs (le_num ys)))"
proof (cases "odd (length xs)")
  case False
  have "ocs (ocs (le_num xs) + ocs (le_num ys)) = ocs (le_num xs + le_num ys)"
    by (rule ocs_cong) (intro mod_add_cong ocs_mod, simp)
  also have "\<dots> = ocs (le_num (xs @ ys))"
    using False by (intro ocs_cong) (simp add: le_num_append_even, simp add: le_num_append)
  finally show ?thesis using False by simp
next
  case True
  have "swap (ocs (swap (ocs (le_num xs)) + ocs (le_num ys))) = ocs (256 * (ocs (256 * le_num xs) + ocs (le_num ys)))"
    by (simp only: swap_ocs)
  also have "\<dots> = ocs (256 * (256 * le_num xs + le_num ys))"
    by (rule ocs_cong) (intro mod_mult_cong mod_add_cong ocs_mod refl, simp)
  also have "256 * (256 * le_num xs + le_num ys) = 256 * le_num ys + 65536 * le_num xs" by simp
  also have "ocs \<dots> = ocs (256 * le_num ys + le_num xs)" by (rule ocs_65536)
  also have "\<dots> = ocs (le_num (xs @ ys))"
    using True by (intro ocs_cong) (simp add: le_num_append_odd add.commute, auto simp: le_num_append)
  finally show ?thesis using True by simp
qed

lemma fold_step:
  fixes s :: u16
  assumes "acc_ok xs acc sw" "unat s = ocs (le_num ys)"
  shows "unat (FOLD_U32T (acc + ucast s)) = (if sw then swap (ocs (le_num (xs @ ys))) else ocs (le_num (xs @ ys)))"
proof -
  define v where "v = (if sw then swap (ocs (le_num xs)) else ocs (le_num xs))"
  have a: "unat acc = v" "sw = odd (length xs)" using assms(1) by (simp_all add: acc_ok_def v_def)
  have v: "v \<le> 65535" using swap_le ocs_le by (simp add: v_def)
  have "unat (acc + ucast s) = v + ocs (le_num ys)"
    using a v assms(2) ocs_le [of "le_num ys"] by (subst unat_add_u32) simp_all
  then have "unat (FOLD_U32T (acc + ucast s)) = ocs (v + ocs (le_num ys))"
    using v ocs_le [of "le_num ys"] by (subst FOLD_ocs) (simp_all add: FOLD_le)
  then show ?thesis using a(2) by (simp add: v_def ocs_append swap_swap ocs_le)
qed

lemma acc_step:
  fixes s :: u16
  assumes "acc_ok xs acc sw" "unat s = ocs (le_num ys)"
  shows "acc_ok (xs @ ys) (if odd (length ys) then ucast (SWAP_BYTES_IN_WORD (FOLD_U32T (acc + ucast s)))
    else FOLD_U32T (acc + ucast s)) (if odd (length ys) then \<not> sw else sw)"
  using fold_step [OF assms] assms(1) by (simp add: acc_ok_def unat_SWAP swap_swap ocs_le)

lemma unswap_ok: "acc_ok bs acc sw \<Longrightarrow> unat (unswap (acc, sw)) = ocs (le_num bs)"
  by (simp add: acc_ok_def unswap_def unat_SWAP swap_swap ocs_le)

lemma chain_sum_ok:
  assumes "wf_chain c" "acc_ok xs acc sw"
  shows "\<exists>acc' sw'. chain_sum c acc sw = Some (acc', sw') \<and> acc_ok (xs @ flat c) acc' sw'"
  using assms
proof (induction c arbitrary: xs acc sw)
  case (Cons q c)
  have wf: "wf_pbuf q" "wf_chain c" using Cons.prems(1) by simp_all
  obtain s where s: "pbuf_chksum q (plen q) = Some s" "unat s = ocs (le_num (data q))"
    using wf(1) by (auto simp: data_def wf_pbuf_def intro: pbuf_chksum_ocs [of q "plen q"])
  from Cons.IH [OF wf(2) acc_step [OF Cons.prems(2) s(2)]] show ?case
    using wf(1) by (cases "odd (unat (plen q))") (simp_all add: s(1) Let_def)
qed simp

text \<open>A cut-off last buffer: the parity of its full length is used, which the final exchange undoes.\<close>

lemma chain_sum_partial_ok:
  assumes "wf_chain c" "acc_ok xs acc sw"
  shows "\<exists>r. chain_sum_partial c n acc sw = Some r \<and> unat (unswap r) = ocs (le_num (xs @ take (unat n) (flat c)))"
  using assms
proof (induction c arbitrary: xs acc sw n)
  case Nil
  then show ?case by (simp add: unswap_ok)
next
  case (Cons q c)
  have wf: "wf_pbuf q" "wf_chain c" using Cons.prems(1) by simp_all
  consider "n = 0" | "n \<noteq> 0" "plen q \<le> n" | "n \<noteq> 0" "n < plen q" by fastforce
  then show ?case
  proof cases
    case 1
    then show ?thesis using unswap_ok [OF Cons.prems(2)] by simp
  next
    case 2
    then have min: "(if n < plen q then n else plen q) = plen q" by auto
    have len: "unat (n - plen q) = unat n - unat (plen q)" "unat (plen q) \<le> unat n"
      using 2 by (simp_all add: unat_sub word_le_nat_alt)
    obtain s where s: "pbuf_chksum q (plen q) = Some s" "unat s = ocs (le_num (data q))"
      using wf(1) by (auto simp: data_def wf_pbuf_def intro: pbuf_chksum_ocs [of q "plen q"])
    from Cons.IH [OF wf(2) acc_step [OF Cons.prems(2) s(2)], of "n - plen q"] show ?thesis
      using wf(1) 2(1) len by (cases "odd (unat (plen q))") (simp_all add: min s(1) Let_def)
  next
    case 3
    then have min: "(if n < plen q then n else plen q) = n" "unat n < unat (plen q)"
      by (simp_all add: word_less_nat_alt)
    have end0: "chain_sum_partial c 0 a w = Some (a, w)" for a w by (cases c) simp_all
    have ys: "take (unat n) (drop (poff q) (room q)) = take (unat n) (flat (q # c))"
      using min(2) wf(1) by (simp add: data_def wf_pbuf_def min_absorb1)
    have fits: "poff q + unat n \<le> length (room q)" using wf(1) min(2) by (simp add: wf_pbuf_def)
    obtain s where s: "pbuf_chksum q n = Some s" "unat s = ocs (le_num (take (unat n) (flat (q # c))))"
      using pbuf_chksum_ocs [OF fits] unfolding ys by blast
    note F = fold_step [OF Cons.prems(2) s(2)]
    show ?thesis using 3(1)
      by (simp add: min(1) s(1) Let_def end0 unswap_def unat_SWAP F swap_swap ocs_le del: flat_simps)
  qed
qed

lemma unat_octet: "unat (octet w i) = unat (drop_bit (8 * i) w) mod 256"
  by (simp add: octet_def unsigned_ucast_eq take_bit_eq_mod)

lemma le_num_octets: "le_num [octet w 0, octet w 1, octet w 2, octet w 3] = unat w"
proof -
  have d: "drop_bit 24 w = drop_bit 8 (drop_bit 8 (drop_bit 8 w))" "drop_bit 16 w = drop_bit 8 (drop_bit 8 w)"
    by simp_all
  have "unat w < 4294967296" using unsigned_less [of w, where ?'a = nat] by simp
  then have "unat w div 256 div 256 div 256 < 256" by (intro less_mult_imp_div_less) simp_all
  then show ?thesis by (simp add: unat_octet d u32_shift del: drop_bit_drop_bit)
qed

lemma inet_chksum_eqI: "length bs \<le> 0x20000 \<Longrightarrow> unat w = ocs (le_num bs) \<Longrightarrow> NOT w = inet_chksum a bs"
proof -
  assume "length bs \<le> 0x20000" "unat w = ocs (le_num bs)"
  then have "w = lwip_standard_chksum2 a bs" by (simp add: chksum2_ocs word_unat_eq_iff)
  then show ?thesis by (simp add: inet_chksum_def)
qed

text \<open>
  C9: the checksum of a packet does not depend on how it is cut into buffers, nor on where they
  lie: on every well-formed chain the code's loop, which adds one sum per buffer and exchanges
  bytes after odd lengths, gives the checksum of the bytes in one piece at any address.
\<close>

theorem inet_chksum_pbuf_flat:
  assumes "wf_chain c"
  shows "inet_chksum_pbuf c = Some (inet_chksum a (flat c))"
proof -
  have "acc_ok [] 0 False" by (simp add: acc_ok_def)
  from chain_sum_ok [OF assms this] obtain acc sw where
    r: "chain_sum c 0 False = Some (acc, sw)" "acc_ok (flat c) acc sw" by auto
  have v: "unat (unswap (acc, sw)) = ocs (le_num (flat c))" by (rule unswap_ok [OF r(2)])
  then have "unswap (acc, sw) AND 0xffff = unswap (acc, sw)"
    using ocs_le [of "le_num (flat c)"] by (simp add: word_unat_eq_iff u32_low)
  moreover have "unat (ucast (unswap (acc, sw)) :: u16) = ocs (le_num (flat c))"
    unfolding v [symmetric] using v ocs_le [of "le_num (flat c)"]
    by (simp add: unsigned_ucast_eq take_bit_nat_eq_self)
  ultimately show ?thesis
    using wf_chain_length [OF assms] by (simp add: inet_chksum_pbuf_def r(1) inet_chksum_eqI)
qed

lemma inet_chksum_pbuf_flat_witness:
  "inet_chksum_pbuf [ram_pbuf [0x12]\<lparr>tot_len := 4\<rparr>, ram_pbuf [0x34, 0x56, 0x78]\<lparr>addr := 7\<rparr>] =
   Some (inet_chksum 0 [0x12, 0x34, 0x56, 0x78])"
proof -
  have "wf_chain [ram_pbuf [0x12]\<lparr>tot_len := 4\<rparr>, ram_pbuf [0x34, 0x56, 0x78]\<lparr>addr := 7\<rparr>]"
    by (simp add: ram_pbuf_def wf_pbuf_def data_def)
  from inet_chksum_pbuf_flat [OF this, of 0] show ?thesis by (simp add: ram_pbuf_def data_def)
qed

text \<open>The pseudo header of RFC 793 and 768 as its twelve bytes.\<close>

definition pseudo_header :: "u32 \<Rightarrow> u32 \<Rightarrow> u8 \<Rightarrow> u16 \<Rightarrow> u8 list" where
  "pseudo_header src dest proto proto_len =
     map (octet src) [0..<4] @ map (octet dest) [0..<4] @ [0, proto] @ be16 proto_len"

lemma le_num_be16: "le_num (be16 w) = swap (unat w)"
proof -
  obtain h l where w: "be16 w = [h, l]" "w = from_be16 h l"
    by (rule that [of "ucast (drop_bit 8 w)" "ucast w"]) (simp_all add: be16_def)
  show ?thesis by (simp only: w) (simp add: unat_from_be16 swap_bytes)
qed

lemma ocs_octets: "ocs (le_num (map (octet w) [0..<4] @ bs)) = ocs (unat w mod 65536 + unat w div 65536 + le_num bs)"
proof -
  have "le_num (map (octet w) [0..<4] @ bs) = unat w + 65536 * (65536 * le_num bs)"
    using le_num_octets [of w] by (simp add: le_num_append upt_4 add.assoc)
  also have "\<dots> = unat w mod 65536 + 65536 * (unat w div 65536 + 65536 * le_num bs)" by simp
  finally have "ocs (le_num (map (octet w) [0..<4] @ bs)) = ocs (unat w mod 65536 + (unat w div 65536 + 65536 * le_num bs))"
    by (simp only: ocs_65536)
  then show ?thesis using ocs_65536 [of "unat w mod 65536 + unat w div 65536" "le_num bs"] by (simp only: add.assoc)
qed

lemma pseudo_sum:
  assumes "unat acc = ocs (le_num bs)"
  shows "unat (FOLD_U32T (FOLD_U32T (add_pseudo_header acc src dest proto proto_len))) =
    ocs (le_num (pseudo_header src dest proto proto_len @ bs))"
proof -
  let ?s = "unat src mod 65536" and ?s' = "unat src div 65536" and ?d = "unat dest mod 65536" and ?d' = "unat dest div 65536"
  have hi: "?s' \<le> 65535" "?d' \<le> 65535" "?s \<le> 65535" "?d \<le> 65535"
    using unsigned_less [of src, where ?'a = nat] unsigned_less [of dest, where ?'a = nat]
      mod_less_divisor [of 65536 "unat src"] mod_less_divisor [of 65536 "unat dest"] by simp_all
  have pr: "swap (unat proto) = 256 * unat proto" by (simp add: swap_def)
  have b: "ocs (le_num bs) \<le> 65535" "256 * unat proto \<le> 65535" "swap (unat proto_len) \<le> 65535"
    using ocs_le u8_le [of proto] swap_le by simp_all
  let ?sum = "ocs (le_num bs) + ?s + ?s' + ?d + ?d' + 256 * unat proto + swap (unat proto_len)"
  have "unat (add_pseudo_header acc src dest proto proto_len) = ?sum mod 2 ^ 32"
    unfolding add_pseudo_header_def Let_def
    using hi(1,2) by (simp add: unat_word_ariths pr unat_htons u32_low u32_shift assms mod_simps)
  also have "?sum < 2 ^ 32" using hi b by simp
  then have "?sum mod 2 ^ 32 = ?sum" by (rule mod_less)
  finally have "unat (add_pseudo_header acc src dest proto proto_len) = ?sum" .
  then have "unat (FOLD_U32T (FOLD_U32T (add_pseudo_header acc src dest proto proto_len))) =
      ocs (ocs (le_num bs) + (?s + ?s' + (?d + ?d' + (256 * unat proto + swap (unat proto_len)))))"
    by (simp add: FOLD_FOLD add.assoc)
  also have "\<dots> = ocs (le_num bs + (?s + ?s' + (?d + ?d' + (256 * unat proto + swap (unat proto_len)))))"
    by (rule ocs_add) (rule ocs_cong, rule ocs_mod, simp)
  also have "\<dots> = ocs (?s + ?s' + (?d + ?d' + (256 * unat proto + swap (unat proto_len) + le_num bs)))"
    by (simp add: ac_simps)
  also have "\<dots> = ocs (le_num (pseudo_header src dest proto proto_len @ bs))"
  proof -
    have "ocs (le_num ([0, proto] @ be16 proto_len @ bs)) = ocs (256 * unat proto + swap (unat proto_len) + le_num bs)"
      using ocs_65536 [of "256 * unat proto" "swap (unat proto_len) + 65536 * le_num bs"]
        ocs_65536 [of "256 * unat proto + swap (unat proto_len)" "le_num bs"]
      by (simp add: le_num_append le_num_be16 add.assoc)
    from ocs_add [OF this, of "?d + ?d'"]
    have "ocs (le_num (map (octet dest) [0..<4] @ [0, proto] @ be16 proto_len @ bs)) =
        ocs (?d + ?d' + (256 * unat proto + swap (unat proto_len) + le_num bs))"
      unfolding ocs_octets by (simp add: add.commute)
    from ocs_add [OF this, of "?s + ?s'"] show ?thesis
      unfolding pseudo_header_def append_assoc ocs_octets [of src] by (simp add: add.commute)
  qed
  finally show ?thesis .
qed

lemma finish_pseudo_eq:
  assumes "unat acc = ocs (le_num bs)" "length bs < 65536"
  shows "finish_pseudo (add_pseudo_header acc src dest proto proto_len) =
    inet_chksum a (pseudo_header src dest proto proto_len @ bs)"
proof -
  note v = pseudo_sum [OF assms(1), of src dest proto proto_len]
  let ?f = "FOLD_U32T (FOLD_U32T (add_pseudo_header acc src dest proto proto_len))"
  have "?f AND 0xffff = ?f"
    using ocs_le [of "le_num (pseudo_header src dest proto proto_len @ bs)"] by (simp add: word_unat_eq_iff u32_low v)
  moreover have "unat (ucast ?f :: u16) = ocs (le_num (pseudo_header src dest proto proto_len @ bs))"
    unfolding v [symmetric] using v ocs_le [of "le_num (pseudo_header src dest proto proto_len @ bs)"]
    by (simp add: unsigned_ucast_eq take_bit_nat_eq_self)
  ultimately show ?thesis using assms(2)
    by (simp add: finish_pseudo_def inet_chksum_eqI pseudo_header_def)
qed

text \<open>
  The transport checksum. \<open>inet_chksum_pseudo\<close> is the Internet checksum of the twelve bytes
  of the pseudo header followed by the packet, and its partial variant that of the pseudo header
  followed by the first \<open>chksum_len\<close> bytes, also when these end in the middle of a buffer of
  odd length.
\<close>

theorem inet_chksum_pseudo_flat:
  assumes "wf_chain c"
  shows "inet_chksum_pseudo c src dest proto proto_len =
      Some (inet_chksum a (pseudo_header src dest proto proto_len @ flat c)) \<and>
    inet_chksum_pseudo_partial c src dest proto proto_len n =
      Some (inet_chksum a (pseudo_header src dest proto proto_len @ take (unat n) (flat c)))"
proof -
  have i: "acc_ok [] 0 False" by (simp add: acc_ok_def)
  have l: "length (flat c) < 65536" by (rule wf_chain_length [OF assms])
  obtain acc sw where r: "chain_sum c 0 False = Some (acc, sw)" "acc_ok (flat c) acc sw"
    using chain_sum_ok [OF assms i] by auto
  obtain q where q: "chain_sum_partial c n 0 False = Some q" "unat (unswap q) = ocs (le_num (take (unat n) (flat c)))"
    using chain_sum_partial_ok [OF assms i, of n] unfolding append_Nil by blast
  show ?thesis
    using finish_pseudo_eq [OF unswap_ok [OF r(2)] l] finish_pseudo_eq [OF q(2)] l
    by (simp add: inet_chksum_pseudo_def inet_chksum_pseudo_partial_def r(1) q(1))
qed

lemma inet_chksum_pseudo_flat_witness:
  "inet_chksum_pseudo [ram_pbuf [1, 2]] 5 6 17 2 = Some (inet_chksum 0 (pseudo_header 5 6 17 2 @ [1, 2])) \<and>
   inet_chksum_pseudo_partial [ram_pbuf [1, 2]] 5 6 17 2 1 = Some (inet_chksum 0 (pseudo_header 5 6 17 2 @ [1]))"
proof -
  have "wf_chain [ram_pbuf [1, 2]]" by (simp add: ram_pbuf_def wf_pbuf_def data_def)
  from inet_chksum_pseudo_flat [OF this, of 5 6 17 2 0 1] show ?thesis by (simp add: ram_pbuf_def data_def)
qed

section \<open>What a receiver sees\<close>

lemma unat_NOT_u16: "unat (NOT w :: u16) = 65535 - unat w"
proof -
  have "unat w \<le> 65535" using unsigned_less [of w, where ?'a = nat] by simp
  moreover have "NOT w = - 1 - w" by (simp add: not_eq_complement)
  moreover have "(- 1 :: u16) = 65535" by simp
  ultimately show ?thesis by (simp add: unat_sub word_le_nat_alt)
qed

lemma inet_chksum_zero_iff:
  assumes "length bs \<le> 0x20000"
  shows "inet_chksum a bs = 0 \<longleftrightarrow> 0 < le_num bs \<and> le_num bs mod 65535 = 0"
proof -
  have "inet_chksum a bs = 0 \<longleftrightarrow> ocs (le_num bs) = 65535"
    using chksum2_ocs [OF assms, of a] ocs_le [of "le_num bs"] unat_NOT_u16 [of "lwip_standard_chksum2 a bs"]
    by (simp add: inet_chksum_def word_unat_eq_iff)
  also have "\<dots> \<longleftrightarrow> 0 < le_num bs \<and> le_num bs mod 65535 = 0"
  proof
    assume o: "ocs (le_num bs) = 65535"
    then have "le_num bs \<noteq> 0" using ocs_0 [of "le_num bs"] by (metis zero_neq_numeral)
    then show "0 < le_num bs \<and> le_num bs mod 65535 = 0" using ocs_mod [of "le_num bs"] o by simp
  next
    assume "0 < le_num bs \<and> le_num bs mod 65535 = 0"
    then show "ocs (le_num bs) = 65535" by (intro ocs_unique) simp_all
  qed
  finally show ?thesis .
qed

lemma le_num_update:
  "i < length p \<Longrightarrow> le_num (p[i := v]) + 256 ^ i * unat (p ! i) = le_num p + 256 ^ i * unat v"
proof (induction p arbitrary: i)
  case (Cons b p)
  show ?case
  proof (cases i)
    case (Suc j)
    then have "256 * (le_num (p[j := v]) + 256 ^ j * unat (p ! j)) = 256 * (le_num p + 256 ^ j * unat v)"
      using Cons by simp
    then show ?thesis by (simp add: Suc)
  qed simp
qed simp

lemma mod_cancel: "a + x = b + y \<Longrightarrow> a mod m = 0 \<Longrightarrow> b mod m = 0 \<Longrightarrow> x mod m = y mod (m :: nat)"
  by (metis add_0 mod_add_left_eq)

lemma weighted_byte: "(256 ^ i * unat (u :: u8)) mod 65535 = (256 ^ i * unat (v :: u8)) mod 65535 \<Longrightarrow> u = v"
proof (cases "even i")
  case True
  assume "(256 ^ i * unat u) mod 65535 = (256 ^ i * unat v) mod 65535"
  then show ?thesis using u8_le [of u] u8_le [of v] by (simp add: pow256_even True word_unat_eq_iff)
next
  case False
  assume "(256 ^ i * unat u) mod 65535 = (256 ^ i * unat v) mod 65535"
  then show ?thesis using u8_le [of u] u8_le [of v] by (simp add: pow256_odd False word_unat_eq_iff)
qed

text \<open>
  Checking a checksum. If a sender computes the checksum over a packet whose checksum field
  (at an even place) is zero and stores it there, the receiver's checksum over the whole is zero;
  and if then any single byte is changed, it is not.
\<close>

theorem inet_chksum_verifies:
  assumes "even (length xs)" "length xs + 2 + length ys < 65536"
    and "ck = inet_chksum a (xs @ [0, 0] @ ys)"
  shows "inet_chksum b (xs @ [ucast ck, ucast (drop_bit 8 ck)] @ ys) = 0 \<and>
    (\<forall>i v. i < length xs + 2 + length ys \<longrightarrow> v \<noteq> (xs @ [ucast ck, ucast (drop_bit 8 ck)] @ ys) ! i \<longrightarrow>
      inet_chksum b ((xs @ [ucast ck, ucast (drop_bit 8 ck)] @ ys)[i := v]) \<noteq> 0)"
proof -
  let ?n = "xs @ [0, 0] @ ys" and ?p = "xs @ [ucast ck, ucast (drop_bit 8 ck)] @ ys"
  have "from_be16 (ucast (drop_bit 8 ck)) (ucast ck) = ck" by simp
  then have two: "le_num [ucast ck, ucast (drop_bit 8 ck)] = unat ck"
    by (metis add.commute add_0 le_num.simps mult_0_right unat_from_be16)
  have ck: "unat ck = 65535 - ocs (le_num ?n)"
    using assms(2) by (simp only: assms(3) inet_chksum_def unat_NOT_u16) (simp add: chksum2_ocs)
  have n: "le_num ?n = le_num xs + 256 ^ length xs * (65536 * le_num ys)"
    by (simp add: le_num_append)
  have p: "le_num ?p = le_num xs + 256 ^ length xs * (unat ck + 65536 * le_num ys)"
    using two by (simp add: le_num_append)
  have "le_num ?p mod 65535 = (le_num xs + (unat ck + 65536 * le_num ys)) mod 65535"
    unfolding p by (intro mod_add_cong refl pow256_even assms(1))
  also have "\<dots> = (le_num ?n + unat ck) mod 65535"
  proof -
    have "le_num ?n mod 65535 = (le_num xs + 65536 * le_num ys) mod 65535"
      unfolding n by (intro mod_add_cong refl pow256_even assms(1))
    then have "(le_num ?n + unat ck) mod 65535 = (le_num xs + 65536 * le_num ys + unat ck) mod 65535"
      by (intro mod_add_cong refl)
    then show ?thesis by (simp add: ac_simps)
  qed
  also have "\<dots> = (ocs (le_num ?n) + unat ck) mod 65535" by (intro mod_add_cong refl ocs_mod [symmetric])
  also have "\<dots> = 0" using ocs_le [of "le_num ?n"] by (simp add: ck)
  finally have m: "le_num ?p mod 65535 = 0" .
  have pos: "0 < le_num ?p"
  proof (rule ccontr)
    assume "\<not> 0 < le_num ?p"
    then have "le_num xs = 0" "unat ck = 0" "le_num ys = 0" unfolding p by simp_all
    then show False using ck n by (simp add: ocs_def)
  qed
  have l: "length ?p \<le> 0x20000" using assms(2) by simp
  have ne: "inet_chksum b (?p[i := v]) \<noteq> 0" if i: "i < length xs + 2 + length ys" "v \<noteq> ?p ! i" for i v
  proof
    assume "inet_chksum b (?p[i := v]) = 0"
    then have "le_num (?p[i := v]) mod 65535 = 0"
      using l inet_chksum_zero_iff [of "?p[i := v]"] by simp
    moreover have "le_num (?p[i := v]) + 256 ^ i * unat (?p ! i) = le_num ?p + 256 ^ i * unat v"
      using i(1) by (intro le_num_update) simp
    ultimately have "(256 ^ i * unat (?p ! i)) mod 65535 = (256 ^ i * unat v) mod 65535"
      using m by (intro mod_cancel)
    from weighted_byte [OF this] i(2) show False by simp
  qed
  have z: "inet_chksum b ?p = 0" by (rule inet_chksum_zero_iff [OF l, THEN iffD2, OF conjI, OF pos m])
  show ?thesis by (intro conjI allI impI z ne)
qed

lemma inet_chksum_verifies_witness:
  "inet_chksum 0 ([1, 2] @ [ucast (inet_chksum 0 ([1, 2] @ [0, 0] @ [3])),
     ucast (drop_bit 8 (inet_chksum 0 ([1, 2] @ [0, 0] @ [3])))] @ [3]) = 0"
proof -
  have "even (length [1, 2 :: u8])" "length [1, 2 :: u8] + 2 + length [3 :: u8] < 65536" by simp_all
  from inet_chksum_verifies [OF this refl] show ?thesis by (rule conjunct1)
qed

end
