(* ===== verification/Ip.thy ===== *)
theory Ip
  imports UdpPcb Checksum
begin

text \<open>
  Sending an IP packet (\<open>lwip/core/ipv4/ip.c\<close>): the choice of the interface (\<open>ip_route\<close>,
  \<open>ip_router\<close>) and the header with its checksum, computed while it is written (\<open>ip_output_if_opt\<close>,
  \<open>ip_output_if\<close>, \<open>ip_output\<close>). \<open>IP_FRAG\<close>, \<open>IP_FORWARD\<close> and the loopback are off in this
  configuration. The packet is the list of buffers of \<open>Pbuf\<close>.
\<close>

section \<open>The bytes at the payload pointer\<close>

text \<open>Reading and writing at \<open>p->payload + off\<close>; \<open>None\<close> is an access outside the memory object.\<close>

definition peek :: "pbuf \<Rightarrow> nat \<Rightarrow> nat \<Rightarrow> u8 list option" where
  "peek q off n =
     (if poff q + off + n \<le> length (room q) then Some (take n (drop (poff q + off) (room q))) else None)"

definition poke :: "pbuf \<Rightarrow> nat \<Rightarrow> u8 list \<Rightarrow> pbuf option" where
  "poke q off bs = map_option (\<lambda>r. q\<lparr>room := r\<rparr>) (c_memcpy (room q) (poff q + off) bs 0 (length bs))"

lemma peek_data:
  "wf_pbuf q \<Longrightarrow> off + n \<le> unat (plen q) \<Longrightarrow> peek q off n = Some (take n (drop off (data q)))"
  using data_slice [of q off n] by (simp add: peek_def wf_pbuf_def)

lemma data_blit:
  assumes "wf_pbuf q" "off + length bs \<le> unat (plen q)"
  shows "data (q\<lparr>room := blit (room q) (poff q + off) bs\<rparr>) = blit (data q) off bs"
proof (rule nth_equalityI)
  have l: "poff q + off + length bs \<le> length (room q)" "poff q + unat (plen q) \<le> length (room q)"
    using assms by (simp_all add: wf_pbuf_def)
  then show len: "length (data (q\<lparr>room := blit (room q) (poff q + off) bs\<rparr>)) = length (blit (data q) off bs)"
    using assms by (simp add: data_def)
  show "data (q\<lparr>room := blit (room q) (poff q + off) bs\<rparr>) ! i = blit (data q) off bs ! i"
    if "i < length (data (q\<lparr>room := blit (room q) (poff q + off) bs\<rparr>))" for i
    using that l assms by (simp add: data_def nth_blit add.assoc)
qed

lemma poke_data:
  assumes "wf_pbuf q" "off + length bs \<le> unat (plen q)"
  obtains q' where "poke q off bs = Some q'" "data q' = blit (data q) off bs" "wf_pbuf q'"
    "plen q' = plen q" "tot_len q' = tot_len q" "poff q' = poff q" "ptype q' = ptype q"
proof -
  let ?q = "q\<lparr>room := blit (room q) (poff q + off) bs\<rparr>"
  have l: "poff q + off + length bs \<le> length (room q)" using assms by (simp add: wf_pbuf_def)
  then have "poke q off bs = Some ?q" by (simp add: poke_def)
  moreover have "wf_pbuf ?q" using assms(1) l by (simp add: wf_pbuf_def)
  ultimately show thesis using that [of ?q] data_blit [OF assms] by simp
qed

text \<open>A 16-bit word as the processor stores it, and an address as bytes in network order.\<close>

definition le16 :: "u16 \<Rightarrow> u8 list" where
  "le16 w = [ucast w, ucast (drop_bit 8 w)]"

definition ip4_bytes :: "u32 \<Rightarrow> u8 list" where
  "ip4_bytes a = map (octet a) [0..<4]"

lemma length_words [simp]: "length (le16 w) = 2" "length (ip4_bytes a) = 4"
  by (simp_all add: le16_def ip4_bytes_def)

section \<open>Routing\<close>

text \<open>
  The interfaces; \<open>eagle_lwip_getif(0)\<close> (the station interface of the SDK) is given by its address.
\<close>

record net =
  netif_list :: "lwnetif list"
  netif_default :: "lwnetif option"
  getif0 :: "nat option"

definition netif_is_up :: "lwnetif \<Rightarrow> bool" where
  "netif_is_up n \<longleftrightarrow> netif_flags n AND 0x01 \<noteq> 0"

definition ip_addr_netcmp :: "u32 \<Rightarrow> u32 \<Rightarrow> u32 \<Rightarrow> bool" where
  "ip_addr_netcmp a b m \<longleftrightarrow> a AND m = b AND m"

definition default_route :: "net \<Rightarrow> lwnetif option" where
  "default_route net =
     (case netif_default net of None \<Rightarrow> None | Some n \<Rightarrow> if netif_is_up n then Some n else None)"

definition ip_route :: "net \<Rightarrow> u32 \<Rightarrow> lwnetif option" where
  "ip_route net dest =
     (case List.find (\<lambda>n. netif_is_up n \<and> ip_addr_netcmp dest (netif_ip n) (netif_mask n)) (netif_list net) of
        Some n \<Rightarrow> Some n
      | None \<Rightarrow>
          (case List.find (\<lambda>n. netif_is_up n \<and> \<not> ip_addr_isbroadcast dest n \<and> getif0 net = Some (nif_addr n))
             (netif_list net) of
             Some n \<Rightarrow> Some n
           | None \<Rightarrow> default_route net))"

definition ip_router :: "net \<Rightarrow> u32 \<Rightarrow> u32 \<Rightarrow> lwnetif option" where
  "ip_router net dest source =
     (case List.find (\<lambda>n. netif_is_up n \<and> ip_addr_netcmp dest (netif_ip n) (netif_mask n) \<or>
         netif_is_up n \<and> ip_addr_netcmp source (netif_ip n) (netif_mask n)) (netif_list net) of
        Some n \<Rightarrow> Some n
      | None \<Rightarrow> default_route net)"

section \<open>The header\<close>

abbreviation "IP_PROTO_ICMP \<equiv> 1 :: u8"
abbreviation "IP_PROTO_IGMP \<equiv> 2 :: u8"
abbreviation "IP_PROTO_UDP \<equiv> 17 :: u8"
abbreviation "IP_PROTO_TCP \<equiv> 6 :: u8"
abbreviation "IP_HLEN \<equiv> 20 :: nat"

text \<open>The fields in the order of \<open>struct ip_hdr\<close>.\<close>

definition ip_hdr :: "u16 \<Rightarrow> u16 \<Rightarrow> u16 \<Rightarrow> u16 \<Rightarrow> u8 \<Rightarrow> u8 \<Rightarrow> u16 \<Rightarrow> u32 \<Rightarrow> u32 \<Rightarrow> u8 list" where
  "ip_hdr v_hl_tos len ipid offset ttl' proto chksum src dest =
     be16 v_hl_tos @ be16 len @ be16 ipid @ be16 offset @ [ttl', proto] @ le16 chksum @ ip4_bytes src @ ip4_bytes dest"

lemma length_ip_hdr [simp]: "length (ip_hdr v len ipid off t p ck src dest) = 20"
  by (simp add: ip_hdr_def)

definition IPH_VHLTOS :: "nat \<Rightarrow> nat \<Rightarrow> u8 \<Rightarrow> u16" where
  "IPH_VHLTOS v hl tos' = push_bit 12 (of_nat v) OR push_bit 8 (of_nat hl) OR ucast tos'"

definition LWIP_MAKE_U16 :: "u8 \<Rightarrow> u8 \<Rightarrow> u16" where
  "LWIP_MAKE_U16 a b = push_bit 8 (ucast a) OR ucast b"

text \<open>The loop that adds the words of the options.\<close>

fun add_native :: "u8 list \<Rightarrow> u32 \<Rightarrow> u32" where
  "add_native (a # b # bs) chk_sum = add_native bs (chk_sum + ucast (from_be16 b a))"
| "add_native _ chk_sum = chk_sum"

text \<open>
  Everything between the two calls of \<open>pbuf_header\<close> and \<open>netif->output\<close>: the result is
  \<open>Inl\<close> an error, or \<open>Inr\<close> the destination with which \<open>netif->output\<close> is called (its return value
  is then that of the function), with the packet as it is then, and the next \<open>ip_id\<close>.
\<close>

type_synonym ip_result = "(err_t + u32) \<times> pbuf list \<times> u16"

definition aligned_len :: "u16 \<Rightarrow> u16" where
  "aligned_len optlen = (optlen + 3) AND NOT 3"

definition put_options :: "pbuf list \<Rightarrow> u8 list \<Rightarrow> u16 \<Rightarrow> (u8 \<times> pbuf list \<times> u32) option" where
  "put_options p ip_options optlen =
     (let aligned = aligned_len optlen in do {
        (r, p) \<leftarrow> pbuf_header p (sint aligned);
        if r \<noteq> 0 then Some (r, p, 0)
        else (case p of
            [] \<Rightarrow> None
          | q # c \<Rightarrow> if length ip_options < unat optlen then None else do {
              q \<leftarrow> poke q 0 (take (unat optlen) ip_options);
              q \<leftarrow> poke q (unat optlen) (replicate (unat aligned - unat optlen) 0);
              bs \<leftarrow> peek q 0 (unat aligned);
              Some (0, q # c, add_native bs 0)
            })
      })"

definition fold_chk :: "u32 \<Rightarrow> u16" where
  "fold_chk chk_sum =
     (let c = drop_bit 16 chk_sum + (chk_sum AND 0xffff); c = drop_bit 16 c + c in ucast (NOT c))"

definition put_header ::
    "pbuf \<Rightarrow> u32 option \<Rightarrow> u32 \<Rightarrow> u8 \<Rightarrow> u8 \<Rightarrow> u8 \<Rightarrow> lwnetif \<Rightarrow> u16 \<Rightarrow> u16 \<Rightarrow> u32 \<Rightarrow> pbuf option" where
  "put_header q src dest ttl' tos' proto netif ip_hlen ip_id chk_sum =
     (let chk_sum = chk_sum + ucast (LWIP_MAKE_U16 proto ttl');
          chk_sum = chk_sum + (dest AND 0xffff);
          chk_sum = chk_sum + drop_bit 16 dest;
          v = IPH_VHLTOS 4 (unat ip_hlen div 4) tos';
          chk_sum = chk_sum + ucast (lwip_htons v);
          chk_sum = chk_sum + ucast (lwip_htons (tot_len q));
          chk_sum = chk_sum + ucast (lwip_htons ip_id);
          src = (if ip_addr_isany src then netif_ip netif else ip_addr_set src);
          chk_sum = chk_sum + (src AND 0xffff);
          chk_sum = chk_sum + drop_bit 16 src
      in poke q 0 (ip_hdr v (tot_len q) ip_id 0 ttl' proto (fold_chk chk_sum) src dest))"

definition ip_output_if_opt ::
    "pbuf list \<Rightarrow> u32 option \<Rightarrow> u32 option \<Rightarrow> u8 \<Rightarrow> u8 \<Rightarrow> u8 \<Rightarrow> lwnetif \<Rightarrow> u8 list \<Rightarrow> u16 \<Rightarrow> u16 \<Rightarrow> ip_result option" where
  "ip_output_if_opt p src dest ttl' tos' proto netif ip_options optlen ip_id =
     (case dest of
        None \<Rightarrow>
          (case p of
             [] \<Rightarrow> None
           | q # _ \<Rightarrow> map_option (\<lambda>bs. (Inr (le32 bs), p, ip_id)) (peek q 16 4))
      | Some dest \<Rightarrow> do {
          (r, p, chk_sum) \<leftarrow> (if optlen \<noteq> 0 then put_options p ip_options optlen else Some (0, p, 0));
          if r \<noteq> 0 then Some (Inl ERR_BUF, p, ip_id)
          else do {
            (r, p) \<leftarrow> pbuf_header p (int IP_HLEN);
            if r \<noteq> 0 then Some (Inl ERR_BUF, p, ip_id)
            else (case p of
                [] \<Rightarrow> None
              | q # c \<Rightarrow>
                  let ip_hlen = of_nat IP_HLEN + (if optlen \<noteq> 0 then aligned_len optlen else 0) in
                  map_option (\<lambda>q. (Inr dest, q # c, ip_id + 1))
                    (put_header q src dest ttl' tos' proto netif ip_hlen ip_id chk_sum))
          }
        })"

definition ip_output_if ::
    "pbuf list \<Rightarrow> u32 option \<Rightarrow> u32 option \<Rightarrow> u8 \<Rightarrow> u8 \<Rightarrow> u8 \<Rightarrow> lwnetif \<Rightarrow> u16 \<Rightarrow> ip_result option" where
  "ip_output_if p src dest ttl' tos' proto netif ip_id =
     ip_output_if_opt p src dest ttl' tos' proto netif [] 0 ip_id"

definition ip_output ::
    "net \<Rightarrow> pbuf list \<Rightarrow> u32 option \<Rightarrow> u32 \<Rightarrow> u8 \<Rightarrow> u8 \<Rightarrow> u8 \<Rightarrow> u16 \<Rightarrow> ip_result option" where
  "ip_output net p src dest ttl' tos' proto ip_id =
     (case ip_route net dest of
        None \<Rightarrow> Some (Inl ERR_RTE, p, ip_id)
      | Some netif \<Rightarrow> ip_output_if p src (Some dest) ttl' tos' proto netif ip_id)"

section \<open>The checksum of the header\<close>

lemma ucast_NOT_NOT: "NOT (ucast (NOT c) :: u16) = ucast (c :: u32)"
  by (rule bit_word_eqI) (simp add: bit_simps)

lemma fold_chk_ocs: "unat (NOT (fold_chk c)) = ocs (unat c)"
proof -
  define c1 where "c1 = FOLD_U32T c"
  have "unat c < 2 ^ 32" using unsigned_less [of c, where ?'a = nat] by simp
  then have "unat c div 65536 \<le> 65535" by simp
  then have "unat c1 \<le> 131070" unfolding c1_def unat_FOLD
    using mod_less_divisor [of 65536 "unat c"] by linarith
  then have "unat (drop_bit 16 c1 + c1) = unat c1 div 65536 + unat c1"
    by (simp add: unat_word_ariths u32_shift)
  then have "unat (ucast (drop_bit 16 c1 + c1) :: u16) = (unat c1 div 65536 + unat c1) mod 65536"
    by (simp add: unsigned_ucast_eq take_bit_eq_mod)
  also have "\<dots> = (unat c1 div 65536 + unat c1 mod 65536) mod 65536" by (simp add: mod_add_right_eq)
  also have "\<dots> = unat (FOLD_U32T c1) mod 65536" by (simp only: unat_FOLD)
  also have "\<dots> = ocs (unat c)" using ocs_le [of "unat c"] by (simp add: c1_def FOLD_FOLD)
  finally show ?thesis
    by (simp add: fold_chk_def Let_def c1_def FOLD_U32T_def ucast_NOT_NOT)
qed

lemma add_native_num:
  assumes "even (length bs)" "unat c + 65535 * length bs < 2 ^ 32"
  shows "unat (add_native bs c) \<le> unat c + 65535 * length bs \<and>
    unat (add_native bs c) mod 65535 = (unat c + le_num bs) mod 65535"
  using assms
proof (induction bs c rule: add_native.induct)
  case (1 a b bs c)
  have w: "unat (ucast (from_be16 b a) :: u32) = 256 * unat b + unat a"
    by (simp add: unat_from_be16)
  have le: "256 * unat b + unat a \<le> 65535" using u8_le [of a] u8_le [of b] by linarith
  have c: "unat (c + ucast (from_be16 b a)) = unat c + (256 * unat b + unat a)"
    using 1(3) le w by (subst unat_add_u32) simp_all
  have "unat (c + ucast (from_be16 b a)) + 65535 * length bs < 2 ^ 32"
    unfolding c using 1(3) le by simp
  from 1(1) [OF _ this] 1(2) have IH:
    "unat (add_native bs (c + ucast (from_be16 b a))) \<le> unat c + (256 * unat b + unat a) + 65535 * length bs"
    "unat (add_native bs (c + ucast (from_be16 b a))) mod 65535 = (unat c + (256 * unat b + unat a) + le_num bs) mod 65535"
    unfolding c by simp_all
  have "le_num (a # b # bs) = 256 * unat b + unat a + le_num bs + 65535 * le_num bs" by simp
  then have "(unat c + le_num (a # b # bs)) mod 65535 = (unat c + (256 * unat b + unat a) + le_num bs) mod 65535"
    by (metis add.assoc mod_mult_self2)
  then show ?case using IH le by simp
qed simp_all

text \<open>One word in front of the rest.\<close>

lemma le_num_word:
  assumes "length xs = 2" "le_num r mod 65535 = m mod 65535"
  shows "le_num (xs @ r) mod 65535 = (le_num xs + m) mod 65535"
  using assms le_num_append_even [of xs r] by (metis even_numeral mod_add_right_eq)

lemma le_num_ip4: "le_num (ip4_bytes a) = unat a"
  using le_num_octets [of a] by (simp add: ip4_bytes_def upt_4)

lemma le_num_le16: "le_num (le16 w) = unat w"
proof -
  have "from_be16 (ucast (drop_bit 8 w)) (ucast w) = w" by simp
  then show ?thesis by (metis add.commute add_0 le16_def le_num.simps mult_0_right unat_from_be16)
qed

lemma mod_65536: "(n :: nat) mod 65535 = (n mod 65536 + n div 65536) mod 65535"
  by (metis add.commute fold_mod)

lemma le_num_ip_hdr:
  "le_num (ip_hdr v len ipid 0 t p 0 src dest @ opt) mod 65535 =
    (swap (unat v) + swap (unat len) + swap (unat ipid) + (256 * unat p + unat t) +
     (unat src mod 65536 + unat src div 65536) + (unat dest mod 65536 + unat dest div 65536) + le_num opt) mod 65535"
proof -
  have four: "le_num (ip4_bytes a @ r) mod 65535 = (unat a mod 65536 + unat a div 65536 + m) mod 65535"
    if "le_num r mod 65535 = m mod 65535" for a r m
  proof -
    have "le_num (ip4_bytes a @ r) mod 65535 = (unat a + le_num r) mod 65535"
      using le_num_append_even [of "ip4_bytes a" r] by (simp add: le_num_ip4)
    also have "\<dots> = (unat a mod 65536 + unat a div 65536 + m) mod 65535"
      using that mod_65536 [of "unat a"] by (intro mod_add_cong)
    finally show ?thesis .
  qed
  have b: "le_num (be16 w) = swap (unat w)" for w by (rule le_num_be16)
  note le_num_word [OF length_be(1) le_num_word [OF length_be(1) le_num_word [OF length_be(1) le_num_word [OF length_be(1)
      le_num_word [of "[t, p]" _ "le_num (le16 0) + (unat src mod 65536 + unat src div 65536 +
        (unat dest mod 65536 + unat dest div 65536 + le_num opt))"]]]]]
  then have "le_num (be16 v @ be16 len @ be16 ipid @ be16 0 @ [t, p] @ le16 0 @ ip4_bytes src @ ip4_bytes dest @ opt) mod 65535 =
    (le_num (be16 v) + (le_num (be16 len) + (le_num (be16 ipid) + (le_num (be16 0) + (le_num [t, p] +
      (le_num (le16 0) + (unat src mod 65536 + unat src div 65536 +
        (unat dest mod 65536 + unat dest div 65536 + le_num opt)))))))) mod 65535"
    using le_num_word [OF length_words(1) four [OF four [OF refl]]] by simp
  then show ?thesis
    by (simp add: ip_hdr_def b le_num_le16 swap_def ac_simps)
qed

lemma unat_MAKE_U16: "unat (LWIP_MAKE_U16 a b) = 256 * unat a + unat b"
  using unat_from_be16 [of a b] by (simp add: from_be16_def LWIP_MAKE_U16_def)

lemma put_header_spec:
  fixes src :: "u32 option" and netif :: lwnetif and s :: u8
  assumes wf: "wf_pbuf q" and opt: "take (unat ip_hlen - 20) (drop 20 (data q)) = opt" "length opt = unat ip_hlen - 20"
    and hl: "20 \<le> unat ip_hlen" "unat ip_hlen \<le> unat (plen q)" "unat ip_hlen \<le> 60" "even (unat ip_hlen)"
  defines "from \<equiv> (if ip_addr_isany src then netif_ip netif else ip_addr_set src)"
    and "v \<equiv> IPH_VHLTOS 4 (unat ip_hlen div 4) s"
  shows "\<exists>q' ck. put_header q src dest t s proto netif ip_hlen ipid (add_native opt 0) = Some q' \<and>
    wf_pbuf q' \<and> plen q' = plen q \<and> tot_len q' = tot_len q \<and> poff q' = poff q \<and> ptype q' = ptype q \<and>
    data q' = ip_hdr v (tot_len q) ipid 0 t proto ck from dest @ drop 20 (data q) \<and>
    (v \<noteq> 0 \<longrightarrow> inet_chksum a (take (unat ip_hlen) (data q')) = 0)"
proof -
  define chk where "chk = add_native opt 0 + ucast (LWIP_MAKE_U16 proto t) + (dest AND 0xffff) + drop_bit 16 dest +
    ucast (lwip_htons v) + ucast (lwip_htons (tot_len q)) + ucast (lwip_htons ipid) + (from AND 0xffff) + drop_bit 16 from"
  define ck where "ck = fold_chk chk"
  let ?h = "ip_hdr v (tot_len q) ipid 0 t proto ck from dest"
  have lh: "length (ip_hdr v (tot_len q) ipid 0 t proto c from dest) = 20" for c by (simp add: ip_hdr_def)
  obtain q' where q': "poke q 0 ?h = Some q'" "data q' = blit (data q) 0 ?h" "wf_pbuf q'"
    "plen q' = plen q" "tot_len q' = tot_len q" "poff q' = poff q" "ptype q' = ptype q"
    using poke_data [OF wf, of 0 ?h] lh hl by auto
  have d: "data q' = ?h @ drop 20 (data q)" by (simp add: q'(2) blit_def lh)
  have eq: "put_header q src dest t s proto netif ip_hlen ipid (add_native opt 0) = poke q 0 ?h"
    by (simp only: put_header_def Let_def v_def [symmetric] from_def [symmetric] chk_def [symmetric] ck_def)
  have "inet_chksum a (take (unat ip_hlen) (data q')) = 0" if "v \<noteq> 0"
  proof -
    have lopt: "even (length opt)" "length opt \<le> 40" using opt(2) hl by simp_all
    note an = add_native_num [OF lopt(1), of 0, simplified]
    let ?a = "unat (add_native opt 0)"
    have a: "?a \<le> 65535 * 40" "?a mod 65535 = le_num opt mod 65535" using an lopt(2) by simp_all
    let ?f = "unat from mod 65536" and ?f' = "unat from div 65536" and ?d = "unat dest mod 65536" and ?d' = "unat dest div 65536"
    have b: "?f \<le> 65535" "?d \<le> 65535" "?f' \<le> 65535" "?d' \<le> 65535"
      using unsigned_less [of dest, where ?'a = nat] unsigned_less [of "from", where ?'a = nat]
        mod_less_divisor [of 65536 "unat from"] mod_less_divisor [of 65536 "unat dest"] by simp_all
    have w: "256 * unat proto + unat t \<le> 65535" using u8_le [of proto] u8_le [of t] by linarith
    let ?S = "?a + (256 * unat proto + unat t) + ?d + ?d' + swap (unat v) + swap (unat (tot_len q)) + swap (unat ipid) + ?f + ?f'"
    have "?S < 2 ^ 32"
      using a(1) b w swap_le [of "unat v"] swap_le [of "unat (tot_len q)"] swap_le [of "unat ipid"] by simp
    then have "?S mod 2 ^ 32 = ?S" by (rule mod_less)
    moreover have "unat chk = ?S mod 2 ^ 32"
      unfolding chk_def using b by (simp add: unat_word_ariths unat_MAKE_U16 unat_htons u32_low u32_shift mod_simps)
    ultimately have chk: "unat chk = ?S" by simp
    let ?hz = "ip_hdr v (tot_len q) ipid 0 t proto 0 from dest @ opt"
    have m: "unat chk mod 65535 = le_num ?hz mod 65535"
    proof -
      have "unat chk mod 65535 = (swap (unat v) + swap (unat (tot_len q)) + swap (unat ipid) + (256 * unat proto + unat t) +
          (?f + ?f') + (?d + ?d') + ?a) mod 65535"
        unfolding chk by (simp add: ac_simps)
      also have "\<dots> = le_num ?hz mod 65535"
        unfolding le_num_ip_hdr by (intro mod_add_cong refl a(2))
      finally show ?thesis .
    qed
    have "unat v \<le> 65535" using unsigned_less [of v, where ?'a = nat] by simp
    then have pos: "swap (unat v) \<noteq> 0" using \<open>v \<noteq> 0\<close> by (simp add: swap_0 unat_eq_0)
    then have "unat chk \<noteq> 0" unfolding chk by simp
    moreover have "le_num ?hz \<noteq> 0"
    proof
      assume "le_num ?hz = 0"
      then have "le_num (be16 v) = 0" unfolding le_num_0 by (simp add: ip_hdr_def)
      then show False using pos by (simp add: le_num_be16)
    qed
    ultimately have "unat (NOT ck) = ocs (le_num ?hz)"
      unfolding ck_def fold_chk_ocs by (intro ocs_cong m) simp
    then have ck: "ck = inet_chksum a ?hz"
      using inet_chksum_eqI [of ?hz "NOT ck" a] lh [of 0] lopt(2) by simp
    let ?xs = "be16 v @ be16 (tot_len q) @ be16 ipid @ be16 0 @ [t, proto]" and ?ys = "ip4_bytes from @ ip4_bytes dest @ opt"
    have z: "le16 0 = [0, 0]" by (simp add: le16_def)
    have "even (length ?xs)" "length ?xs + 2 + length ?ys < 65536" "ck = inet_chksum a (?xs @ [0, 0] @ ?ys)"
      using lopt(2) ck by (simp_all add: ip_hdr_def z)
    then have "inet_chksum a (?xs @ [ucast ck, ucast (drop_bit 8 ck)] @ ?ys) = 0"
      by (rule inet_chksum_verifies [THEN conjunct1])
    moreover have "take (unat ip_hlen) (data q') = ?h @ opt"
      unfolding d take_append lh opt(1) using hl(1) lh [of ck] by simp
    ultimately show ?thesis by (simp add: ip_hdr_def le16_def)
  qed
  then show ?thesis unfolding eq using q' d by blast
qed

section \<open>Sending\<close>

lemma header_room:
  assumes "wf_chain (q # c)" "ptype q = PBUF_RAM" "EP_OFFSET + n \<le> poff q" "0 < n" "length (flat (q # c)) + n < 65536"
  obtains p where "pbuf_header (q # c) (int n) = Some (0, p # c)" "wf_chain (p # c)" "drop n (data p) = data q"
    "unat (plen p) = unat (plen q) + n" "poff p = poff q - n" "ptype p = PBUF_RAM"
proof (rule that)
  show "pbuf_header (q # c) (int n) = Some (0, move_payload q (int n) # c)"
    using assms(2-4) by simp
  show "ptype (move_payload q (int n)) = PBUF_RAM" using assms(2) by (simp add: move_payload_def)
qed (use move_payload_show [OF assms(1), of "int n"] assms(3-5) in simp_all)

lemma chain_head:
  assumes "wf_chain (q # c)" "wf_pbuf p" "plen p = plen q" "tot_len p = tot_len q"
  shows "wf_chain (p # c)"
  using assms by simp

definition padded :: "u8 list \<Rightarrow> u8 list" where
  "padded bs = bs @ replicate ((length bs + 3) div 4 * 4 - length bs) 0"

lemma length_padded: "length (padded bs) = (length bs + 3) div 4 * 4"
proof -
  have "length bs \<le> (length bs + 3) div 4 * 4" by arith
  then show ?thesis by (simp add: padded_def)
qed

lemma aligned_4: "unat n \<le> 40 \<Longrightarrow> unat (aligned_len n) = (unat n + 3) div 4 * 4"
proof -
  assume n: "unat n \<le> 40"
  have "(n + 3) AND NOT 3 = push_bit 2 (drop_bit 2 (n + 3))"
  proof (rule bit_word_eqI)
    fix i
    have m: "(3 :: u16) = mask 2" by (simp add: mask_eq_exp_minus_1)
    show "bit ((n + 3) AND NOT 3) i \<longleftrightarrow> bit (push_bit 2 (drop_bit 2 (n + 3))) i" if "i < LENGTH(16)"
    proof (cases "i < 2")
      case False
      then obtain j where "i = 2 + j" by (metis le_Suc_ex not_less)
      then show ?thesis using that unfolding m by (simp add: bit_simps)
    qed (simp add: m bit_simps)
  qed
  moreover have "unat (n + 3) = unat n + 3" using n by (simp add: unat_word_ariths)
  ultimately show ?thesis
    using n unfolding aligned_len_def by (simp add: push_bit_eq_mult drop_bit_eq_div unat_word_ariths unat_div)
qed

lemma sint_small_u16: "unat w < 2 ^ 15 \<Longrightarrow> sint (w :: u16) = int (unat w)"
proof -
  assume "unat w < 2 ^ 15"
  then have "int (unat w) < int (2 ^ 15)" by (simp only: of_nat_less_iff)
  then have "uint w < 2 ^ 15" unfolding uint_nat by (simp only: of_nat_power of_nat_numeral)
  moreover have "- (2 ^ 15) \<le> uint w" by (rule order_trans [OF _ uint_ge_0]) simp
  ultimately have "signed_take_bit 15 (uint w) = uint w" by (intro signed_take_bit_int_eq_self)
  moreover have "sint w = signed_take_bit 15 (uint w)" unfolding sint_uint by simp
  ultimately show ?thesis by (simp only: uint_nat)
qed

lemma put_options_spec:
  assumes q: "wf_chain (q # c)" "ptype q = PBUF_RAM" and o: "length opt = unat n" "0 < unat n" "unat n \<le> 40"
    and room: "EP_OFFSET + length (padded opt) \<le> poff q" "length (flat (q # c)) + length (padded opt) < 65536"
  obtains p where "put_options (q # c) opt n = Some (0, p # c, add_native (padded opt) 0)" "wf_chain (p # c)"
    "data p = padded opt @ data q" "poff p = poff q - length (padded opt)" "ptype p = PBUF_RAM"
proof -
  let ?n = "length (padded opt)"
  have al: "unat (aligned_len n) = ?n" using aligned_4 [OF o(3)] o(1) by (simp add: length_padded)
  have le: "unat n \<le> ?n" "0 < ?n" "?n \<le> 40" using o unfolding length_padded by arith+
  have si: "sint (aligned_len n) = int ?n"
    using al le(3) by (simp add: sint_small_u16)
  obtain p where p: "pbuf_header (q # c) (int ?n) = Some (0, p # c)" "wf_chain (p # c)" "drop ?n (data p) = data q"
    "unat (plen p) = unat (plen q) + ?n" "poff p = poff q - ?n" "ptype p = PBUF_RAM"
    by (rule header_room [OF q room(1) le(2) room(2)])
  have wp: "wf_pbuf p" using p(2) by simp
  obtain p1 where p1: "poke p 0 opt = Some p1" "data p1 = blit (data p) 0 opt" "wf_pbuf p1" "plen p1 = plen p"
    "tot_len p1 = tot_len p" "poff p1 = poff p" "ptype p1 = ptype p"
    using poke_data [OF wp, of 0 opt] o(1) le(1) p(4) by auto
  let ?z = "replicate (?n - unat n) 0 :: u8 list"
  obtain p2 where p2: "poke p1 (unat n) ?z = Some p2" "data p2 = blit (data p1) (unat n) ?z" "wf_pbuf p2" "plen p2 = plen p1"
    "tot_len p2 = tot_len p1" "poff p2 = poff p1" "ptype p2 = ptype p1"
    using poke_data [OF p1(3), of "unat n" ?z] le(1) p1(4) p(4) by auto
  have d: "data p2 = padded opt @ data q"
    using wp p(3) o(1) le(1) p(4) by (simp add: p2(2) p1(2) blit_def padded_def length_padded [symmetric])
  have "peek p2 0 ?n = Some (padded opt)"
    using peek_data [OF p2(3), of 0 ?n] d p(4) by (simp add: p2(4) p1(4))
  then have "put_options (q # c) opt n = Some (0, p2 # c, add_native (padded opt) 0)"
    using p(1) p1(1) p2(1) o(1) by (simp add: put_options_def Let_def si al del: pbuf_header.simps)
  moreover have "wf_chain (p2 # c)" by (rule chain_head [OF p(2) p2(3)]) (simp_all add: p2 p1)
  ultimately show thesis using that [of p2] d p p1 p2 by simp
qed

lemma vhltos_nonzero: "IPH_VHLTOS 4 n s \<noteq> 0"
proof
  assume "IPH_VHLTOS 4 n s = 0"
  then have "\<not> bit (IPH_VHLTOS 4 n s) 14" by simp
  moreover have "bit (4 :: u16) 2" by (simp add: bit_iff_odd)
  ultimately show False by (simp add: IPH_VHLTOS_def bit_simps)
qed

lemma header_sent:
  fixes s t proto :: u8
  assumes q: "wf_chain (q # c)" "ptype q = PBUF_RAM" and room: "EP_OFFSET + IP_HLEN \<le> poff q"
    and l: "length (flat (q # c)) + IP_HLEN < 65536"
    and opt: "take (length opt) (data q) = opt" "even (length opt)" "length opt \<le> 40"
    and hl: "unat hl = IP_HLEN + length opt"
  obtains p p' ck where "pbuf_header (q # c) (int IP_HLEN) = Some (0, p # c)"
    "put_header p src dest t s proto netif hl ipid (add_native opt 0) = Some p'"
    "wf_chain (p' # c)" "ptype p' = PBUF_RAM" "poff p' = poff q - IP_HLEN"
    "data p' = ip_hdr (IPH_VHLTOS 4 (unat hl div 4) s) (of_nat (IP_HLEN + length (flat (q # c)))) ipid 0 t proto ck
       (if ip_addr_isany src then netif_ip netif else ip_addr_set src) dest @ data q"
    "inet_chksum a (take (unat hl) (data p')) = 0"
proof -
  obtain p where p: "pbuf_header (q # c) (int IP_HLEN) = Some (0, p # c)" "wf_chain (p # c)" "drop IP_HLEN (data p) = data q"
    "unat (plen p) = unat (plen q) + IP_HLEN" "poff p = poff q - IP_HLEN" "ptype p = PBUF_RAM"
    by (rule header_room [OF q room _ l]) simp
  have wp: "wf_pbuf p" "wf_pbuf q" using p(2) q(1) by simp_all
  have ln: "length opt \<le> unat (plen q)" using opt(1) wp(2) by (metis length_data length_take min.cobounded1 min_def)
  have o: "take (unat hl - 20) (drop 20 (data p)) = opt" using opt(1) p(3) hl by simp
  obtain p' ck where p': "put_header p src dest t s proto netif hl ipid (add_native opt 0) = Some p'"
    "wf_pbuf p'" "plen p' = plen p" "tot_len p' = tot_len p" "poff p' = poff p" "ptype p' = ptype p"
    "data p' = ip_hdr (IPH_VHLTOS 4 (unat hl div 4) s) (tot_len p) ipid 0 t proto ck
       (if ip_addr_isany src then netif_ip netif else ip_addr_set src) dest @ drop 20 (data p)"
    "inet_chksum a (take (unat hl) (data p')) = 0"
    using put_header_spec [OF wp(1) o, of src dest t s proto netif ipid a] hl ln opt(2,3) p(4) vhltos_nonzero by auto
  have "data p = take IP_HLEN (data p) @ data q" using p(3) by (metis append_take_drop_id)
  then have "length (flat (p # c)) = IP_HLEN + length (flat (q # c))"
    using wp p(4) by simp
  then have "unat (tot_len p) = IP_HLEN + length (flat (q # c))" using p(2) by simp
  then have tl: "tot_len p = of_nat (IP_HLEN + length (flat (q # c)))" by (metis of_nat_unat ucast_id)
  have "wf_chain (p' # c)" by (rule chain_head [OF p(2) p'(2-4)])
  then show thesis using that [OF p(1) p'(1)] p' p tl by simp
qed

text \<open>
  A sent IP packet. From a packet whose first buffer has room in front (and with at most 40
  bytes of options), \<open>ip_output_if_opt\<close> hands to the interface a well-formed packet that consists
  of the header, the options padded with zeros to a multiple of four, and the bytes given; the
  header has the version and length, the total length, the given fields and source, and the
  checksum, which was computed in passing, verifies over header and options.
\<close>

theorem ip_output_packet:
  assumes "wf_chain (q # c)" "ptype q = PBUF_RAM" "EP_OFFSET + IP_HLEN + length (padded opt) \<le> poff q"
    and "length (flat (q # c)) + IP_HLEN + length (padded opt) < 65536" "length opt = unat n" "unat n \<le> 40"
  shows "\<exists>p ck. ip_output_if_opt (q # c) src (Some dest) t s proto netif opt n ipid = Some (Inr dest, p, ipid + 1) \<and>
    wf_chain p \<and>
    flat p = ip_hdr (IPH_VHLTOS 4 ((IP_HLEN + length (padded opt)) div 4) s)
        (of_nat (IP_HLEN + length (padded opt) + length (flat (q # c)))) ipid 0 t proto ck
        (if ip_addr_isany src then netif_ip netif else ip_addr_set src) dest @ padded opt @ flat (q # c) \<and>
    inet_chksum a (take (IP_HLEN + length (padded opt)) (flat p)) = 0"
proof (cases "unat n = 0")
  case True
  then have n: "n = 0" "opt = []" "padded opt = []" using assms(5) by (simp_all add: padded_def unat_eq_0)
  obtain p p' ck where p: "pbuf_header (q # c) (int IP_HLEN) = Some (0, p # c)"
    "put_header p src dest t s proto netif (of_nat IP_HLEN) ipid (add_native [] 0) = Some p'"
    "wf_chain (p' # c)" "ptype p' = PBUF_RAM" "poff p' = poff q - IP_HLEN"
    "data p' = ip_hdr (IPH_VHLTOS 4 (unat (of_nat IP_HLEN :: u16) div 4) s) (of_nat (IP_HLEN + length (flat (q # c)))) ipid 0 t proto ck
       (if ip_addr_isany src then netif_ip netif else ip_addr_set src) dest @ data q"
    "inet_chksum a (take (unat (of_nat IP_HLEN :: u16)) (data p')) = 0"
    by (rule header_sent [OF assms(1,2), of "[]" "of_nat IP_HLEN" src dest t s proto netif ipid a]) (use assms(3,4) n in auto)
  have "ip_output_if_opt (q # c) src (Some dest) t s proto netif opt n ipid = Some (Inr dest, p' # c, ipid + 1)"
    using p(1,2) by (simp add: ip_output_if_opt_def n del: pbuf_header.simps)
  moreover have "take IP_HLEN (flat (p' # c)) = take IP_HLEN (data p')" using p(6) by simp
  ultimately show ?thesis using p(3,6,7) n by auto
next
  case False
  let ?n = "length (padded opt)"
  have al: "unat (aligned_len n) = ?n" using aligned_4 [OF assms(6)] assms(5) by (simp add: length_padded)
  have "length opt \<le> 40" using assms(5,6) by simp
  then have ev: "even ?n" "?n \<le> 40" unfolding length_padded by (simp, presburger)
  obtain p0 where p0: "put_options (q # c) opt n = Some (0, p0 # c, add_native (padded opt) 0)" "wf_chain (p0 # c)"
    "data p0 = padded opt @ data q" "poff p0 = poff q - ?n" "ptype p0 = PBUF_RAM"
    by (rule put_options_spec [OF assms(1,2,5) _ assms(6)]) (use False assms(3,4) in auto)
  define hl where "hl = of_nat IP_HLEN + aligned_len n"
  have hl: "unat hl = IP_HLEN + ?n" unfolding hl_def using al ev(2) by (simp add: unat_word_ariths)
  have l0: "length (flat (p0 # c)) = ?n + length (flat (q # c))" by (simp add: p0(3))
  obtain p p' ck where p: "pbuf_header (p0 # c) (int IP_HLEN) = Some (0, p # c)"
    "put_header p src dest t s proto netif hl ipid (add_native (padded opt) 0) = Some p'"
    "wf_chain (p' # c)" "ptype p' = PBUF_RAM" "poff p' = poff p0 - IP_HLEN"
    "data p' = ip_hdr (IPH_VHLTOS 4 (unat hl div 4) s) (of_nat (IP_HLEN + length (flat (p0 # c)))) ipid 0 t proto ck
       (if ip_addr_isany src then netif_ip netif else ip_addr_set src) dest @ data p0"
    "inet_chksum a (take (unat hl) (data p')) = 0"
    by (rule header_sent [OF p0(2,5), of "padded opt" hl src dest t s proto netif ipid a])
      (use assms(3,4) p0(3,4) ev hl l0 in auto)
  have "n \<noteq> 0" using False by auto
  then have "ip_output_if_opt (q # c) src (Some dest) t s proto netif opt n ipid = Some (Inr dest, p' # c, ipid + 1)"
    using p0(1) p(1,2) by (simp add: ip_output_if_opt_def hl_def del: pbuf_header.simps)
  moreover have "unat hl \<le> length (data p')" by (simp add: p(6) hl p0(3))
  then have "take (unat hl) (flat (p' # c)) = take (unat hl) (data p')" by simp
  moreover have "IP_HLEN + length (flat (p0 # c)) = IP_HLEN + ?n + length (flat (q # c))" by (simp only: l0 add.assoc)
  ultimately show ?thesis using p(3,6,7) p0(3) hl by (intro exI [of _ "p' # c"] exI [of _ ck]) (simp add: add.assoc)
qed

text \<open>Three bytes of UDP payload with room for the headers, and one option byte.\<close>

definition small_packet :: pbuf where
  "small_packet = \<lparr>addr = 0, room = replicate 92 0 @ [7, 8, 9], poff = 92, tot_len = 3, plen = 3, ptype = PBUF_RAM\<rparr>"

lemma small_packet_ok: "wf_chain [small_packet]" "ptype small_packet = PBUF_RAM" "poff small_packet = 92"
  "flat [small_packet] = [7, 8, 9]"
  by (simp_all add: small_packet_def wf_pbuf_def data_def)

lemma ip_output_packet_witness:
  "\<exists>p. ip_output_if_opt [small_packet] None (Some 5) 64 0 17 \<lparr>netif_flags = 3, netif_ip = 6, netif_mask = 0,
      nif_addr = 9, dhcp_pcb = None, dhcps_pcb = None\<rparr> [1] 1 0 = Some (Inr 5, p, 1) \<and>
    inet_chksum 0 (take 24 (flat p)) = 0"
proof -
  let ?n = "\<lparr>netif_flags = 3, netif_ip = 6, netif_mask = 0, nif_addr = 9, dhcp_pcb = None, dhcps_pcb = None\<rparr>"
  have pad: "length (padded [1 :: u8]) = 4" by (simp add: length_padded)
  have "EP_OFFSET + IP_HLEN + 4 \<le> poff small_packet" "length (flat [small_packet]) + IP_HLEN + 4 < 65536"
    "length [1 :: u8] = unat (1 :: u16)" "unat (1 :: u16) \<le> 40"
    by (simp_all add: small_packet_ok del: flat_simps)
  note w = ip_output_packet [OF small_packet_ok(1,2), of "[1]" 1 None 5 64 0 17 ?n 0 0, unfolded pad, OF this]
  then obtain p where "ip_output_if_opt [small_packet] None (Some 5) 64 0 17 ?n [1] 1 0 = Some (Inr 5, p, 0 + 1)"
    "inet_chksum 0 (take (IP_HLEN + 4) (flat p)) = 0" by blast
  then show ?thesis by (intro exI [of _ p]) simp
qed

end
