(* ===== verification/Udp.thy ===== *)
theory Udp
  imports Ip
begin

text \<open>
  UDP datagrams (\<open>lwip/core/udp.c\<close>): \<open>udp_input\<close>, from the IP header on, and \<open>udp_send\<close>,
  \<open>udp_sendto\<close>, \<open>udp_sendto_if\<close> down to the interface. The flag for looping back multicast packets
  has no effect in this configuration (no loopback) and is left out.
\<close>

abbreviation "UDP_HLEN \<equiv> 8 :: nat"

section \<open>Receiving\<close>

text \<open>What becomes of a datagram.\<close>

datatype udp_out =
    recv_callback nat "nat \<times> nat" "pbuf list" u32 u16
  | icmp_dest_unreach "pbuf list"
  | pbuf_freed "pbuf list"

text \<open>The header length in words, of the first two bytes of a header.\<close>

definition IPH_HL :: "u8 list \<Rightarrow> nat" where
  "IPH_HL h = unat (drop_bit 8 (from_be16 (h ! 0) (h ! 1)) AND 0x0f)"

text \<open>The checksum test: \<open>False\<close> is a wrong checksum.\<close>

definition udp_chksum_ok :: "pbuf list \<Rightarrow> u32 \<Rightarrow> u32 \<Rightarrow> bool option" where
  "udp_chksum_ok p src_ip dst_ip =
     (case p of
        [] \<Rightarrow> None
      | q # _ \<Rightarrow> do {
          ck \<leftarrow> peek q 6 2;
          if ck = [0, 0] then Some True
          else map_option (\<lambda>s. s = 0) (inet_chksum_pseudo p src_ip dst_ip IP_PROTO_UDP (tot_len q))
        })"

text \<open>
  The part of \<open>udp_input\<close> behind the choice of the block: \<open>hl\<close> is the length of the IP header.
\<close>

definition udp_deliver ::
    "nat option \<Rightarrow> pbuf list \<Rightarrow> nat \<Rightarrow> lwnetif \<Rightarrow> u32 \<Rightarrow> u32 \<Rightarrow> u16 \<Rightarrow> udp \<Rightarrow> udp_out list option" where
  "udp_deliver r p hl inp src_ip dst_ip src u =
     (if r = None \<and> netif_ip inp \<noteq> dst_ip then Some [pbuf_freed p]
      else do {
        ok \<leftarrow> udp_chksum_ok p src_ip dst_ip;
        if \<not> ok then Some [pbuf_freed p]
        else do {
          (bad, p) \<leftarrow> pbuf_header p (- int UDP_HLEN);
          if bad \<noteq> 0 then Some [pbuf_freed p]
          else (case r of
              Some i \<Rightarrow> do {
                x \<leftarrow> pcb u i;
                Some (case recv x of
                        Some fn \<Rightarrow> [recv_callback i fn p src_ip src]
                      | None \<Rightarrow> [pbuf_freed p])
              }
            | None \<Rightarrow>
                if \<not> ip_addr_isbroadcast dst_ip inp \<and> \<not> ip_addr_ismulticast dst_ip then do {
                  (_, p) \<leftarrow> pbuf_header p (int (hl + UDP_HLEN));
                  Some [icmp_dest_unreach p, pbuf_freed p]
                } else Some [pbuf_freed p])
        }
      })"

definition udp_input ::
    "pbuf list \<Rightarrow> lwnetif \<Rightarrow> u32 \<Rightarrow> u32 \<Rightarrow> udp \<Rightarrow> (udp_out list \<times> udp) option" where
  "udp_input p inp src_ip dst_ip u =
     (case p of
        [] \<Rightarrow> None
      | q # _ \<Rightarrow> do {
          h \<leftarrow> peek q 0 2;
          let hl = IPH_HL h * 4;
          if unat (tot_len q) < hl + UDP_HLEN then Some ([pbuf_freed p], u)
          else do {
            (bad, p) \<leftarrow> pbuf_header p (- int hl);
            if bad \<noteq> 0 then Some ([pbuf_freed p], u)
            else (case p of
                [] \<Rightarrow> None
              | q # _ \<Rightarrow> do {
                  h \<leftarrow> peek q 0 4;
                  let src = from_be16 (h ! 0) (h ! 1);
                  let dest = from_be16 (h ! 2) (h ! 3);
                  (r, u) \<leftarrow> udp_demux inp src_ip dst_ip src dest u;
                  map_option (\<lambda>out. (out, u)) (udp_deliver r p hl inp src_ip dst_ip src u)
                })
          }
        })"

section \<open>Sending\<close>

text \<open>The header in the order of \<open>struct udp_hdr\<close>.\<close>

definition udp_hdr :: "u16 \<Rightarrow> u16 \<Rightarrow> u16 \<Rightarrow> u16 \<Rightarrow> u8 list" where
  "udp_hdr src dest len chksum = be16 src @ be16 dest @ be16 len @ le16 chksum"

lemma length_udp_hdr [simp]: "length (udp_hdr src dest len chksum) = 8"
  by (simp add: udp_hdr_def)

text \<open>
  Room for the header, in the packet or in a buffer of its own: \<open>Inl\<close> is \<open>ERR_MEM\<close>. \<open>as\<close> are the
  answers of the allocator.
\<close>

definition udp_header_room :: "pbuf list \<Rightarrow> answers \<Rightarrow> (err_t + pbuf list) option" where
  "udp_header_room p as = do {
     (bad, p) \<leftarrow> pbuf_header p (int UDP_HLEN);
     if bad = 0 then Some (Inr p)
     else (case pbuf_alloc PBUF_IP (of_nat UDP_HLEN) PBUF_RAM as of
         [] \<Rightarrow> Some (Inl ERR_MEM)
       | q \<Rightarrow> Some (Inr (if p \<noteq> [] \<and> tot_len (hd p) \<noteq> 0 then pbuf_cat q p else q)))
   }"

text \<open>The checksum field of a complete packet; a zero is stored as \<open>0xffff\<close>.\<close>

definition udp_put_chksum :: "udp_pcb \<Rightarrow> pbuf \<Rightarrow> pbuf list \<Rightarrow> u32 \<Rightarrow> u32 \<Rightarrow> pbuf option" where
  "udp_put_chksum x q c src_ip dst_ip =
     (if udp_flags x AND UDP_FLAGS_NOCHKSUM = 0 then do {
        ck \<leftarrow> inet_chksum_pseudo (q # c) src_ip dst_ip IP_PROTO_UDP (tot_len q);
        poke q 6 (le16 (if ck = 0 then 0xffff else ck))
      } else Some q)"

text \<open>The result is that of \<open>ip_output_if\<close>, with the blocks, one of which may be bound now.\<close>

definition udp_emit ::
    "udp_pcb \<Rightarrow> pbuf list \<Rightarrow> u32 \<Rightarrow> u16 \<Rightarrow> lwnetif \<Rightarrow> u16 \<Rightarrow> ip_result option" where
  "udp_emit x p dst_ip dst_port netif ip_id =
     (case p of
        [] \<Rightarrow> None
      | q # c \<Rightarrow> do {
          q \<leftarrow> poke q 0 (be16 (local_port x) @ be16 dst_port);
          q \<leftarrow> poke q 6 [0, 0];
          if local_ip x \<noteq> 0 \<and> local_ip x \<noteq> netif_ip netif then Some (Inl ERR_VAL, q # c, ip_id)
          else do {
            let src_ip = (if local_ip x = 0 then netif_ip netif else local_ip x);
            q \<leftarrow> poke q 4 (be16 (tot_len q));
            q \<leftarrow> udp_put_chksum x q c src_ip dst_ip;
            ip_output_if (q # c) (Some src_ip) (Some dst_ip) (ttl x) (tos x) IP_PROTO_UDP netif ip_id
          }
        })"

definition udp_sendto_if ::
    "nat \<Rightarrow> pbuf list \<Rightarrow> u32 \<Rightarrow> u16 \<Rightarrow> lwnetif \<Rightarrow> answers \<Rightarrow> u16 \<Rightarrow> udp \<Rightarrow> (ip_result \<times> udp) option" where
  "udp_sendto_if i p dst_ip dst_port netif as ip_id u = do {
     x \<leftarrow> pcb u i;
     (err, u) \<leftarrow> (if local_port x = 0 then udp_bind i (Some (local_ip x)) (local_port x) u else Some (ERR_OK, u));
     if err \<noteq> ERR_OK then Some ((Inl err, p, ip_id), u)
     else do {
       x \<leftarrow> pcb u i;
       room \<leftarrow> udp_header_room p as;
       case room of
         Inl e \<Rightarrow> Some ((Inl e, p, ip_id), u)
       | Inr q \<Rightarrow> map_option (\<lambda>r. (r, u)) (udp_emit x q dst_ip dst_port netif ip_id)
     }
   }"

definition udp_sendto ::
    "net \<Rightarrow> nat \<Rightarrow> pbuf list \<Rightarrow> u32 \<Rightarrow> u16 \<Rightarrow> answers \<Rightarrow> u16 \<Rightarrow> udp \<Rightarrow> (ip_result \<times> udp) option" where
  "udp_sendto net i p dst_ip dst_port as ip_id u = do {
     x \<leftarrow> pcb u i;
     case ip_route net (if ip_addr_ismulticast dst_ip then multicast_ip x else dst_ip) of
       None \<Rightarrow> Some ((Inl ERR_RTE, p, ip_id), u)
     | Some netif \<Rightarrow> udp_sendto_if i p dst_ip dst_port netif as ip_id u
   }"

definition udp_send ::
    "net \<Rightarrow> nat \<Rightarrow> pbuf list \<Rightarrow> answers \<Rightarrow> u16 \<Rightarrow> udp \<Rightarrow> (ip_result \<times> udp) option" where
  "udp_send net i p as ip_id u = do {
     x \<leftarrow> pcb u i;
     udp_sendto net i p (remote_ip x) (remote_port x) as ip_id u
   }"

section \<open>What is sent\<close>

text \<open>A checksum of zero may be stored as \<open>0xffff\<close>: it verifies as well.\<close>

lemma chksum_ffff:
  assumes "even (length xs)" "length xs + 2 + length ys < 65536" "inet_chksum a (xs @ [0, 0] @ ys) = 0"
  shows "inet_chksum a (xs @ [0xff, 0xff] @ ys) = 0"
proof -
  let ?z = "xs @ [0, 0] @ ys" and ?f = "xs @ [0xff, 0xff] @ ys"
  have l: "length ?z \<le> 0x20000" "length ?f \<le> 0x20000" using assms(2) by simp_all
  have z: "le_num ?z = le_num xs + 256 ^ length xs * (65536 * le_num ys)" by (simp add: le_num_append)
  have f: "le_num ?f = le_num xs + 256 ^ length xs * (65535 + 65536 * le_num ys)" by (simp add: le_num_append)
  have "le_num ?f mod 65535 = (le_num xs + (65535 + 65536 * le_num ys)) mod 65535"
    unfolding f by (intro mod_add_cong refl pow256_even assms(1))
  also have "\<dots> = (le_num xs + 65536 * le_num ys) mod 65535" by (simp add: add.left_commute [of _ 65535])
  also have "\<dots> = le_num ?z mod 65535"
    unfolding z by (intro mod_add_cong refl pow256_even [symmetric] assms(1))
  finally have "le_num ?f mod 65535 = le_num ?z mod 65535" .
  moreover have "0 < le_num ?f" unfolding f by simp
  ultimately show ?thesis using assms(3) unfolding inet_chksum_zero_iff [OF l(1)] inet_chksum_zero_iff [OF l(2)] by simp
qed

definition verifies :: "u32 \<Rightarrow> u32 \<Rightarrow> u8 list \<Rightarrow> bool" where
  "verifies src_ip dst_ip bs \<longleftrightarrow>
     inet_chksum 0 (pseudo_header src_ip dst_ip IP_PROTO_UDP (of_nat (length bs)) @ bs) = 0"

lemma inet_chksum_addr: "length bs \<le> 0x20000 \<Longrightarrow> inet_chksum a bs = 0 \<longleftrightarrow> inet_chksum b bs = 0"
  by (simp only: inet_chksum_zero_iff)

lemma length_pseudo_header [simp]: "length (pseudo_header src dst proto n) = 12"
  by (simp add: pseudo_header_def)

lemma udp_put_chksum_spec:
  assumes wf: "wf_chain (q # c)" and d: "data q = be16 sp @ be16 dp @ be16 len @ [0, 0] @ e"
    and len: "unat len = length (flat (q # c))" "length (flat (q # c)) + IP_HLEN < 65536"
  obtains q' ck where "udp_put_chksum x q c src_ip dst_ip = Some q'" "wf_chain (q' # c)"
    "data q' = udp_hdr sp dp len ck @ e" "poff q' = poff q" "ptype q' = ptype q" "tot_len q' = tot_len q"
    "if udp_flags x AND UDP_FLAGS_NOCHKSUM = 0
     then ck \<noteq> 0 \<and> verifies src_ip dst_ip (udp_hdr sp dp len ck @ e @ flat c) else ck = 0"
proof (cases "udp_flags x AND UDP_FLAGS_NOCHKSUM = 0")
  case False
  show thesis
    by (rule that [of q 0]) (use False wf d in \<open>simp_all add: udp_put_chksum_def udp_hdr_def le16_def\<close>)
next
  case True
  have wq: "wf_pbuf q" using wf by simp
  have tl: "tot_len q = len" using wf len by (simp add: word_unat_eq_iff)
  let ?xs = "pseudo_header src_ip dst_ip IP_PROTO_UDP len @ be16 sp @ be16 dp @ be16 len" and ?ys = "e @ flat c"
  define ck where "ck = inet_chksum 0 (?xs @ [0, 0] @ ?ys)"
  have ll: "length (flat (q # c)) = 8 + length e + length (flat c)" using d by simp
  have sm: "even (length ?xs)" "length ?xs + 2 + length ?ys < 65536" using len(2) ll by simp_all
  have "inet_chksum_pseudo (q # c) src_ip dst_ip IP_PROTO_UDP (tot_len q) =
      Some (inet_chksum 0 (pseudo_header src_ip dst_ip IP_PROTO_UDP (tot_len q) @ flat (q # c)))"
    using inet_chksum_pseudo_flat [OF wf] by blast
  then have ps: "inet_chksum_pseudo (q # c) src_ip dst_ip IP_PROTO_UDP (tot_len q) = Some ck"
    by (simp add: tl ck_def d)
  define fin where "fin = (if ck = 0 then 0xffff else ck)"
  have "6 + length (le16 fin) \<le> unat (plen q)" using d wq length_data [OF wq] by simp
  then obtain q' where q': "poke q 6 (le16 fin) = Some q'" "data q' = blit (data q) 6 (le16 fin)" "wf_pbuf q'"
    "plen q' = plen q" "tot_len q' = tot_len q" "poff q' = poff q" "ptype q' = ptype q"
    by (rule poke_data [OF wq])
  have d': "data q' = udp_hdr sp dp len fin @ e"
    by (simp add: q'(2) d blit_def udp_hdr_def)
  have v: "inet_chksum 0 (?xs @ [ucast ck, ucast (drop_bit 8 ck)] @ ?ys) = 0"
    by (rule inet_chksum_verifies [OF sm ck_def, THEN conjunct1])
  have "inet_chksum 0 (?xs @ le16 fin @ ?ys) = 0"
  proof (cases "ck = 0")
    case True
    then have "inet_chksum 0 (?xs @ [0, 0] @ ?ys) = 0" using v by simp
    moreover have "le16 0xffff = [0xff, 0xff]" by (simp add: le16_def word_unat_eq_iff)
    ultimately show ?thesis using chksum_ffff [OF sm] by (simp only: fin_def True simp_thms if_True)
  qed (use v in \<open>simp add: fin_def le16_def\<close>)
  moreover have "length (udp_hdr sp dp len fin @ e @ flat c) = unat len"
    using len(1) ll by (simp add: udp_hdr_def)
  ultimately have vv: "verifies src_ip dst_ip (udp_hdr sp dp len fin @ e @ flat c)"
    unfolding verifies_def by (simp add: udp_hdr_def)
  have pc: "udp_put_chksum x q c src_ip dst_ip = Some q'"
    using True ps q'(1) by (simp add: udp_put_chksum_def fin_def)
  have "fin \<noteq> 0" by (simp add: fin_def)
  with vv have "if udp_flags x AND UDP_FLAGS_NOCHKSUM = 0
     then fin \<noteq> 0 \<and> verifies src_ip dst_ip (udp_hdr sp dp len fin @ e @ flat c) else fin = 0"
    unfolding if_P [OF True] by blast
  then show thesis by (rule that [OF pc chain_head [OF wf q'(3-5)] d' q'(6,7,5)])
qed

text \<open>The datagram on the wire, behind the IP header.\<close>

lemma udp_emit_spec:
  assumes wf: "wf_chain (q # c)" and ty: "ptype q = PBUF_RAM" and room: "EP_OFFSET + IP_HLEN \<le> poff q"
    and l: "8 \<le> unat (plen q)" "length (flat (q # c)) + IP_HLEN < 65536"
    and ip: "local_ip x = 0 \<or> local_ip x = netif_ip netif"
  obtains w ick ck where "udp_emit x (q # c) dst_ip dst_port netif ipid = Some (Inr dst_ip, w, ipid + 1)" "wf_chain w"
    "flat w = ip_hdr (IPH_VHLTOS 4 5 (tos x)) (of_nat (IP_HLEN + length (flat (q # c)))) ipid 0 (ttl x) IP_PROTO_UDP ick
      (netif_ip netif) dst_ip @ udp_hdr (local_port x) dst_port (of_nat (length (flat (q # c)))) ck @ drop 8 (flat (q # c))"
    "inet_chksum a (take IP_HLEN (flat w)) = 0"
    "if udp_flags x AND UDP_FLAGS_NOCHKSUM = 0
     then ck \<noteq> 0 \<and> verifies (netif_ip netif) dst_ip
       (udp_hdr (local_port x) dst_port (of_nat (length (flat (q # c)))) ck @ drop 8 (flat (q # c)))
     else ck = 0"
proof -
  have wq: "wf_pbuf q" using wf by simp
  let ?ports = "be16 (local_port x) @ be16 dst_port" and ?n = "length (flat (q # c))"
  obtain q1 where q1: "poke q 0 ?ports = Some q1" "data q1 = blit (data q) 0 ?ports" "wf_pbuf q1"
    "plen q1 = plen q" "tot_len q1 = tot_len q" "poff q1 = poff q" "ptype q1 = ptype q"
    using poke_data [OF wq, of 0 ?ports] l(1) by auto
  obtain q2 where q2: "poke q1 6 [0, 0] = Some q2" "data q2 = blit (data q1) 6 [0, 0]" "wf_pbuf q2"
    "plen q2 = plen q1" "tot_len q2 = tot_len q1" "poff q2 = poff q1" "ptype q2 = ptype q1"
    using poke_data [OF q1(3), of 6 "[0, 0]"] l(1) q1(4) by auto
  obtain q3 where q3: "poke q2 4 (be16 (tot_len q)) = Some q3" "data q3 = blit (data q2) 4 (be16 (tot_len q))" "wf_pbuf q3"
    "plen q3 = plen q2" "tot_len q3 = tot_len q2" "poff q3 = poff q2" "ptype q3 = ptype q2"
    using poke_data [OF q2(3), of 4 "be16 (tot_len q)"] l(1) q1(4) q2(4) by auto
  have tl: "unat (tot_len q) = ?n" using wf by simp
  then have tn: "tot_len q = of_nat ?n" by (metis of_nat_unat ucast_id)
  have d3: "data q3 = be16 (local_port x) @ be16 dst_port @ be16 (tot_len q) @ [0, 0] @ drop 8 (data q)"
    using wq l(1) by (simp add: q3(2) q2(2) q1(2) blit_def)
  have wf3: "wf_chain (q3 # c)" by (rule chain_head [OF wf q3(3)]) (simp_all add: q3 q2 q1)
  have f3: "length (flat (q3 # c)) = ?n" using d3 wq l(1) by simp
  obtain q4 ck where q4: "udp_put_chksum x q3 c (netif_ip netif) dst_ip = Some q4" "wf_chain (q4 # c)"
    "data q4 = udp_hdr (local_port x) dst_port (tot_len q) ck @ drop 8 (data q)" "poff q4 = poff q3" "ptype q4 = ptype q3"
    "if udp_flags x AND UDP_FLAGS_NOCHKSUM = 0
     then ck \<noteq> 0 \<and> verifies (netif_ip netif) dst_ip (udp_hdr (local_port x) dst_port (tot_len q) ck @ drop 8 (data q) @ flat c)
     else ck = 0"
    by (rule udp_put_chksum_spec [OF wf3 d3, of x "netif_ip netif" dst_ip]) (use tl f3 l(2) in auto)
  have f4: "flat (q4 # c) = udp_hdr (local_port x) dst_port (of_nat ?n) ck @ drop 8 (flat (q # c))"
    using wq l(1) by (simp add: q4(3) tn)
  have l4: "length (flat (q4 # c)) = ?n" using f4 wq l(1) by (simp add: udp_hdr_def)
  have pe: "padded [] = []" by (simp add: padded_def)
  have an: "(if ip_addr_isany (Some (netif_ip netif)) then netif_ip netif else ip_addr_set (Some (netif_ip netif))) = netif_ip netif"
    by (simp add: ip_addr_set_def)
  obtain w ick where w: "ip_output_if (q4 # c) (Some (netif_ip netif)) (Some dst_ip) (ttl x) (tos x) IP_PROTO_UDP netif ipid =
      Some (Inr dst_ip, w, ipid + 1)" "wf_chain w"
    "flat w = ip_hdr (IPH_VHLTOS 4 (IP_HLEN div 4) (tos x)) (of_nat (IP_HLEN + ?n)) ipid 0 (ttl x) IP_PROTO_UDP ick
      (netif_ip netif) dst_ip @ flat (q4 # c)"
    "inet_chksum a (take IP_HLEN (flat w)) = 0"
    using ip_output_packet [OF q4(2), of "[]" 0 "Some (netif_ip netif)" dst_ip "ttl x" "tos x" IP_PROTO_UDP netif ipid a]
      room ty l(2) l4 by (auto simp: ip_output_if_def pe an q4(4,5) q3 q2 q1 simp del: flat_simps)
  have src: "(if local_ip x = 0 then netif_ip netif else local_ip x) = netif_ip netif"
    "\<not> (local_ip x \<noteq> 0 \<and> local_ip x \<noteq> netif_ip netif)" using ip by auto
  have "udp_emit x (q # c) dst_ip dst_port netif ipid = Some (Inr dst_ip, w, ipid + 1)"
    using q1(1) q2(1) q3(1) q4(1) w(1) by (simp add: udp_emit_def src q2(5) q1(5))
  moreover have dr: "drop 8 (data q) @ flat c = drop 8 (flat (q # c))" using wq l(1) by simp
  moreover have "IP_HLEN div 4 = 5" by simp
  ultimately show thesis by (intro that [of w ick ck]) (use w(2-4) f4 q4(6) in \<open>simp_all only: tn dr\<close>)
qed

section \<open>What is received\<close>

lemma header_hide:
  assumes "wf_chain (q # c)" "ptype q = PBUF_RAM" "EP_OFFSET \<le> poff q" "data q = xs @ e" "0 < length xs"
  obtains p where "pbuf_header (q # c) (- int (length xs)) = Some (0, p # c)" "wf_chain (p # c)" "data p = e"
    "ptype p = PBUF_RAM" "EP_OFFSET \<le> poff p"
proof (rule that)
  let ?p = "move_payload q (- int (length xs))"
  have wq: "wf_pbuf q" using assms(1) by simp
  have le: "length xs \<le> unat (plen q)" using length_data [OF wq] assms(4) by simp
  have h: "- int (length xs) < 0" "nat (- (- int (length xs))) \<le> unat (plen q)" using assms(5) le by simp_all
  note hd = move_payload_hide [OF assms(1) h]
  then show wf: "wf_chain (?p # c)" by blast
  have "flat (?p # c) = drop (length xs) (data q @ flat c)" using hd by simp
  then have "data ?p @ flat c = e @ flat c" using assms(4) by simp
  then show "data ?p = e" by simp
  show "pbuf_header (q # c) (- int (length xs)) = Some (0, ?p # c)" using assms(2,3,5) le by simp
  show "ptype ?p = PBUF_RAM" "EP_OFFSET \<le> poff ?p" using assms(2,3) by (simp_all add: move_payload_def)
qed

lemma tot_len_flat: "wf_chain (q # c) \<Longrightarrow> tot_len q = of_nat (length (flat (q # c)))"
proof -
  assume "wf_chain (q # c)"
  then have "unat (tot_len q) = length (flat (q # c))" by simp
  then show ?thesis by (metis of_nat_unat ucast_id)
qed

lemma le16_zero: "le16 w = [0, 0] \<longleftrightarrow> w = 0"
proof
  assume "le16 w = [0, 0]"
  then have "from_be16 (ucast (drop_bit 8 w)) (ucast w) = from_be16 0 0" by (simp add: le16_def)
  then have "w = from_be16 0 0" by simp
  then show "w = 0" by (simp add: from_be16_def)
qed (simp add: le16_def)

lemma from_be16_list: "from_be16 (be16 w ! 0) (be16 w ! Suc 0) = w"
  by (simp add: be16_def)

lemma udp_chksum_ok_spec:
  assumes wf: "wf_chain (q # c)" and d: "data q = udp_hdr sp dp len ck @ e"
    and v: "ck = 0 \<or> verifies src_ip dst_ip (flat (q # c))"
  shows "udp_chksum_ok (q # c) src_ip dst_ip = Some True"
proof -
  have wq: "wf_pbuf q" using wf by simp
  have "6 + 2 \<le> unat (plen q)" using length_data [OF wq] d by (simp add: udp_hdr_def)
  from peek_data [OF wq this] have pk: "peek q 6 2 = Some (le16 ck)"
    by (simp add: d udp_hdr_def)
  have "inet_chksum_pseudo (q # c) src_ip dst_ip IP_PROTO_UDP (tot_len q) =
      Some (inet_chksum 0 (pseudo_header src_ip dst_ip IP_PROTO_UDP (tot_len q) @ flat (q # c)))"
    using inet_chksum_pseudo_flat [OF wf] by blast
  then have "inet_chksum_pseudo (q # c) src_ip dst_ip IP_PROTO_UDP (tot_len q) = Some 0" if "ck \<noteq> 0"
    using v that unfolding verifies_def tot_len_flat [OF wf] by simp
  then show ?thesis by (simp add: udp_chksum_ok_def pk le16_zero)
qed

lemma udp_input_delivers:
  assumes wf: "wf_chain (q # c)" and ty: "ptype q = PBUF_RAM" "EP_OFFSET \<le> poff q"
    and d: "data q = ih @ udp_hdr sp dp len ck @ e" "length ih = IP_HLEN" "IPH_HL ih = 5"
    and v: "ck = 0 \<or> verifies src_ip dst_ip (udp_hdr sp dp len ck @ e @ flat c)"
    and r: "udp_demux inp src_ip dst_ip sp dp u = Some (Some j, u')" "pcb u' j = Some x" "recv x = Some fn"
  shows "\<exists>p. udp_input (q # c) inp src_ip dst_ip u = Some ([recv_callback j fn p src_ip sp], u') \<and>
    wf_chain p \<and> flat p = e @ flat c"
proof -
  have wq: "wf_pbuf q" using wf by simp
  have lp: "28 \<le> unat (plen q)" using length_data [OF wq] d(1,2) by (simp add: udp_hdr_def)
  have p0: "peek q 0 2 = Some (take 2 ih)" using peek_data [OF wq, of 0 2] lp d(1,2) by simp
  have hl: "IPH_HL (take 2 ih) = 5" using d(3) by (simp add: IPH_HL_def)
  have "unat (tot_len q) = length (flat (q # c))" using wf by simp
  then have tl: "28 \<le> unat (tot_len q)" using lp wq by simp
  obtain p1 where p1: "pbuf_header (q # c) (- int (length ih)) = Some (0, p1 # c)" "wf_chain (p1 # c)"
    "data p1 = udp_hdr sp dp len ck @ e" "ptype p1 = PBUF_RAM" "EP_OFFSET \<le> poff p1"
    by (rule header_hide [OF wf ty d(1)]) (simp_all add: d(2))
  have w1: "wf_pbuf p1" using p1(2) by simp
  have "0 + 4 \<le> unat (plen p1)" using length_data [OF w1] p1(3) by (simp add: udp_hdr_def)
  from peek_data [OF w1 this] have h4: "peek p1 0 4 = Some (be16 sp @ be16 dp)"
    by (simp add: p1(3) udp_hdr_def)
  have ports: "from_be16 ((be16 sp @ be16 dp) ! 0) ((be16 sp @ be16 dp) ! 1) = sp"
    "from_be16 ((be16 sp @ be16 dp) ! 2) ((be16 sp @ be16 dp) ! 3) = dp"
    by (simp_all add: nth_append from_be16_list)
  have ok: "udp_chksum_ok (p1 # c) src_ip dst_ip = Some True"
    by (rule udp_chksum_ok_spec [OF p1(2,3)]) (use v p1(3) in simp)
  obtain p2 where p2: "pbuf_header (p1 # c) (- int (length (udp_hdr sp dp len ck))) = Some (0, p2 # c)" "wf_chain (p2 # c)"
    "data p2 = e"
    by (rule header_hide [OF p1(2,4,5,3)]) (simp_all add: udp_hdr_def)
  have dl: "udp_deliver (Some j) (p1 # c) 20 inp src_ip dst_ip sp u' = Some [recv_callback j fn (p2 # c) src_ip sp]"
    using p2(1) r(2,3) ok by (simp add: udp_deliver_def udp_hdr_def del: pbuf_header.simps)
  have "udp_input (q # c) inp src_ip dst_ip u = Some ([recv_callback j fn (p2 # c) src_ip sp], u')"
    using p0 hl tl p1(1) h4 ports r(1) dl d(2)
    by (simp add: udp_input_def Let_def del: pbuf_header.simps)
  then show ?thesis using p2(2,3) by (intro exI [of _ "p2 # c"]) simp
qed

end
