(* ===== verification/IpInput.thy ===== *)
theory IpInput
  imports Udp
begin

text \<open>
  Receiving an IP packet (\<open>ip_input\<close> of \<open>lwip/core/ipv4/ip.c\<close> and \<open>raw_input\<close> of
  \<open>lwip/core/raw.c\<close>): the checks of the header, the test whether the packet is for this host, and
  the hand-over to the protocols; and that a datagram sent by \<open>udp_sendto_if\<close> arrives. What TCP,
  ICMP and IGMP do with their packets is not modelled: they appear as events.
\<close>

section \<open>State and events\<close>

text \<open>\<open>raw_addr\<close> is the address of a block, \<open>raw_recv\<close> whether it has a receive function.\<close>

record raw_pcb =
  raw_addr :: nat
  protocol :: u8
  raw_ip :: u32
  raw_recv :: bool

text \<open>\<open>groups\<close>: the list of the multicast groups joined, by interface.\<close>

record host =
  ifs :: net
  raw_pcbs :: "raw_pcb list"
  udp_part :: udp
  groups :: "(nat \<times> u32) list"

datatype ip_event =
    to_udp udp_out
  | tcp_input "pbuf list"
  | icmp_input "pbuf list"
  | igmp_input "pbuf list" u32
  | icmp_proto_unreach "pbuf list"
  | raw_callback nat
  | ip_freed "pbuf list"

section \<open>Raw sockets\<close>

text \<open>
  \<open>eats\<close> is what the receive functions answer; the result is whether the packet was eaten, the list
  afterwards and the functions called.
\<close>

fun raw_loop ::
    "(nat \<Rightarrow> bool) \<Rightarrow> u8 \<Rightarrow> u32 \<Rightarrow> raw_pcb list \<Rightarrow> raw_pcb list \<Rightarrow> nat list \<Rightarrow> bool \<times> raw_pcb list \<times> nat list" where
  "raw_loop eats proto dst_ip before [] called = (False, before, called)"
| "raw_loop eats proto dst_ip before (r # rs) called =
     (if protocol r = proto \<and> (raw_ip r = 0 \<or> raw_ip r = dst_ip) \<and> raw_recv r then
        if eats (raw_addr r)
        then (True, if before \<noteq> [] then r # before @ rs else r # rs, called @ [raw_addr r])
        else raw_loop eats proto dst_ip (before @ [r]) rs (called @ [raw_addr r])
      else raw_loop eats proto dst_ip (before @ [r]) rs called)"

definition raw_input :: "(nat \<Rightarrow> bool) \<Rightarrow> u8 \<Rightarrow> u32 \<Rightarrow> raw_pcb list \<Rightarrow> bool \<times> raw_pcb list \<times> nat list" where
  "raw_input eats proto dst_ip l = raw_loop eats proto dst_ip [] l []"

section \<open>The packet's interface\<close>

definition igmp_lookfor_group :: "(nat \<times> u32) list \<Rightarrow> lwnetif \<Rightarrow> u32 \<Rightarrow> (nat \<times> u32) option" where
  "igmp_lookfor_group l ifp a = List.find (\<lambda>(n, g). n = nif_addr ifp \<and> g = a) l"

definition netif_accepts :: "u32 \<Rightarrow> lwnetif \<Rightarrow> bool" where
  "netif_accepts dst_ip n \<longleftrightarrow> netif_is_up n \<and> netif_ip n \<noteq> 0 \<and>
     (dst_ip = netif_ip n \<or> ip_addr_isbroadcast dst_ip n)"

text \<open>The rest of the walk over \<open>netif_list\<close>: the interface \<open>inp\<close>, already looked at, is skipped.\<close>

fun netif_walk :: "u32 \<Rightarrow> lwnetif \<Rightarrow> lwnetif list \<Rightarrow> bool" where
  "netif_walk dst_ip inp [] = False"
| "netif_walk dst_ip inp [n] = (nif_addr n \<noteq> nif_addr inp \<and> netif_accepts dst_ip n)"
| "netif_walk dst_ip inp (n # m # l) =
     (if nif_addr n = nif_addr inp then netif_accepts dst_ip m \<or> netif_walk dst_ip inp l
      else netif_accepts dst_ip n \<or> netif_walk dst_ip inp (m # l))"

definition for_us :: "host \<Rightarrow> lwnetif \<Rightarrow> u32 \<Rightarrow> bool" where
  "for_us h inp dst_ip =
     (if ip_addr_ismulticast dst_ip
      then netif_flags inp AND 0x80 \<noteq> 0 \<and> igmp_lookfor_group (groups h) inp dst_ip \<noteq> None
      else netif_accepts dst_ip inp \<or> netif_walk dst_ip inp (netif_list (ifs h)))"

section \<open>Receiving\<close>

definition IPH_V :: "u8 list \<Rightarrow> nat" where
  "IPH_V h = unat (drop_bit 12 (from_be16 (h ! 0) (h ! 1)))"

text \<open>The protocols.\<close>

definition ip_dispatch ::
    "(nat \<Rightarrow> bool) \<Rightarrow> u8 \<Rightarrow> pbuf list \<Rightarrow> lwnetif \<Rightarrow> u32 \<Rightarrow> u32 \<Rightarrow> host \<Rightarrow> (ip_event list \<times> host) option" where
  "ip_dispatch eats proto p inp src_ip dst_ip h =
     (case raw_input eats proto dst_ip (raw_pcbs h) of
        (eaten, raws, called) \<Rightarrow>
          let h = h\<lparr>raw_pcbs := raws\<rparr>; log = map raw_callback called in
          if eaten then Some (log, h)
          else if proto = IP_PROTO_UDP then
            map_option (\<lambda>(out, u). (log @ map to_udp out, h\<lparr>udp_part := u\<rparr>)) (udp_input p inp src_ip dst_ip (udp_part h))
          else if proto = IP_PROTO_TCP then Some (log @ [tcp_input p], h)
          else if proto = IP_PROTO_ICMP then Some (log @ [icmp_input p], h)
          else if proto = IP_PROTO_IGMP then Some (log @ [igmp_input p dst_ip], h)
          else if \<not> ip_addr_isbroadcast dst_ip inp \<and> \<not> ip_addr_ismulticast dst_ip
          then Some (log @ [icmp_proto_unreach p, ip_freed p], h)
          else Some (log @ [ip_freed p], h))"

text \<open>
  Behind the checksum. DHCP replies are accepted whatever their address; \<open>hlen\<close> is the length of
  the header.
\<close>

definition ip_accept ::
    "(nat \<Rightarrow> bool) \<Rightarrow> nat \<Rightarrow> pbuf list \<Rightarrow> lwnetif \<Rightarrow> host \<Rightarrow> (ip_event list \<times> host) option" where
  "ip_accept eats hlen p inp h =
     (case p of
        [] \<Rightarrow> None
      | q # _ \<Rightarrow> do {
          dst_ip \<leftarrow> map_option le32 (peek q 16 4);
          src_ip \<leftarrow> map_option le32 (peek q 12 4);
          proto \<leftarrow> map_option hd (peek q 9 1);
          (mine, check_ip_src) \<leftarrow>
            (if for_us h inp dst_ip then Some (True, True)
             else if proto = IP_PROTO_UDP then
               map_option (\<lambda>port. (port = be16 DHCP_CLIENT_PORT, port \<noteq> be16 DHCP_CLIENT_PORT)) (peek q (hlen + 2) 2)
             else Some (False, True));
          if check_ip_src \<and> src_ip \<noteq> 0 \<and> (ip_addr_isbroadcast src_ip inp \<or> ip_addr_ismulticast src_ip)
          then Some ([ip_freed p], h)
          else if \<not> mine then Some ([ip_freed p], h)
          else do {
            off \<leftarrow> peek q 6 2;
            if from_be16 (off ! 0) (off ! 1) AND 0x3fff \<noteq> 0 then Some ([ip_freed p], h)
            else ip_dispatch eats proto p inp src_ip dst_ip h
          }
        })"

definition ip_input ::
    "(nat \<Rightarrow> bool) \<Rightarrow> pbuf list \<Rightarrow> lwnetif \<Rightarrow> host \<Rightarrow> (ip_event list \<times> host) option" where
  "ip_input eats p inp h =
     (case p of
        [] \<Rightarrow> None
      | q # _ \<Rightarrow> do {
          v \<leftarrow> peek q 0 2;
          if IPH_V v \<noteq> 4 then Some ([ip_freed p], h)
          else do {
            let iphdr_hlen = IPH_HL v * 4;
            l \<leftarrow> peek q 2 2;
            let iphdr_len = from_be16 (l ! 0) (l ! 1);
            if unat (plen q) < iphdr_hlen \<or> tot_len q < iphdr_len then Some ([ip_freed p], h)
            else do {
              bs \<leftarrow> peek q 0 iphdr_hlen;
              if inet_chksum (addr q + poff q) bs \<noteq> 0 then Some ([ip_freed p], h)
              else do {
                p \<leftarrow> pbuf_realloc p iphdr_len;
                ip_accept eats iphdr_hlen p inp h
              }
            }
          }
        })"

section \<open>Reading the header back\<close>

lemma le32_ip4: "le32 (ip4_bytes a) = a"
proof -
  have u: "unat (le32 (ip4_bytes a)) = le_num (ip4_bytes a) mod 2 ^ 32"
  proof -
    have e: "256 * unat (octet a 1) + unat (octet a 0) + 65536 * (256 * unat (octet a 3) + unat (octet a 2)) =
        le_num (ip4_bytes a)"
      by (simp add: ip4_bytes_def upt_4)
    have "unat (le32 (ip4_bytes a)) = (256 * unat (octet a 1) + unat (octet a 0) +
        65536 * (256 * unat (octet a 3) + unat (octet a 2))) mod 2 ^ 32"
      unfolding le32_def ip4_bytes_def upt_4 by (simp add: unat_word_ariths unat_from_be16 mod_simps)
    then show ?thesis unfolding e .
  qed
  have "unat a < 2 ^ 32" using unsigned_less [of a, where ?'a = nat] by simp
  then show ?thesis using u by (simp add: le_num_ip4 word_unat_eq_iff)
qed

lemma unat_of_nat_16: "n < 65536 \<Longrightarrow> unat (of_nat n :: u16) = n"
  by (simp add: unat_of_nat)

lemma vhltos_u16: "IPH_VHLTOS 4 5 s = from_be16 0x45 s"
  by (simp add: IPH_VHLTOS_def from_be16_def or.assoc [symmetric])

lemma be16_vhltos: "be16 (IPH_VHLTOS 4 5 s) = [0x45, s]"
  by (simp add: vhltos_u16)

lemma version_4: "IPH_V [0x45, s] = 4" and header_5: "IPH_HL [0x45, s] = 5"
proof -
  have v: "unat (from_be16 0x45 s) = 256 * 69 + unat s" by (simp add: unat_from_be16)
  have "unat s < 256" by simp
  moreover have "(256 * 69 + n) div 4096 = 4" "(256 * 69 + n) div 256 = 69" if "n < 256" for n :: nat
    using that by (intro div_nat_eqI; simp)+
  ultimately have n: "(256 * 69 + unat s) div 4096 = 4" "(256 * 69 + unat s) div 256 = 69" by blast+
  have "unat (drop_bit 12 (from_be16 0x45 s)) = (256 * 69 + unat s) div 4096"
    by (simp add: drop_bit_eq_div unat_div v)
  then show "IPH_V [0x45, s] = 4" using n by (simp add: IPH_V_def)
  have m: "(0x0f :: u16) = mask 4" by (simp add: mask_eq_exp_minus_1)
  have "unat (drop_bit 8 (from_be16 0x45 s) AND 0x0f) = (256 * 69 + unat s) div 256 mod 16"
    unfolding m take_bit_eq_mask [symmetric] by (simp add: take_bit_eq_mod unat_mod drop_bit_eq_div unat_div v)
  then show "IPH_HL [0x45, s] = 5" using n by (simp add: IPH_HL_def)
qed

lemma ip_fields:
  "take 2 (ip_hdr (IPH_VHLTOS 4 5 s) len ipid 0 t p ck src dest @ r) = [0x45, s]"
  "take 2 (drop 2 (ip_hdr v len ipid 0 t p ck src dest @ r)) = be16 len"
  "take 2 (drop 6 (ip_hdr v len ipid 0 t p ck src dest @ r)) = [0, 0]"
  "take 1 (drop 9 (ip_hdr v len ipid 0 t p ck src dest @ r)) = [p]"
  "take 4 (drop 12 (ip_hdr v len ipid 0 t p ck src dest @ r)) = ip4_bytes src"
  "take 4 (drop 16 (ip_hdr v len ipid 0 t p ck src dest @ r)) = ip4_bytes dest"
  by (simp_all add: ip_hdr_def be16_vhltos) (simp add: be16_def)

lemma IPH_HL_hdr: "IPH_HL (ip_hdr (IPH_VHLTOS 4 5 s) len ipid 0 t p ck src dest) = 5"
  using header_5 [of s] by (simp add: IPH_HL_def ip_hdr_def be16_vhltos)

lemma ip_accept_udp:
  assumes wf: "wf_chain (q # c)" and d: "data q = ip_hdr v len ipid 0 t IP_PROTO_UDP ck src dest @ e"
    and h: "for_us h inp dest" "raw_pcbs h = []"
    and src: "src = 0 \<or> \<not> ip_addr_isbroadcast src inp \<and> \<not> ip_addr_ismulticast src"
  shows "ip_accept eats hlen (q # c) inp h =
    map_option (\<lambda>(out, u). (map to_udp out, h\<lparr>raw_pcbs := [], udp_part := u\<rparr>)) (udp_input (q # c) inp src dest (udp_part h))"
proof -
  have wq: "wf_pbuf q" using wf by simp
  have "20 \<le> unat (plen q)" using length_data [OF wq] d by simp
  then have pk: "peek q 16 4 = Some (ip4_bytes dest)" "peek q 12 4 = Some (ip4_bytes src)"
    "peek q 9 1 = Some [IP_PROTO_UDP]" "peek q 6 2 = Some [0, 0]"
    using peek_data [OF wq, of 16 4] peek_data [OF wq, of 12 4] peek_data [OF wq, of 9 1] peek_data [OF wq, of 6 2]
    by (simp_all only: d ip_fields)
  have z: "from_be16 0 0 = 0" by (simp add: from_be16_def)
  show ?thesis
    using h src by (cases "src = 0") (simp_all add: ip_accept_def pk pk(3) [unfolded One_nat_def] le32_ip4 z ip_dispatch_def raw_input_def)
qed

lemma ip_input_udp:
  assumes wf: "wf_chain (q # c)" and ty: "ptype q = PBUF_RAM" "EP_OFFSET \<le> poff q"
    and d: "flat (q # c) = ip_hdr (IPH_VHLTOS 4 5 s) (of_nat (length w + 20)) ipid 0 t IP_PROTO_UDP ck src dest @ w @ pad"
    and l: "28 \<le> unat (plen q)" "8 \<le> length w"
    and ck: "inet_chksum 0 (ip_hdr (IPH_VHLTOS 4 5 s) (of_nat (length w + 20)) ipid 0 t IP_PROTO_UDP ck src dest) = 0"
    and h: "for_us h inp dest" "raw_pcbs h = []"
    and src: "src = 0 \<or> \<not> ip_addr_isbroadcast src inp \<and> \<not> ip_addr_ismulticast src"
  obtains p e x where "ip_input eats (q # c) inp h =
      map_option (\<lambda>(out, u). (map to_udp out, h\<lparr>raw_pcbs := [], udp_part := u\<rparr>)) (udp_input (p # e) inp src dest (udp_part h))"
    "wf_chain (p # e)" "ptype p = PBUF_RAM" "EP_OFFSET \<le> poff p"
    "data p = ip_hdr (IPH_VHLTOS 4 5 s) (of_nat (length w + 20)) ipid 0 t IP_PROTO_UDP ck src dest @ take 8 w @ x"
    "take 8 w @ x @ flat e = w"
proof -
  let ?h = "ip_hdr (IPH_VHLTOS 4 5 s) (of_nat (length w + 20)) ipid 0 t IP_PROTO_UDP ck src dest"
  have wq: "wf_pbuf q" using wf by simp
  have lf: "length (flat (q # c)) = 20 + length w + length pad" by (simp only: d) simp
  then have lw: "length w + 20 < 65536" using wf_chain_length [OF wf] by simp
  have "data q = take (unat (plen q)) (flat (q # c))" using wq by simp
  then have dq: "data q = ?h @ take (unat (plen q) - 20) (w @ pad)" using l(1) by (simp only: d) simp
  have lq: "20 \<le> unat (plen q)" using l(1) by simp
  have pk: "peek q 0 2 = Some [0x45, s]" "peek q 2 2 = Some (be16 (of_nat (length w + 20)))" "peek q 0 20 = Some ?h"
    using peek_data [OF wq, of 0 2] peek_data [OF wq, of 2 2] peek_data [OF wq, of 0 20] lq
    by (simp_all only: dq ip_fields drop_0) simp_all
  have un: "unat (of_nat (length w + 20) :: u16) = length w + 20" by (rule unat_of_nat_16 [OF lw])
  have tl: "unat (tot_len q) = 20 + length w + length pad" using wf lf by simp
  have ok: "\<not> (unat (plen q) < IPH_HL [0x45, s] * 4 \<or> tot_len q < of_nat (length w + 20))"
    using lq un tl by (simp add: header_5 word_less_nat_alt)
  have ck': "inet_chksum (addr q + poff q) ?h = 0"
    using ck inet_chksum_addr [of ?h "addr q + poff q" 0] by simp
  obtain p0 where r: "pbuf_realloc (q # c) (of_nat (length w + 20)) = Some p0" "wf_chain p0"
    "flat p0 = take (length w + 20) (flat (q # c))"
    using pbuf_realloc_spec [OF wf, of "of_nat (length w + 20)"] un by auto
  obtain p e where p: "p0 = p # e" "room p = room q" "poff p = poff q" "ptype p = ptype q"
    "plen p = plen q \<or> plen p = of_nat (length w + 20)"
    using realloc_head [OF r(1)] by blast
  have wp: "wf_pbuf p" using r(2) p(1) by simp
  have "flat (p # e) = take (length w + 20) (?h @ w @ pad)" using r(3) by (simp only: d p(1))
  then have fp: "data p @ flat e = ?h @ w" by simp
  have lp: "28 \<le> length (data p)" using p(5) l un wp by auto
  define x where "x = drop 28 (data p)"
  have "take 28 (data p) = take 28 (data p @ flat e)" using lp by simp
  also have "\<dots> = ?h @ take 8 w" unfolding fp by simp
  finally have "data p = (?h @ take 8 w) @ x" unfolding x_def by (metis append_take_drop_id)
  then have dp: "data p = ?h @ take 8 w @ x" by simp
  then have "take 8 w @ x @ flat e = w" using fp by simp
  moreover have "ip_input eats (q # c) inp h =
      map_option (\<lambda>(out, u). (map to_udp out, h\<lparr>raw_pcbs := [], udp_part := u\<rparr>)) (udp_input (p # e) inp src dest (udp_part h))"
  proof -
    have wfp: "wf_chain (p # e)" using r(2) p(1) by simp
    have "ip_input eats (q # c) inp h = ip_accept eats 20 (p # e) inp h"
      using ok pk ck' r(1) from_be16_list [of "of_nat (length w + 20)"]
      by (simp add: ip_input_def version_4 header_5 Let_def p(1))
    also have "\<dots> = map_option (\<lambda>(out, u). (map to_udp out, h\<lparr>raw_pcbs := [], udp_part := u\<rparr>))
        (udp_input (p # e) inp src dest (udp_part h))"
      by (rule ip_accept_udp [OF wfp dp h src])
    finally show ?thesis .
  qed
  ultimately show thesis using that [of p e x] r(2) p dp ty by simp
qed

section \<open>From one host to another\<close>

lemma udp_sent:
  assumes x: "pcb us i = Some x" "local_port x \<noteq> 0" "local_ip x = 0 \<or> local_ip x = netif_ip n"
    and q: "wf_chain (q # c)" "ptype q = PBUF_RAM" "EP_OFFSET + IP_HLEN + UDP_HLEN \<le> poff q"
      "length (flat (q # c)) + IP_HLEN + UDP_HLEN < 65536"
  obtains w ick ck u where "udp_sendto_if i (q # c) dst port n as ipid us = Some ((Inr dst, w, ipid + 1), us)" "wf_chain w"
    "u = udp_hdr (local_port x) port (of_nat (8 + length (flat (q # c)))) ck @ flat (q # c)"
    "flat w = ip_hdr (IPH_VHLTOS 4 5 (tos x)) (of_nat (length u + 20)) ipid 0 (ttl x) IP_PROTO_UDP ick (netif_ip n) dst @ u"
    "inet_chksum 0 (ip_hdr (IPH_VHLTOS 4 5 (tos x)) (of_nat (length u + 20)) ipid 0 (ttl x) IP_PROTO_UDP ick (netif_ip n) dst) = 0"
    "ck = 0 \<or> verifies (netif_ip n) dst u"
proof -
  obtain p where p: "pbuf_header (q # c) (int UDP_HLEN) = Some (0, p # c)" "wf_chain (p # c)" "drop UDP_HLEN (data p) = data q"
    "unat (plen p) = unat (plen q) + UDP_HLEN" "poff p = poff q - UDP_HLEN" "ptype p = PBUF_RAM"
    by (rule header_room [OF q(1,2), of UDP_HLEN]) (use q(3,4) in auto)
  have wp: "wf_pbuf p" "wf_pbuf q" using p(2) q(1) by simp_all
  have lp: "length (flat (p # c)) = 8 + length (flat (q # c))" using wp p(4) by simp
  have dp: "drop 8 (flat (p # c)) = flat (q # c)" using wp p(3,4) by simp
  obtain w ick ck where e: "udp_emit x (p # c) dst port n ipid = Some (Inr dst, w, ipid + 1)" "wf_chain w"
    "flat w = ip_hdr (IPH_VHLTOS 4 5 (tos x)) (of_nat (IP_HLEN + length (flat (p # c)))) ipid 0 (ttl x) IP_PROTO_UDP ick
      (netif_ip n) dst @ udp_hdr (local_port x) port (of_nat (length (flat (p # c)))) ck @ drop 8 (flat (p # c))"
    "inet_chksum 0 (take IP_HLEN (flat w)) = 0"
    "if udp_flags x AND UDP_FLAGS_NOCHKSUM = 0
     then ck \<noteq> 0 \<and> verifies (netif_ip n) dst
       (udp_hdr (local_port x) port (of_nat (length (flat (p # c)))) ck @ drop 8 (flat (p # c)))
     else ck = 0"
    by (rule udp_emit_spec [OF p(2,6) _ _ _ x(3), of dst port ipid 0]) (use p(4,5) q(3,4) lp in auto)
  define u where "u = udp_hdr (local_port x) port (of_nat (8 + length (flat (q # c)))) ck @ flat (q # c)"
  have lu: "IP_HLEN + length (flat (p # c)) = length u + 20" unfolding lp u_def by (simp add: udp_hdr_def)
  have fw: "flat w = ip_hdr (IPH_VHLTOS 4 5 (tos x)) (of_nat (length u + 20)) ipid 0 (ttl x) IP_PROTO_UDP ick (netif_ip n) dst @ u"
    using e(3) [unfolded lu, unfolded lp dp, folded u_def] .
  show thesis
  proof (rule that [OF _ e(2) u_def fw])
    show "udp_sendto_if i (q # c) dst port n as ipid us = Some ((Inr dst, w, ipid + 1), us)"
      using x(1,2) p(1) e(1) by (simp add: udp_sendto_if_def udp_header_room_def del: pbuf_header.simps)
    show "inet_chksum 0 (ip_hdr (IPH_VHLTOS 4 5 (tos x)) (of_nat (length u + 20)) ipid 0 (ttl x) IP_PROTO_UDP ick (netif_ip n) dst) = 0"
      using e(4) unfolding fw by simp
    show "ck = 0 \<or> verifies (netif_ip n) dst u"
      using e(5) unfolding lp dp u_def [symmetric] by (auto split: if_splits)
  qed
qed

lemma udp_received:
  assumes r: "wf_chain (r # rs)" "ptype r = PBUF_RAM" "EP_OFFSET \<le> poff r" "28 \<le> unat (plen r)"
    and u: "u = udp_hdr sp port len ck @ d"
    and f: "flat (r # rs) = ip_hdr (IPH_VHLTOS 4 5 s) (of_nat (length u + 20)) ipid 0 t IP_PROTO_UDP ick src dst @ u @ pad"
    and k: "inet_chksum 0 (ip_hdr (IPH_VHLTOS 4 5 s) (of_nat (length u + 20)) ipid 0 t IP_PROTO_UDP ick src dst) = 0"
      "ck = 0 \<or> verifies src dst u"
    and h: "for_us h inp dst" "raw_pcbs h = []"
    and src: "src = 0 \<or> \<not> ip_addr_isbroadcast src inp \<and> \<not> ip_addr_ismulticast src"
    and j: "udp_demux inp src dst sp port (udp_part h) = Some (Some j, v)" "pcb v j = Some y" "recv y = Some fn"
  shows "\<exists>p h'. ip_input eats (r # rs) inp h = Some ([to_udp (recv_callback j fn p src sp)], h') \<and> wf_chain p \<and> flat p = d"
proof -
  let ?h = "ip_hdr (IPH_VHLTOS 4 5 s) (of_nat (length u + 20)) ipid 0 t IP_PROTO_UDP ick src dst"
  have l8: "8 \<le> length u" "take 8 u = udp_hdr sp port len ck" by (simp_all add: u udp_hdr_def)
  obtain p e x where p: "ip_input eats (r # rs) inp h =
      map_option (\<lambda>(out, u). (map to_udp out, h\<lparr>raw_pcbs := [], udp_part := u\<rparr>)) (udp_input (p # e) inp src dst (udp_part h))"
    "wf_chain (p # e)" "ptype p = PBUF_RAM" "EP_OFFSET \<le> poff p"
    "data p = ?h @ take 8 u @ x" "take 8 u @ x @ flat e = u"
    by (rule ip_input_udp [OF r(1-3) f r(4) l8(1) k(1) h src])
  have "x @ flat e = d" using p(6) unfolding l8(2) u by simp
  then obtain z where "udp_input (p # e) inp src dst (udp_part h) = Some ([recv_callback j fn z src sp], v)"
    "wf_chain z" "flat z = d"
    using udp_input_delivers [OF p(2-4), of ?h sp port len ck x src dst inp "udp_part h" j v y fn] p(5,6) l8(2) k(2) j
    by (auto simp: IPH_HL_hdr)
  then show ?thesis by (simp add: p(1))
qed

text \<open>
  A datagram arrives. What a bound block of one host sends with \<open>udp_sendto_if\<close> to a unicast
  address of another, from a packet with room for the headers, is handed to the interface; and
  whenever a packet with these bytes comes in there, cut into buffers in any way (the headers in
  the first) and followed by any padding of the link, \<open>ip_input\<close> calls exactly the receive function
  of the block bound to the port, with the sender's address and port and exactly the bytes sent.
  Neither checksum, each computed by the sender and tested by the receiver, ever rejects it.
\<close>

theorem udp_datagram_arrives:
  assumes sender: "pcb us i = Some x" "local_port x \<noteq> 0" "local_ip x = 0 \<or> local_ip x = netif_ip n"
    and packet: "wf_chain (q # c)" "ptype q = PBUF_RAM" "EP_OFFSET + IP_HLEN + UDP_HLEN \<le> poff q"
      "length (flat (q # c)) + IP_HLEN + UDP_HLEN < 65536"
    and receiver: "udp_run (udp_part h)" "raw_pcbs h = []" "for_us h inp dst"
      "\<not> ip_addr_isbroadcast dst inp" "\<not> ip_addr_ismulticast dst" "port \<noteq> DHCP_CLIENT_PORT" "port \<noteq> DHCP_SERVER_PORT"
      "netif_ip n = 0 \<or> \<not> ip_addr_isbroadcast (netif_ip n) inp \<and> \<not> ip_addr_ismulticast (netif_ip n)"
    and block: "pcb (udp_part h) j = Some y" "local_port y = port" "port \<noteq> 0" "local_ip y = 0 \<or> local_ip y = dst"
      "unconnected y \<or> remote_match (local_port x) (netif_ip n) y" "recv y = Some fn"
  shows "\<exists>w. udp_sendto_if i (q # c) dst port n as ipid us = Some ((Inr dst, w, ipid + 1), us) \<and>
    (\<forall>r rs pad eats. wf_chain (r # rs) \<and> ptype r = PBUF_RAM \<and> EP_OFFSET \<le> poff r \<and> 28 \<le> unat (plen r) \<and>
       flat (r # rs) = flat w @ pad \<longrightarrow>
       (\<exists>p h'. ip_input eats (r # rs) inp h = Some ([to_udp (recv_callback j fn p (netif_ip n) (local_port x))], h') \<and>
          wf_chain p \<and> flat p = flat (q # c)))"
proof -
  obtain w ick ck u where w: "udp_sendto_if i (q # c) dst port n as ipid us = Some ((Inr dst, w, ipid + 1), us)" "wf_chain w"
    and u: "u = udp_hdr (local_port x) port (of_nat (8 + length (flat (q # c)))) ck @ flat (q # c)"
    and fw: "flat w = ip_hdr (IPH_VHLTOS 4 5 (tos x)) (of_nat (length u + 20)) ipid 0 (ttl x) IP_PROTO_UDP ick (netif_ip n) dst @ u"
    and k: "inet_chksum 0 (ip_hdr (IPH_VHLTOS 4 5 (tos x)) (of_nat (length u + 20)) ipid 0 (ttl x) IP_PROTO_UDP ick (netif_ip n) dst) = 0"
      "ck = 0 \<or> verifies (netif_ip n) dst u"
    by (rule udp_sent [OF sender packet])
  have "j \<in> set (udp_pcbs (udp_part h))"
    using udp_okD(3) [OF udp_run_ok [OF receiver(1)] block(1)] block(2,3) by simp
  moreover obtain e v where dm: "udp_demux inp (netif_ip n) dst (local_port x) port (udp_part h) = Some (e, v)"
    "pcb v = pcb (udp_part h)"
    "\<And>p. e = Some p \<longleftrightarrow> p \<in> set (udp_pcbs (udp_part h)) \<and> local_port (the (pcb (udp_part h) p)) = port \<and>
      (local_ip (the (pcb (udp_part h) p)) = 0 \<or> local_ip (the (pcb (udp_part h) p)) = dst) \<and>
      (unconnected (the (pcb (udp_part h) p)) \<or> remote_match (local_port x) (netif_ip n) (the (pcb (udp_part h) p)))"
    using demux_unicast [OF receiver(1,4,5,6,7), of "netif_ip n" "local_port x"] by blast
  ultimately have "e = Some j" using block by simp
  with dm have d: "udp_demux inp (netif_ip n) dst (local_port x) port (udp_part h) = Some (Some j, v)" "pcb v j = Some y"
    using block(1) by simp_all
  show ?thesis
  proof (rule exI [of _ w], intro conjI allI impI, rule w(1))
    fix r rs pad eats
    assume *: "wf_chain (r # rs) \<and> ptype r = PBUF_RAM \<and> EP_OFFSET \<le> poff r \<and> 28 \<le> unat (plen r) \<and>
      flat (r # rs) = flat w @ pad"
    then have "flat (r # rs) = ip_hdr (IPH_VHLTOS 4 5 (tos x)) (of_nat (length u + 20)) ipid 0 (ttl x) IP_PROTO_UDP ick
        (netif_ip n) dst @ u @ pad" by (simp only: fw append_assoc)
    from udp_received [OF _ _ _ _ u this k receiver(3,2,8) d block(6)] *
    show "\<exists>p h'. ip_input eats (r # rs) inp h = Some ([to_udp (recv_callback j fn p (netif_ip n) (local_port x))], h') \<and>
      wf_chain p \<and> flat p = flat (q # c)" by blast
  qed
qed

text \<open>Two hosts on one network, the second with a server on port 4096.\<close>

definition nif :: "u32 \<Rightarrow> lwnetif" where
  "nif a = \<lparr>netif_flags = 3, netif_ip = a, netif_mask = 0xffffff, nif_addr = 9, dhcp_pcb = None, dhcps_pcb = None\<rparr>"

definition server :: udp where
  "server = server_bound\<lparr>pcb := (pcb server_bound)(1 \<mapsto> (the (pcb server_bound 1))\<lparr>recv := Some (3, 4)\<rparr>)\<rparr>"

lemma server_run: "udp_run server"
proof -
  have "udp_do (call_recv 1 (Some (3, 4))) server_bound = Some server"
    by (simp add: server_def udp_recv_def set_pcb_def server_bound_def two_blocks_def udp_new_def)
  from udp_event [OF server_bound_run _ _ this] show ?thesis
    by (simp add: server_bound_def two_blocks_def udp_new_def failed_rebind_def)
qed

lemma udp_datagram_arrives_witness:
  "\<exists>w. udp_sendto_if 1 [small_packet] 0x0200000a 4096 (nif 0x0100000a) [] 0 server_bound =
    Some ((Inr 0x0200000a, w, 0 + 1), server_bound)"
proof -
  let ?h = "\<lparr>ifs = \<lparr>netif_list = [nif 0x0200000a], netif_default = None, getif0 = None\<rparr>, raw_pcbs = [],
    udp_part = server, groups = []\<rparr>"
  have us: "pcb server_bound 1 = Some (the (pcb server_bound 1))" "local_port (the (pcb server_bound 1)) \<noteq> 0"
    "local_ip (the (pcb server_bound 1)) = 0 \<or> local_ip (the (pcb server_bound 1)) = netif_ip (nif 0x0100000a)"
    by (simp_all add: server_bound_def two_blocks_def udp_new_def)
  have pk: "EP_OFFSET + IP_HLEN + UDP_HLEN \<le> poff small_packet" "length (flat [small_packet]) + IP_HLEN + UDP_HLEN < 65536"
    unfolding small_packet_ok by simp_all
  have bc: "\<not> ip_addr_isbroadcast 0x0200000a (nif 0x0200000a)" "\<not> ip_addr_ismulticast 0x0200000a"
    "netif_ip (nif 0x0100000a) = 0 \<or> \<not> ip_addr_isbroadcast (netif_ip (nif 0x0100000a)) (nif 0x0200000a) \<and>
      \<not> ip_addr_ismulticast (netif_ip (nif 0x0100000a))"
    by (simp_all add: ip_addr_isbroadcast_def netif.truncate_def ip4_addr_isbroadcast_def ip_addr_ismulticast_def nif_def)
  have us2: "for_us ?h (nif 0x0200000a) 0x0200000a"
    by (simp add: for_us_def bc(2) netif_accepts_def netif_is_up_def) (simp add: nif_def)
  have sv: "udp_run (udp_part ?h)" "raw_pcbs ?h = []" by (simp_all add: server_run)
  have bl: "pcb (udp_part ?h) 1 = Some (the (pcb server 1))" "local_port (the (pcb server 1)) = 4096"
    "(4096 :: u16) \<noteq> 0" "local_ip (the (pcb server 1)) = 0 \<or> local_ip (the (pcb server 1)) = 0x0200000a"
    "unconnected (the (pcb server 1)) \<or>
      remote_match (local_port (the (pcb server_bound 1))) (netif_ip (nif 0x0100000a)) (the (pcb server 1))"
    "recv (the (pcb server 1)) = Some (3, 4)"
    by (simp_all add: server_def server_bound_def two_blocks_def udp_new_def unconnected_def)
  have ports: "(4096 :: u16) \<noteq> DHCP_CLIENT_PORT" "(4096 :: u16) \<noteq> DHCP_SERVER_PORT" by simp_all
  from udp_datagram_arrives [OF us small_packet_ok(1,2) pk sv us2 bc(1,2) ports bc(3) bl, of "[]" 0]
  show ?thesis by blast
qed

section \<open>A header shorter than a header\<close>

text \<open>
  \<open>ip_input\<close> does not require the header length to be at least five words. A packet that claims two
  is accepted when the sum over its first eight bytes is right, and the bytes behind these, among
  them the protocol and both addresses, are protected by no checksum: \<open>ip_input\<close> acts on them.
\<close>

definition short_header :: "u8 list" where
  "short_header = [0x42, 0, 0, 28, 0xbd, 0xe3, 0, 0, 64, 1, 0, 0, 10, 0, 0, 1, 10, 0, 0, 2, 8, 0, 0, 0, 0, 0, 0, 0]"

lemma ip_short_header_accepted:
  "ip_input eats [ram_pbuf short_header] (nif 0x0200000a)
     \<lparr>ifs = \<lparr>netif_list = [], netif_default = None, getif0 = None\<rparr>, raw_pcbs = [], udp_part = server, groups = []\<rparr> =
   Some ([icmp_input [ram_pbuf short_header]],
     \<lparr>ifs = \<lparr>netif_list = [], netif_default = None, getif0 = None\<rparr>, raw_pcbs = [], udp_part = server, groups = []\<rparr>)"
  (is "_ = Some (_, ?h)")
proof -
  let ?p = "ram_pbuf short_header"
  have f: "from_be16 0x42 0 = 0x4200" "from_be16 0 28 = 28" "from_be16 0 0 = 0" by (simp_all add: from_be16_def)
  have v: "IPH_V [0x42, 0] = 4" "IPH_HL [0x42, 0] = 2" by (simp_all add: IPH_V_def IPH_HL_def f)
  have pk: "peek ?p 0 2 = Some [0x42, 0]" "peek ?p 2 2 = Some [0, 28]" "peek ?p 0 8 = Some (take 8 short_header)"
    "peek ?p 16 4 = Some [10, 0, 0, 2]" "peek ?p 12 4 = Some [10, 0, 0, 1]" "peek ?p 9 1 = Some [1]" "peek ?p 6 2 = Some [0, 0]"
    by (simp_all add: peek_def ram_pbuf_def short_header_def)
  have ck: "inet_chksum a (take 8 short_header) = 0" for a
    by (rule iffD2 [OF inet_chksum_zero_iff]) (simp_all add: short_header_def)
  have le: "le32 [10, 0, 0, 2] = 0x0200000a" "le32 [10, 0, 0, 1] = 0x0100000a" by (simp_all add: le32_def from_be16_def)
  have us: "for_us ?h (nif 0x0200000a) 0x0200000a"
    by (simp add: for_us_def ip_addr_ismulticast_def netif_accepts_def netif_is_up_def) (simp add: nif_def)
  have src: "\<not> ip_addr_isbroadcast 0x0100000a (nif 0x0200000a)" "\<not> ip_addr_ismulticast 0x0100000a"
    by (simp_all add: ip_addr_isbroadcast_def netif.truncate_def ip4_addr_isbroadcast_def ip_addr_ismulticast_def nif_def)
  have len: "plen ?p = 28" "tot_len ?p = 28" by (simp_all add: ram_pbuf_def short_header_def)
  have "ip_accept eats 8 [?p] (nif 0x0200000a) ?h = Some ([icmp_input [?p]], ?h)"
    by (simp add: ip_accept_def pk pk(6) [unfolded One_nat_def] le us src f ip_dispatch_def raw_input_def)
  moreover have "pbuf_realloc [?p] 28 = Some [?p]" by (simp add: pbuf_realloc_def len)
  ultimately show ?thesis by (simp add: ip_input_def pk v f ck len Let_def)
qed

end
