(* ===== verification/Etharp.thy ===== *)
theory Etharp
  imports IpInput
begin

text \<open>
  The ARP cache of the bundled lwIP (\<open>netif/etharp.c\<close>, \<open>include/netif/etharp.h\<close>): the table, its
  search and aging, the packets that wait for an address, the requests and replies, and
  \<open>ethernet_input\<close>. Static entries, VLAN tags and AutoIP are compiled out. \<open>None\<close> is an access
  outside the memory of a packet.
\<close>

section \<open>State\<close>

abbreviation "ARP_TABLE_SIZE \<equiv> 10 :: nat"
abbreviation "ARP_MAXAGE \<equiv> 240 :: u8"
abbreviation "ARP_AGE_REREQUEST_USED \<equiv> ARP_MAXAGE - 12"
abbreviation (input) "ARP_MAXPENDING \<equiv> 2 :: u8"
abbreviation (input) "ETHARP_FLAG_TRY_HARD \<equiv> 1 :: u8"
abbreviation (input) "ETHARP_FLAG_FIND_ONLY \<equiv> 2 :: u8"
abbreviation (input) "SIZEOF_ETH_HDR \<equiv> 14 :: nat"
abbreviation "SIZEOF_ETHARP_HDR \<equiv> 28 :: nat"
abbreviation "SIZEOF_ETHARP_PACKET \<equiv> SIZEOF_ETH_HDR + SIZEOF_ETHARP_HDR"
abbreviation "ETHTYPE_ARP \<equiv> 0x0806 :: u16"
abbreviation "ETHTYPE_IP \<equiv> 0x0800 :: u16"
abbreviation (input) "ARP_REQUEST \<equiv> 1 :: u16"
abbreviation (input) "ARP_REPLY \<equiv> 2 :: u16"
abbreviation "NETIF_FLAG_ETHARP \<equiv> 0x20 :: u8"

datatype etharp_state =
    ETHARP_STATE_EMPTY | ETHARP_STATE_PENDING | ETHARP_STATE_STABLE | ETHARP_STATE_STABLE_REREQUESTING

definition stable :: "etharp_state \<Rightarrow> bool" where
  "stable s \<longleftrightarrow> s = ETHARP_STATE_STABLE \<or> s = ETHARP_STATE_STABLE_REREQUESTING"

text \<open>The queue of an entry is the list of its packets; \<open>arp_netif\<close> is a pointer to an interface.\<close>

record etharp_entry =
  arp_q :: "pbuf list list"
  arp_ip :: u32
  arp_eth :: "u8 list"
  arp_netif :: "nat option"
  arp_state :: etharp_state
  ctime :: u8

text \<open>What leaves the module: frames given to the driver, packets freed, calls of the DHCP client.\<close>

datatype arp_event =
    link_out nat "pbuf list"
  | arp_freed "pbuf list"
  | dhcp_arp_reply u32

record arp =
  arp_table :: "etharp_entry list"
  etharp_cached_entry :: nat
  arp_log :: "arp_event list"

text \<open>An Ethernet interface: the part \<open>IP\<close> uses, its hardware address and its gateway.\<close>

record ethif =
  lif :: lwnetif
  hwaddr :: "u8 list"
  gw :: u32

definition ethbroadcast :: "u8 list" where
  "ethbroadcast = replicate 6 0xff"

definition ethzero :: "u8 list" where
  "ethzero = replicate 6 0"

definition arp_start :: arp where
  "arp_start = \<lparr>arp_table = replicate ARP_TABLE_SIZE \<lparr>arp_q = [], arp_ip = 0, arp_eth = ethzero, arp_netif = None,
     arp_state = ETHARP_STATE_EMPTY, ctime = 0\<rparr>, etharp_cached_entry = 0, arp_log = []\<rparr>"

definition set_entry :: "nat \<Rightarrow> etharp_entry \<Rightarrow> arp \<Rightarrow> arp" where
  "set_entry i e a = a\<lparr>arp_table := (arp_table a)[i := e]\<rparr>"

definition log_event :: "arp_event \<Rightarrow> arp \<Rightarrow> arp" where
  "log_event e a = a\<lparr>arp_log := arp_log a @ [e]\<rparr>"

section \<open>Aging\<close>

text \<open>The packets of a queue are freed in their order.\<close>

definition free_etharp_q :: "pbuf list list \<Rightarrow> arp \<Rightarrow> arp" where
  "free_etharp_q ps a = a\<lparr>arp_log := arp_log a @ map arp_freed ps\<rparr>"

definition free_entry :: "nat \<Rightarrow> arp \<Rightarrow> arp" where
  "free_entry i a =
     (let e = arp_table a ! i
      in set_entry i (e\<lparr>arp_q := [], arp_state := ETHARP_STATE_EMPTY\<rparr>) (free_etharp_q (arp_q e) a))"

text \<open>One round of the loop of \<open>etharp_tmr\<close>.\<close>

definition tmr_entry :: "nat \<Rightarrow> arp \<Rightarrow> arp" where
  "tmr_entry i a =
     (let e = arp_table a ! i in
      if arp_state e = ETHARP_STATE_EMPTY then a
      else
        let e = e\<lparr>ctime := ctime e + 1\<rparr>; a = set_entry i e a in
        if ARP_MAXAGE \<le> ctime e \<or> arp_state e = ETHARP_STATE_PENDING \<and> ARP_MAXPENDING \<le> ctime e then free_entry i a
        else if arp_state e = ETHARP_STATE_STABLE_REREQUESTING then set_entry i (e\<lparr>arp_state := ETHARP_STATE_STABLE\<rparr>) a
        else a)"

definition etharp_tmr :: "arp \<Rightarrow> arp" where
  "etharp_tmr a = fold tmr_entry [0..<ARP_TABLE_SIZE] a"

definition cleanup_entry :: "nat option \<Rightarrow> nat \<Rightarrow> arp \<Rightarrow> arp" where
  "cleanup_entry netif i a =
     (let e = arp_table a ! i in
      if arp_state e \<noteq> ETHARP_STATE_EMPTY \<and> arp_netif e = netif then free_entry i a else a)"

definition etharp_cleanup_netif :: "nat option \<Rightarrow> arp \<Rightarrow> arp" where
  "etharp_cleanup_netif netif a = fold (cleanup_entry netif) [0..<ARP_TABLE_SIZE] a"

section \<open>Searching\<close>

text \<open>
  What the sweep of \<open>find_entry\<close> remembers; \<open>ARP_TABLE_SIZE\<close> stands for none.
\<close>

record sweep =
  empty_at :: nat
  old_pending :: nat
  old_stable :: nat
  old_queue :: nat
  age_pending :: u8
  age_stable :: u8
  age_queue :: u8

definition sweep_start :: sweep where
  "sweep_start = \<lparr>empty_at = ARP_TABLE_SIZE, old_pending = ARP_TABLE_SIZE, old_stable = ARP_TABLE_SIZE,
     old_queue = ARP_TABLE_SIZE, age_pending = 0, age_stable = 0, age_queue = 0\<rparr>"

text \<open>A candidate of the sweep, for an entry that is not empty and does not match.\<close>

definition remember :: "nat \<Rightarrow> etharp_entry \<Rightarrow> sweep \<Rightarrow> sweep" where
  "remember i e w =
     (if arp_state e = ETHARP_STATE_PENDING then
        if arp_q e \<noteq> [] then
          if age_queue w \<le> ctime e then w\<lparr>old_queue := i, age_queue := ctime e\<rparr> else w
        else if age_pending w \<le> ctime e then w\<lparr>old_pending := i, age_pending := ctime e\<rparr> else w
      else if stable (arp_state e) then
        if age_stable w \<le> ctime e then w\<lparr>old_stable := i, age_stable := ctime e\<rparr> else w
      else w)"

fun find_sweep :: "u32 option \<Rightarrow> etharp_entry list \<Rightarrow> nat \<Rightarrow> sweep \<Rightarrow> nat + sweep" where
  "find_sweep ip [] i w = Inr w"
| "find_sweep ip (e # es) i w =
     (if empty_at w = ARP_TABLE_SIZE \<and> arp_state e = ETHARP_STATE_EMPTY
      then find_sweep ip es (Suc i) (w\<lparr>empty_at := i\<rparr>)
      else if arp_state e \<noteq> ETHARP_STATE_EMPTY then
        if ip = Some (arp_ip e) then Inl i else find_sweep ip es (Suc i) (remember i e w)
      else find_sweep ip es (Suc i) w)"

text \<open>The entry to take, when there is no match.\<close>

definition victim :: "sweep \<Rightarrow> nat" where
  "victim w =
     (if old_stable w < ARP_TABLE_SIZE then old_stable w
      else if old_pending w < ARP_TABLE_SIZE then old_pending w
      else old_queue w)"

text \<open>Taking an empty entry over for an address.\<close>

definition claim_entry :: "u32 option \<Rightarrow> nat \<Rightarrow> arp \<Rightarrow> (err_t + nat) \<times> arp" where
  "claim_entry ip i a =
     (let e = arp_table a ! i;
          e = (case ip of None \<Rightarrow> e | Some x \<Rightarrow> e\<lparr>arp_ip := x\<rparr>)
      in (Inr i, set_entry i (e\<lparr>ctime := 0\<rparr>) a))"

definition find_entry :: "u32 option \<Rightarrow> u8 \<Rightarrow> arp \<Rightarrow> (err_t + nat) \<times> arp" where
  "find_entry ip flags a =
     (case find_sweep ip (arp_table a) 0 sweep_start of
        Inl i \<Rightarrow> (Inr i, a)
      | Inr w \<Rightarrow>
          if flags AND ETHARP_FLAG_FIND_ONLY \<noteq> 0 \<or>
             empty_at w = ARP_TABLE_SIZE \<and> flags AND ETHARP_FLAG_TRY_HARD = 0 then (Inl ERR_MEM, a)
          else if empty_at w < ARP_TABLE_SIZE then claim_entry ip (empty_at w) a
          else if victim w < ARP_TABLE_SIZE then claim_entry ip (victim w) (free_entry (victim w) a)
          else (Inl ERR_MEM, a))"

definition etharp_find_addr :: "u32 option \<Rightarrow> arp \<Rightarrow> (nat \<times> u8 list \<times> u32) option \<times> arp" where
  "etharp_find_addr ip a =
     (case find_entry ip ETHARP_FLAG_FIND_ONLY a of
        (Inr i, a) \<Rightarrow>
          let e = arp_table a ! i in
          (if stable (arp_state e) then Some (i, arp_eth e, arp_ip e) else None, a)
      | (Inl _, a) \<Rightarrow> (None, a))"

section \<open>Sending frames\<close>

text \<open>
  The driver: \<open>link n\<close> is what \<open>linkoutput\<close> returns when \<open>n\<close> events have been logged before.
\<close>

definition linkoutput :: "(nat \<Rightarrow> err_t) \<Rightarrow> ethif \<Rightarrow> pbuf list \<Rightarrow> arp \<Rightarrow> err_t \<times> arp" where
  "linkoutput link n p a = (link (length (arp_log a)), log_event (link_out (nif_addr (lif n)) p) a)"

text \<open>The result of a function that sends a packet: its error, the packet afterwards, the state.\<close>

type_synonym arp_result = "err_t \<times> pbuf list \<times> arp"

definition eth_hdr :: "u8 list \<Rightarrow> u8 list \<Rightarrow> u16 \<Rightarrow> u8 list" where
  "eth_hdr dest src type = dest @ src @ be16 type"

definition etharp_send_ip ::
    "(nat \<Rightarrow> err_t) \<Rightarrow> ethif \<Rightarrow> pbuf list \<Rightarrow> u8 list \<Rightarrow> u8 list \<Rightarrow> arp \<Rightarrow> arp_result option" where
  "etharp_send_ip link n p src dst a =
     (case p of
        [] \<Rightarrow> None
      | q # c \<Rightarrow> do {
          q \<leftarrow> poke q 0 (eth_hdr dst src ETHTYPE_IP);
          Some (case linkoutput link n (q # c) a of (r, a) \<Rightarrow> (r, q # c, a))
        })"

text \<open>The loop that sends what waited for an address.\<close>

fun flush_queue ::
    "(nat \<Rightarrow> err_t) \<Rightarrow> ethif \<Rightarrow> u8 list \<Rightarrow> nat \<Rightarrow> pbuf list list \<Rightarrow> arp \<Rightarrow> arp option" where
  "flush_queue link n eth i [] a = Some a"
| "flush_queue link n eth i (p # ps) a = do {
     let a = set_entry i ((arp_table a ! i)\<lparr>arp_q := ps\<rparr>) a;
     (_, p, a) \<leftarrow> etharp_send_ip link n p (hwaddr n) eth a;
     flush_queue link n eth i ps (log_event (arp_freed p) a)
   }"

definition non_unicast :: "ethif \<Rightarrow> u32 \<Rightarrow> bool" where
  "non_unicast n ip \<longleftrightarrow> ip = 0 \<or> ip_addr_isbroadcast ip (lif n) \<or> ip_addr_ismulticast ip"

definition update_arp_entry ::
    "(nat \<Rightarrow> err_t) \<Rightarrow> ethif \<Rightarrow> u32 \<Rightarrow> u8 list \<Rightarrow> u8 \<Rightarrow> arp \<Rightarrow> (err_t \<times> arp) option" where
  "update_arp_entry link n ip eth flags a =
     (if non_unicast n ip then Some (ERR_ARG, a)
      else
        (case find_entry (Some ip) flags a of
           (Inl e, a) \<Rightarrow> Some (e, a)
         | (Inr i, a) \<Rightarrow>
             let e = arp_table a ! i;
                 e = e\<lparr>arp_state := ETHARP_STATE_STABLE, arp_eth := eth, ctime := 0\<rparr>
             in map_option (Pair ERR_OK) (flush_queue link n eth i (arp_q e) (set_entry i e a))))"

section \<open>Requests\<close>

text \<open>The body of an ARP packet behind the Ethernet header.\<close>

definition etharp_hdr :: "u16 \<Rightarrow> u8 list \<Rightarrow> u32 \<Rightarrow> u8 list \<Rightarrow> u32 \<Rightarrow> u8 list" where
  "etharp_hdr opcode shw sip dhw dip =
     be16 1 @ be16 ETHTYPE_IP @ [6, 4] @ be16 opcode @ shw @ ip4_bytes sip @ dhw @ ip4_bytes dip"

text \<open>\<open>as\<close> is the answer of the allocator.\<close>

definition etharp_raw ::
    "(nat \<Rightarrow> err_t) \<Rightarrow> ethif \<Rightarrow> u8 list \<Rightarrow> u8 list \<Rightarrow> u8 list \<Rightarrow> u32 \<Rightarrow> u8 list \<Rightarrow> u32 \<Rightarrow> u16 \<Rightarrow> answers \<Rightarrow> arp \<Rightarrow>
     (err_t \<times> arp) option" where
  "etharp_raw link n ethsrc ethdst hwsrc ipsrc hwdst ipdst opcode as a =
     (case pbuf_alloc PBUF_RAW (of_nat SIZEOF_ETHARP_PACKET) PBUF_RAM as of
        [] \<Rightarrow> Some (ERR_MEM, a)
      | q # c \<Rightarrow> do {
          q \<leftarrow> poke q 0 (eth_hdr ethdst ethsrc ETHTYPE_ARP @ etharp_hdr opcode hwsrc ipsrc hwdst ipdst);
          Some (case linkoutput link n (q # c) a of (r, a) \<Rightarrow> (r, log_event (arp_freed (q # c)) a))
        })"

definition etharp_request :: "(nat \<Rightarrow> err_t) \<Rightarrow> ethif \<Rightarrow> u32 \<Rightarrow> answers \<Rightarrow> arp \<Rightarrow> (err_t \<times> arp) option" where
  "etharp_request link n ip as a =
     etharp_raw link n (hwaddr n) ethbroadcast (hwaddr n) (netif_ip (lif n)) ethzero ip ARP_REQUEST as a"

section \<open>Output\<close>

text \<open>
  The copy of a packet that is to wait, unless all of it is in ROM; \<open>[]\<close> when memory is short. The
  length is taken from the first buffer that is not in ROM, where the loop has stopped.
\<close>

definition keep_packet :: "pbuf list \<Rightarrow> answers \<Rightarrow> pbuf list option" where
  "keep_packet q as =
     (case List.find (\<lambda>b. ptype b \<noteq> PBUF_ROM) q of
        Some b \<Rightarrow>
          (case pbuf_alloc PBUF_RAW (tot_len b) PBUF_RAM as of
             [] \<Rightarrow> Some []
           | p \<Rightarrow> map_option (\<lambda>(r, p). if r = ERR_OK then p else []) (pbuf_copy p q))
      | None \<Rightarrow> Some q)"

text \<open>A packet at the end of a queue of at most three: a longer one loses its first packet.\<close>

definition enqueue :: "nat \<Rightarrow> pbuf list \<Rightarrow> arp \<Rightarrow> arp" where
  "enqueue i p a =
     (let e = arp_table a ! i; old = arp_q e; new = old @ [p] in
      if 3 \<le> length old
      then log_event (arp_freed (hd new)) (set_entry i (e\<lparr>arp_q := tl new\<rparr>) a)
      else set_entry i (e\<lparr>arp_q := new\<rparr>) a)"

text \<open>
  \<open>rq\<close> and \<open>cp\<close> are the answers of the allocator for the request and for the copy, \<open>en\<close> whether
  there is memory for a queue entry; a null \<open>q\<close> is \<open>[]\<close>.
\<close>

definition etharp_query ::
    "(nat \<Rightarrow> err_t) \<Rightarrow> ethif \<Rightarrow> u32 \<Rightarrow> pbuf list \<Rightarrow> answers \<Rightarrow> answers \<Rightarrow> bool \<Rightarrow> arp \<Rightarrow> arp_result option" where
  "etharp_query link n ip q rq cp en a =
     (if non_unicast n ip then Some (ERR_ARG, q, a)
      else
        (case find_entry (Some ip) ETHARP_FLAG_TRY_HARD a of
           (Inl e, a) \<Rightarrow> Some (e, q, a)
         | (Inr i, a) \<Rightarrow> do {
             let e = arp_table a ! i;
             let a = (if arp_state e = ETHARP_STATE_EMPTY
                      then set_entry i (e\<lparr>arp_state := ETHARP_STATE_PENDING\<rparr>) a else a);
             let s = arp_state (arp_table a ! i);
             (result, a) \<leftarrow>
               (if s = ETHARP_STATE_PENDING \<or> q = [] then etharp_request link n ip rq a else Some (ERR_MEM, a));
             if q = [] then Some (result, q, a)
             else if stable s
             then etharp_send_ip link n q (hwaddr n) (arp_eth (arp_table a ! i)) (a\<lparr>etharp_cached_entry := i\<rparr>)
             else do {
               p \<leftarrow> keep_packet q cp;
               Some (if p = [] then (ERR_MEM, q, a)
                     else if en then (ERR_OK, q, enqueue i p a)
                     else (ERR_MEM, q, log_event (arp_freed p) a))
             }
           }))"

definition etharp_output_to_arp_index ::
    "(nat \<Rightarrow> err_t) \<Rightarrow> ethif \<Rightarrow> pbuf list \<Rightarrow> nat \<Rightarrow> answers \<Rightarrow> arp \<Rightarrow> arp_result option" where
  "etharp_output_to_arp_index link n q i rq a = do {
     let e = arp_table a ! i;
     a \<leftarrow>
       (if arp_state e = ETHARP_STATE_STABLE \<and> ARP_AGE_REREQUEST_USED \<le> ctime e then do {
          (r, a) \<leftarrow> etharp_request link n (arp_ip e) rq a;
          Some (if r = ERR_OK
                then set_entry i ((arp_table a ! i)\<lparr>arp_state := ETHARP_STATE_STABLE_REREQUESTING\<rparr>) a else a)
        } else Some a);
     etharp_send_ip link n q (hwaddr n) (arp_eth (arp_table a ! i)) a
   }"

definition ip_addr_islinklocal :: "u32 \<Rightarrow> bool" where
  "ip_addr_islinklocal ip \<longleftrightarrow> ip AND 0xffff = 0xfea9"

definition multicast_mac :: "u32 \<Rightarrow> u8 list" where
  "multicast_mac ip = [0x01, 0x00, 0x5e, octet ip 1 AND 0x7f, octet ip 2, octet ip 3]"

text \<open>The neighbour a packet is sent to: its destination or the gateway.\<close>

definition next_hop :: "ethif \<Rightarrow> u32 \<Rightarrow> u32 option" where
  "next_hop n ip =
     (if \<not> ip_addr_netcmp ip (netif_ip (lif n)) (netif_mask (lif n)) \<and> \<not> ip_addr_islinklocal ip
      then if gw n \<noteq> 0 then Some (gw n) else None
      else Some ip)"

definition resolved :: "u32 \<Rightarrow> etharp_entry \<Rightarrow> bool" where
  "resolved ip e \<longleftrightarrow> stable (arp_state e) \<and> arp_ip e = ip"

definition etharp_output ::
    "(nat \<Rightarrow> err_t) \<Rightarrow> ethif \<Rightarrow> pbuf list \<Rightarrow> u32 \<Rightarrow> answers \<Rightarrow> answers \<Rightarrow> bool \<Rightarrow> arp \<Rightarrow> arp_result option" where
  "etharp_output link n q ip rq cp en a = do {
     (bad, q) \<leftarrow> pbuf_header q (int SIZEOF_ETH_HDR);
     if bad \<noteq> 0 then Some (ERR_BUF, q, a)
     else if ip_addr_isbroadcast ip (lif n) then etharp_send_ip link n q (hwaddr n) ethbroadcast a
     else if ip_addr_ismulticast ip then etharp_send_ip link n q (hwaddr n) (multicast_mac ip) a
     else
       (case next_hop n ip of
          None \<Rightarrow> Some (ERR_RTE, q, a)
        | Some ip \<Rightarrow>
            if resolved ip (arp_table a ! etharp_cached_entry a)
            then etharp_output_to_arp_index link n q (etharp_cached_entry a) rq a
            else
              (case List.find (\<lambda>i. resolved ip (arp_table a ! i)) [0..<ARP_TABLE_SIZE] of
                 Some i \<Rightarrow> etharp_output_to_arp_index link n q i rq (a\<lparr>etharp_cached_entry := i\<rparr>)
               | None \<Rightarrow> etharp_query link n ip q rq cp en a))
   }"

section \<open>Input\<close>

definition etharp_ip_input :: "(nat \<Rightarrow> err_t) \<Rightarrow> ethif \<Rightarrow> pbuf list \<Rightarrow> arp \<Rightarrow> arp option" where
  "etharp_ip_input link n p a =
     (case p of
        [] \<Rightarrow> None
      | q # _ \<Rightarrow> do {
          src \<leftarrow> map_option le32 (peek q (SIZEOF_ETH_HDR + 12) 4);
          if \<not> ip_addr_netcmp src (netif_ip (lif n)) (netif_mask (lif n)) then Some a
          else do {
            mac \<leftarrow> peek q 6 6;
            map_option snd (update_arp_entry link n src mac ETHARP_FLAG_FIND_ONLY a)
          }
        })"

text \<open>The fields of an ARP packet, by their offset from the Ethernet header.\<close>

definition arp_wellformed :: "u8 list \<Rightarrow> bool" where
  "arp_wellformed b \<longleftrightarrow> take 2 (drop 14 b) = be16 1 \<and> b ! 18 = 6 \<and> b ! 19 = 4 \<and>
     take 2 (drop 16 b) = be16 ETHTYPE_IP \<and> take 2 (drop 12 b) = be16 ETHTYPE_ARP"

definition arp_opcode :: "u8 list \<Rightarrow> u16" where "arp_opcode b = from_be16 (b ! 20) (b ! 21)"
definition arp_shwaddr :: "u8 list \<Rightarrow> u8 list" where "arp_shwaddr b = take 6 (drop 22 b)"
definition arp_sipaddr :: "u8 list \<Rightarrow> u8 list" where "arp_sipaddr b = take 4 (drop 28 b)"
definition arp_dipaddr :: "u8 list \<Rightarrow> u8 list" where "arp_dipaddr b = take 4 (drop 38 b)"

text \<open>The reply is written into the packet, then copied and sent.\<close>

definition arp_answer ::
    "(nat \<Rightarrow> err_t) \<Rightarrow> ethif \<Rightarrow> u8 list \<Rightarrow> pbuf list \<Rightarrow> u8 list \<Rightarrow> answers \<Rightarrow> arp \<Rightarrow> (pbuf list \<times> arp) option" where
  "arp_answer link n eth p b as a =
     (case p of
        [] \<Rightarrow> None
      | q # c \<Rightarrow> do {
          q \<leftarrow> poke q 20 (be16 ARP_REPLY);
          q \<leftarrow> poke q 38 (arp_sipaddr b);
          q \<leftarrow> poke q 28 (ip4_bytes (netif_ip (lif n)));
          q \<leftarrow> poke q 32 (arp_shwaddr b);
          q \<leftarrow> poke q 0 (arp_shwaddr b);
          q \<leftarrow> poke q 22 eth;
          q \<leftarrow> poke q 6 eth;
          d \<leftarrow> (case pbuf_alloc PBUF_RAW (tot_len q) PBUF_RAM as of
                 [] \<Rightarrow> Some []
               | d \<Rightarrow> map_option snd (pbuf_copy d (q # c)));
          case linkoutput link n d a of (_, a) \<Rightarrow> Some (q # c, if d = [] then a else log_event (arp_freed d) a)
        })"

definition etharp_arp_input ::
    "(nat \<Rightarrow> err_t) \<Rightarrow> ethif \<Rightarrow> u8 list \<Rightarrow> pbuf list \<Rightarrow> answers \<Rightarrow> arp \<Rightarrow> arp option" where
  "etharp_arp_input link n eth p as a =
     (case p of
        [] \<Rightarrow> None
      | q # _ \<Rightarrow>
          if unat (plen q) < SIZEOF_ETHARP_PACKET then Some (log_event (arp_freed p) a)
          else do {
            b \<leftarrow> peek q 0 SIZEOF_ETHARP_PACKET;
            if \<not> arp_wellformed b then Some (log_event (arp_freed p) a)
            else do {
              let for_us = (netif_ip (lif n) \<noteq> 0 \<and> le32 (arp_dipaddr b) = netif_ip (lif n));
              (_, a) \<leftarrow> update_arp_entry link n (le32 (arp_sipaddr b)) (arp_shwaddr b)
                 (if for_us then ETHARP_FLAG_TRY_HARD else ETHARP_FLAG_FIND_ONLY) a;
              (p, a) \<leftarrow>
                (if arp_opcode b = ARP_REQUEST then
                   if for_us then arp_answer link n eth p b as a else Some (p, a)
                 else if arp_opcode b = ARP_REPLY then Some (p, log_event (dhcp_arp_reply (le32 (arp_sipaddr b))) a)
                 else Some (p, a));
              Some (log_event (arp_freed p) a)
            }
          })"

text \<open>The result is what \<open>ip_input\<close> logged, the host and the cache.\<close>

definition ethernet_input ::
    "(nat \<Rightarrow> err_t) \<Rightarrow> (nat \<Rightarrow> bool) \<Rightarrow> pbuf list \<Rightarrow> ethif \<Rightarrow> answers \<Rightarrow> host \<Rightarrow> arp \<Rightarrow>
     (ip_event list \<times> host \<times> arp) option" where
  "ethernet_input link eats p n as h a =
     (case p of
        [] \<Rightarrow> None
      | q # _ \<Rightarrow>
          if unat (plen q) \<le> SIZEOF_ETH_HDR then Some ([], h, log_event (arp_freed p) a)
          else do {
            t \<leftarrow> peek q 12 2;
            if t = be16 ETHTYPE_IP then
              if netif_flags (lif n) AND NETIF_FLAG_ETHARP = 0 then Some ([], h, log_event (arp_freed p) a)
              else do {
                a \<leftarrow> etharp_ip_input link n p a;
                (bad, p) \<leftarrow> pbuf_header p (- int SIZEOF_ETH_HDR);
                if bad \<noteq> 0 then Some ([], h, log_event (arp_freed p) a)
                else map_option (\<lambda>(ev, h). (ev, h, a)) (ip_input eats p (lif n) h)
              }
            else if t = be16 ETHTYPE_ARP then
              if netif_flags (lif n) AND NETIF_FLAG_ETHARP = 0 then Some ([], h, log_event (arp_freed p) a)
              else map_option (\<lambda>a. ([], h, a)) (etharp_arp_input link n (hwaddr n) p as a)
            else Some ([], h, log_event (arp_freed p) a)
          })"

section \<open>The invariant of the table\<close>

text \<open>
  An entry in use has an address that is not special and that no other entry has; only a pending
  entry has packets, at most three; and nobody ever sets the interface of an entry.
\<close>

definition used :: "etharp_entry \<Rightarrow> bool" where
  "used e \<longleftrightarrow> arp_state e \<noteq> ETHARP_STATE_EMPTY"

definition entry_ok :: "etharp_entry \<Rightarrow> bool" where
  "entry_ok e \<longleftrightarrow> arp_netif e = None \<and> length (arp_q e) \<le> 3 \<and>
     (used e \<longrightarrow> arp_ip e \<noteq> 0 \<and> \<not> ip_addr_ismulticast (arp_ip e)) \<and>
     (arp_state e = ETHARP_STATE_PENDING \<longrightarrow> ctime e < ARP_MAXPENDING) \<and>
     (stable (arp_state e) \<longrightarrow> ctime e < ARP_MAXAGE) \<and>
     (arp_state e \<noteq> ETHARP_STATE_PENDING \<longrightarrow> arp_q e = [])"

definition unique_ips :: "etharp_entry list \<Rightarrow> bool" where
  "unique_ips t \<longleftrightarrow> (\<forall>i < length t. \<forall>j < length t. used (t ! i) \<longrightarrow> used (t ! j) \<longrightarrow> arp_ip (t ! i) = arp_ip (t ! j) \<longrightarrow> i = j)"

definition arp_ok :: "arp \<Rightarrow> bool" where
  "arp_ok a \<longleftrightarrow> length (arp_table a) = ARP_TABLE_SIZE \<and> etharp_cached_entry a < ARP_TABLE_SIZE \<and>
     (\<forall>e \<in> set (arp_table a). entry_ok e) \<and> unique_ips (arp_table a)"

lemma stable_simps [simp]:
  "stable ETHARP_STATE_STABLE" "stable ETHARP_STATE_STABLE_REREQUESTING"
  "\<not> stable ETHARP_STATE_EMPTY" "\<not> stable ETHARP_STATE_PENDING"
  by (simp_all add: stable_def)

lemma used_cases: "used e \<longleftrightarrow> arp_state e = ETHARP_STATE_PENDING \<or> stable (arp_state e)"
  by (cases "arp_state e") (simp_all add: used_def)

lemma state_simps [simp]:
  "arp_table (set_entry i e a) = (arp_table a)[i := e]" "arp_log (set_entry i e a) = arp_log a"
  "etharp_cached_entry (set_entry i e a) = etharp_cached_entry a"
  "arp_table (log_event ev a) = arp_table a" "arp_log (log_event ev a) = arp_log a @ [ev]"
  "etharp_cached_entry (log_event ev a) = etharp_cached_entry a"
  "arp_table (free_etharp_q ps a) = arp_table a" "arp_log (free_etharp_q ps a) = arp_log a @ map arp_freed ps"
  "etharp_cached_entry (free_etharp_q ps a) = etharp_cached_entry a"
  by (simp_all add: set_entry_def log_event_def free_etharp_q_def)

lemma unique_update:
  assumes "unique_ips t" "\<And>j. used e \<Longrightarrow> j < length t \<Longrightarrow> j \<noteq> i \<Longrightarrow> used (t ! j) \<Longrightarrow> arp_ip (t ! j) \<noteq> arp_ip e"
  shows "unique_ips (t[i := e])"
  unfolding unique_ips_def
proof (intro allI impI)
  fix j k
  assume *: "j < length (t[i := e])" "k < length (t[i := e])" "used (t[i := e] ! j)" "used (t[i := e] ! k)"
    "arp_ip (t[i := e] ! j) = arp_ip (t[i := e] ! k)"
  show "j = k"
  proof (cases "j = i \<or> k = i")
    case True
    then show ?thesis using * assms(2) [of j] assms(2) [of k] by (auto simp: nth_list_update split: if_splits)
  next
    case False
    then show ?thesis using * assms(1) by (simp add: unique_ips_def)
  qed
qed

lemma arp_ok_set:
  assumes "arp_ok a" "entry_ok e"
    and "\<And>j. used e \<Longrightarrow> j < ARP_TABLE_SIZE \<Longrightarrow> j \<noteq> i \<Longrightarrow> used (arp_table a ! j) \<Longrightarrow> arp_ip (arp_table a ! j) \<noteq> arp_ip e"
  shows "arp_ok (set_entry i e a)"
  using assms unique_update [of "arp_table a" e i]
  by (auto simp: arp_ok_def dest!: set_update_subset_insert [THEN subsetD])

lemma arp_ok_entry: "arp_ok a \<Longrightarrow> i < ARP_TABLE_SIZE \<Longrightarrow> entry_ok (arp_table a ! i)"
  by (simp add: arp_ok_def)

lemma arp_ok_unique:
  "arp_ok a \<Longrightarrow> i < ARP_TABLE_SIZE \<Longrightarrow> j < ARP_TABLE_SIZE \<Longrightarrow> used (arp_table a ! i) \<Longrightarrow> used (arp_table a ! j) \<Longrightarrow>
    arp_ip (arp_table a ! i) = arp_ip (arp_table a ! j) \<Longrightarrow> i = j"
  by (simp add: arp_ok_def unique_ips_def)

text \<open>Storing an entry with the address it had, or an empty one.\<close>

lemma arp_ok_same:
  assumes "arp_ok a" "i < ARP_TABLE_SIZE" "entry_ok e"
    and "used e \<Longrightarrow> used (arp_table a ! i) \<and> arp_ip e = arp_ip (arp_table a ! i)"
  shows "arp_ok (set_entry i e a)"
proof (rule arp_ok_set [OF assms(1,3)])
  fix j assume "used e" "j < ARP_TABLE_SIZE" "j \<noteq> i" "used (arp_table a ! j)"
  then show "arp_ip (arp_table a ! j) \<noteq> arp_ip e"
    using arp_ok_unique [OF assms(1), of j i] assms(2,4) by auto
qed

lemma arp_ok_log [simp]: "arp_ok (log_event ev a) = arp_ok a" "arp_ok (free_etharp_q ps a) = arp_ok a"
  by (simp_all add: arp_ok_def)

lemma arp_ok_start: "arp_ok arp_start"
  by (simp add: arp_ok_def arp_start_def entry_ok_def used_def unique_ips_def)

lemma arp_ok_free: "arp_ok a \<Longrightarrow> i < ARP_TABLE_SIZE \<Longrightarrow> arp_ok (free_entry i a)"
  unfolding free_entry_def Let_def
  by (rule arp_ok_same) (use arp_ok_entry [of a i] in \<open>auto simp: entry_ok_def used_def\<close>)

section \<open>What the timer does\<close>

text \<open>One tick, as a function of the entry, and the packets that are freed.\<close>

definition expires :: "etharp_entry \<Rightarrow> bool" where
  "expires e \<longleftrightarrow> used e \<and> (ARP_MAXAGE \<le> ctime e + 1 \<or> arp_state e = ETHARP_STATE_PENDING \<and> ARP_MAXPENDING \<le> ctime e + 1)"

definition aged :: "etharp_entry \<Rightarrow> etharp_entry" where
  "aged e =
     (if \<not> used e then e
      else if expires e then e\<lparr>ctime := ctime e + 1, arp_q := [], arp_state := ETHARP_STATE_EMPTY\<rparr>
      else if arp_state e = ETHARP_STATE_STABLE_REREQUESTING then e\<lparr>ctime := ctime e + 1, arp_state := ETHARP_STATE_STABLE\<rparr>
      else e\<lparr>ctime := ctime e + 1\<rparr>)"

definition lost :: "etharp_entry \<Rightarrow> pbuf list list" where
  "lost e = (if expires e then arp_q e else [])"

lemma tmr_entry_aged:
  assumes "i < length (arp_table a)"
  shows "tmr_entry i a = free_etharp_q (lost (arp_table a ! i)) (set_entry i (aged (arp_table a ! i)) a)"
  using assms
  by (cases "arp_state (arp_table a ! i)")
    (simp_all add: tmr_entry_def Let_def free_entry_def aged_def expires_def lost_def used_def set_entry_def free_etharp_q_def)

lemma fold_tmr:
  assumes "n \<le> length (arp_table a)"
  shows "arp_table (fold tmr_entry [0..<n] a) = map aged (take n (arp_table a)) @ drop n (arp_table a) \<and>
    arp_log (fold tmr_entry [0..<n] a) = arp_log a @ map arp_freed (concat (map lost (take n (arp_table a)))) \<and>
    etharp_cached_entry (fold tmr_entry [0..<n] a) = etharp_cached_entry a"
  using assms
proof (induction n)
  case (Suc n)
  let ?b = "fold tmr_entry [0..<n] a"
  have IH: "arp_table ?b = map aged (take n (arp_table a)) @ drop n (arp_table a)"
    "arp_log ?b = arp_log a @ map arp_freed (concat (map lost (take n (arp_table a))))"
    "etharp_cached_entry ?b = etharp_cached_entry a" using Suc by simp_all
  have n: "n < length (arp_table a)" using Suc.prems by simp
  have e: "arp_table ?b ! n = arp_table a ! n" using n by (simp add: IH(1) nth_append)
  have "tmr_entry n ?b = free_etharp_q (lost (arp_table a ! n)) (set_entry n (aged (arp_table a ! n)) ?b)"
    using tmr_entry_aged [of n ?b] n by (simp add: e) (simp add: IH(1))
  then show ?case
    using n by (simp add: IH take_Suc_conv_app_nth list_update_append) (simp add: Cons_nth_drop_Suc [symmetric])
qed simp

lemma etharp_tmr_aged:
  assumes "length (arp_table a) = ARP_TABLE_SIZE"
  shows "arp_table (etharp_tmr a) = map aged (arp_table a)"
    "arp_log (etharp_tmr a) = arp_log a @ map arp_freed (concat (map lost (arp_table a)))"
    "etharp_cached_entry (etharp_tmr a) = etharp_cached_entry a"
  using fold_tmr [of ARP_TABLE_SIZE a] assms by (simp_all add: etharp_tmr_def)

lemma unat_Suc_u8: "c < (n :: u8) \<Longrightarrow> unat (c + 1) = Suc (unat c)"
proof -
  assume "c < n"
  moreover have "unat n < 256" using unsigned_less [of n, where ?'a = nat] by simp
  ultimately have "unat c + 1 < 256" by (simp only: word_less_nat_alt)
  then show ?thesis by (simp add: unat_word_ariths)
qed

lemma aged_simps [simp]: "arp_ip (aged e) = arp_ip e" "arp_eth (aged e) = arp_eth e" "used (aged e) \<longleftrightarrow> used e \<and> \<not> expires e"
  by (auto simp: aged_def used_def)

lemma aged_ok: "entry_ok e \<Longrightarrow> entry_ok (aged e)"
  by (cases "arp_state e") (auto simp: entry_ok_def aged_def expires_def used_def)

lemma etharp_tmr_ok: "arp_ok a \<Longrightarrow> arp_ok (etharp_tmr a)"
  using etharp_tmr_aged [of a] aged_ok by (auto simp: arp_ok_def unique_ips_def)

subsection \<open>Lifetimes\<close>

definition life :: "etharp_entry \<Rightarrow> nat" where
  "life e = (if arp_state e = ETHARP_STATE_PENDING then unat ARP_MAXPENDING else unat ARP_MAXAGE)"

lemma expires_iff: "entry_ok e \<Longrightarrow> used e \<Longrightarrow> expires e \<longleftrightarrow> life e \<le> Suc (unat (ctime e))"
  using unat_Suc_u8 [of "ctime e" ARP_MAXAGE] unat_Suc_u8 [of "ctime e" ARP_MAXPENDING]
  by (cases "arp_state e") (auto simp: entry_ok_def expires_def life_def used_def word_le_nat_alt word_less_nat_alt)

lemma aged_alive:
  assumes "entry_ok e" "used e" "\<not> expires e"
  shows "unat (ctime (aged e)) = Suc (unat (ctime e))" "life (aged e) = life e" "arp_q (aged e) = arp_q e"
    "stable (arp_state (aged e)) \<longleftrightarrow> stable (arp_state e)"
  using assms unat_Suc_u8 [of "ctime e" ARP_MAXAGE] unat_Suc_u8 [of "ctime e" ARP_MAXPENDING]
  by (cases "arp_state e"; simp add: aged_def life_def entry_ok_def used_def)+

lemma aged_steps:
  assumes "entry_ok e" "used e"
  shows "if unat (ctime e) + k < life e
    then entry_ok ((aged ^^ k) e) \<and> used ((aged ^^ k) e) \<and> unat (ctime ((aged ^^ k) e)) = unat (ctime e) + k \<and>
      life ((aged ^^ k) e) = life e \<and> arp_q ((aged ^^ k) e) = arp_q e \<and> stable (arp_state ((aged ^^ k) e)) = stable (arp_state e) \<and>
      arp_ip ((aged ^^ k) e) = arp_ip e \<and> arp_eth ((aged ^^ k) e) = arp_eth e
    else \<not> used ((aged ^^ k) e)"
proof (induction k)
  case 0
  have "unat (ctime e) < life e"
    using assms by (cases "arp_state e") (auto simp: entry_ok_def life_def used_def word_less_nat_alt)
  then show ?case using assms by simp
next
  case (Suc k)
  let ?e = "(aged ^^ k) e"
  show ?case
  proof (cases "unat (ctime e) + k < life e")
    case True
    then have "entry_ok ?e" "used ?e" and f: "unat (ctime ?e) = unat (ctime e) + k" "life ?e = life e" "arp_q ?e = arp_q e"
      "stable (arp_state ?e) = stable (arp_state e)" "arp_ip ?e = arp_ip e" "arp_eth ?e = arp_eth e"
      using Suc by simp_all
    then show ?thesis using expires_iff [of ?e] aged_alive [of ?e] aged_ok [of ?e] by auto
  next
    case False
    then show ?thesis using Suc by simp
  qed
qed

section \<open>What the search finds\<close>

text \<open>The oldest of the first \<open>k\<close> entries with a property, the last of several.\<close>

definition oldest :: "(etharp_entry \<Rightarrow> bool) \<Rightarrow> etharp_entry list \<Rightarrow> nat \<Rightarrow> nat \<Rightarrow> u8 \<Rightarrow> bool" where
  "oldest P t k i age \<longleftrightarrow>
     (if \<exists>j<k. P (t ! j) then i < k \<and> P (t ! i) \<and> ctime (t ! i) = age \<and> (\<forall>j<k. P (t ! j) \<longrightarrow> ctime (t ! j) \<le> age)
      else i = ARP_TABLE_SIZE \<and> age = 0)"

lemma oldest_take:
  "oldest P t k i age \<Longrightarrow> P (t ! k) \<Longrightarrow> age \<le> ctime (t ! k) \<Longrightarrow> oldest P t (Suc k) k (ctime (t ! k))"
  unfolding oldest_def by (auto simp: less_Suc_eq split: if_splits dest: order_trans)

lemma oldest_keep:
  "oldest P t k i age \<Longrightarrow> P (t ! k) \<longrightarrow> \<not> age \<le> ctime (t ! k) \<Longrightarrow> oldest P t (Suc k) i age"
  unfolding oldest_def by (auto simp: less_Suc_eq split: if_splits)

abbreviation "is_stable e \<equiv> stable (arp_state e)"
abbreviation "is_idle e \<equiv> arp_state e = ETHARP_STATE_PENDING \<and> arp_q e = []"
abbreviation "is_queue_entry e \<equiv> arp_state e = ETHARP_STATE_PENDING \<and> arp_q e \<noteq> []"

definition first_empty :: "etharp_entry list \<Rightarrow> nat \<Rightarrow> nat \<Rightarrow> bool" where
  "first_empty t k i \<longleftrightarrow>
     (if \<exists>j<k. \<not> used (t ! j) then i < k \<and> \<not> used (t ! i) \<and> (\<forall>j<i. used (t ! j)) else i = ARP_TABLE_SIZE)"

definition swept :: "etharp_entry list \<Rightarrow> nat \<Rightarrow> sweep \<Rightarrow> bool" where
  "swept t k w \<longleftrightarrow> first_empty t k (empty_at w) \<and> oldest is_stable t k (old_stable w) (age_stable w) \<and>
     oldest is_idle t k (old_pending w) (age_pending w) \<and> oldest is_queue_entry t k (old_queue w) (age_queue w)"

lemma swept_step:
  assumes "swept t k w" "k < ARP_TABLE_SIZE" "used (t ! k)"
  shows "swept t (Suc k) (remember k (t ! k) w)"
proof -
  have "first_empty t (Suc k) (empty_at w)"
    using assms(1,3) unfolding swept_def first_empty_def by (auto simp: less_Suc_eq split: if_splits)
  then show ?thesis
    using assms(1,3) by (auto simp: swept_def remember_def used_cases oldest_take oldest_keep)
qed

lemma swept_empty:
  assumes "swept t k w" "k < ARP_TABLE_SIZE" "\<not> used (t ! k)"
  shows "swept t (Suc k) (if empty_at w = ARP_TABLE_SIZE then w\<lparr>empty_at := k\<rparr> else w)"
  using assms by (auto simp: swept_def used_cases oldest_keep first_empty_def less_Suc_eq split: if_splits)

lemma find_sweep_spec:
  assumes "t = xs @ es" "length xs = k" "length t = ARP_TABLE_SIZE" "swept t k w"
  shows "case find_sweep ip es k w of
      Inl i \<Rightarrow> i < ARP_TABLE_SIZE \<and> used (t ! i) \<and> ip = Some (arp_ip (t ! i))
    | Inr w' \<Rightarrow> swept t ARP_TABLE_SIZE w' \<and> (\<forall>e \<in> set es. used e \<longrightarrow> ip \<noteq> Some (arp_ip e))"
  using assms
proof (induction es arbitrary: xs k w)
  case (Cons e es)
  have t: "t = (xs @ [e]) @ es" "t ! k = e" "k < ARP_TABLE_SIZE" using Cons.prems by (auto simp: nth_append)
  have l: "length (xs @ [e]) = Suc k" using Cons.prems(2) by simp
  show ?case
  proof (cases "used e")
    case True
    show ?thesis
    proof (cases "ip = Some (arp_ip e)")
      case False
      have "swept t (Suc k) (remember k e w)" using swept_step [OF Cons.prems(4) t(3)] True t(2) by simp
      then show ?thesis using Cons.IH [OF t(1) l Cons.prems(3)] True False by (fastforce simp: used_def split: sum.splits)
    qed (use True t in \<open>simp add: used_def\<close>)
  next
    case False
    have "swept t (Suc k) (if empty_at w = ARP_TABLE_SIZE then w\<lparr>empty_at := k\<rparr> else w)"
      using swept_empty [OF Cons.prems(4) t(3)] False t(2) by simp
    then show ?thesis using Cons.IH [OF t(1) l Cons.prems(3)] False by (fastforce simp: used_def split: sum.splits if_splits)
  qed
qed (simp)

lemma swept_start: "swept t 0 sweep_start"
  by (simp add: swept_def sweep_start_def first_empty_def oldest_def)

text \<open>
  The entry that is given up when the table is full: a stable one costs least, then a pending one
  without packets; among these the oldest. The choice always succeeds.
\<close>

definition worth :: "etharp_entry \<Rightarrow> nat" where
  "worth e = (if stable (arp_state e) then 0 else if arp_q e = [] then 1 else 2)"

lemma oldestD:
  assumes "oldest P t ARP_TABLE_SIZE i age" "j < ARP_TABLE_SIZE"
  shows "if i < ARP_TABLE_SIZE then P (t ! i) \<and> (P (t ! j) \<longrightarrow> ctime (t ! j) \<le> ctime (t ! i)) else \<not> P (t ! j)"
  using assms by (auto simp: oldest_def split: if_splits)

lemma victim_least:
  assumes "swept t ARP_TABLE_SIZE w" "empty_at w = ARP_TABLE_SIZE" "j < ARP_TABLE_SIZE"
  shows "victim w < ARP_TABLE_SIZE \<and> used (t ! victim w) \<and> (worth (t ! victim w) < worth (t ! j) \<or>
    worth (t ! victim w) = worth (t ! j) \<and> ctime (t ! j) \<le> ctime (t ! victim w))"
proof -
  have u: "used (t ! j)" using assms by (auto simp: swept_def first_empty_def split: if_splits)
  have o: "oldest is_stable t ARP_TABLE_SIZE (old_stable w) (age_stable w)"
    "oldest is_idle t ARP_TABLE_SIZE (old_pending w) (age_pending w)"
    "oldest is_queue_entry t ARP_TABLE_SIZE (old_queue w) (age_queue w)" using assms(1) by (simp_all add: swept_def)
  note d = oldestD [OF o(1) assms(3)] oldestD [OF o(2) assms(3)] oldestD [OF o(3) assms(3)]
  consider (s) "old_stable w < ARP_TABLE_SIZE"
    | (p) "\<not> old_stable w < ARP_TABLE_SIZE" "old_pending w < ARP_TABLE_SIZE"
    | (q) "\<not> old_stable w < ARP_TABLE_SIZE" "\<not> old_pending w < ARP_TABLE_SIZE" by blast
  then show ?thesis
    by cases (use d u assms(3) in \<open>auto simp: victim_def worth_def used_cases split: if_splits\<close>)
qed

subsection \<open>The table as a map\<close>

text \<open>What the cache means: for each address its entry, if it has one.\<close>

definition arp_map :: "arp \<Rightarrow> u32 \<Rightarrow> etharp_entry option" where
  "arp_map a ip = List.find (\<lambda>e. used e \<and> arp_ip e = ip) (arp_table a)"

lemma arp_map_iff:
  assumes "arp_ok a"
  shows "arp_map a ip = Some e \<longleftrightarrow> (\<exists>i<ARP_TABLE_SIZE. arp_table a ! i = e \<and> used e \<and> arp_ip e = ip)"
proof -
  have l: "length (arp_table a) = ARP_TABLE_SIZE" using assms by (simp add: arp_ok_def)
  show ?thesis
  proof
    assume "arp_map a ip = Some e"
    then show "\<exists>i<ARP_TABLE_SIZE. arp_table a ! i = e \<and> used e \<and> arp_ip e = ip"
      by (auto simp: arp_map_def find_Some_iff l)
  next
    assume "\<exists>i<ARP_TABLE_SIZE. arp_table a ! i = e \<and> used e \<and> arp_ip e = ip"
    then obtain i where i: "i < ARP_TABLE_SIZE" "arp_table a ! i = e" "used e" "arp_ip e = ip" by blast
    have "\<not> (used (arp_table a ! j) \<and> arp_ip (arp_table a ! j) = ip)" if "j < i" for j
      using arp_ok_unique [OF assms, of j i] that i by auto
    then show "arp_map a ip = Some e" using i by (auto simp: arp_map_def find_Some_iff l)
  qed
qed

lemma arp_map_None: "arp_ok a \<Longrightarrow> arp_map a ip = None \<longleftrightarrow> (\<forall>i<ARP_TABLE_SIZE. used (arp_table a ! i) \<longrightarrow> arp_ip (arp_table a ! i) \<noteq> ip)"
  using arp_map_iff [of a ip] by (metis not_None_eq)

text \<open>Storing an entry, seen through the map.\<close>

lemma arp_map_set:
  assumes a: "arp_ok a" and i: "i < ARP_TABLE_SIZE" and b: "arp_ok (set_entry i e a)"
  shows "arp_map (set_entry i e a) ip =
    (if used e \<and> arp_ip e = ip then Some e
     else if used (arp_table a ! i) \<and> arp_ip (arp_table a ! i) = ip then None
     else arp_map a ip)"
proof -
  let ?b = "set_entry i e a"
  have l: "length (arp_table a) = ARP_TABLE_SIZE" using a by (simp add: arp_ok_def)
  have n: "arp_table ?b ! j = (if j = i then e else arp_table a ! j)" if "j < ARP_TABLE_SIZE" for j
    using that l by (simp add: nth_list_update)
  consider (new) "used e \<and> arp_ip e = ip"
    | (old) "\<not> (used e \<and> arp_ip e = ip)" "used (arp_table a ! i) \<and> arp_ip (arp_table a ! i) = ip"
    | (other) "\<not> (used e \<and> arp_ip e = ip)" "\<not> (used (arp_table a ! i) \<and> arp_ip (arp_table a ! i) = ip)" by blast
  then show ?thesis
  proof cases
    case new
    then show ?thesis using arp_map_iff [OF b, of ip e] i n [OF i] by auto
  next
    case old
    have "arp_map ?b ip = None"
      unfolding arp_map_None [OF b] using n old arp_ok_unique [OF a, of _ i] i by metis
    then show ?thesis using old by auto
  next
    case other
    have "arp_map ?b ip = arp_map a ip"
    proof (cases "arp_map a ip")
      case None
      then have "arp_map ?b ip = None" using other n unfolding arp_map_None [OF a] arp_map_None [OF b] by metis
      then show ?thesis using None by simp
    next
      case (Some d)
      then have "arp_map ?b ip = Some d" using other n unfolding arp_map_iff [OF a] arp_map_iff [OF b] by metis
      then show ?thesis using Some by simp
    qed
    then show ?thesis using other by auto
  qed
qed

lemma arp_map_log [simp]: "arp_map (log_event ev a) = arp_map a" "arp_map (free_etharp_q ps a) = arp_map a"
  by (simp_all add: arp_map_def fun_eq_iff)

lemma arp_map_ok: "arp_ok a \<Longrightarrow> arp_map a ip = Some e \<Longrightarrow> entry_ok e \<and> used e \<and> arp_ip e = ip"
  using arp_map_iff [of a ip e] arp_ok_entry by blast

subsection \<open>Results of the search\<close>

lemma find_sweep_start:
  assumes "arp_ok a"
  shows "case find_sweep ip (arp_table a) 0 sweep_start of
      Inl i \<Rightarrow> i < ARP_TABLE_SIZE \<and> used (arp_table a ! i) \<and> ip = Some (arp_ip (arp_table a ! i))
    | Inr w \<Rightarrow> swept (arp_table a) ARP_TABLE_SIZE w \<and> (\<forall>e \<in> set (arp_table a). used e \<longrightarrow> ip \<noteq> Some (arp_ip e))"
  by (rule find_sweep_spec [of _ "[]"]) (use assms swept_start in \<open>simp_all add: arp_ok_def\<close>)

lemma find_hit:
  assumes a: "arp_ok a" and i: "i < ARP_TABLE_SIZE" "used (arp_table a ! i)" "arp_ip (arp_table a ! i) = ip"
  shows "find_entry (Some ip) flags a = (Inr i, a)"
proof (cases "find_sweep (Some ip) (arp_table a) 0 sweep_start")
  case (Inl j)
  then have "j < ARP_TABLE_SIZE \<and> used (arp_table a ! j) \<and> arp_ip (arp_table a ! j) = ip"
    using find_sweep_start [OF a, of "Some ip"] by simp
  then have "j = i" using arp_ok_unique [OF a, of j i] i by simp
  then show ?thesis by (simp add: find_entry_def Inl)
next
  case (Inr w)
  have "arp_table a ! i \<in> set (arp_table a)" using i(1) a by (simp add: arp_ok_def)
  then show ?thesis using find_sweep_start [OF a, of "Some ip"] i by (auto simp: Inr)
qed

lemma find_miss:
  assumes "arp_ok a" "arp_map a ip = None"
  obtains w where "find_sweep (Some ip) (arp_table a) 0 sweep_start = Inr w" "swept (arp_table a) ARP_TABLE_SIZE w"
  using find_sweep_start [OF assms(1), of "Some ip"] assms
  by (cases "find_sweep (Some ip) (arp_table a) 0 sweep_start") (auto simp: arp_map_None)

lemma find_only_miss: "arp_ok a \<Longrightarrow> arp_map a ip = None \<Longrightarrow> find_entry (Some ip) ETHARP_FLAG_FIND_ONLY a = (Inl ERR_MEM, a)"
  by (erule (1) find_miss) (simp add: find_entry_def)

text \<open>The table after an entry has been given up, if none was empty.\<close>

definition least :: "etharp_entry list \<Rightarrow> nat \<Rightarrow> bool" where
  "least t v \<longleftrightarrow> v < ARP_TABLE_SIZE \<and> (\<forall>j<ARP_TABLE_SIZE. worth (t ! v) < worth (t ! j) \<or>
     worth (t ! v) = worth (t ! j) \<and> ctime (t ! j) \<le> ctime (t ! v))"

definition made_room :: "arp \<Rightarrow> arp \<Rightarrow> bool" where
  "made_room a b \<longleftrightarrow>
     (if \<exists>j<ARP_TABLE_SIZE. \<not> used (arp_table a ! j) then b = a
      else \<exists>v. least (arp_table a) v \<and> b = free_entry v a)"

lemma find_hard_miss:
  assumes a: "arp_ok a" and miss: "arp_map a ip = None"
  obtains i b where "made_room a b" "i < ARP_TABLE_SIZE" "\<not> used (arp_table b ! i)"
    "find_entry (Some ip) ETHARP_FLAG_TRY_HARD a = (Inr i, set_entry i ((arp_table b ! i)\<lparr>arp_ip := ip, ctime := 0\<rparr>) b)"
proof -
  have l: "length (arp_table a) = ARP_TABLE_SIZE" using a by (simp add: arp_ok_def)
  obtain w where w: "find_sweep (Some ip) (arp_table a) 0 sweep_start = Inr w" "swept (arp_table a) ARP_TABLE_SIZE w"
    by (rule find_miss [OF a miss])
  have fe: "first_empty (arp_table a) ARP_TABLE_SIZE (empty_at w)" using w(2) by (simp add: swept_def)
  show thesis
  proof (cases "\<exists>j<ARP_TABLE_SIZE. \<not> used (arp_table a ! j)")
    case True
    then have e: "empty_at w < ARP_TABLE_SIZE" "\<not> used (arp_table a ! empty_at w)" using fe by (simp_all add: first_empty_def)
    show thesis
      by (rule that [of a "empty_at w"]) (use True e w(1) in \<open>simp_all add: made_room_def find_entry_def claim_entry_def Let_def\<close>)
  next
    case False
    then have e: "empty_at w = ARP_TABLE_SIZE" using fe by (simp add: first_empty_def)
    note v = victim_least [OF w(2) e]
    then have v0: "victim w < ARP_TABLE_SIZE" by fastforce
    have lst: "least (arp_table a) (victim w)" using v v0 by (simp add: least_def)
    have n: "\<not> used (arp_table (free_entry (victim w) a) ! victim w)" using v0 l by (simp add: free_entry_def Let_def used_def)
    show thesis
    proof (rule that [OF _ v0 n])
      show "made_room a (free_entry (victim w) a)"
        using False lst unfolding made_room_def if_not_P [OF False] by blast
      show "find_entry (Some ip) ETHARP_FLAG_TRY_HARD a = (Inr (victim w), set_entry (victim w)
          ((arp_table (free_entry (victim w) a) ! victim w)\<lparr>arp_ip := ip, ctime := 0\<rparr>) (free_entry (victim w) a))"
        using e v0 w(1) by (simp add: find_entry_def claim_entry_def Let_def)
    qed
  qed
qed

lemma made_room_ok: "arp_ok a \<Longrightarrow> made_room a b \<Longrightarrow> arp_ok b"
  using arp_ok_free by (auto simp: made_room_def least_def split: if_splits)

lemma arp_map_free:
  assumes "arp_ok a" "i < ARP_TABLE_SIZE"
  shows "arp_map (free_entry i a) ip = (if used (arp_table a ! i) \<and> arp_ip (arp_table a ! i) = ip then None else arp_map a ip)"
proof -
  let ?e = "(arp_table a ! i)\<lparr>arp_q := [], arp_state := ETHARP_STATE_EMPTY\<rparr>"
  have f: "free_entry i a = set_entry i ?e (free_etharp_q (arp_q (arp_table a ! i)) a)"
    by (simp add: free_entry_def Let_def)
  have ok: "arp_ok (set_entry i ?e (free_etharp_q (arp_q (arp_table a ! i)) a))"
    using arp_ok_free [OF assms] unfolding f .
  have "\<not> used ?e" by (simp add: used_def)
  then show ?thesis
    unfolding f using arp_map_set [OF _ assms(2) ok] assms(1) by simp
qed

text \<open>Making room changes nothing for an address but the one given up.\<close>

lemma made_room_map:
  assumes "arp_ok a" "made_room a b"
  shows "arp_map b = arp_map a \<or> (\<exists>x. arp_map b = (arp_map a)(x := None))"
proof (cases "\<exists>j<ARP_TABLE_SIZE. \<not> used (arp_table a ! j)")
  case False
  then obtain v where v: "least (arp_table a) v" "b = free_entry v a"
    using assms(2) unfolding made_room_def if_not_P [OF False] by blast
  then have "arp_map b = (arp_map a)(arp_ip (arp_table a ! v) := None)"
    using arp_map_free [OF assms(1), of v] False by (auto simp: least_def fun_eq_iff)
  then show ?thesis by blast
qed (use assms in \<open>simp add: made_room_def\<close>)

end
