(* ===== verification/ArpProps.thy ===== *)
theory ArpProps
  imports Etharp
begin

text \<open>
  What the ARP cache does over time: the invariant of all its runs, the lifetime of an entry, a
  packet that waits for an address, and a datagram on its whole way over Ethernet.
\<close>

section \<open>Frames\<close>

text \<open>A packet with an Ethernet header in its first buffer.\<close>

definition frame :: "pbuf list \<Rightarrow> bool" where
  "frame p \<longleftrightarrow> p \<noteq> [] \<and> wf_chain p \<and> SIZEOF_ETH_HDR \<le> unat (plen (hd p))"

text \<open>The frames given to the driver, as bytes.\<close>

fun wire :: "arp_event list \<Rightarrow> u8 list list" where
  "wire [] = []"
| "wire (link_out n p # l) = flat p # wire l"
| "wire (_ # l) = wire l"

lemma wire_append [simp]: "wire (l @ m) = wire l @ wire m"
  by (induction l rule: wire.induct) simp_all

lemma wire_freed [simp]: "wire (map arp_freed ps) = []"
  by (induction ps) simp_all

definition ip_frame :: "u8 list \<Rightarrow> u8 list \<Rightarrow> u8 list \<Rightarrow> u8 list" where
  "ip_frame dst src bs = eth_hdr dst src ETHTYPE_IP @ bs"

lemma length_eth_hdr: "length (eth_hdr d s t) = length d + length s + 2"
  by (simp add: eth_hdr_def)

lemma poke_frame:
  assumes "frame p" "length bs \<le> unat (plen (hd p))"
  obtains q where "poke (hd p) 0 bs = Some q" "frame (q # tl p)" "flat (q # tl p) = bs @ drop (length bs) (flat p)"
    "plen q = plen (hd p)" "ptype q = ptype (hd p)" "tot_len q = tot_len (hd p)"
proof -
  obtain x c where p: "p = x # c" using assms(1) by (cases p) (auto simp: frame_def)
  have wf: "wf_chain (x # c)" "wf_pbuf x" using assms(1) by (simp_all add: frame_def p)
  have l: "0 + length bs \<le> unat (plen x)" using assms(2) by (simp add: p)
  obtain q where q: "poke x 0 bs = Some q" "data q = blit (data x) 0 bs" "wf_pbuf q" "plen q = plen x"
    "tot_len q = tot_len x" "poff q = poff x" "ptype q = ptype x" by (rule poke_data [OF wf(2) l])
  have "wf_chain (q # c)" by (rule chain_head [OF wf(1) q(3-5)])
  then show thesis
    using that [of q] q assms(1) wf(2) l by (simp add: p frame_def blit_def)
qed

lemma send_frame:
  assumes "frame p" "length src = 6" "length dst = 6"
  obtains q where "etharp_send_ip link n p src dst a = Some (link (length (arp_log a)), q, log_event (link_out (nif_addr (lif n)) q) a)"
    "frame q" "flat q = ip_frame dst src (drop 14 (flat p))"
proof -
  let ?h = "eth_hdr dst src ETHTYPE_IP"
  have l: "length ?h = 14" using assms(2,3) by (simp add: length_eth_hdr)
  then have "length ?h \<le> unat (plen (hd p))" using assms(1) by (simp add: frame_def)
  then obtain q where q: "poke (hd p) 0 ?h = Some q" "frame (q # tl p)" "flat (q # tl p) = ?h @ drop 14 (flat p)"
    by (rule poke_frame [OF assms(1)]) (use l in simp)
  have "p = hd p # tl p" using assms(1) by (simp add: frame_def)
  then have "etharp_send_ip link n p src dst a =
      Some (link (length (arp_log a)), q # tl p, log_event (link_out (nif_addr (lif n)) (q # tl p)) a)"
    using q(1) by (cases p) (simp_all add: etharp_send_ip_def linkoutput_def)
  then show thesis by (rule that) (use q in \<open>simp_all add: ip_frame_def\<close>)
qed

text \<open>Everything that waited is sent in its order.\<close>

lemma flush_spec:
  assumes "\<forall>p \<in> set ps. frame p" "length (hwaddr n) = 6" "length eth = 6" "i < length (arp_table a)" "arp_q (arp_table a ! i) = ps"
  shows "\<exists>b. flush_queue link n eth i ps a = Some b \<and> arp_table b = (arp_table a)[i := (arp_table a ! i)\<lparr>arp_q := []\<rparr>] \<and>
    etharp_cached_entry b = etharp_cached_entry a \<and>
    wire (arp_log b) = wire (arp_log a) @ map (\<lambda>p. ip_frame eth (hwaddr n) (drop 14 (flat p))) ps"
  using assms
proof (induction ps arbitrary: a)
  case Nil
  have "(arp_table a ! i)\<lparr>arp_q := []\<rparr> = arp_table a ! i" using Nil.prems(5) by simp
  then show ?case by simp
next
  case (Cons p ps)
  let ?a = "set_entry i ((arp_table a ! i)\<lparr>arp_q := ps\<rparr>) a"
  obtain q where q: "etharp_send_ip link n p (hwaddr n) eth ?a =
      Some (link (length (arp_log ?a)), q, log_event (link_out (nif_addr (lif n)) q) ?a)"
    "flat q = ip_frame eth (hwaddr n) (drop 14 (flat p))"
    by (rule send_frame [where p = p and src = "hwaddr n" and dst = eth and link = link and n = n and a = ?a]) (use Cons.prems in auto)
  let ?b = "log_event (arp_freed q) (log_event (link_out (nif_addr (lif n)) q) ?a)"
  obtain b where b: "flush_queue link n eth i ps ?b = Some b" "arp_table b = (arp_table ?b)[i := (arp_table ?b ! i)\<lparr>arp_q := []\<rparr>]"
    "etharp_cached_entry b = etharp_cached_entry ?b"
    "wire (arp_log b) = wire (arp_log ?b) @ map (\<lambda>p. ip_frame eth (hwaddr n) (drop 14 (flat p))) ps"
    using Cons.IH [of ?b] Cons.prems by auto
  have "flush_queue link n eth i (p # ps) a = Some b" using q(1) b(1) by simp
  then show ?case using b(2-4) q(2) Cons.prems(4) by simp
qed

section \<open>Learning an address\<close>

text \<open>
  The invariant with the packets that wait, and what it says to the outside: the hardware address
  known for an address, and the packets waiting for one, as bytes.
\<close>

definition arp_inv :: "arp \<Rightarrow> bool" where
  "arp_inv a \<longleftrightarrow> arp_ok a \<and> (\<forall>e \<in> set (arp_table a). length (arp_eth e) = 6 \<and> (\<forall>p \<in> set (arp_q e). frame p))"

definition mac_of :: "arp \<Rightarrow> u32 \<Rightarrow> u8 list option" where
  "mac_of a ip = (case arp_map a ip of Some e \<Rightarrow> if stable (arp_state e) then Some (arp_eth e) else None | None \<Rightarrow> None)"

definition waiting :: "arp \<Rightarrow> u32 \<Rightarrow> u8 list list" where
  "waiting a ip = (case arp_map a ip of Some e \<Rightarrow> map (\<lambda>p. drop SIZEOF_ETH_HDR (flat p)) (arp_q e) | None \<Rightarrow> [])"

lemma arp_inv_ok [simp]: "arp_inv a \<Longrightarrow> arp_ok a"
  by (simp add: arp_inv_def)

lemma arp_inv_set:
  "arp_inv a \<Longrightarrow> arp_ok (set_entry i e a) \<Longrightarrow> length (arp_eth e) = 6 \<Longrightarrow> \<forall>p \<in> set (arp_q e). frame p \<Longrightarrow> arp_inv (set_entry i e a)"
  by (auto simp: arp_inv_def dest!: set_update_subset_insert [THEN subsetD])

lemma arp_inv_eth: "arp_inv a \<Longrightarrow> i < ARP_TABLE_SIZE \<Longrightarrow> length (arp_eth (arp_table a ! i)) = 6"
  by (simp add: arp_inv_def arp_ok_def)

lemma arp_inv_log [simp]: "arp_inv (log_event ev a) = arp_inv a" "arp_inv (free_etharp_q ps a) = arp_inv a"
  by (simp_all add: arp_inv_def)

lemma arp_inv_free: "arp_inv a \<Longrightarrow> i < ARP_TABLE_SIZE \<Longrightarrow> arp_inv (free_entry i a)"
  unfolding free_entry_def Let_def
  by (rule arp_inv_set) (use arp_ok_free [of a i] arp_inv_eth [of a i] in \<open>simp_all add: free_entry_def Let_def\<close>)

lemma made_room_inv: "arp_inv a \<Longrightarrow> made_room a b \<Longrightarrow> arp_inv b"
  using arp_inv_free by (auto simp: made_room_def least_def split: if_splits)

lemma made_room_wire: "made_room a b \<Longrightarrow> wire (arp_log b) = wire (arp_log a)"
  by (auto simp: made_room_def free_entry_def Let_def split: if_splits)

lemma non_unicast_ip: "\<not> non_unicast n ip \<Longrightarrow> ip \<noteq> 0 \<and> \<not> ip_addr_ismulticast ip"
  by (simp add: non_unicast_def)

text \<open>
  The entry that a search with \<open>TRY_HARD\<close> returns: that of the address, or a fresh one after room
  has been made.
\<close>

lemma find_hard:
  assumes a: "arp_inv a"
  obtains i b where "find_entry (Some ip) ETHARP_FLAG_TRY_HARD a = (Inr i, b)" "i < ARP_TABLE_SIZE" "arp_inv b"
    "arp_ip (arp_table b ! i) = ip" "wire (arp_log b) = wire (arp_log a)"
    "\<forall>j<ARP_TABLE_SIZE. used (arp_table b ! j) \<longrightarrow> arp_ip (arp_table b ! j) = ip \<longrightarrow> j = i"
    "case arp_map a ip of
       Some e \<Rightarrow> b = a \<and> arp_table a ! i = e
     | None \<Rightarrow> \<not> used (arp_table b ! i) \<and> ctime (arp_table b ! i) = 0 \<and> (\<exists>r. made_room a r \<and> arp_map b = arp_map r)"
proof (cases "arp_map a ip")
  case (Some e)
  then obtain i where i: "i < ARP_TABLE_SIZE" "arp_table a ! i = e" "used e" "arp_ip e = ip"
    using arp_map_iff [of a ip e] a by auto
  show thesis
  proof (rule that [of i a])
    show "find_entry (Some ip) ETHARP_FLAG_TRY_HARD a = (Inr i, a)" using find_hit [of a i ip] a i by simp
    show "\<forall>j<ARP_TABLE_SIZE. used (arp_table a ! j) \<longrightarrow> arp_ip (arp_table a ! j) = ip \<longrightarrow> j = i"
      using arp_ok_unique [of a _ i] a i by simp
  qed (use a i Some in simp_all)
next
  case None
  obtain i r where r: "made_room a r" "i < ARP_TABLE_SIZE" "\<not> used (arp_table r ! i)"
    "find_entry (Some ip) ETHARP_FLAG_TRY_HARD a = (Inr i, set_entry i ((arp_table r ! i)\<lparr>arp_ip := ip, ctime := 0\<rparr>) r)"
    using find_hard_miss [OF arp_inv_ok [OF a] None] by blast
  let ?e = "(arp_table r ! i)\<lparr>arp_ip := ip, ctime := 0\<rparr>"
  have ri: "arp_inv r" "arp_ok r" using made_room_inv [OF a r(1)] by simp_all
  have l: "length (arp_table r) = ARP_TABLE_SIZE" using ri(2) by (simp add: arp_ok_def)
  have ne: "\<not> used ?e" using r(3) by (simp add: used_def)
  have eo: "entry_ok ?e" using arp_ok_entry [OF ri(2) r(2)] r(3) by (auto simp: entry_ok_def used_cases used_def)
  have ok: "arp_ok (set_entry i ?e r)" by (rule arp_ok_same [OF ri(2) r(2) eo]) (use ne in simp)
  have miss: "arp_map r ip = None" using made_room_map [OF arp_inv_ok [OF a] r(1)] None by auto
  have mp: "arp_map (set_entry i ?e r) = arp_map r"
    using arp_map_set [OF ri(2) r(2) ok] ne r(3) by (simp add: fun_eq_iff)
  show thesis
  proof (rule that [OF r(4,2)])
    show "arp_inv (set_entry i ?e r)"
      by (rule arp_inv_set [OF ri(1) ok]) (use eo ne arp_inv_eth [OF ri(1) r(2)] in \<open>auto simp: entry_ok_def used_cases\<close>)
    show "\<forall>j<ARP_TABLE_SIZE. used (arp_table (set_entry i ?e r) ! j) \<longrightarrow> arp_ip (arp_table (set_entry i ?e r) ! j) = ip \<longrightarrow> j = i"
    proof (intro allI impI)
      fix j assume "j < ARP_TABLE_SIZE" "used (arp_table (set_entry i ?e r) ! j)" "arp_ip (arp_table (set_entry i ?e r) ! j) = ip"
      then show "j = i" using miss unfolding arp_map_None [OF ri(2)] by (cases "j = i") auto
    qed
    show "case arp_map a ip of
       Some e \<Rightarrow> set_entry i ?e r = a \<and> arp_table a ! i = e
     | None \<Rightarrow> \<not> used (arp_table (set_entry i ?e r) ! i) \<and> ctime (arp_table (set_entry i ?e r) ! i) = 0 \<and> (\<exists>r'. made_room a r' \<and> arp_map (set_entry i ?e r) = arp_map r')"
      using None ne l r(1,2) mp by auto
  qed (use l r(2) made_room_wire [OF r(1)] in simp_all)
qed

text \<open>Storing the hardware address and sending what waited.\<close>

definition learned :: "arp \<Rightarrow> u32 \<Rightarrow> u8 list \<Rightarrow> arp \<Rightarrow> bool" where
  "learned a ip mac b \<longleftrightarrow> mac_of b ip = Some mac \<and> waiting b ip = [] \<and>
     (\<exists>x. \<forall>y. y \<noteq> ip \<longrightarrow> y \<noteq> x \<longrightarrow> arp_map b y = arp_map a y)"

lemma arp_map_other:
  "made_room a r \<Longrightarrow> arp_ok a \<Longrightarrow> \<exists>x. \<forall>y. y \<noteq> x \<longrightarrow> arp_map r y = arp_map a y"
  using made_room_map [of a r] by auto

lemma update_found:
  assumes b: "arp_inv b" and i: "i < ARP_TABLE_SIZE" "arp_ip (arp_table b ! i) = ip"
      "\<forall>j<ARP_TABLE_SIZE. used (arp_table b ! j) \<longrightarrow> arp_ip (arp_table b ! j) = ip \<longrightarrow> j = i"
    and ip: "\<not> non_unicast n ip" and l: "length (hwaddr n) = 6" "length mac = 6"
  defines "e \<equiv> (arp_table b ! i)\<lparr>arp_state := ETHARP_STATE_STABLE, arp_eth := mac, ctime := 0\<rparr>"
  obtains c where "flush_queue link n mac i (arp_q e) (set_entry i e b) = Some c" "arp_inv c"
    "mac_of c ip = Some mac" "waiting c ip = []" "\<forall>y. y \<noteq> ip \<longrightarrow> arp_map c y = arp_map b y"
    "wire (arp_log c) = wire (arp_log b) @ map (\<lambda>p. ip_frame mac (hwaddr n) (drop SIZEOF_ETH_HDR (flat p))) (arp_q (arp_table b ! i))"
proof -
  have lb: "length (arp_table b) = ARP_TABLE_SIZE" and okb: "arp_ok b" using b by (simp_all add: arp_ok_def arp_inv_def)
  have "arp_table b ! i \<in> set (arp_table b)" using i(1) lb by simp
  then have fr: "\<forall>p \<in> set (arp_q e). frame p" using b by (auto simp: arp_inv_def e_def)
  obtain c where c: "flush_queue link n mac i (arp_q e) (set_entry i e b) = Some c"
    "arp_table c = (arp_table (set_entry i e b))[i := (arp_table (set_entry i e b) ! i)\<lparr>arp_q := []\<rparr>]"
    "etharp_cached_entry c = etharp_cached_entry (set_entry i e b)"
    "wire (arp_log c) = wire (arp_log (set_entry i e b)) @ map (\<lambda>p. ip_frame mac (hwaddr n) (drop 14 (flat p))) (arp_q e)"
    using flush_spec [OF fr l, of i "set_entry i e b" link] i(1) lb by auto
  let ?d = "e\<lparr>arp_q := []\<rparr>"
  have t: "arp_table c = arp_table (set_entry i ?d b)" using c(2) i(1) lb by simp
  have d: "used ?d" "arp_ip ?d = ip" by (simp_all add: e_def used_def i(2))
  have eo: "entry_ok ?d"
    using arp_ok_entry [OF okb i(1)] non_unicast_ip [OF ip] i(2) by (simp add: entry_ok_def e_def)
  have ok: "arp_ok (set_entry i ?d b)" by (rule arp_ok_set [OF okb eo]) (use i(3) d(2) in blast)
  have iv: "arp_inv (set_entry i ?d b)" by (rule arp_inv_set [OF b ok]) (simp_all add: e_def l(2))
  have m: "arp_map c y = arp_map (set_entry i ?d b) y" for y by (simp add: arp_map_def t)
  have mi: "arp_map c ip = Some ?d" unfolding m using arp_map_set [OF okb i(1) ok] d by simp
  show thesis
  proof (rule that [OF c(1)])
    show "arp_inv c" using iv c(3) t by (simp add: arp_inv_def arp_ok_def)
    show "mac_of c ip = Some mac" "waiting c ip = []" by (simp_all add: mac_of_def waiting_def mi) (simp_all add: e_def)
    show "\<forall>y. y \<noteq> ip \<longrightarrow> arp_map c y = arp_map b y"
      unfolding m using arp_map_set [OF okb i(1) ok] d i(2) by auto
  qed (use c(4) in \<open>simp add: e_def\<close>)
qed

lemma update_hard:
  assumes a: "arp_inv a" and ip: "\<not> non_unicast n ip" and l: "length (hwaddr n) = 6" "length mac = 6"
  obtains c where "update_arp_entry link n ip mac ETHARP_FLAG_TRY_HARD a = Some (ERR_OK, c)" "arp_inv c" "learned a ip mac c"
    "wire (arp_log c) = wire (arp_log a) @ map (ip_frame mac (hwaddr n)) (waiting a ip)"
proof -
  obtain i b where f: "find_entry (Some ip) ETHARP_FLAG_TRY_HARD a = (Inr i, b)" "i < ARP_TABLE_SIZE" "arp_inv b"
    "arp_ip (arp_table b ! i) = ip" "wire (arp_log b) = wire (arp_log a)"
    and u: "\<forall>j<ARP_TABLE_SIZE. used (arp_table b ! j) \<longrightarrow> arp_ip (arp_table b ! j) = ip \<longrightarrow> j = i"
    and cs: "case arp_map a ip of
       Some e \<Rightarrow> b = a \<and> arp_table a ! i = e
     | None \<Rightarrow> \<not> used (arp_table b ! i) \<and> ctime (arp_table b ! i) = 0 \<and> (\<exists>r. made_room a r \<and> arp_map b = arp_map r)"
    by (rule find_hard [OF a, of ip])
  let ?e = "(arp_table b ! i)\<lparr>arp_state := ETHARP_STATE_STABLE, arp_eth := mac, ctime := 0\<rparr>"
  obtain c where c: "flush_queue link n mac i (arp_q ?e) (set_entry i ?e b) = Some c" "arp_inv c"
    "mac_of c ip = Some mac" "waiting c ip = []" "\<forall>y. y \<noteq> ip \<longrightarrow> arp_map c y = arp_map b y"
    "wire (arp_log c) = wire (arp_log b) @ map (\<lambda>p. ip_frame mac (hwaddr n) (drop SIZEOF_ETH_HDR (flat p))) (arp_q (arp_table b ! i))"
    by (rule update_found [OF f(3,2,4) u ip l, of link])
  have w: "map (\<lambda>p. drop SIZEOF_ETH_HDR (flat p)) (arp_q (arp_table b ! i)) = waiting a ip"
  proof (cases "arp_map a ip")
    case None
    then have "arp_q (arp_table b ! i) = []"
      using cs arp_ok_entry [of b i] f(2,3) by (auto simp: entry_ok_def used_cases)
    then show ?thesis by (simp add: waiting_def None)
  qed (use cs in \<open>simp add: waiting_def\<close>)
  have up: "update_arp_entry link n ip mac ETHARP_FLAG_TRY_HARD a = Some (ERR_OK, c)"
    using ip f(1) c(1) by (simp add: update_arp_entry_def Let_def)
  have "\<exists>x. \<forall>y. y \<noteq> x \<longrightarrow> arp_map b y = arp_map a y"
    using cs arp_map_other [OF _ arp_inv_ok [OF a]] by (cases "arp_map a ip") auto
  then have "learned a ip mac c" using c(3-5) by (auto simp: learned_def)
  moreover have "wire (arp_log c) = wire (arp_log a) @ map (ip_frame mac (hwaddr n)) (waiting a ip)"
    using c(6) f(5) unfolding w [symmetric] by simp
  ultimately show thesis using that [OF up c(2)] by blast
qed

lemma update_only:
  assumes a: "arp_inv a" and l: "length (hwaddr n) = 6" "length mac = 6"
  obtains r c where "update_arp_entry link n ip mac ETHARP_FLAG_FIND_ONLY a = Some (r, c)" "arp_inv c"
    "if arp_map a ip \<noteq> None \<and> \<not> non_unicast n ip
     then r = ERR_OK \<and> learned a ip mac c \<and> wire (arp_log c) = wire (arp_log a) @ map (ip_frame mac (hwaddr n)) (waiting a ip)
     else c = a"
proof (cases "arp_map a ip \<noteq> None \<and> \<not> non_unicast n ip")
  case False
  then have "\<exists>r. update_arp_entry link n ip mac ETHARP_FLAG_FIND_ONLY a = Some (r, a)"
    using find_only_miss [OF arp_inv_ok [OF a], of ip] by (cases "non_unicast n ip") (auto simp: update_arp_entry_def)
  then show thesis using that a unfolding if_not_P [OF False] by blast
next
  case True
  then obtain i where i: "i < ARP_TABLE_SIZE" "used (arp_table a ! i)" "arp_ip (arp_table a ! i) = ip"
    using arp_map_None [OF arp_inv_ok [OF a], of ip] by auto
  have "find_entry (Some ip) ETHARP_FLAG_FIND_ONLY a = (Inr i, a)" "find_entry (Some ip) ETHARP_FLAG_TRY_HARD a = (Inr i, a)"
    using find_hit [OF arp_inv_ok [OF a] i] by simp_all
  then have e: "update_arp_entry link n ip mac ETHARP_FLAG_FIND_ONLY a = update_arp_entry link n ip mac ETHARP_FLAG_TRY_HARD a"
    by (simp add: update_arp_entry_def)
  obtain c where "update_arp_entry link n ip mac ETHARP_FLAG_TRY_HARD a = Some (ERR_OK, c)" "arp_inv c" "learned a ip mac c"
    "wire (arp_log c) = wire (arp_log a) @ map (ip_frame mac (hwaddr n)) (waiting a ip)"
    by (rule update_hard [OF a _ l]) (use True in blast)
  then show thesis using that [of ERR_OK c] True by (simp add: e)
qed

section \<open>Asking for an address\<close>

text \<open>There is memory for the next request.\<close>

definition given :: "answers \<Rightarrow> bool" where
  "given as \<longleftrightarrow> (case as of Some _ # _ \<Rightarrow> True | _ \<Rightarrow> False)"

lemma alloc_ram:
  assumes "serves PBUF_RAW n PBUF_RAM as"
  shows "if given as
    then \<exists>q. pbuf_alloc PBUF_RAW n PBUF_RAM as = [q] \<and> wf_chain [q] \<and> plen q = n \<and> tot_len q = n \<and> ptype q = PBUF_RAM
    else pbuf_alloc PBUF_RAW n PBUF_RAM as = []"
proof (cases "given as")
  case True
  then obtain x bs l where as: "as = Some (x, bs) # l" by (auto simp: given_def split: list.splits option.splits)
  define q where "q = \<lparr>addr = x, room = bs, poff = LWIP_MEM_ALIGN_SIZE (layer_offset PBUF_RAW), tot_len = n, plen = n,
    ptype = PBUF_RAM\<rparr>"
  have e: "pbuf_alloc PBUF_RAW n PBUF_RAM as = [q]" by (simp add: pbuf_alloc_def as q_def)
  have "wf_chain [q]" using pbuf_alloc_wf [OF assms] unfolding e by blast
  moreover have "plen q = n" "tot_len q = n" "ptype q = PBUF_RAM" by (simp_all add: q_def)
  ultimately show ?thesis using e unfolding if_P [OF True] by blast
next
  case False
  then show ?thesis by (auto simp: given_def pbuf_alloc_def split: list.splits option.splits)
qed

definition request :: "ethif \<Rightarrow> u32 \<Rightarrow> u8 list" where
  "request n ip = eth_hdr ethbroadcast (hwaddr n) ETHTYPE_ARP @
     etharp_hdr ARP_REQUEST (hwaddr n) (netif_ip (lif n)) ethzero ip"

lemma length_etharp_hdr: "length (etharp_hdr op shw sip dhw dip) = 16 + length shw + length dhw"
  by (simp add: etharp_hdr_def)

lemma request_spec:
  assumes "serves PBUF_RAW (of_nat SIZEOF_ETHARP_PACKET) PBUF_RAM as" "length (hwaddr n) = 6"
  obtains r b where "etharp_request link n ip as a = Some (r, b)" "arp_table b = arp_table a"
    "etharp_cached_entry b = etharp_cached_entry a"
    "wire (arp_log b) = wire (arp_log a) @ (if given as then [request n ip] else [])"
    "\<not> given as \<Longrightarrow> r \<noteq> ERR_OK"
proof (cases "given as")
  case True
  let ?h = "eth_hdr ethbroadcast (hwaddr n) ETHTYPE_ARP @ etharp_hdr ARP_REQUEST (hwaddr n) (netif_ip (lif n)) ethzero ip"
  obtain q where q: "pbuf_alloc PBUF_RAW (of_nat SIZEOF_ETHARP_PACKET) PBUF_RAM as = [q]" "wf_chain [q]" "plen q = of_nat SIZEOF_ETHARP_PACKET"
    using alloc_ram [OF assms(1)] True by auto
  have lh: "length ?h = 42" using assms(2) by (simp add: length_eth_hdr length_etharp_hdr ethbroadcast_def ethzero_def)
  have lq: "unat (plen q) = 42" by (simp add: q(3))
  have fr: "frame [q]" using q(2) lq by (simp add: frame_def)
  obtain x where x: "poke (hd [q]) 0 ?h = Some x" "frame (x # tl [q])" "flat (x # tl [q]) = ?h @ drop (length ?h) (flat [q])"
    by (rule poke_frame [OF fr, of ?h]) (use lh lq in simp)
  have "length (flat [q]) = 42" using q(2) lq by simp
  then have "flat [x] = ?h" using x(3) lh by simp
  then show thesis
    using that [of "link (length (arp_log a))" "log_event (arp_freed [x]) (log_event (link_out (nif_addr (lif n)) [x]) a)"]
      True q(1) x(1) by (simp add: etharp_request_def etharp_raw_def linkoutput_def request_def)
next
  case False
  have "pbuf_alloc PBUF_RAW (of_nat SIZEOF_ETHARP_PACKET) PBUF_RAM as = []" using alloc_ram [OF assms(1)] False by simp
  then show thesis using that [of ERR_MEM a] False by (simp add: etharp_request_def etharp_raw_def)
qed

section \<open>Packets that wait\<close>

lemma copy_chain_shape: "copy_chain to ot from off = Some (r, d) \<Longrightarrow> map plen d = map plen to"
proof (induction "length to + length from" arbitrary: to ot "from" off r d rule: less_induct)
  case less
  have IH: "map plen d' = map plen to'"
    if "copy_chain to' ot' from' off' = Some (r', d')" "length to' + length from' < length to + length from"
    for to' ot' from' off' r' d' using less.hyps that by blast
  show ?case
  proof (cases "to = [] \<or> from = []")
    case True
    then show ?thesis using less.prems by (cases to; cases "from") auto
  next
    case False
    then obtain p t q f where tf: "to = p # t" "from = q # f" by (meson neq_Nil_conv)
    from less.prems show ?thesis
      unfolding tf copy_chain.simps Let_def
      by (auto simp: tf split: option.splits if_splits dest!: IH)
  qed
qed

text \<open>A packet that can be copied: no buffer is empty, and the first is not in ROM.\<close>

definition copyable :: "pbuf list \<Rightarrow> bool" where
  "copyable q \<longleftrightarrow> (\<forall>b \<in> set q. 0 < plen b) \<and> ptype (hd q) \<noteq> PBUF_ROM"

lemma keep_spec:
  assumes "frame q" "copyable q" "serves PBUF_RAW (tot_len (hd q)) PBUF_RAM as"
  obtains p where "keep_packet q as = Some p" "if given as then frame p \<and> flat p = flat q else p = []"
proof -
  obtain x c where q: "q = x # c" using assms(1) by (cases q) (auto simp: frame_def)
  have f: "List.find (\<lambda>b. ptype b \<noteq> PBUF_ROM) q = Some x" using assms(2) by (simp add: q copyable_def)
  have wf: "wf_chain q" "unat (tot_len x) = length (flat q)" "14 \<le> unat (plen x)" "wf_pbuf x"
    using assms(1) by (simp_all add: frame_def q)
  show thesis
  proof (cases "given as")
    case False
    then have "pbuf_alloc PBUF_RAW (tot_len x) PBUF_RAM as = []" using alloc_ram [OF assms(3)] by (simp add: q)
    then show thesis using that [of "[]"] f False by (simp add: keep_packet_def)
  next
    case True
    then obtain y where y: "pbuf_alloc PBUF_RAW (tot_len x) PBUF_RAM as = [y]" "wf_chain [y]" "plen y = tot_len x" "tot_len y = tot_len x"
      using alloc_ram [OF assms(3)] by (auto simp: q)
    have ly: "length (flat [y]) = length (flat q)" "14 \<le> unat (plen y)" "0 < plen y"
      using y(2,3) wf by (simp_all add: q word_less_nat_alt)
    obtain d where d: "pbuf_copy [y] q = Some (ERR_OK, d)" "wf_chain d"
      "flat d = flat q @ drop (length (flat q)) (flat [y])"
      using pbuf_copy_spec [OF y(2) wf(1)] assms(2) ly by (auto simp: copyable_def q)
    have "pbuf_copy [y] q = copy_chain [y] 0 q 0" by (simp add: pbuf_copy_def q y(4))
    then have "map plen d = [plen y]" using d(1) copy_chain_shape [of "[y]" 0 q 0 ERR_OK d] by simp
    then have "frame d" using d(2) ly(2) by (auto simp: frame_def)
    moreover have "flat d = flat q" using d(3) ly(1) by simp
    moreover have "keep_packet q as = Some d" using f y(1) d(1) by (simp add: keep_packet_def)
    ultimately show thesis using that [of d] True by simp
  qed
qed

definition last3 :: "'a list \<Rightarrow> 'a list" where
  "last3 xs = drop (length xs - 3) xs"

lemma enqueue_spec:
  assumes a: "arp_inv a" and i: "i < ARP_TABLE_SIZE" "arp_state (arp_table a ! i) = ETHARP_STATE_PENDING" and p: "frame p"
  shows "arp_inv (enqueue i p a)" "wire (arp_log (enqueue i p a)) = wire (arp_log a)"
    "waiting (enqueue i p a) (arp_ip (arp_table a ! i)) = last3 (waiting a (arp_ip (arp_table a ! i)) @ [drop SIZEOF_ETH_HDR (flat p)])"
    "mac_of (enqueue i p a) = mac_of a" "y \<noteq> arp_ip (arp_table a ! i) \<Longrightarrow> arp_map (enqueue i p a) y = arp_map a y"
proof -
  let ?e = "arp_table a ! i"
  define qs where "qs = last3 (arp_q ?e @ [p])"
  let ?b = "set_entry i (?e\<lparr>arp_q := qs\<rparr>) a"
  have ok: "arp_ok a" using a by simp
  have eo: "entry_ok ?e" by (rule arp_ok_entry [OF ok i(1)])
  have u: "used ?e" using i(2) by (simp add: used_def)
  have l3: "length (arp_q ?e) \<le> 3" using eo by (simp add: entry_ok_def)
  have "length qs \<le> 3" by (simp add: qs_def last3_def)
  then have eo': "entry_ok (?e\<lparr>arp_q := qs\<rparr>)" using eo i(2) by (simp add: entry_ok_def used_def)
  have okb: "arp_ok ?b" by (rule arp_ok_same [OF ok i(1) eo']) (simp add: used_def i(2))
  have "?e \<in> set (arp_table a)" using i(1) ok by (simp add: arp_ok_def)
  then have "\<forall>p \<in> set (arp_q ?e). frame p" using a by (auto simp: arp_inv_def)
  then have "\<forall>p \<in> set qs. frame p" using p by (auto simp: qs_def last3_def dest!: in_set_dropD)
  then have ib: "arp_inv ?b" using arp_inv_eth [OF a i(1)] by (intro arp_inv_set [OF a okb]) simp_all
  have "enqueue i p a = ?b \<or> (\<exists>f. enqueue i p a = log_event (arp_freed f) ?b)"
  proof (cases "3 \<le> length (arp_q ?e)")
    case True
    then have "qs = tl (arp_q ?e @ [p])" using l3 by (cases "arp_q ?e") (simp_all add: qs_def last3_def drop_Suc)
    then show ?thesis using True by (auto simp: enqueue_def Let_def)
  next
    case False
    then have "qs = arp_q ?e @ [p]" by (simp add: qs_def last3_def)
    then show ?thesis using False by (simp add: enqueue_def Let_def)
  qed
  then have e: "arp_inv (enqueue i p a)" "wire (arp_log (enqueue i p a)) = wire (arp_log a)" "arp_map (enqueue i p a) = arp_map ?b"
    using ib by auto
  have m: "arp_map ?b y = (if y = arp_ip ?e then Some (?e\<lparr>arp_q := qs\<rparr>) else arp_map a y)" for y
    using arp_map_set [OF ok i(1) okb, of y] u by (auto simp: used_def)
  have ma: "arp_map a (arp_ip ?e) = Some ?e" using arp_map_iff [OF ok] i(1) u by blast
  show "arp_inv (enqueue i p a)" "wire (arp_log (enqueue i p a)) = wire (arp_log a)" by (rule e)+
  have "waiting (enqueue i p a) (arp_ip ?e) = map (\<lambda>p. drop SIZEOF_ETH_HDR (flat p)) qs" by (simp add: waiting_def e m)
  then show "waiting (enqueue i p a) (arp_ip ?e) = last3 (waiting a (arp_ip ?e) @ [drop SIZEOF_ETH_HDR (flat p)])"
    by (simp add: waiting_def ma qs_def last3_def drop_map)
  show "mac_of (enqueue i p a) = mac_of a"
    by (rule ext) (simp add: mac_of_def e m ma)
  show "arp_map (enqueue i p a) y = arp_map a y" if "y \<noteq> arp_ip ?e" using that by (simp add: e m)
qed

section \<open>Output\<close>

text \<open>What a packet for a neighbour whose address is not known leads to.\<close>

definition queued ::
    "ethif \<Rightarrow> u32 \<Rightarrow> u8 list \<Rightarrow> bool \<Rightarrow> bool \<Rightarrow> arp \<Rightarrow> err_t \<Rightarrow> arp \<Rightarrow> bool" where
  "queued n ip bs asked kept a r b \<longleftrightarrow> mac_of b ip = None \<and>
     wire (arp_log b) = wire (arp_log a) @ (if asked then [request n ip] else []) \<and>
     (if kept then r = ERR_OK \<and> waiting b ip = last3 (waiting a ip @ [bs]) else r = ERR_MEM \<and> waiting b ip = waiting a ip)"

lemma arp_inv_cong:
  "arp_inv a \<Longrightarrow> arp_table b = arp_table a \<Longrightarrow> etharp_cached_entry b < ARP_TABLE_SIZE \<Longrightarrow> arp_inv b"
  by (simp add: arp_inv_def arp_ok_def)

lemma arp_map_cong: "arp_table b = arp_table a \<Longrightarrow> arp_map b = arp_map a"
  by (simp add: arp_map_def fun_eq_iff)

lemma waiting_cong: "arp_map b ip = arp_map a ip \<Longrightarrow> waiting b ip = waiting a ip \<and> mac_of b ip = mac_of a ip"
  by (simp add: waiting_def mac_of_def)

lemma cached_ok: "arp_inv a \<Longrightarrow> etharp_cached_entry a < ARP_TABLE_SIZE"
  by (simp add: arp_inv_def arp_ok_def)

text \<open>A pending entry for the address: the one there is, or a fresh one.\<close>

lemma pending_entry:
  assumes a: "arp_inv a" and ip: "\<not> non_unicast n ip" and m: "mac_of a ip = None"
  obtains i b c where "find_entry (Some ip) ETHARP_FLAG_TRY_HARD a = (Inr i, b)" "i < ARP_TABLE_SIZE"
    "c = (if arp_state (arp_table b ! i) = ETHARP_STATE_EMPTY
       then set_entry i ((arp_table b ! i)\<lparr>arp_state := ETHARP_STATE_PENDING\<rparr>) b else b)"
    "arp_inv c" "arp_state (arp_table c ! i) = ETHARP_STATE_PENDING" "arp_ip (arp_table c ! i) = ip"
    "wire (arp_log c) = wire (arp_log a)" "waiting c ip = waiting a ip" "mac_of c ip = None"
proof -
  obtain i b where f: "find_entry (Some ip) ETHARP_FLAG_TRY_HARD a = (Inr i, b)" "i < ARP_TABLE_SIZE" "arp_inv b"
    "arp_ip (arp_table b ! i) = ip" "wire (arp_log b) = wire (arp_log a)"
    and u: "\<forall>j<ARP_TABLE_SIZE. used (arp_table b ! j) \<longrightarrow> arp_ip (arp_table b ! j) = ip \<longrightarrow> j = i"
    and cs: "case arp_map a ip of
       Some e \<Rightarrow> b = a \<and> arp_table a ! i = e
     | None \<Rightarrow> \<not> used (arp_table b ! i) \<and> ctime (arp_table b ! i) = 0 \<and> (\<exists>r. made_room a r \<and> arp_map b = arp_map r)"
    by (rule find_hard [OF a, of ip])
  show thesis
  proof (cases "arp_map a ip")
    case (Some e)
    then have e: "b = a" "arp_table a ! i = e" "used e" using cs arp_map_ok [of a ip e] a by simp_all
    then have "arp_state e = ETHARP_STATE_PENDING" using m Some by (auto simp: mac_of_def used_cases split: if_splits)
    then show thesis using that [OF f(1,2) refl] f e m by simp
  next
    case None
    let ?d = "(arp_table b ! i)\<lparr>arp_state := ETHARP_STATE_PENDING\<rparr>"
    have e: "arp_state (arp_table b ! i) = ETHARP_STATE_EMPTY" "ctime (arp_table b ! i) = 0" using cs None by (simp_all add: used_def)
    have okb: "arp_ok b" and lb: "length (arp_table b) = ARP_TABLE_SIZE" using f(3) by (simp_all add: arp_inv_def arp_ok_def)
    have q: "arp_q (arp_table b ! i) = []" "arp_netif (arp_table b ! i) = None"
      using arp_ok_entry [OF okb f(2)] e(1) by (simp_all add: entry_ok_def)
    have "entry_ok ?d" using e(2) q non_unicast_ip [OF ip] f(4) by (simp add: entry_ok_def)
    then have ok: "arp_ok (set_entry i ?d b)" by (rule arp_ok_set [OF okb]) (use u f(4) in auto)
    have inv: "arp_inv (set_entry i ?d b)" by (rule arp_inv_set [OF f(3) ok]) (simp_all add: q arp_inv_eth [OF f(3,2)])
    have mp: "arp_map (set_entry i ?d b) ip = Some ?d" using arp_map_set [OF okb f(2) ok, of ip] f(4) by (simp add: used_def)
    show thesis
    proof (rule that [OF f(1,2) refl], unfold if_P [OF e(1)], rule inv)
      show "waiting (set_entry i ?d b) ip = waiting a ip" "mac_of (set_entry i ?d b) ip = None"
        by (simp_all add: waiting_def mac_of_def mp None q)
    qed (use f lb in simp_all)
  qed
qed

lemma query_unknown:
  assumes a: "arp_inv a" and ip: "\<not> non_unicast n ip" and m: "mac_of a ip = None" and l: "length (hwaddr n) = 6"
    and q: "frame q" "copyable q" "serves PBUF_RAW (tot_len (hd q)) PBUF_RAM cp"
    and rq: "serves PBUF_RAW (of_nat SIZEOF_ETHARP_PACKET) PBUF_RAM rq"
  obtains r b where "etharp_query link n ip q rq cp en a = Some (r, q, b)" "arp_inv b"
    "queued n ip (drop SIZEOF_ETH_HDR (flat q)) (given rq) (given cp \<and> en) a r b"
proof -
  obtain i b c where f: "find_entry (Some ip) ETHARP_FLAG_TRY_HARD a = (Inr i, b)" "i < ARP_TABLE_SIZE"
    and c: "c = (if arp_state (arp_table b ! i) = ETHARP_STATE_EMPTY
       then set_entry i ((arp_table b ! i)\<lparr>arp_state := ETHARP_STATE_PENDING\<rparr>) b else b)"
    "arp_inv c" "arp_state (arp_table c ! i) = ETHARP_STATE_PENDING" "arp_ip (arp_table c ! i) = ip"
    "wire (arp_log c) = wire (arp_log a)" "waiting c ip = waiting a ip" "mac_of c ip = None"
    by (rule pending_entry [OF a ip m])
  obtain s d where d: "etharp_request link n ip rq c = Some (s, d)" "arp_table d = arp_table c"
    "etharp_cached_entry d = etharp_cached_entry c"
    "wire (arp_log d) = wire (arp_log c) @ (if given rq then [request n ip] else [])"
    by (rule request_spec [OF rq l, where link = link and ip = ip and a = c])
  have di: "arp_inv d" by (rule arp_inv_cong [OF c(2) d(2)]) (use cached_ok [OF c(2)] d(3) in simp)
  have dw: "waiting d ip = waiting a ip" "mac_of d ip = None"
    using waiting_cong [OF fun_cong [OF arp_map_cong [OF d(2)]], of ip] c(6,7) by simp_all
  have ds: "arp_state (arp_table d ! i) = ETHARP_STATE_PENDING" "arp_ip (arp_table d ! i) = ip" using c(3,4) d(2) by simp_all
  obtain p where p: "keep_packet q cp = Some p" "if given cp then frame p \<and> flat p = flat q else p = []"
    by (rule keep_spec [OF q])
  have ne: "q \<noteq> []" using q(1) by (simp add: frame_def)
  have qy: "etharp_query link n ip q rq cp en a = Some
      (if p = [] then (ERR_MEM, q, d) else if en then (ERR_OK, q, enqueue i p d) else (ERR_MEM, q, log_event (arp_freed p) d))"
    using ip f(1) c(1,3) d(1) p(1) ne by (simp add: etharp_query_def Let_def)
  show thesis
  proof (cases "given cp \<and> en")
    case True
    then have "frame p" "flat p = flat q" "p \<noteq> []" using p(2) by (auto simp: frame_def)
    then show thesis
      using that [of ERR_OK "enqueue i p d"] qy True enqueue_spec [OF di f(2) ds(1)] dw d(4) c(5) ds(2) by (simp add: queued_def)
  next
    case False
    then have "p = [] \<or> \<not> en" using p(2) by auto
    then obtain x where "etharp_query link n ip q rq cp en a = Some (ERR_MEM, q, x)" "x = d \<or> x = log_event (arp_freed p) d"
      unfolding qy by (cases "p = []") auto
    then show thesis
      using that [of ERR_MEM x] di dw d(4) c(5) False by (auto simp: queued_def waiting_def mac_of_def)
  qed
qed

text \<open>Sending to a known neighbour; a request is added when the entry is about to expire.\<close>

lemma mac_of_iff:
  assumes "arp_ok a"
  shows "mac_of a ip = Some mac \<longleftrightarrow> (\<exists>i<ARP_TABLE_SIZE. resolved ip (arp_table a ! i) \<and> arp_eth (arp_table a ! i) = mac)"
proof -
  have "mac_of a ip = Some mac \<longleftrightarrow> (\<exists>e. arp_map a ip = Some e \<and> stable (arp_state e) \<and> arp_eth e = mac)"
    by (auto simp: mac_of_def split: option.splits)
  then show ?thesis unfolding arp_map_iff [OF assms] resolved_def using used_cases by blast
qed

lemma known_output:
  assumes a: "arp_inv a" and i: "i < ARP_TABLE_SIZE" "resolved ip (arp_table a ! i)"
    and q: "frame q" and l: "length (hwaddr n) = 6" "length (arp_eth (arp_table a ! i)) = 6"
    and rq: "serves PBUF_RAW (of_nat SIZEOF_ETHARP_PACKET) PBUF_RAM rq"
  obtains r p b ask where "etharp_output_to_arp_index link n q i rq a = Some (r, p, b)" "arp_inv b"
    "ask = (if arp_state (arp_table a ! i) = ETHARP_STATE_STABLE \<and> ARP_AGE_REREQUEST_USED \<le> ctime (arp_table a ! i) \<and> given rq
       then [request n ip] else [])"
    "wire (arp_log b) = wire (arp_log a) @ ask @ [ip_frame (arp_eth (arp_table a ! i)) (hwaddr n) (drop SIZEOF_ETH_HDR (flat q))]"
    "mac_of b = mac_of a" "waiting b = waiting a"
proof -
  let ?e = "arp_table a ! i" and ?old = "arp_state (arp_table a ! i) = ETHARP_STATE_STABLE \<and> ARP_AGE_REREQUEST_USED \<le> ctime (arp_table a ! i)"
  have ok: "arp_ok a" and la: "length (arp_table a) = ARP_TABLE_SIZE" using a by (simp_all add: arp_inv_def arp_ok_def)
  have ip: "arp_ip ?e = ip" and st: "stable (arp_state ?e)" using i(2) by (simp_all add: resolved_def)
  have "\<exists>c. (if ?old then do {
          (r, a) \<leftarrow> etharp_request link n (arp_ip ?e) rq a;
          Some (if r = ERR_OK
                then set_entry i ((arp_table a ! i)\<lparr>arp_state := ETHARP_STATE_STABLE_REREQUESTING\<rparr>) a else a)
        } else Some a) = Some c \<and> arp_inv c \<and> arp_eth (arp_table c ! i) = arp_eth ?e \<and>
      wire (arp_log c) = wire (arp_log a) @ (if ?old \<and> given rq then [request n ip] else []) \<and>
      mac_of c = mac_of a \<and> waiting c = waiting a"
  proof (cases ?old)
    case False
    then show ?thesis using a by auto
  next
    case True
    obtain s d where d: "etharp_request link n ip rq a = Some (s, d)" "arp_table d = arp_table a"
      "etharp_cached_entry d = etharp_cached_entry a"
      "wire (arp_log d) = wire (arp_log a) @ (if given rq then [request n ip] else [])"
      by (rule request_spec [OF rq l(1), where link = link and ip = ip and a = a])
    have di: "arp_inv d" by (rule arp_inv_cong [OF a d(2)]) (use cached_ok [OF a] d(3) in simp)
    have md: "arp_map d = arp_map a" by (rule arp_map_cong [OF d(2)])
    let ?f = "?e\<lparr>arp_state := ETHARP_STATE_STABLE_REREQUESTING\<rparr>"
    have eo: "entry_ok ?f" using arp_ok_entry [OF ok i(1)] st True by (simp add: entry_ok_def used_def)
    have okf: "arp_ok (set_entry i ?f d)"
      by (rule arp_ok_same [OF arp_inv_ok [OF di] i(1) eo]) (use True d(2) in \<open>simp add: used_def\<close>)
    have inf: "arp_inv (set_entry i ?f d)"
      by (rule arp_inv_set [OF di okf]) (use arp_ok_entry [OF ok i(1)] True l(2) in \<open>simp_all add: entry_ok_def\<close>)
    have mf: "arp_map (set_entry i ?f d) y = (if y = ip then Some ?f else arp_map a y)" for y
      using arp_map_set [OF arp_inv_ok [OF di] i(1) okf, of y] True ip d(2) md by (auto simp: used_def)
    have ma: "arp_map a ip = Some ?e" using arp_map_iff [OF ok] i(1) ip st used_cases by blast
    have "mac_of (set_entry i ?f d) = mac_of a" "waiting (set_entry i ?f d) = waiting a"
      using st by (simp_all add: fun_eq_iff mac_of_def waiting_def mf ma)
    moreover have "mac_of d = mac_of a" "waiting d = waiting a" by (simp_all add: fun_eq_iff mac_of_def waiting_def md)
    ultimately show ?thesis using True d inf di la i(1) by (simp add: ip)
  qed
  then obtain c where c: "(if ?old then do {
          (r, a) \<leftarrow> etharp_request link n (arp_ip ?e) rq a;
          Some (if r = ERR_OK
                then set_entry i ((arp_table a ! i)\<lparr>arp_state := ETHARP_STATE_STABLE_REREQUESTING\<rparr>) a else a)
        } else Some a) = Some c" "arp_inv c" "arp_eth (arp_table c ! i) = arp_eth ?e"
      "wire (arp_log c) = wire (arp_log a) @ (if ?old \<and> given rq then [request n ip] else [])"
      "mac_of c = mac_of a" "waiting c = waiting a" by blast
  obtain p where p: "etharp_send_ip link n q (hwaddr n) (arp_eth ?e) c =
      Some (link (length (arp_log c)), p, log_event (link_out (nif_addr (lif n)) p) c)"
    "frame p" "flat p = ip_frame (arp_eth ?e) (hwaddr n) (drop 14 (flat q))"
    by (rule send_frame [OF q l, where link = link and n = n and a = c])
  have e: "etharp_output_to_arp_index link n q i rq a =
      Some (link (length (arp_log c)), p, log_event (link_out (nif_addr (lif n)) p) c)"
    unfolding etharp_output_to_arp_index_def Let_def c(1) by (simp add: c(3) p(1))
  show thesis
    by (rule that [OF e _ refl]) (use c p(3) in \<open>auto simp: fun_eq_iff mac_of_def waiting_def conj_assoc\<close>)
qed

text \<open>A packet as IP hands it over: in RAM with room for the header.\<close>

definition sendable :: "pbuf list \<Rightarrow> bool" where
  "sendable q \<longleftrightarrow> q \<noteq> [] \<and> wf_chain q \<and> (\<forall>b \<in> set q. 0 < plen b) \<and> ptype (hd q) = PBUF_RAM \<and>
     EP_OFFSET + SIZEOF_ETH_HDR \<le> poff (hd q) \<and> length (flat q) + SIZEOF_ETH_HDR < 65536"

lemma sendable_header:
  assumes "sendable q"
  obtains p where "pbuf_header q (int SIZEOF_ETH_HDR) = Some (0, p)" "frame p" "copyable p" "drop SIZEOF_ETH_HDR (flat p) = flat q"
proof -
  obtain x c where q: "q = x # c" using assms by (cases q) (auto simp: sendable_def)
  have w: "wf_chain (x # c)" "ptype x = PBUF_RAM" "EP_OFFSET + SIZEOF_ETH_HDR \<le> poff x" "length (flat (x # c)) + SIZEOF_ETH_HDR < 65536"
    "\<forall>b \<in> set c. 0 < plen b" using assms unfolding sendable_def q by (simp_all del: flat_simps)
  obtain y where y: "pbuf_header (x # c) (int SIZEOF_ETH_HDR) = Some (0, y # c)" "wf_chain (y # c)" "drop SIZEOF_ETH_HDR (data y) = data x"
    "unat (plen y) = unat (plen x) + SIZEOF_ETH_HDR" "poff y = poff x - SIZEOF_ETH_HDR" "ptype y = PBUF_RAM"
    by (rule header_room [OF w(1-3) _ w(4)]) simp
  show thesis
  proof (rule that [of "y # c"])
    show "frame (y # c)" using y(2,4) by (simp add: frame_def)
    show "copyable (y # c)" using y(4,6) w(5) by (auto simp: copyable_def word_less_nat_alt)
    have "length (data y) = unat (plen y)" using y(2) by simp
    then show "drop SIZEOF_ETH_HDR (flat (y # c)) = flat q" using y(3,4) by (simp add: q)
  qed (use y(1) q in simp)
qed

text \<open>
  The whole of \<open>etharp_output\<close> for a unicast address; \<open>h\<close> is the neighbour the packet goes to.
\<close>

definition unicast_to :: "ethif \<Rightarrow> u32 \<Rightarrow> u32 \<Rightarrow> bool" where
  "unicast_to n ip h \<longleftrightarrow> \<not> ip_addr_isbroadcast ip (lif n) \<and> \<not> ip_addr_ismulticast ip \<and> next_hop n ip = Some h \<and>
     \<not> non_unicast n h"

definition memory_for :: "pbuf list \<Rightarrow> answers \<Rightarrow> answers \<Rightarrow> bool" where
  "memory_for q rq cp \<longleftrightarrow> serves PBUF_RAW (of_nat SIZEOF_ETHARP_PACKET) PBUF_RAM rq \<and>
     serves PBUF_RAW (tot_len (hd q) + of_nat SIZEOF_ETH_HDR) PBUF_RAM cp"

lemma header_tot_len:
  "sendable q \<Longrightarrow> pbuf_header q (int SIZEOF_ETH_HDR) = Some (0, p) \<Longrightarrow> tot_len (hd p) = tot_len (hd q) + of_nat SIZEOF_ETH_HDR"
  by (cases q) (auto simp: sendable_def move_payload_def split: if_splits)

lemma output_spec:
  assumes a: "arp_inv a" and l: "length (hwaddr n) = 6" and q: "sendable q" and u: "unicast_to n ip h" and m: "memory_for q rq cp"
  obtains r p b where "etharp_output link n q ip rq cp en a = Some (r, p, b)" "arp_inv b"
    "case mac_of a h of
       Some mac \<Rightarrow> mac_of b = mac_of a \<and> waiting b = waiting a \<and>
         (\<exists>ask \<in> {[], [request n h]}. wire (arp_log b) = wire (arp_log a) @ ask @ [ip_frame mac (hwaddr n) (flat q)])
     | None \<Rightarrow> queued n h (flat q) (given rq) (given cp \<and> en) a r b"
proof -
  obtain p where p: "pbuf_header q (int SIZEOF_ETH_HDR) = Some (0, p)" "frame p" "copyable p" "drop SIZEOF_ETH_HDR (flat p) = flat q"
    by (rule sendable_header [OF q])
  have rq: "serves PBUF_RAW (of_nat SIZEOF_ETHARP_PACKET) PBUF_RAM rq" and cp: "serves PBUF_RAW (tot_len (hd p)) PBUF_RAM cp"
    using m header_tot_len [OF q p(1)] by (simp_all add: memory_for_def)
  have uc: "\<not> ip_addr_isbroadcast ip (lif n)" "\<not> ip_addr_ismulticast ip" "next_hop n ip = Some h" "\<not> non_unicast n h"
    using u by (simp_all add: unicast_to_def)
  have ok: "arp_ok a" using a by simp
  let ?find = "List.find (\<lambda>i. resolved h (arp_table a ! i)) [0..<ARP_TABLE_SIZE]"
  have out: "etharp_output link n q ip rq cp en a =
      (if resolved h (arp_table a ! etharp_cached_entry a)
       then etharp_output_to_arp_index link n p (etharp_cached_entry a) rq a
       else case ?find of
           Some i \<Rightarrow> etharp_output_to_arp_index link n p i rq (a\<lparr>etharp_cached_entry := i\<rparr>)
         | None \<Rightarrow> etharp_query link n h p rq cp en a)"
    using p(1) uc by (simp add: etharp_output_def)
  show thesis
  proof (cases "mac_of a h")
    case None
    have no: "\<not> resolved h (arp_table a ! i)" if "i < ARP_TABLE_SIZE" for i
      using mac_of_iff [OF ok, of h] None that by auto
    then have "?find = None" by (auto simp: find_None_iff)
    then have e: "etharp_output link n q ip rq cp en a = etharp_query link n h p rq cp en a"
      unfolding out using no cached_ok [OF a] by simp
    obtain r b where "etharp_query link n h p rq cp en a = Some (r, p, b)" "arp_inv b"
      "queued n h (drop SIZEOF_ETH_HDR (flat p)) (given rq) (given cp \<and> en) a r b"
      by (rule query_unknown [OF a uc(4) None l p(2,3) cp rq])
    then show thesis using that [of r p b] None p(4) by (simp add: e)
  next
    case (Some mac)
    obtain i c where i: "i < ARP_TABLE_SIZE" "resolved h (arp_table c ! i)" "arp_table c = arp_table a" "arp_log c = arp_log a"
      "arp_inv c" "etharp_output link n q ip rq cp en a = etharp_output_to_arp_index link n p i rq c"
    proof (cases "resolved h (arp_table a ! etharp_cached_entry a)")
      case True
      show thesis by (rule that [of "etharp_cached_entry a" a]) (use True a out cached_ok [OF a] in simp_all)
    next
      case False
      have "\<exists>i. ?find = Some i"
        using mac_of_iff [OF ok, of h mac] Some by (auto simp: find_None_iff simp flip: not_None_eq)
      then obtain i where f: "?find = Some i" ..
      then have r: "i < ARP_TABLE_SIZE" "resolved h (arp_table a ! i)" by (auto simp: find_Some_iff)
      show thesis
        by (rule that [of i "a\<lparr>etharp_cached_entry := i\<rparr>"])
          (use r False out f arp_inv_cong [OF a, of "a\<lparr>etharp_cached_entry := i\<rparr>"] in simp_all)
    qed
    have mc: "arp_eth (arp_table c ! i) = mac" "mac_of c = mac_of a" "waiting c = waiting a"
    proof -
      have "mac_of a h = Some (arp_eth (arp_table c ! i))" using mac_of_iff [OF ok, of h] i(1-3) by auto
      then show "arp_eth (arp_table c ! i) = mac" using Some by simp
      show "mac_of c = mac_of a" "waiting c = waiting a"
        using arp_map_cong [OF i(3)] by (simp_all add: fun_eq_iff mac_of_def waiting_def)
    qed
    obtain r p' b ask where "etharp_output_to_arp_index link n p i rq c = Some (r, p', b)" "arp_inv b"
      "ask = (if arp_state (arp_table c ! i) = ETHARP_STATE_STABLE \<and> ARP_AGE_REREQUEST_USED \<le> ctime (arp_table c ! i) \<and> given rq
         then [request n h] else [])"
      "wire (arp_log b) = wire (arp_log c) @ ask @ [ip_frame (arp_eth (arp_table c ! i)) (hwaddr n) (drop SIZEOF_ETH_HDR (flat p))]"
      "mac_of b = mac_of c" "waiting b = waiting c"
      by (rule known_output [OF i(5,1,2) p(2) l arp_inv_eth [OF i(5,1)] rq])
    then show thesis using that [of r p' b] Some mc i(4,6) p(4) by auto
  qed
qed

section \<open>ARP packets\<close>

text \<open>A received ARP packet with its header in the first buffer.\<close>

definition arp_packet :: "pbuf list \<Rightarrow> u16 \<Rightarrow> u8 list \<Rightarrow> u32 \<Rightarrow> u32 \<Rightarrow> bool" where
  "arp_packet p op shw sip dip \<longleftrightarrow> frame p \<and> SIZEOF_ETHARP_PACKET \<le> unat (plen (hd p)) \<and> copyable p \<and> length shw = 6 \<and>
     (\<exists>d s dhw rest. length d = 6 \<and> length s = 6 \<and> length dhw = 6 \<and>
        flat p = eth_hdr d s ETHTYPE_ARP @ etharp_hdr op shw sip dhw dip @ rest)"

definition reply :: "ethif \<Rightarrow> u8 list \<Rightarrow> u32 \<Rightarrow> u8 list" where
  "reply n shw sip = eth_hdr shw (hwaddr n) ETHTYPE_ARP @ etharp_hdr ARP_REPLY (hwaddr n) (netif_ip (lif n)) shw sip"

lemma six_bytes: "length xs = 6 \<Longrightarrow> \<exists>a b c d e f. xs = [a, b, c, d, e, f]"
  by (auto simp: length_Suc_conv eval_nat_numeral)

lemma four_bytes: "\<exists>a b c d. ip4_bytes ip = [a, b, c, d]"
  by (auto simp: ip4_bytes_def upt_4)

lemma arp_fields:
  assumes "length d = 6" "length s = 6" "length dhw = 6" "length shw = 6"
    and b: "b = take 42 (eth_hdr d s ETHTYPE_ARP @ etharp_hdr op shw sip dhw dip @ rest)"
  shows "arp_wellformed b" "arp_opcode b = op" "arp_shwaddr b = shw" "arp_sipaddr b = ip4_bytes sip" "arp_dipaddr b = ip4_bytes dip"
proof -
  obtain d0 d1 d2 d3 d4 d5 where d: "d = [d0, d1, d2, d3, d4, d5]" using six_bytes [OF assms(1)] by blast
  obtain s0 s1 s2 s3 s4 s5 where s: "s = [s0, s1, s2, s3, s4, s5]" using six_bytes [OF assms(2)] by blast
  obtain h0 h1 h2 h3 h4 h5 where h: "dhw = [h0, h1, h2, h3, h4, h5]" using six_bytes [OF assms(3)] by blast
  obtain k0 k1 k2 k3 k4 k5 where k: "shw = [k0, k1, k2, k3, k4, k5]" using six_bytes [OF assms(4)] by blast
  obtain i0 i1 i2 i3 where i: "ip4_bytes sip = [i0, i1, i2, i3]" using four_bytes by blast
  obtain j0 j1 j2 j3 where j: "ip4_bytes dip = [j0, j1, j2, j3]" using four_bytes by blast
  obtain t0 t1 where t: "be16 ETHTYPE_ARP = [t0, t1]" by (simp add: be16_def)
  obtain p0 p1 where p: "be16 op = [p0, p1]" by (simp add: be16_def)
  obtain q0 q1 where q: "be16 (1 :: u16) = [q0, q1]" by (simp add: be16_def)
  obtain r0 r1 where r: "be16 ETHTYPE_IP = [r0, r1]" by (simp add: be16_def)
  have e: "b = [d0, d1, d2, d3, d4, d5, s0, s1, s2, s3, s4, s5, t0, t1, q0, q1, r0, r1, 6, 4, p0, p1,
      k0, k1, k2, k3, k4, k5, i0, i1, i2, i3, h0, h1, h2, h3, h4, h5, j0, j1, j2, j3]"
    unfolding b eth_hdr_def etharp_hdr_def d s h k i j t p q r by simp
  show "arp_wellformed b" unfolding arp_wellformed_def e t q r by simp
  show "arp_opcode b = op" using from_be16_list [of op] unfolding arp_opcode_def e p by simp
  show "arp_shwaddr b = shw" "arp_sipaddr b = ip4_bytes sip" "arp_dipaddr b = ip4_bytes dip"
    unfolding arp_shwaddr_def arp_sipaddr_def arp_dipaddr_def e k i j by simp_all
qed

text \<open>A store into the first buffer.\<close>

lemma poke_at:
  assumes "frame p" "off + length bs \<le> unat (plen (hd p))" "copyable p"
  obtains q where "poke (hd p) off bs = Some q" "frame (q # tl p)" "flat (q # tl p) = blit (flat p) off bs"
    "plen q = plen (hd p)" "tot_len q = tot_len (hd p)" "copyable (q # tl p)"
proof -
  obtain x c where p: "p = x # c" using assms(1) by (cases p) (auto simp: frame_def)
  have wf: "wf_chain (x # c)" "wf_pbuf x" using assms(1) by (simp_all add: frame_def p)
  obtain q where q: "poke x off bs = Some q" "data q = blit (data x) off bs" "wf_pbuf q" "plen q = plen x"
    "tot_len q = tot_len x" "poff q = poff x" "ptype q = ptype x"
    by (rule poke_data [OF wf(2), of off bs]) (use assms(2) in \<open>simp add: p\<close>)
  have "wf_chain (q # c)" by (rule chain_head [OF wf(1) q(3-5)])
  then show thesis
    using that [of q] q assms wf(2) by (simp add: p frame_def blit_def copyable_def)
qed

lemma answer_spec:
  assumes p: "frame p" "SIZEOF_ETHARP_PACKET \<le> unat (plen (hd p))" "copyable p" and l: "length (hwaddr n) = 6"
    and ad: "length d = 6" "length s = 6" "length dhw = 6" "length shw = 6"
    and f: "flat p = eth_hdr d s ETHTYPE_ARP @ etharp_hdr op shw sip dhw dip @ rest"
    and b: "b = take 42 (flat p)" and as: "serves PBUF_RAW (tot_len (hd p)) PBUF_RAM as"
  obtains p' c where "arp_answer link n (hwaddr n) p b as a = Some (p', c)" "arp_table c = arp_table a"
    "etharp_cached_entry c = etharp_cached_entry a"
    "wire (arp_log c) = wire (arp_log a) @ [if given as then reply n shw sip @ rest else []]"
proof -
  note fields = arp_fields [OF ad b [unfolded f]]
  let ?ip = "ip4_bytes (netif_ip (lif n))"
  obtain q1 where q1: "poke (hd p) 20 (be16 ARP_REPLY) = Some q1" "frame (q1 # tl p)" "flat (q1 # tl p) = blit (flat p) 20 (be16 ARP_REPLY)"
    "plen q1 = plen (hd p)" "tot_len q1 = tot_len (hd p)" "copyable (q1 # tl p)"
    by (rule poke_at [OF p(1) _ p(3), of 20 "be16 ARP_REPLY"]) (use p(2) in simp)
  obtain q2 where q2: "poke q1 38 (ip4_bytes sip) = Some q2" "frame (q2 # tl p)" "flat (q2 # tl p) = blit (flat (q1 # tl p)) 38 (ip4_bytes sip)"
    "plen q2 = plen q1" "tot_len q2 = tot_len q1" "copyable (q2 # tl p)"
    by (rule poke_at [OF q1(2) _ q1(6), of 38 "ip4_bytes sip", unfolded list.sel]) (use p(2) q1(4) in simp)
  obtain q3 where q3: "poke q2 28 ?ip = Some q3" "frame (q3 # tl p)" "flat (q3 # tl p) = blit (flat (q2 # tl p)) 28 ?ip"
    "plen q3 = plen q2" "tot_len q3 = tot_len q2" "copyable (q3 # tl p)"
    by (rule poke_at [OF q2(2) _ q2(6), of 28 ?ip, unfolded list.sel]) (use p(2) q1(4) q2(4) in simp)
  obtain q4 where q4: "poke q3 32 shw = Some q4" "frame (q4 # tl p)" "flat (q4 # tl p) = blit (flat (q3 # tl p)) 32 shw"
    "plen q4 = plen q3" "tot_len q4 = tot_len q3" "copyable (q4 # tl p)"
    by (rule poke_at [OF q3(2) _ q3(6), of 32 shw, unfolded list.sel]) (use p(2) q1(4) q2(4) q3(4) ad(4) in simp)
  obtain q5 where q5: "poke q4 0 shw = Some q5" "frame (q5 # tl p)" "flat (q5 # tl p) = blit (flat (q4 # tl p)) 0 shw"
    "plen q5 = plen q4" "tot_len q5 = tot_len q4" "copyable (q5 # tl p)"
    by (rule poke_at [OF q4(2) _ q4(6), of 0 shw, unfolded list.sel]) (use p(2) q1(4) q2(4) q3(4) q4(4) ad(4) in simp)
  obtain q6 where q6: "poke q5 22 (hwaddr n) = Some q6" "frame (q6 # tl p)" "flat (q6 # tl p) = blit (flat (q5 # tl p)) 22 (hwaddr n)"
    "plen q6 = plen q5" "tot_len q6 = tot_len q5" "copyable (q6 # tl p)"
    by (rule poke_at [OF q5(2) _ q5(6), of 22 "hwaddr n", unfolded list.sel]) (use p(2) q1(4) q2(4) q3(4) q4(4) q5(4) l in simp)
  obtain q7 where q7: "poke q6 6 (hwaddr n) = Some q7" "frame (q7 # tl p)" "flat (q7 # tl p) = blit (flat (q6 # tl p)) 6 (hwaddr n)"
    "plen q7 = plen q6" "tot_len q7 = tot_len q6" "copyable (q7 # tl p)"
    by (rule poke_at [OF q6(2) _ q6(6), of 6 "hwaddr n", unfolded list.sel]) (use p(2) q1(4) q2(4) q3(4) q4(4) q5(4) q6(4) l in simp)
  have tl: "tot_len q7 = tot_len (hd p)" by (simp add: q1(5) q2(5) q3(5) q4(5) q5(5) q6(5) q7(5))
  have f7: "flat (q7 # tl p) = reply n shw sip @ rest"
  proof -
    obtain d0 d1 d2 d3 d4 d5 where d: "d = [d0, d1, d2, d3, d4, d5]" using six_bytes [OF ad(1)] by blast
    obtain s0 s1 s2 s3 s4 s5 where s: "s = [s0, s1, s2, s3, s4, s5]" using six_bytes [OF ad(2)] by blast
    obtain h0 h1 h2 h3 h4 h5 where h: "dhw = [h0, h1, h2, h3, h4, h5]" using six_bytes [OF ad(3)] by blast
    obtain k0 k1 k2 k3 k4 k5 where k: "shw = [k0, k1, k2, k3, k4, k5]" using six_bytes [OF ad(4)] by blast
    obtain m0 m1 m2 m3 m4 m5 where m: "hwaddr n = [m0, m1, m2, m3, m4, m5]" using six_bytes [OF l] by blast
    obtain i0 i1 i2 i3 where i: "ip4_bytes sip = [i0, i1, i2, i3]" using four_bytes by blast
    obtain j0 j1 j2 j3 where j: "ip4_bytes dip = [j0, j1, j2, j3]" using four_bytes by blast
    obtain n0 n1 n2 n3 where n: "?ip = [n0, n1, n2, n3]" using four_bytes by blast
    obtain t0 t1 where t: "be16 ETHTYPE_ARP = [t0, t1]" by (simp add: be16_def)
    obtain p0 p1 where po: "be16 op = [p0, p1]" by (simp add: be16_def)
    obtain q0 q1 where q: "be16 (1 :: u16) = [q0, q1]" by (simp add: be16_def)
    obtain r0 r1 where r: "be16 ETHTYPE_IP = [r0, r1]" by (simp add: be16_def)
    obtain u0 u1 where u: "be16 ARP_REPLY = [u0, u1]" by (simp add: be16_def)
    show ?thesis
      unfolding q7(3) q6(3) q5(3) q4(3) q3(3) q2(3) q1(3) f reply_def eth_hdr_def etharp_hdr_def d s h k m i j n t po q r u
      by (simp add: blit_def)
  qed
  obtain e where e: "(case pbuf_alloc PBUF_RAW (tot_len q7) PBUF_RAM as of
      [] \<Rightarrow> Some [] | x # y \<Rightarrow> map_option snd (pbuf_copy (x # y) (q7 # tl p))) = Some e"
    "flat e = (if given as then reply n shw sip @ rest else [])"
  proof (cases "given as")
    case False
    then have "pbuf_alloc PBUF_RAW (tot_len q7) PBUF_RAM as = []" using alloc_ram [OF as] by (simp add: tl)
    then show thesis using that [of "[]"] False by simp
  next
    case True
    obtain e where "keep_packet (q7 # tl p) as = Some e" "frame e" "flat e = flat (q7 # tl p)"
      by (rule keep_spec [OF q7(2,6), unfolded list.sel tl, OF as]) (use True in simp)
    moreover have "ptype q7 \<noteq> PBUF_ROM" using q7(6) by (simp add: copyable_def)
    ultimately have "\<exists>x y r. pbuf_alloc PBUF_RAW (tot_len q7) PBUF_RAM as = x # y \<and> pbuf_copy (x # y) (q7 # tl p) = Some (r, e)"
      by (auto simp: keep_packet_def frame_def split: list.splits if_splits)
    then show thesis using that [of e] True \<open>flat e = flat (q7 # tl p)\<close> f7 by auto
  qed
  obtain x y where px: "p = x # y" using p(1) by (cases p) (auto simp: frame_def)
  have "arp_answer link n (hwaddr n) p b as a = Some (q7 # tl p,
      if e = [] then log_event (link_out (nif_addr (lif n)) e) a
      else log_event (arp_freed e) (log_event (link_out (nif_addr (lif n)) e) a))"
    using q1(1) e(1) unfolding px list.sel by (simp add: arp_answer_def linkoutput_def q2(1) q3(1) q4(1) q5(1) q6(1) q7(1) fields(3,4))
  then show thesis by (rule that) (use e(2) in auto)
qed

lemma arp_input_for_us:
  assumes a: "arp_inv a" and l: "length (hwaddr n) = 6" and p: "arp_packet p op shw sip (netif_ip (lif n))"
    and us: "netif_ip (lif n) \<noteq> 0" and sip: "\<not> non_unicast n sip" and as: "serves PBUF_RAW (tot_len (hd p)) PBUF_RAM as"
  obtains b where "etharp_arp_input link n (hwaddr n) p as a = Some b" "arp_inv b" "learned a sip shw b"
    "\<exists>answer. wire (arp_log b) = wire (arp_log a) @ map (ip_frame shw (hwaddr n)) (waiting a sip) @ answer \<and>
       (if op = ARP_REQUEST then \<exists>rest. answer = [if given as then reply n shw sip @ rest else []] else answer = [])"
proof -
  obtain d s dhw rest where f: "length d = 6" "length s = 6" "length dhw = 6"
    "flat p = eth_hdr d s ETHTYPE_ARP @ etharp_hdr op shw sip dhw (netif_ip (lif n)) @ rest"
    and fr: "frame p" "SIZEOF_ETHARP_PACKET \<le> unat (plen (hd p))" "copyable p" "length shw = 6"
    using p by (auto simp: arp_packet_def)
  define b where "b = take 42 (flat p)"
  note fields = arp_fields [OF f(1-3) fr(4) b_def [unfolded f(4)]]
  obtain x c where px: "p = x # c" using fr(1) by (cases p) (auto simp: frame_def)
  have wx: "wf_pbuf x" using fr(1) by (simp add: frame_def px)
  have pk: "peek x 0 42 = Some b"
    using peek_data [OF wx, of 0 42] fr(2) wx by (simp add: px b_def)
  obtain r where r: "update_arp_entry link n sip shw ETHARP_FLAG_TRY_HARD a = Some (ERR_OK, r)" "arp_inv r" "learned a sip shw r"
    "wire (arp_log r) = wire (arp_log a) @ map (ip_frame shw (hwaddr n)) (waiting a sip)"
    by (rule update_hard [OF a sip l fr(4)])
  have rest: "etharp_arp_input link n (hwaddr n) p as a = do {
      (p, a) \<leftarrow>
        (if op = ARP_REQUEST then arp_answer link n (hwaddr n) p b as r
         else if op = ARP_REPLY then Some (p, log_event (dhcp_arp_reply sip) r) else Some (p, r));
      Some (log_event (arp_freed p) a) }"
    using fr(2) pk r(1) us by (simp add: etharp_arp_input_def px fields le32_ip4 Let_def)
  have lw: "learned a sip shw c" if "arp_table c = arp_table r" for c
    using r(3) arp_map_cong [OF that] by (simp add: learned_def mac_of_def waiting_def)
  show thesis
  proof (cases "op = ARP_REQUEST")
    case True
    obtain p' e where e: "arp_answer link n (hwaddr n) p b as r = Some (p', e)" "arp_table e = arp_table r"
      "etharp_cached_entry e = etharp_cached_entry r"
      "wire (arp_log e) = wire (arp_log r) @ [if given as then reply n shw sip @ rest else []]"
      by (rule answer_spec [OF fr(1-3) l f(1-3) fr(4) f(4) b_def as])
    have "arp_inv e" by (rule arp_inv_cong [OF r(2) e(2)]) (use cached_ok [OF r(2)] e(3) in simp)
    then show thesis
      using that [of "log_event (arp_freed p') e"] True e lw [OF e(2)] r(4) rest
      by (auto simp: learned_def mac_of_def waiting_def)
  next
    case False
    then obtain e where "etharp_arp_input link n (hwaddr n) p as a = Some e" "arp_table e = arp_table r"
      "etharp_cached_entry e = etharp_cached_entry r" "wire (arp_log e) = wire (arp_log r)"
      unfolding rest by (cases "op = ARP_REPLY") auto
    moreover from this have "arp_inv e" using arp_inv_cong [OF r(2)] cached_ok [OF r(2)] by simp
    ultimately show thesis using that [of e] False lw r(4) by auto
  qed
qed

section \<open>All runs\<close>

text \<open>
  The calls from outside, with any interface whose hardware address has six bytes: the timer, the
  removal of an interface, packets to send and frames received.
\<close>

inductive arp_run :: "arp \<Rightarrow> bool" where
  run_start: "arp_run arp_start"
| run_tick: "arp_run a \<Longrightarrow> arp_run (etharp_tmr a)"
| run_cleanup: "arp_run a \<Longrightarrow> arp_run (etharp_cleanup_netif m a)"
| run_output: "arp_run a \<Longrightarrow> length (hwaddr n) = 6 \<Longrightarrow> sendable q \<Longrightarrow> memory_for q rq cp \<Longrightarrow>
    etharp_output link n q ip rq cp en a = Some (r, p, b) \<Longrightarrow> arp_run b"
| run_query: "arp_run a \<Longrightarrow> length (hwaddr n) = 6 \<Longrightarrow>
    q = [] \<or> frame q \<and> copyable q \<and> serves PBUF_RAW (tot_len (hd q)) PBUF_RAM cp \<Longrightarrow>
    etharp_query link n ip q rq cp en a = Some (r, p, b) \<Longrightarrow> arp_run b"
| run_input: "arp_run a \<Longrightarrow> length (hwaddr n) = 6 \<Longrightarrow> ethernet_input link eats p n as h a = Some (ev, h', b) \<Longrightarrow> arp_run b"

text \<open>What leaves the table as it is.\<close>

definition same_table :: "arp \<Rightarrow> arp \<Rightarrow> bool" where
  "same_table a b \<longleftrightarrow> arp_table b = arp_table a \<and> etharp_cached_entry b = etharp_cached_entry a"

lemma same_table_simps [simp]: "same_table a a" "same_table a (log_event ev b) = same_table a b"
  by (simp_all add: same_table_def)

lemma same_table_inv: "same_table a b \<Longrightarrow> arp_inv a \<Longrightarrow> arp_inv b"
  using arp_inv_cong [of a b] cached_ok [of a] by (simp add: same_table_def)

lemma send_same: "etharp_send_ip link n q src dst a = Some (r, p, b) \<Longrightarrow> same_table a b"
  by (auto simp: etharp_send_ip_def linkoutput_def split: list.splits bind_splits)

lemma request_same: "etharp_request link n ip as a = Some (r, b) \<Longrightarrow> same_table a b"
  by (auto simp: etharp_request_def etharp_raw_def linkoutput_def split: list.splits bind_splits)

lemma answer_same: "arp_answer link n eth p b as a = Some (p', c) \<Longrightarrow> same_table a c"
  by (auto simp: arp_answer_def linkoutput_def split: list.splits bind_splits if_splits)

lemma index_inv:
  assumes a: "arp_inv a" and i: "i < ARP_TABLE_SIZE" and e: "etharp_output_to_arp_index link n q i rq a = Some (r, p, b)"
  shows "arp_inv b"
proof (cases "arp_state (arp_table a ! i) = ETHARP_STATE_STABLE \<and> ARP_AGE_REREQUEST_USED \<le> ctime (arp_table a ! i)")
  case False
  then show ?thesis using e send_same same_table_inv [OF _ a] by (auto simp: etharp_output_to_arp_index_def Let_def)
next
  case True
  then obtain s d where d: "etharp_request link n (arp_ip (arp_table a ! i)) rq a = Some (s, d)"
    using e by (auto simp: etharp_output_to_arp_index_def Let_def split: bind_splits)
  let ?f = "(arp_table d ! i)\<lparr>arp_state := ETHARP_STATE_STABLE_REREQUESTING\<rparr>"
  have di: "arp_inv d" "arp_table d = arp_table a" using same_table_inv [OF request_same [OF d] a] request_same [OF d]
    by (simp_all add: same_table_def)
  have u: "arp_state (arp_table d ! i) = ETHARP_STATE_STABLE" using True di(2) by simp
  have eo: "entry_ok (arp_table d ! i)" by (rule arp_ok_entry [OF arp_inv_ok [OF di(1)] i])
  have "entry_ok ?f" using eo u by (simp add: entry_ok_def used_def)
  then have okf: "arp_ok (set_entry i ?f d)" by (rule arp_ok_same [OF arp_inv_ok [OF di(1)] i]) (simp add: used_def u)
  have inf: "arp_inv (set_entry i ?f d)"
    by (rule arp_inv_set [OF di(1) okf]) (use eo u arp_inv_eth [OF di(1) i] in \<open>simp_all add: entry_ok_def\<close>)
  obtain c where "etharp_send_ip link n q (hwaddr n) (arp_eth (arp_table c ! i)) c = Some (r, p, b)" "c = d \<or> c = set_entry i ?f d"
    using e d True by (auto simp: etharp_output_to_arp_index_def Let_def split: if_splits)
  then show ?thesis using send_same same_table_inv di(1) inf by blast
qed

lemma query_inv:
  assumes a: "arp_inv a" and q: "q = [] \<or> frame q \<and> copyable q \<and> serves PBUF_RAW (tot_len (hd q)) PBUF_RAM cp"
    and e: "etharp_query link n ip q rq cp en a = Some (r, p, b)"
  shows "arp_inv b"
proof (cases "non_unicast n ip")
  case True
  then show ?thesis using a e by (simp add: etharp_query_def)
next
  case ip: False
  show ?thesis
  proof (cases "mac_of a ip")
    case None
    obtain i b' c where f: "find_entry (Some ip) ETHARP_FLAG_TRY_HARD a = (Inr i, b')" "i < ARP_TABLE_SIZE"
      and c: "c = (if arp_state (arp_table b' ! i) = ETHARP_STATE_EMPTY
         then set_entry i ((arp_table b' ! i)\<lparr>arp_state := ETHARP_STATE_PENDING\<rparr>) b' else b')"
      "arp_inv c" "arp_state (arp_table c ! i) = ETHARP_STATE_PENDING"
      by (rule pending_entry [OF a ip None])
    obtain s d where d: "etharp_request link n ip rq c = Some (s, d)"
      using e ip f(1) c(1,3) by (auto simp: etharp_query_def Let_def split: bind_splits)
    have di: "arp_inv d" "arp_state (arp_table d ! i) = ETHARP_STATE_PENDING"
      using same_table_inv [OF request_same [OF d] c(2)] request_same [OF d] c(3) by (simp_all add: same_table_def)
    show ?thesis
    proof (cases "q = []")
      case True
      then show ?thesis using e ip f(1) c(1,3) d di(1) by (auto simp: etharp_query_def Let_def)
    next
      case False
      then obtain k where k: "keep_packet q cp = Some k" "k = [] \<or> frame k" using keep_spec [of q cp] q by metis
      then have "b \<in> {d, enqueue i k d, log_event (arp_freed k) d} \<and> (b = enqueue i k d \<longrightarrow> b = d \<or> k \<noteq> [])"
        using e ip f(1) c(1,3) d False by (auto simp: etharp_query_def Let_def split: if_splits)
      then show ?thesis using enqueue_spec(1) [OF di(1) f(2) di(2)] di(1) k(2) by auto
    qed
  next
    case (Some mac)
    obtain i where i: "i < ARP_TABLE_SIZE" "resolved ip (arp_table a ! i)" using mac_of_iff [OF arp_inv_ok [OF a], of ip mac] Some by blast
    then have st: "stable (arp_state (arp_table a ! i))" "used (arp_table a ! i)" "arp_ip (arp_table a ! i) = ip"
      by (simp_all add: resolved_def used_cases)
    have f: "find_entry (Some ip) ETHARP_FLAG_TRY_HARD a = (Inr i, a)" by (rule find_hit [OF arp_inv_ok [OF a] i(1) st(2,3)])
    have ne: "arp_state (arp_table a ! i) \<noteq> ETHARP_STATE_EMPTY" "arp_state (arp_table a ! i) \<noteq> ETHARP_STATE_PENDING" using st(1) by auto
    show ?thesis
    proof (cases "q = []")
      case True
      then have "etharp_request link n ip rq a = Some (r, b)"
        using e ip f ne by (auto simp: etharp_query_def Let_def split: bind_splits)
      then show ?thesis using request_same same_table_inv a by blast
    next
      case False
      then have "etharp_send_ip link n q (hwaddr n) (arp_eth (arp_table a ! i)) (a\<lparr>etharp_cached_entry := i\<rparr>) = Some (r, p, b)"
        using e ip f ne st(1) by (simp add: etharp_query_def Let_def)
      moreover have "arp_inv (a\<lparr>etharp_cached_entry := i\<rparr>)" by (rule arp_inv_cong [OF a]) (simp_all add: i(1))
      ultimately show ?thesis using send_same same_table_inv by blast
    qed
  qed
qed

lemma output_inv:
  assumes a: "arp_inv a" and q: "sendable q" "memory_for q rq cp"
    and e: "etharp_output link n q ip rq cp en a = Some (r, p, b)"
  shows "arp_inv b"
proof -
  obtain f where f: "pbuf_header q (int SIZEOF_ETH_HDR) = Some (0, f)" "frame f" "copyable f" by (rule sendable_header [OF q(1)])
  have cp: "serves PBUF_RAW (tot_len (hd f)) PBUF_RAM cp"
    using q(2) header_tot_len [OF q(1) f(1)] by (simp add: memory_for_def)
  show ?thesis
  proof (cases "ip_addr_isbroadcast ip (lif n) \<or> ip_addr_ismulticast ip \<or> next_hop n ip = None")
    case True
    then have "same_table a b" using e f(1) send_same by (auto simp: etharp_output_def split: if_splits)
    then show ?thesis using a by (rule same_table_inv)
  next
    case False
    then obtain h where h: "next_hop n ip = Some h" by blast
    let ?find = "List.find (\<lambda>i. resolved h (arp_table a ! i)) [0..<ARP_TABLE_SIZE]"
    have out: "(if resolved h (arp_table a ! etharp_cached_entry a)
         then etharp_output_to_arp_index link n f (etharp_cached_entry a) rq a
         else case ?find of
             Some i \<Rightarrow> etharp_output_to_arp_index link n f i rq (a\<lparr>etharp_cached_entry := i\<rparr>)
           | None \<Rightarrow> etharp_query link n h f rq cp en a) = Some (r, p, b)"
      using e f(1) False h by (simp add: etharp_output_def)
    show ?thesis
    proof (cases "resolved h (arp_table a ! etharp_cached_entry a)")
      case True
      then show ?thesis using out index_inv [OF a cached_ok [OF a]] by simp
    next
      case nc: False
      show ?thesis
      proof (cases ?find)
        case None
        then have "etharp_query link n h f rq cp en a = Some (r, p, b)" using out nc by simp
        then show ?thesis using query_inv [OF a] f(2,3) cp by blast
      next
        case (Some i)
        then have i: "i < ARP_TABLE_SIZE" by (auto simp: find_Some_iff)
        have "arp_inv (a\<lparr>etharp_cached_entry := i\<rparr>)" by (rule arp_inv_cong [OF a]) (simp_all add: i)
        then show ?thesis using out nc Some index_inv [OF _ i] by simp
      qed
    qed
  qed
qed

lemma update_inv:
  assumes "arp_inv a" "length (hwaddr n) = 6" "length mac = 6" "flags = ETHARP_FLAG_TRY_HARD \<or> flags = ETHARP_FLAG_FIND_ONLY"
  obtains r c where "update_arp_entry link n ip mac flags a = Some (r, c)" "arp_inv c"
proof (cases "non_unicast n ip")
  case True
  then show thesis using that assms(1) by (simp add: update_arp_entry_def)
next
  case False
  show thesis
  proof (cases "flags = ETHARP_FLAG_TRY_HARD")
    case True
    obtain c where "update_arp_entry link n ip mac ETHARP_FLAG_TRY_HARD a = Some (ERR_OK, c)" "arp_inv c"
      by (rule update_hard [OF assms(1) False assms(2,3)])
    then show thesis using that True by blast
  next
    case False
    obtain r c where "update_arp_entry link n ip mac ETHARP_FLAG_FIND_ONLY a = Some (r, c)" "arp_inv c"
      by (rule update_only [OF assms(1-3)])
    then show thesis using that assms(4) False by blast
  qed
qed

lemma peek_length: "peek q off k = Some bs \<Longrightarrow> length bs = k"
  by (auto simp: peek_def split: if_splits)

lemma arp_input_inv:
  assumes a: "arp_inv a" and l: "length (hwaddr n) = 6" and e: "etharp_arp_input link n eth p as a = Some b"
  shows "arp_inv b"
proof (cases p)
  case (Cons q c)
  show ?thesis
  proof (cases "unat (plen q) < SIZEOF_ETHARP_PACKET")
    case True
    then show ?thesis using e a by (auto simp: etharp_arp_input_def Cons)
  next
    case False
    then obtain bs where bs: "peek q 0 SIZEOF_ETHARP_PACKET = Some bs" using e by (auto simp: etharp_arp_input_def Cons split: bind_splits)
    show ?thesis
    proof (cases "arp_wellformed bs")
      case no: False
      then show ?thesis using e a False bs by (auto simp: etharp_arp_input_def Cons)
    next
      case True
      let ?us = "netif_ip (lif n) \<noteq> 0 \<and> le32 (arp_dipaddr bs) = netif_ip (lif n)"
      have m: "length (arp_shwaddr bs) = 6" using peek_length [OF bs] by (simp add: arp_shwaddr_def)
      obtain r d where d: "update_arp_entry link n (le32 (arp_sipaddr bs)) (arp_shwaddr bs)
          (if ?us then ETHARP_FLAG_TRY_HARD else ETHARP_FLAG_FIND_ONLY) a = Some (r, d)" "arp_inv d"
        by (rule update_inv [OF a l m, where link = link and ip = "le32 (arp_sipaddr bs)"
            and flags = "if ?us then ETHARP_FLAG_TRY_HARD else ETHARP_FLAG_FIND_ONLY"]) auto
      have "etharp_arp_input link n eth p as a = do {
          (p, a) \<leftarrow>
            (if arp_opcode bs = ARP_REQUEST then if ?us then arp_answer link n eth p bs as d else Some (p, d)
             else if arp_opcode bs = ARP_REPLY then Some (p, log_event (dhcp_arp_reply (le32 (arp_sipaddr bs))) d)
             else Some (p, d));
          Some (log_event (arp_freed p) a) }"
        using False True bs d(1) by (simp add: etharp_arp_input_def Cons Let_def)
      then have "same_table d b" unfolding e by (auto simp: answer_same split: if_splits bind_splits)
      then show ?thesis using d(2) by (rule same_table_inv)
    qed
  qed
qed (use e in \<open>simp add: etharp_arp_input_def\<close>)

lemma ip_update_inv:
  assumes a: "arp_inv a" and l: "length (hwaddr n) = 6" and e: "etharp_ip_input link n p a = Some b"
  shows "arp_inv b"
proof -
  obtain q c where p: "p = q # c" using e by (cases p) (auto simp: etharp_ip_input_def)
  obtain s where s: "peek q (SIZEOF_ETH_HDR + 12) 4 = Some s" using e by (auto simp: etharp_ip_input_def p split: bind_splits)
  show ?thesis
  proof (cases "ip_addr_netcmp (le32 s) (netif_ip (lif n)) (netif_mask (lif n))")
    case False
    then show ?thesis using e a s by (simp add: etharp_ip_input_def p)
  next
    case True
    then obtain m where m: "peek q 6 6 = Some m" using e s by (auto simp: etharp_ip_input_def p split: bind_splits)
    obtain r d where "update_arp_entry link n (le32 s) m ETHARP_FLAG_FIND_ONLY a = Some (r, d)" "arp_inv d"
      by (rule update_inv [OF a l peek_length [OF m], where link = link and ip = "le32 s" and flags = ETHARP_FLAG_FIND_ONLY]) simp
    then show ?thesis using e s m True by (simp add: etharp_ip_input_def p)
  qed
qed

lemma ethernet_inv:
  assumes a: "arp_inv a" and l: "length (hwaddr n) = 6" and e: "ethernet_input link eats p n as h a = Some (ev, h', b)"
  shows "arp_inv b"
proof -
  obtain q c where p: "p = q # c" using e by (cases p) (auto simp: ethernet_input_def)
  have "(\<exists>x. b = log_event x a) \<or> (\<exists>d. etharp_ip_input link n p a = Some d \<and> (b = d \<or> (\<exists>x. b = log_event x d))) \<or>
    etharp_arp_input link n (hwaddr n) p as a = Some b"
    using e unfolding p ethernet_input_def by (auto split: if_splits bind_splits)
  then show ?thesis using arp_input_inv [OF a l] ip_update_inv [OF a l] a by auto
qed

lemma tmr_inv: "arp_inv a \<Longrightarrow> arp_inv (etharp_tmr a)"
proof -
  assume a: "arp_inv a"
  then have t: "arp_table (etharp_tmr a) = map aged (arp_table a)" using etharp_tmr_aged [of a] by (simp add: arp_inv_def arp_ok_def)
  have "length (arp_eth (aged e)) = 6 \<and> (\<forall>p \<in> set (arp_q (aged e)). frame p)" if "e \<in> set (arp_table a)" for e
    using that a by (auto simp: aged_def arp_inv_def)
  then have "\<forall>e \<in> set (arp_table (etharp_tmr a)). length (arp_eth e) = 6 \<and> (\<forall>p \<in> set (arp_q e). frame p)"
    unfolding t by (simp del: aged_simps)
  then show ?thesis using etharp_tmr_ok [OF arp_inv_ok [OF a]] unfolding arp_inv_def by blast
qed

text \<open>No entry ever has an interface, so removing one finds nothing.\<close>

lemma cleanup_nothing:
  assumes "arp_ok a"
  shows "etharp_cleanup_netif (Some m) a = a"
proof -
  have "fold (cleanup_entry (Some m)) l a = a" if "set l \<subseteq> {..<ARP_TABLE_SIZE}" for l
    using that
  proof (induction l)
    case (Cons i l)
    then have "arp_netif (arp_table a ! i) = None" using arp_ok_entry [OF assms, of i] by (simp add: entry_ok_def)
    then show ?case using Cons by (simp add: cleanup_entry_def)
  qed simp
  then show ?thesis by (simp add: etharp_cleanup_netif_def lessThan_atLeast0)
qed

lemma cleanup_inv: "arp_inv a \<Longrightarrow> arp_inv (etharp_cleanup_netif m a)"
proof -
  assume a: "arp_inv a"
  have "arp_inv (fold (cleanup_entry m) l b)" if "set l \<subseteq> {..<ARP_TABLE_SIZE}" "arp_inv b" for l b
    using that by (induction l arbitrary: b) (auto simp: cleanup_entry_def Let_def arp_inv_free)
  then show ?thesis using a by (simp add: etharp_cleanup_netif_def lessThan_atLeast0)
qed

lemma arp_run_inv: "arp_run a \<Longrightarrow> arp_inv a"
proof (induction rule: arp_run.induct)
  case run_start
  show ?case using arp_ok_start by (simp add: arp_inv_def arp_start_def ethzero_def)
qed (blast intro: tmr_inv cleanup_inv output_inv query_inv ethernet_inv)+

text \<open>
  C14: the ARP cache in every run (timer, interfaces removed, packets sent, any frames received).
  No two entries in use have the same address, and none a special one; packets wait only at
  pending entries, at most three at each; and \<open>etharp_cleanup_netif\<close>, which is to remove the
  entries of an interface, never removes any, because no entry records its interface.
\<close>

theorem arp_table_invariant:
  assumes "arp_run a"
  shows "(\<forall>i<ARP_TABLE_SIZE. \<forall>j<ARP_TABLE_SIZE. used (arp_table a ! i) \<and> used (arp_table a ! j) \<and>
      arp_ip (arp_table a ! i) = arp_ip (arp_table a ! j) \<longrightarrow> i = j) \<and>
    (\<forall>i<ARP_TABLE_SIZE. used (arp_table a ! i) \<longrightarrow>
      arp_ip (arp_table a ! i) \<noteq> 0 \<and> \<not> ip_addr_ismulticast (arp_ip (arp_table a ! i))) \<and>
    (\<forall>i<ARP_TABLE_SIZE. arp_q (arp_table a ! i) \<noteq> [] \<longrightarrow>
      arp_state (arp_table a ! i) = ETHARP_STATE_PENDING \<and> length (arp_q (arp_table a ! i)) \<le> 3) \<and>
    (\<forall>m. etharp_cleanup_netif (Some m) a = a)"
proof -
  have ok: "arp_ok a" using arp_run_inv [OF assms] by simp
  have e: "entry_ok (arp_table a ! i)" if "i < ARP_TABLE_SIZE" for i by (rule arp_ok_entry [OF ok that])
  have "\<forall>i<ARP_TABLE_SIZE. arp_q (arp_table a ! i) \<noteq> [] \<longrightarrow>
      arp_state (arp_table a ! i) = ETHARP_STATE_PENDING \<and> length (arp_q (arp_table a ! i)) \<le> 3"
    using e unfolding entry_ok_def by blast
  moreover have "\<forall>i<ARP_TABLE_SIZE. used (arp_table a ! i) \<longrightarrow>
      arp_ip (arp_table a ! i) \<noteq> 0 \<and> \<not> ip_addr_ismulticast (arp_ip (arp_table a ! i))"
    using e unfolding entry_ok_def by blast
  ultimately show ?thesis using arp_ok_unique [OF ok] cleanup_nothing [OF ok] by blast
qed

text \<open>A station, a packet and the cache after the packet was sent to an unknown neighbour.\<close>

definition station :: ethif where
  "station = \<lparr>lif = (nif 0x0100000a)\<lparr>netif_flags := 0x23\<rparr>, hwaddr = [2, 0, 0, 0, 0, 1], gw = 0\<rparr>"

definition ip_packet :: "pbuf list" where
  "ip_packet = [\<lparr>addr = 0, room = replicate 52 0 @ [7, 8, 9], poff = 52, tot_len = 3, plen = 3, ptype = PBUF_RAM\<rparr>]"

definition memory :: "nat \<Rightarrow> answers" where
  "memory k = [Some (0, replicate (36 + (k + 3) div 4 * 4) 0)]"

lemma station_ok: "length (hwaddr station) = 6" "sendable ip_packet" "memory_for ip_packet (memory 42) (memory 17)"
  "unicast_to station 0x0200000a 0x0200000a" "flat ip_packet = [7, 8, 9]" "given (memory k)"
  by (simp_all add: station_def sendable_def ip_packet_def wf_pbuf_def data_def memory_for_def serves_def memory_def
      LWIP_MEM_ALIGN_SIZE_def unicast_to_def next_hop_def ip_addr_netcmp_def nif_def ip_addr_isbroadcast_def
      netif.truncate_def ip4_addr_isbroadcast_def ip_addr_ismulticast_def non_unicast_def given_def)

lemma start_map: "arp_map arp_start ip = None"
  using arp_map_None [OF arp_ok_start] by (simp add: arp_start_def used_def)

lemma asked:
  obtains r p b where "etharp_output link station ip_packet 0x0200000a (memory 42) (memory 17) True arp_start = Some (r, p, b)"
    "arp_run b" "queued station 0x0200000a [7, 8, 9] True True arp_start r b"
proof -
  have m: "mac_of arp_start 0x0200000a = None" by (simp add: mac_of_def start_map)
  obtain r p b where o: "etharp_output link station ip_packet 0x0200000a (memory 42) (memory 17) True arp_start = Some (r, p, b)"
    "case mac_of arp_start 0x0200000a of
       Some mac \<Rightarrow> mac_of b = mac_of arp_start \<and> waiting b = waiting arp_start \<and>
         (\<exists>ask \<in> {[], [request station 0x0200000a]}.
           wire (arp_log b) = wire (arp_log arp_start) @ ask @ [ip_frame mac (hwaddr station) (flat ip_packet)])
     | None \<Rightarrow> queued station 0x0200000a (flat ip_packet) (given (memory 42)) (given (memory 17) \<and> True) arp_start r b"
    by (rule output_spec [OF arp_run_inv [OF run_start] station_ok(1,2,4,3)])
  have "arp_run b" by (rule run_output [OF run_start station_ok(1-3) o(1)])
  then show thesis using that [OF o(1)] o(2) by (simp add: m station_ok)
qed

lemma arp_table_invariant_witness:
  "\<exists>r p b. etharp_output (\<lambda>_. ERR_OK) station ip_packet 0x0200000a (memory 42) (memory 17) True arp_start = Some (r, p, b) \<and>
     etharp_cleanup_netif (Some 9) b = b"
proof -
  obtain r p b where "etharp_output (\<lambda>_. ERR_OK) station ip_packet 0x0200000a (memory 42) (memory 17) True arp_start = Some (r, p, b)"
    "arp_run b" by (rule asked)
  then show ?thesis using arp_table_invariant [of b] by blast
qed

section \<open>Waiting, learning, aging\<close>

text \<open>
  C13: a packet waits for its address. In any run, when a unicast packet is sent to a neighbour whose
  hardware address is not known (and memory lasts), the cache asks for the address and keeps the
  packet; and when an ARP packet from the neighbour comes in next, request or reply, the last
  three packets kept, this one at the end, are sent to the hardware address it tells, unchanged
  and in their order; the address is known from then on, and a request is answered.
\<close>

theorem packet_waits_for_address:
  assumes "arp_run a" "length (hwaddr n) = 6" "sendable q" "unicast_to n ip h" "mac_of a h = None"
    and "memory_for q rq cp" "given rq" "given cp" "netif_ip (lif n) \<noteq> 0"
  shows "\<exists>f b. etharp_output link n q ip rq cp True a = Some (ERR_OK, f, b) \<and>
    (\<forall>p op mac as link'. arp_packet p op mac h (netif_ip (lif n)) \<and> serves PBUF_RAW (tot_len (hd p)) PBUF_RAM as \<and> given as \<longrightarrow>
       (\<exists>c rest. etharp_arp_input link' n (hwaddr n) p as b = Some c \<and> mac_of c h = Some mac \<and>
          wire (arp_log c) = wire (arp_log a) @ [request n h] @ map (ip_frame mac (hwaddr n)) (last3 (waiting a h @ [flat q])) @
            (if op = ARP_REQUEST then [reply n mac h @ rest] else [])))"
proof -
  have inv: "arp_inv a" by (rule arp_run_inv [OF assms(1)])
  obtain r f b where o: "etharp_output link n q ip rq cp True a = Some (r, f, b)" "arp_inv b"
    "case mac_of a h of
       Some mac \<Rightarrow> mac_of b = mac_of a \<and> waiting b = waiting a \<and>
         (\<exists>ask \<in> {[], [request n h]}. wire (arp_log b) = wire (arp_log a) @ ask @ [ip_frame mac (hwaddr n) (flat q)])
     | None \<Rightarrow> queued n h (flat q) (given rq) (given cp \<and> True) a r b"
    by (rule output_spec [OF inv assms(2,3,4,6)])
  have qd: "r = ERR_OK" "wire (arp_log b) = wire (arp_log a) @ [request n h]" "waiting b h = last3 (waiting a h @ [flat q])"
    using o(3) assms(5,7,8) by (simp_all add: queued_def)
  have ip: "\<not> non_unicast n h" using assms(4) by (simp add: unicast_to_def)
  have "\<exists>c rest. etharp_arp_input link' n (hwaddr n) p as b = Some c \<and> mac_of c h = Some mac \<and>
      wire (arp_log c) = wire (arp_log a) @ [request n h] @ map (ip_frame mac (hwaddr n)) (last3 (waiting a h @ [flat q])) @
        (if op = ARP_REQUEST then [reply n mac h @ rest] else [])"
    if p: "arp_packet p op mac h (netif_ip (lif n))" "serves PBUF_RAW (tot_len (hd p)) PBUF_RAM as" "given as" for p op mac as link'
  proof -
    obtain c where c: "etharp_arp_input link' n (hwaddr n) p as b = Some c" "learned b h mac c"
      "\<exists>answer. wire (arp_log c) = wire (arp_log b) @ map (ip_frame mac (hwaddr n)) (waiting b h) @ answer \<and>
         (if op = ARP_REQUEST then \<exists>rest. answer = [if given as then reply n mac h @ rest else []] else answer = [])"
      by (rule arp_input_for_us [OF o(2) assms(2) p(1) assms(9) ip p(2)])
    then have "mac_of c h = Some mac" by (simp add: learned_def)
    then show ?thesis using c(1,3) qd(2,3) p(3) by (auto split: if_splits)
  qed
  then show ?thesis using o(1) unfolding qd(1) by blast
qed

text \<open>The answer of the neighbour, in one buffer.\<close>

definition neighbour :: "u8 list" where
  "neighbour = [2, 0, 0, 0, 0, 2]"

definition answer_packet :: "pbuf list" where
  "answer_packet = [\<lparr>addr = 0, room = eth_hdr (hwaddr station) neighbour ETHTYPE_ARP @
       etharp_hdr ARP_REPLY neighbour 0x0200000a (hwaddr station) (netif_ip (lif station)),
     poff = 0, tot_len = 42, plen = 42, ptype = PBUF_RAM\<rparr>]"

lemma answer_packet_ok: "arp_packet answer_packet ARP_REPLY neighbour 0x0200000a (netif_ip (lif station))"
  "serves PBUF_RAW (tot_len (hd answer_packet)) PBUF_RAM (memory 42)"
proof -
  have "length (room (hd answer_packet)) = 42"
    by (simp add: answer_packet_def length_eth_hdr length_etharp_hdr station_def neighbour_def)
  then have f: "flat answer_packet = eth_hdr (hwaddr station) neighbour ETHTYPE_ARP @
      etharp_hdr ARP_REPLY neighbour 0x0200000a (hwaddr station) (netif_ip (lif station))" and fr: "frame answer_packet"
    by (simp_all add: answer_packet_def data_def frame_def wf_pbuf_def)
  have l: "length neighbour = 6" by (simp add: neighbour_def)
  show "arp_packet answer_packet ARP_REPLY neighbour 0x0200000a (netif_ip (lif station))"
    unfolding arp_packet_def f
  proof (intro conjI exI)
    show "eth_hdr (hwaddr station) neighbour ETHTYPE_ARP @
        etharp_hdr ARP_REPLY neighbour 0x0200000a (hwaddr station) (netif_ip (lif station)) =
      eth_hdr (hwaddr station) neighbour ETHTYPE_ARP @
        etharp_hdr ARP_REPLY neighbour 0x0200000a (hwaddr station) (netif_ip (lif station)) @ []" by simp
  qed (use fr l station_ok(1) in \<open>simp_all add: answer_packet_def copyable_def\<close>)
  show "serves PBUF_RAW (tot_len (hd answer_packet)) PBUF_RAM (memory 42)"
    by (simp add: answer_packet_def serves_def memory_def LWIP_MEM_ALIGN_SIZE_def)
qed

lemma packet_waits_for_address_witness:
  "\<exists>f b c. etharp_output (\<lambda>_. ERR_OK) station ip_packet 0x0200000a (memory 42) (memory 17) True arp_start = Some (ERR_OK, f, b) \<and>
     etharp_arp_input (\<lambda>_. ERR_OK) station (hwaddr station) answer_packet (memory 42) b = Some c \<and>
     wire (arp_log c) = [request station 0x0200000a, ip_frame neighbour (hwaddr station) [7, 8, 9]]"
proof -
  have m: "mac_of arp_start 0x0200000a = None" "waiting arp_start 0x0200000a = []" "arp_log arp_start = []"
    by (simp_all add: mac_of_def waiting_def start_map) (simp add: arp_start_def)
  have "netif_ip (lif station) \<noteq> 0" by (simp add: station_def nif_def)
  from packet_waits_for_address [OF run_start station_ok(1,2,4) m(1) station_ok(3,6,6) this]
  obtain f b where b: "etharp_output (\<lambda>_. ERR_OK) station ip_packet 0x0200000a (memory 42) (memory 17) True arp_start = Some (ERR_OK, f, b)"
    "\<forall>p op mac as link'. arp_packet p op mac 0x0200000a (netif_ip (lif station)) \<and>
        serves PBUF_RAW (tot_len (hd p)) PBUF_RAM as \<and> given as \<longrightarrow>
       (\<exists>c rest. etharp_arp_input link' station (hwaddr station) p as b = Some c \<and> mac_of c 0x0200000a = Some mac \<and>
          wire (arp_log c) = wire (arp_log arp_start) @ [request station 0x0200000a] @
            map (ip_frame mac (hwaddr station)) (last3 (waiting arp_start 0x0200000a @ [flat ip_packet])) @
            (if op = ARP_REQUEST then [reply station mac 0x0200000a @ rest] else []))" by blast
  obtain c where "etharp_arp_input (\<lambda>_. ERR_OK) station (hwaddr station) answer_packet (memory 42) b = Some c"
    "wire (arp_log c) = wire (arp_log arp_start) @ [request station 0x0200000a] @
       map (ip_frame neighbour (hwaddr station)) (last3 (waiting arp_start 0x0200000a @ [flat ip_packet]))"
    using b(2) answer_packet_ok station_ok(6) by fastforce
  then show ?thesis using b(1) by (simp add: m station_ok last3_def)
qed

text \<open>Ticks.\<close>

lemma tmr_steps:
  assumes "arp_inv a"
  shows "arp_inv ((etharp_tmr ^^ k) a) \<and> arp_table ((etharp_tmr ^^ k) a) = map (aged ^^ k) (arp_table a) \<and>
    wire (arp_log ((etharp_tmr ^^ k) a)) = wire (arp_log a)"
proof (induction k)
  case (Suc k)
  then have i: "arp_inv ((etharp_tmr ^^ k) a)" by blast
  then have "length (arp_table ((etharp_tmr ^^ k) a)) = ARP_TABLE_SIZE" by (simp add: arp_inv_def arp_ok_def)
  note e = etharp_tmr_aged [OF this]
  show ?case using Suc tmr_inv [OF i] e by simp
qed (use assms in simp)

lemma aged_iterate: "used ((aged ^^ k) e) \<Longrightarrow> used e" "arp_ip ((aged ^^ k) e) = arp_ip e"
  by (induction k) simp_all

text \<open>
  C15: the lifetime of an entry. An address that has been known since \<open>ctime\<close> ticks stays known, with the
  same hardware address, until the entry is 240 ticks old, and a pending one keeps its packets until
  it is two ticks old (\<open>life\<close>); at that tick the entry and its packets are gone, and no tick sends
  anything: a request is not repeated.
\<close>

theorem arp_entry_expires:
  assumes "arp_run a" "arp_map a ip = Some e"
  shows "(if unat (ctime e) + k < life e
      then mac_of ((etharp_tmr ^^ k) a) ip = mac_of a ip \<and> waiting ((etharp_tmr ^^ k) a) ip = waiting a ip
      else arp_map ((etharp_tmr ^^ k) a) ip = None) \<and>
    wire (arp_log ((etharp_tmr ^^ k) a)) = wire (arp_log a)"
proof -
  let ?b = "(etharp_tmr ^^ k) a" and ?f = "(aged ^^ k) e"
  have a: "arp_inv a" by (rule arp_run_inv [OF assms(1)])
  note b = tmr_steps [OF a, of k]
  have ok: "arp_ok a" "arp_ok ?b" using arp_inv_ok a b by blast+
  have la: "length (arp_table a) = ARP_TABLE_SIZE" using ok(1) by (simp add: arp_ok_def)
  obtain i where i: "i < ARP_TABLE_SIZE" "arp_table a ! i = e" "used e" "arp_ip e = ip"
    using assms(2) unfolding arp_map_iff [OF ok(1)] by blast
  have "entry_ok e" using arp_ok_entry [OF ok(1) i(1)] i(2) by simp
  note st = aged_steps [OF this i(3), of k]
  have ti: "arp_table ?b ! i = ?f" using b i(1,2) la by simp
  show ?thesis
  proof (cases "unat (ctime e) + k < life e")
    case True
    then have f: "used ?f" "arp_q ?f = arp_q e" "stable (arp_state ?f) = stable (arp_state e)" "arp_ip ?f = ip" "arp_eth ?f = arp_eth e"
      using st i(4) by simp_all
    have "arp_map ?b ip = Some ?f" unfolding arp_map_iff [OF ok(2)] using i(1) ti f by blast
    then show ?thesis using True b assms(2) f by (simp add: mac_of_def waiting_def)
  next
    case False
    have "\<not> (used (arp_table ?b ! j) \<and> arp_ip (arp_table ?b ! j) = ip)" if j: "j < ARP_TABLE_SIZE" for j
    proof
      have tj: "arp_table ?b ! j = (aged ^^ k) (arp_table a ! j)" using b j la by simp
      assume u: "used (arp_table ?b ! j) \<and> arp_ip (arp_table ?b ! j) = ip"
      then have "used (arp_table a ! j)" "arp_ip (arp_table a ! j) = ip" using aged_iterate [of k "arp_table a ! j"] tj by simp_all
      then have "j = i" using arp_ok_unique [OF ok(1) j i(1)] i(2-4) by simp
      then show False using u st False ti by simp
    qed
    then have "arp_map ?b ip = None" using arp_map_None [OF ok(2)] by blast
    then show ?thesis using False b by simp
  qed
qed

lemma arp_entry_expires_witness:
  "\<exists>r f b. etharp_output (\<lambda>_. ERR_OK) station ip_packet 0x0200000a (memory 42) (memory 17) True arp_start = Some (r, f, b) \<and>
     waiting b 0x0200000a = [[7, 8, 9]] \<and> arp_map ((etharp_tmr ^^ 2) b) 0x0200000a = None"
proof -
  obtain r f b where b: "etharp_output (\<lambda>_. ERR_OK) station ip_packet 0x0200000a (memory 42) (memory 17) True arp_start = Some (r, f, b)"
    "arp_run b" "queued station 0x0200000a [7, 8, 9] True True arp_start r b" by (rule asked)
  have w: "waiting b 0x0200000a = [[7, 8, 9]]" and m: "mac_of b 0x0200000a = None"
    using b(3) by (simp_all add: queued_def last3_def waiting_def start_map)
  then obtain e where e: "arp_map b 0x0200000a = Some e" "\<not> stable (arp_state e)"
    by (auto simp: waiting_def mac_of_def split: option.splits if_splits)
  have "used e" using e(1) arp_map_ok [of b _ e] arp_run_inv [OF b(2)] by simp
  then have "life e = 2" using e(2) by (simp add: used_cases life_def)
  then show ?thesis using arp_entry_expires [OF b(2) e(1), of 2] b(1) w by auto
qed

section \<open>A datagram over Ethernet\<close>

text \<open>The headers of a datagram go in front of its first buffer.\<close>

lemma poke_place: "poke q off bs = Some p \<Longrightarrow> ptype p = ptype q \<and> poff p = poff q"
  by (auto simp: poke_def)

lemma output_place:
  assumes "ip_output_if (q # c) src (Some d) t s proto n i = Some (Inr e, w, k)" "ptype q = PBUF_RAM"
  obtains y where "w = y # c" "ptype y = PBUF_RAM" "poff y = poff q - IP_HLEN"
  using assms that poke_place
  by (auto simp: ip_output_if_def ip_output_if_opt_def put_header_def Let_def move_payload_def nat_diff_distrib split: if_splits)

lemma emit_place:
  assumes "udp_emit x (q # c) dst port n i = Some (Inr e, w, k)" "ptype q = PBUF_RAM"
  obtains y where "w = y # c" "ptype y = PBUF_RAM" "poff y = poff q - IP_HLEN"
proof -
  obtain p src where p: "ip_output_if (p # c) (Some src) (Some dst) (ttl x) (tos x) IP_PROTO_UDP n i = Some (Inr e, w, k)"
    "ptype p = PBUF_RAM" "poff p = poff q"
    using assms poke_place by (auto simp: udp_emit_def udp_put_chksum_def Let_def split: bind_splits if_splits)
  then show thesis using output_place [OF p(1,2)] that by metis
qed

lemma sent_sendable:
  assumes e: "udp_sendto_if i (q # c) dst port n as ipid us = Some ((Inr d, w, k), v)" "pcb us i = Some x" "local_port x \<noteq> 0"
    and q: "ptype q = PBUF_RAM" "EP_OFFSET + SIZEOF_ETH_HDR + IP_HLEN + UDP_HLEN \<le> poff q" "\<forall>b \<in> set c. 0 < plen b"
      "length (flat (q # c)) + SIZEOF_ETH_HDR + IP_HLEN + UDP_HLEN < 65536" "wf_chain (q # c)"
    and w: "wf_chain w" "length (flat w) = length (flat (q # c)) + IP_HLEN + UDP_HLEN"
  shows "sendable w"
proof -
  have "pbuf_header (q # c) (int UDP_HLEN) = Some (0, move_payload q (int UDP_HLEN) # c)" using q(1,2) by simp
  then have u: "udp_emit x (move_payload q (int UDP_HLEN) # c) dst port n ipid = Some (Inr d, w, k)"
    using e by (auto simp: udp_sendto_if_def udp_header_room_def simp del: pbuf_header.simps)
  obtain y where y: "w = y # c" "ptype y = PBUF_RAM" "poff y = poff (move_payload q (int UDP_HLEN)) - IP_HLEN"
    by (rule emit_place [OF u]) (simp add: move_payload_def q(1))
  have "EP_OFFSET + SIZEOF_ETH_HDR \<le> poff y" using y(3) q(2) by (simp add: move_payload_def)
  moreover have "0 < plen y"
  proof -
    have "unat (plen y) = unat (plen q) + 28" using w q(5) by (simp add: y(1))
    then show ?thesis by (simp add: word_less_nat_alt)
  qed
  ultimately show ?thesis using w q(3,4) y(2) by (simp add: sendable_def y(1) del: flat_simps)
qed

text \<open>A received frame with an IP packet is handed to \<open>ip_input\<close> without its header.\<close>

lemma ethernet_ip:
  assumes a: "arp_inv a" and l: "length (hwaddr n) = 6" "length d = 6" "length s = 6"
    and fl: "netif_flags (lif n) AND NETIF_FLAG_ETHARP \<noteq> 0"
    and r: "wf_chain (r # rs)" "ptype r = PBUF_RAM" "EP_OFFSET \<le> poff r" "SIZEOF_ETHARP_PACKET \<le> unat (plen r)"
    and f: "flat (r # rs) = ip_frame d s bs"
  obtains p b where "ethernet_input link eats (r # rs) n as h a = map_option (\<lambda>(ev, h). (ev, h, b)) (ip_input eats (p # rs) (lif n) h)"
    "arp_inv b" "wf_chain (p # rs)" "ptype p = PBUF_RAM" "EP_OFFSET \<le> poff p" "28 \<le> unat (plen p)" "flat (p # rs) = bs"
proof -
  let ?h = "eth_hdr d s ETHTYPE_IP"
  have wr: "wf_pbuf r" using r(1) by simp
  have lh: "length ?h = 14" using l by (simp add: length_eth_hdr)
  have t14: "take 14 (data r) = ?h"
  proof -
    have "take 14 (flat (r # rs)) = ?h" using lh by (simp add: f ip_frame_def del: flat_simps)
    then show ?thesis using r(4) wr by simp
  qed
  then have dr: "data r = ?h @ drop 14 (data r)" by (metis append_take_drop_id)
  have t: "peek r 12 2 = Some (be16 ETHTYPE_IP)"
  proof -
    have "take 2 (drop 12 (data r)) = drop 12 ?h" by (simp add: take_drop flip: t14)
    also have "\<dots> = be16 ETHTYPE_IP" using l by (simp add: eth_hdr_def)
    finally show ?thesis using peek_data [OF wr, of 12 2] r(4) by simp
  qed
  obtain src where src: "peek r (14 + 12) 4 = Some src" using peek_data [OF wr, of 26 4] r(4) by simp
  obtain m where m: "peek r 6 6 = Some m" using peek_data [OF wr, of 6 6] r(4) by simp
  obtain b where b: "etharp_ip_input link n (r # rs) a = Some b" "arp_inv b"
  proof (cases "ip_addr_netcmp (le32 src) (netif_ip (lif n)) (netif_mask (lif n))")
    case False
    then show thesis using that [of a] a src by (simp add: etharp_ip_input_def)
  next
    case True
    obtain e c where "update_arp_entry link n (le32 src) m ETHARP_FLAG_FIND_ONLY a = Some (e, c)" "arp_inv c"
      by (rule update_inv [OF a l(1) peek_length [OF m], where link = link and ip = "le32 src" and flags = ETHARP_FLAG_FIND_ONLY]) simp
    then show thesis using that [of c] src m True by (simp add: etharp_ip_input_def)
  qed
  obtain p where p: "pbuf_header (r # rs) (- int (length ?h)) = Some (0, p # rs)" "wf_chain (p # rs)" "data p = drop 14 (data r)"
    "ptype p = PBUF_RAM" "EP_OFFSET \<le> poff p"
    by (rule header_hide [OF r(1-3) dr]) (simp add: lh)
  have wp: "wf_pbuf p" using p(2) by simp
  have "unat (plen p) = unat (plen r) - 14" using length_data [OF wp] wr by (simp add: p(3))
  then have "28 \<le> unat (plen p)" using r(4) by simp
  moreover have "flat (p # rs) = bs"
  proof -
    have "drop 14 (flat (r # rs)) = bs" unfolding f ip_frame_def using lh by simp
    then show ?thesis using r(4) wr by (simp add: p(3))
  qed
  moreover have "ethernet_input link eats (r # rs) n as h a =
      map_option (\<lambda>(ev, h). (ev, h, b)) (ip_input eats (p # rs) (lif n) h)"
    using r(4) t fl b(1) p(1) lh by (simp add: ethernet_input_def del: pbuf_header.simps)
  ultimately show thesis by (intro that [OF _ b(2) p(2,4,5)])
qed

lemma mac_length: "arp_inv a \<Longrightarrow> mac_of a ip = Some mac \<Longrightarrow> length mac = 6"
  using mac_of_iff [of a ip mac] arp_inv_eth [of a] by auto

lemma known_frame:
  assumes "arp_inv a" "length (hwaddr n) = 6" "sendable q" "unicast_to n ip h" "mac_of a h = Some mac" "memory_for q rq cp"
  shows "\<exists>e f b. etharp_output link n q ip rq cp en a = Some (e, f, b) \<and>
    (\<exists>ask \<in> {[], [request n h]}. wire (arp_log b) = wire (arp_log a) @ ask @ [ip_frame mac (hwaddr n) (flat q)])"
proof -
  obtain e f b where "etharp_output link n q ip rq cp en a = Some (e, f, b)"
    "case mac_of a h of
       Some mac \<Rightarrow> mac_of b = mac_of a \<and> waiting b = waiting a \<and>
         (\<exists>ask \<in> {[], [request n h]}. wire (arp_log b) = wire (arp_log a) @ ask @ [ip_frame mac (hwaddr n) (flat q)])
     | None \<Rightarrow> queued n h (flat q) (given rq) (given cp \<and> en) a e b"
    by (rule output_spec [OF assms(1-4,6)])
  then show ?thesis using assms(5) by auto
qed

text \<open>
  C4: a datagram over Ethernet. What a bound block sends with \<open>udp_sendto_if\<close> to a unicast address,
  from a packet with room for all the headers, is put by \<open>etharp_output\<close> into one frame for the
  hardware address its cache knows for the next hop (only a renewed request may go before it);
  and whenever a frame with these bytes comes in at the interface of the receiver, cut into buffers
  in any way (the headers in the first) and followed by any padding, whatever the cache there holds,
  \<open>ethernet_input\<close> ends in exactly one call of the receive function of the block bound to the port,
  with the address and port of the sender and exactly the bytes sent.
\<close>

theorem datagram_over_ethernet:
  assumes sender: "pcb us i = Some x" "local_port x \<noteq> 0" "local_ip x = 0 \<or> local_ip x = netif_ip (lif sn)"
    and packet: "wf_chain (q # c)" "\<forall>b \<in> set c. 0 < plen b" "ptype q = PBUF_RAM"
      "EP_OFFSET + SIZEOF_ETH_HDR + IP_HLEN + UDP_HLEN \<le> poff q"
      "length (flat (q # c)) + SIZEOF_ETH_HDR + IP_HLEN + UDP_HLEN < 65536"
    and ethernet: "arp_run sa" "length (hwaddr sn) = 6" "unicast_to sn dst nh" "mac_of sa nh = Some mac"
    and receiver: "udp_run (udp_part h)" "raw_pcbs h = []" "for_us h (lif rn) dst"
      "\<not> ip_addr_isbroadcast dst (lif rn)" "\<not> ip_addr_ismulticast dst" "port \<noteq> DHCP_CLIENT_PORT" "port \<noteq> DHCP_SERVER_PORT"
      "netif_ip (lif sn) = 0 \<or> \<not> ip_addr_isbroadcast (netif_ip (lif sn)) (lif rn) \<and> \<not> ip_addr_ismulticast (netif_ip (lif sn))"
    and interface: "arp_run ra" "length (hwaddr rn) = 6" "netif_flags (lif rn) AND NETIF_FLAG_ETHARP \<noteq> 0"
    and block: "pcb (udp_part h) j = Some y" "local_port y = port" "port \<noteq> 0" "local_ip y = 0 \<or> local_ip y = dst"
      "unconnected y \<or> remote_match (local_port x) (netif_ip (lif sn)) y" "recv y = Some fn"
  shows "\<exists>w. udp_sendto_if i (q # c) dst port (lif sn) as ipid us = Some ((Inr dst, w, ipid + 1), us) \<and>
    (\<forall>rq cp en link. memory_for w rq cp \<longrightarrow>
       (\<exists>e f b bs. etharp_output link sn w dst rq cp en sa = Some (e, f, b) \<and> take 6 bs = mac \<and>
          (\<exists>ask \<in> {[], [request sn nh]}. wire (arp_log b) = wire (arp_log sa) @ ask @ [bs]) \<and>
          (\<forall>r rs pad eats link' as'. wf_chain (r # rs) \<and> ptype r = PBUF_RAM \<and> EP_OFFSET \<le> poff r \<and>
             SIZEOF_ETHARP_PACKET \<le> unat (plen r) \<and> flat (r # rs) = bs @ pad \<longrightarrow>
             (\<exists>p h' ra'. ethernet_input link' eats (r # rs) rn as' h ra =
                Some ([to_udp (recv_callback j fn p (netif_ip (lif sn)) (local_port x))], h', ra') \<and>
                wf_chain p \<and> flat p = flat (q # c)))))"
proof -
  have room: "EP_OFFSET + IP_HLEN + UDP_HLEN \<le> poff q" "length (flat (q # c)) + IP_HLEN + UDP_HLEN < 65536"
    using packet(4,5) by simp_all
  obtain w where w: "udp_sendto_if i (q # c) dst port (lif sn) as ipid us = Some ((Inr dst, w, ipid + 1), us)"
    and arrives: "\<forall>r rs pad eats. wf_chain (r # rs) \<and> ptype r = PBUF_RAM \<and> EP_OFFSET \<le> poff r \<and> 28 \<le> unat (plen r) \<and>
       flat (r # rs) = flat w @ pad \<longrightarrow>
       (\<exists>p h'. ip_input eats (r # rs) (lif rn) h = Some ([to_udp (recv_callback j fn p (netif_ip (lif sn)) (local_port x))], h') \<and>
          wf_chain p \<and> flat p = flat (q # c))"
    using udp_datagram_arrives [OF sender packet(1,3) room receiver block] by blast
  have sw: "sendable w"
  proof -
    obtain v ick ck u where v: "udp_sendto_if i (q # c) dst port (lif sn) as ipid us = Some ((Inr dst, v, ipid + 1), us)" "wf_chain v"
      "u = udp_hdr (local_port x) port (of_nat (8 + length (flat (q # c)))) ck @ flat (q # c)"
      "flat v = ip_hdr (IPH_VHLTOS 4 5 (tos x)) (of_nat (length u + 20)) ipid 0 (ttl x) IP_PROTO_UDP ick (netif_ip (lif sn)) dst @ u"
      by (rule udp_sent [OF sender packet(1,3) room])
    have "length (flat v) = length (flat (q # c)) + IP_HLEN + UDP_HLEN" unfolding v(4) v(3) by (simp add: udp_hdr_def del: flat_simps)
    then show ?thesis using sent_sendable [OF w sender(1,2) packet(3,4,2,5,1)] v(1,2) w by simp
  qed
  have sa: "arp_inv sa" and ra: "arp_inv ra" using arp_run_inv ethernet(1) interface(1) by blast+
  have lm: "length mac = 6" by (rule mac_length [OF sa ethernet(4)])
  let ?bs = "ip_frame mac (hwaddr sn) (flat w)"
  have inp: "\<exists>p h' ra'. ethernet_input link' eats (r # rs) rn as' h ra =
      Some ([to_udp (recv_callback j fn p (netif_ip (lif sn)) (local_port x))], h', ra') \<and> wf_chain p \<and> flat p = flat (q # c)"
    if r: "wf_chain (r # rs)" "ptype r = PBUF_RAM" "EP_OFFSET \<le> poff r" "SIZEOF_ETHARP_PACKET \<le> unat (plen r)" "flat (r # rs) = ?bs @ pad"
    for r rs pad eats link' as'
  proof -
    have f: "flat (r # rs) = ip_frame mac (hwaddr sn) (flat w @ pad)" using r(5) by (simp add: ip_frame_def del: flat_simps)
    obtain p b where "ethernet_input link' eats (r # rs) rn as' h ra =
        map_option (\<lambda>(ev, h). (ev, h, b)) (ip_input eats (p # rs) (lif rn) h)"
      "wf_chain (p # rs)" "ptype p = PBUF_RAM" "EP_OFFSET \<le> poff p" "28 \<le> unat (plen p)" "flat (p # rs) = flat w @ pad"
      by (rule ethernet_ip [OF ra interface(2) lm ethernet(2) interface(3) r(1-4) f])
    then show ?thesis using arrives by fastforce
  qed
  have "take 6 ?bs = mac" using lm by (simp add: ip_frame_def eth_hdr_def)
  then have "\<exists>e f b bs. etharp_output link sn w dst rq cp en sa = Some (e, f, b) \<and> take 6 bs = mac \<and>
      (\<exists>ask \<in> {[], [request sn nh]}. wire (arp_log b) = wire (arp_log sa) @ ask @ [bs]) \<and> bs = ?bs"
    if "memory_for w rq cp" for rq cp en link
    using known_frame [OF sa ethernet(2) sw ethernet(3,4) that, of link en] by blast
  then show ?thesis using w inp by (intro exI [of _ w] conjI allI impI) metis+
qed

text \<open>The neighbour with its server on port 4096, and a datagram for it when its address is known.\<close>

definition station2 :: ethif where
  "station2 = \<lparr>lif = (nif 0x0200000a)\<lparr>netif_flags := 0x23\<rparr>, hwaddr = neighbour, gw = 0\<rparr>"

definition dgram :: pbuf where
  "dgram = \<lparr>addr = 0, room = replicate 80 0 @ [7, 8], poff = 80, tot_len = 2, plen = 2, ptype = PBUF_RAM\<rparr>"

lemma known_neighbour:
  obtains b where "arp_run b" "mac_of b 0x0200000a = Some neighbour"
proof -
  have us: "netif_ip (lif station) \<noteq> 0" "\<not> non_unicast station 0x0200000a"
    using station_ok(4) by (simp_all add: unicast_to_def) (simp add: station_def nif_def)
  obtain b where b: "etharp_arp_input (\<lambda>_. ERR_OK) station (hwaddr station) answer_packet (memory 42) arp_start = Some b"
    "learned arp_start 0x0200000a neighbour b"
    by (rule arp_input_for_us [OF arp_run_inv [OF run_start] station_ok(1) answer_packet_ok(1) us answer_packet_ok(2)])
  have fr: "frame answer_packet" "unat (plen (hd answer_packet)) = 42"
    using answer_packet_ok(1) by (simp_all add: arp_packet_def) (simp add: answer_packet_def)
  define x where "x = hd answer_packet"
  have x: "answer_packet = [x]" by (simp add: x_def answer_packet_def)
  have r: "room x = (hwaddr station @ neighbour) @ be16 ETHTYPE_ARP @
      etharp_hdr ARP_REPLY neighbour 0x0200000a (hwaddr station) (netif_ip (lif station))" "poff x = 0"
    by (simp_all add: x_def answer_packet_def eth_hdr_def)
  have "length (hwaddr station @ neighbour) = 12" by (simp add: station_def neighbour_def)
  then have "peek x 12 2 = Some (be16 ETHTYPE_ARP)" unfolding peek_def r by simp
  then have "ethernet_input (\<lambda>_. ERR_OK) eats answer_packet station (memory 42) h arp_start = Some ([], h, b)" for eats h
    using b(1) fr(2) unfolding x by (simp add: ethernet_input_def be16_def) (simp add: station_def)
  from run_input [OF run_start station_ok(1) this] show thesis using that b(2) by (simp add: learned_def)
qed

lemma datagram_over_ethernet_witness:
  "\<exists>w. udp_sendto_if 1 [dgram] 0x0200000a 4096 (lif station) [] 0 server_bound = Some ((Inr 0x0200000a, w, 0 + 1), server_bound)"
proof -
  obtain b where b: "arp_run b" "mac_of b 0x0200000a = Some neighbour" by (rule known_neighbour)
  let ?h = "\<lparr>ifs = \<lparr>netif_list = [lif station2], netif_default = None, getif0 = None\<rparr>, raw_pcbs = [],
    udp_part = server, groups = []\<rparr>"
  have us: "pcb server_bound 1 = Some (the (pcb server_bound 1))" "local_port (the (pcb server_bound 1)) \<noteq> 0"
    "local_ip (the (pcb server_bound 1)) = 0 \<or> local_ip (the (pcb server_bound 1)) = netif_ip (lif station)"
    by (simp_all add: server_bound_def two_blocks_def udp_new_def)
  have pk: "wf_chain [dgram]" "\<forall>b \<in> set []. 0 < plen b" "ptype dgram = PBUF_RAM"
    "EP_OFFSET + SIZEOF_ETH_HDR + IP_HLEN + UDP_HLEN \<le> poff dgram"
    "length (flat [dgram]) + SIZEOF_ETH_HDR + IP_HLEN + UDP_HLEN < 65536"
    by (simp_all add: dgram_def wf_pbuf_def data_def)
  have bc: "\<not> ip_addr_isbroadcast 0x0200000a (lif station2)" "\<not> ip_addr_ismulticast 0x0200000a"
    "netif_ip (lif station) = 0 \<or> \<not> ip_addr_isbroadcast (netif_ip (lif station)) (lif station2) \<and>
      \<not> ip_addr_ismulticast (netif_ip (lif station))"
    by (simp_all add: station_def station2_def ip_addr_isbroadcast_def netif.truncate_def ip4_addr_isbroadcast_def ip_addr_ismulticast_def nif_def)
  have us2: "for_us ?h (lif station2) 0x0200000a"
    by (simp add: for_us_def bc(2) netif_accepts_def netif_is_up_def) (simp add: station2_def nif_def)
  have sv: "udp_run (udp_part ?h)" "raw_pcbs ?h = []" by (simp_all add: server_run)
  have bl: "pcb (udp_part ?h) 1 = Some (the (pcb server 1))" "local_port (the (pcb server 1)) = 4096"
    "(4096 :: u16) \<noteq> 0" "local_ip (the (pcb server 1)) = 0 \<or> local_ip (the (pcb server 1)) = 0x0200000a"
    "unconnected (the (pcb server 1)) \<or>
      remote_match (local_port (the (pcb server_bound 1))) (netif_ip (lif station)) (the (pcb server 1))"
    "recv (the (pcb server 1)) = Some (3, 4)"
    by (simp_all add: server_def server_bound_def two_blocks_def udp_new_def unconnected_def)
  have ports: "(4096 :: u16) \<noteq> DHCP_CLIENT_PORT" "(4096 :: u16) \<noteq> DHCP_SERVER_PORT" by simp_all
  have nb: "length (hwaddr station2) = 6" "netif_flags (lif station2) AND NETIF_FLAG_ETHARP \<noteq> 0"
    by (simp_all add: station2_def neighbour_def)
  from datagram_over_ethernet [OF us pk b(1) station_ok(1,4) b(2) sv us2 bc(1,2) ports bc(3) run_start nb bl, of "[]" 0]
  show ?thesis by blast
qed

end
