(* ===== verification/Spec2Isabelle.thy ===== *)
theory Spec2Isabelle
  imports System UartRings HwTimer UserJson PbufHeap SntpClient ArpProps
begin

text \<open>
  A verification library for the gas-sensor firmware in \<open>src/app\<close>: an ESP8266 application on
  the vendor's non-OS SDK that measures a gas concentration, shows it with three LEDs and
  reports it to a server over an encrypted packet format inside a web socket.

  \<^bold>\<open>The program.\<close> There are no threads: the SDK calls the application's callbacks one at a time.
  Two periodic timers drive it. \<open>pwmad_cb\<close> (50 ms, \<open>user_main.c\<close>) counts time, then runs what
  the sensor mode asks for: warm-up, measurement, calibration, self-test, configuration.
  \<open>gas_main_cb\<close> (100 ms) runs the mode machine: start-up, waiting for an address, opening the
  session, provisioning (\<open>gassmartconfig.c\<close>), and, in the normal mode, \<open>networking\<close>
  (\<open>networking.c\<close>), which interprets one command per tick and watches the session. Connection
  callbacks (\<open>tcp_udp.c\<close>) fill the receive buffer and start the login; a key (\<open>key.c\<close>) starts
  calibration and provisioning; the flash keeps the device's identity and its sensor offset.

  The repository also holds the source of the network stack, lwIP as the SDK vendor changed it
  (\<open>src/examples/lwip_open_src_template_proj\<close>): the application has it as a binary. The library
  models the parts on which the rest of that stack stands: packet buffers (\<open>core/pbuf.c\<close>), the
  Internet checksum (\<open>core/ipv4/inet_chksum.c\<close>), the timeouts (\<open>core/timers.c\<close>), addresses, the
  way of a datagram through UDP and IP (\<open>core/udp.c\<close>, \<open>core/ipv4/ip.c\<close>), and the SNTP client
  (\<open>core/sntp.c\<close>), the largest part the vendor wrote himself.

  \<^bold>\<open>Theories.\<close>
  \<^item> \<open>Prelude\<close>: C integers as machine words, arrays with checked accesses (\<open>None\<close> is an access
    outside the object), byte order, status bits. \<open>Config\<close>: the macros of \<open>user_config.h\<close>.
    \<open>CString\<close>: \<open>strlen\<close>, \<open>strstr\<close>, \<open>atoi\<close> on checked memory.
  \<^item> \<open>Firmware\<close>: all globals of the application as one record with the C names, and the log
    \<open>trace\<close> of its calls into the SDK, which has no source.
  \<^item> \<open>Rc4\<close>: the cipher of \<open>networking.c\<close>, refined to the textbook description; locale
    \<open>stream_cipher\<close> is what the packet layer uses of it.
  \<^item> \<open>Frame\<close> (\<open>WebSocket_Data\<close>, \<open>WebRecvData_Proc\<close>, \<open>ProcessPackege\<close>, \<open>Reflash\<close>) and \<open>Roundtrip\<close>:
    the layout on the wire, when either direction leaves its buffer, and that what is sent is
    received.
  \<^item> \<open>Monitor\<close> (\<open>ESP8266_Monitor\<close>, one definition per command, and \<open>networking\<close>), \<open>MonitorProps\<close>
    (locale \<open>command_handler\<close>, interpreted for every command, the interpreter and the task) and
    \<open>Protocol\<close> (the dialogues: reading, threshold, login, registration, silent session).
  \<^item> \<open>TcpUdp\<close> and \<open>Session\<close>: the callbacks of \<open>tcp_udp.c\<close>; handshake, whole and split frames.
    \<open>MapData\<close>: the map query and its scanner. \<open>IpAddr\<close>: the address text of the bundled lwIP,
    which the mode machine tests.
  \<^item> \<open>SmartConfig\<close>: \<open>gassmartconfig.c\<close>. \<open>MainLoop\<close>: \<open>user_main.c\<close>. \<open>Clock\<close>, \<open>Startup\<close> and \<open>Sensor\<close>
    prove what they do over time; locale \<open>divided_timer\<close> is the shape of calibration and
    self-test.
  \<^item> \<open>Key\<close>: the key driver as a transition system over pin edges, late interrupts and timers.
  \<^item> \<open>Uart\<close>, \<open>UartBuf\<close>, \<open>UartRings\<close>: \<open>uart.c\<close> over a register file, and its ring buffers as
    interpretations of the locale \<open>byte_queue\<close>. \<open>HwTimer\<close>: \<open>hw_timer.c\<close>. \<open>UserJson\<close>:
    \<open>user_json.c\<close>.
  \<^item> \<open>Pbuf\<close> (allocation, reading, comparing, searching) and \<open>PbufEdit\<close> (\<open>pbuf_realloc\<close>,
    \<open>pbuf_header\<close>, \<open>pbuf_cat\<close>, copying): a chain as the list of its buffers, each with its
    lengths and the memory around its payload. \<open>PbufHeap\<close>: the same chains in a heap of linked
    buffers with reference counts, for \<open>pbuf_free\<close>, \<open>pbuf_ref\<close>, \<open>pbuf_chain\<close>, \<open>pbuf_dechain\<close>.
  \<^item> \<open>Checksum\<close>: the three versions of the sum, whole chains and pseudo headers.
  \<^item> \<open>UdpPcb\<close> (control blocks, ports, the choice of the block of a datagram), \<open>Ip\<close> (routing,
    \<open>ip_output_if_opt\<close>), \<open>Udp\<close> (\<open>udp_input\<close>, \<open>udp_sendto\<close>) and \<open>IpInput\<close> (\<open>ip_input\<close>, \<open>raw_input\<close>,
    and the way from one host to another). \<open>Etharp\<close>: the ARP cache of \<open>netif/etharp.c\<close> as a
    table of entries, refined to a map of addresses, and \<open>ethernet_input\<close>; \<open>ArpProps\<close>: its runs,
    and the way of a datagram over Ethernet.
  \<^item> \<open>Timeouts\<close>: the list of relative times of \<open>timers.c\<close>, refined to a schedule of absolute
    times, its polling loop, and the stack's own periodic timers.
  \<^item> \<open>SntpTime\<close> (calendar arithmetic and text), \<open>SntpLocal\<close> (time zone and daylight-saving
    rules) and \<open>SntpClient\<close>: the client as a transition system over the schedule of \<open>Timeouts\<close>,
    of which it uses the locale \<open>timeout_queue\<close>, and over the chains of \<open>Pbuf\<close>.
  \<^item> \<open>System\<close>: every callback as an event of one system with its flash, and the invariant of
    all runs. This theory states what spans the components.

  \<^bold>\<open>Correspondence.\<close> A definition has the name of the C function it models, a field the name of
  the C variable; a part of a long function has a name of its own and the function composes the
  parts in the order of the statements. A fallible operation returns an option: \<open>None\<close> is a read
  or write outside an object, nothing else. What the hardware or the SDK returns (samples, pin
  levels, addresses, received bytes, register values, heap size) is an argument. Polling loops of
  \<open>Uart\<close> take the list of values the hardware shows and return \<open>None\<close> while they still wait at
  its end. A loop over data whose end the code does not ensure (freeing or concatenating along
  the links of a heap, the search in a packet, the polling of the timeouts, the search for the
  last week of a month) is a \<open>partial_function\<close>, with a theorem on when it returns. All other
  loops are total functions; no fuel is used.

  \<^bold>\<open>What is shown.\<close> Memory safety of all callbacks but the three that receive, and exactly when
  those and the packet routines fail (\<open>system_invariant\<close>, \<open>networking_safe\<close>, the \<open>_faults_iff\<close> and
  \<open>_overruns_iff\<close> theorems). Functional behaviour of the protocol, the clock, the detector, the
  start-up, the key and the serial driver; round trips of packets and addresses; refinements of
  the cipher and of the rings; persistence of the identity. For the stack: \<open>pbuf_free\<close> returns
  and gives back exactly the buffers nobody refers to any more; the checksum of a chain is that of
  its bytes, whatever the split; what \<open>udp_sendto_if\<close> sends arrives through \<open>ip_input\<close>, and with a
  known hardware address through \<open>ethernet_input\<close>, unchanged at the one block bound to its port
  (\<open>udp_datagram_arrives\<close>, \<open>datagram_over_ethernet\<close>, \<open>udp_ports_exclusive\<close>); a packet for an unknown
  neighbour waits and is sent when the answer comes; the timeout list is a schedule; the calendar
  and the text of the SNTP client are right from 1970 on; a running client always has exactly one continuation as
  long as memory lasts. Several theorems state what the code
  does where it is not what it means to do: the manifest lists them as findings.

  \<^bold>\<open>Not modelled.\<close> The SDK libraries (binary), the rest of the bundled lwIP (TCP, DHCP, DNS,
  ICMP, IGMP, sockets; loopback, forwarding and fragments of IP are compiled out) and the vendor's examples (third-party code the application does not
  contain), of \<open>pbuf.c\<close> the function \<open>pbuf_coalesce\<close>, the emptying of TCP's queues when memory is
  short, and what the options compile out (custom buffers, checksum while copying), diagnostic output by
  \<open>os_printf\<close>, the pin-multiplexer writes of \<open>key_init\<close>, freeing a ring buffer, and linker and
  flash layout. Interrupts are assumed not to preempt the callbacks; the SDK runs timers, network
  callbacks and tasks from one loop.
\<close>

section \<open>The whole system\<close>



section \<open>The identity in the flash\<close>

lemma flash_after_append: "flash_after (es @ fs) f = flash_after fs (flash_after es f)"
  by (simp add: flash_after_def)

lemma flash_after_post [simp]: "flash_after (post_id_calls d) f = f"
  by (simp add: flash_after_def post_id_calls_def Let_def)

lemma user_init_identity:
  "Dev_ID (PP (user_init f g s)) = restore_id (f (0x7C * 4096)) (f (0x7D * 4096))"
  by (simp add: user_init_def tcpwm_init_def Let_def)

text \<open>
  C6: a registered identity survives a reset. When a \<open>NEWIDACK\<close> frame has been received and
  interpreted, a start from the flash as the log of SDK calls has left it, whatever was there
  before, restores the ten bytes of the frame as the device ID if they begin with HT, and
  takes the default ID otherwise.
\<close>

theorem identity_survives_reset:
  assumes "wf_arrays r" "wf_packet df" "command df = COMMAND_NEWIDACK"
    and "12 \<le> unat (payloadlength df)" "unat (payloadlength df) \<le> 100" "holds_frame df r"
  shows "\<exists>r1 r2. WebRecvData_Proc 0 r = Some r1 \<and> ESP8266_Monitor r1 = Some r2 \<and>
    Dev_ID (PP (user_init (flash_after (trace r2) f) gpio4 boot)) =
      (if mems df ! 0 = of_char CHR ''H'' \<and> mems df ! 1 = of_char CHR ''T''
       then take 10 (mems df) else default_id)"
proof -
  let ?dev = "take 10 (mems df)"
  obtain r1 r2 where r: "WebRecvData_Proc 0 r = Some r1" "ESP8266_Monitor r1 = Some r2"
    and c: "config r2 = saved ?dev (config r)" "configcmp r2 = saved ?dev (configcmp r)"
    and t: "trace r2 = trace r @ (if gassmartconfig r = 1 then post_id_calls ?dev else []) @
      [spi_flash_erase_sector 0x7C, spi_flash_write (0x7C * 4096) (config r2),
       spi_flash_erase_sector 0x7D, spi_flash_write (0x7D * 4096) (configcmp r2)]"
    using NEWIDACK_run [OF assms] by blast
  have l: "length ?dev = 10" using assms(2) by (simp add: wf_packet_def)
  have f: "flash_after (trace r2) f (0x7C * 4096) = config r2"
    "flash_after (trace r2) f (0x7D * 4096) = configcmp r2"
    unfolding t by (simp_all add: flash_after_append) (simp_all add: flash_after_def)
  have d: "take 10 (Dev_id (saved ?dev x)) = ?dev" "Dev_id (saved ?dev x) ! 0 = mems df ! 0"
    "Dev_id (saved ?dev x) ! 1 = mems df ! 1" for x
    using l by (simp_all add: saved_def nth_append)
  have "restore_id (config r2) (configcmp r2) =
      (if mems df ! 0 = of_char CHR ''H'' \<and> mems df ! 1 = of_char CHR ''T'' then ?dev else default_id)"
    unfolding restore_id_def c d by simp
  then show ?thesis using r f by (auto simp: user_init_identity)
qed

lemma identity_survives_reset_witness:
  "\<exists>r1 r2. WebRecvData_Proc 0 (example_receiver COMMAND_NEWIDACK) = Some r1 \<and>
     ESP8266_Monitor r1 = Some r2 \<and>
     Dev_ID (PP (user_init (flash_after (trace r2) (\<lambda>_. erased)) True boot)) = str ''HT12345678''"
  using identity_survives_reset [OF example_receiver_ok(1,2,4) _ _ example_receiver_ok(3), of "\<lambda>_. erased" True]
  by (fastforce simp: example_receiver_ok(5) example_frame_def str_def)

text \<open>The SDK calls of one save.\<close>

definition save_calls :: "firmware \<Rightarrow> sdk list" where
  "save_calls s = drop (length (trace s)) (trace (save_config s))"

text \<open>
  C7: the second copy in the flash does not protect the identity. If the power fails within a
  save, after the first sector has been erased, after it has been written with a new identity
  but before the second is erased, or before the second is written, the next start takes the
  default ID, although one copy is intact each time.
\<close>

theorem torn_save_loses_identity:
  assumes "k = 1 \<or> k = 3 \<or>
    k = 2 \<and> take 10 (Dev_id (config s)) \<noteq> take 10 (Dev_id (f (0x7D * 4096)))"
  shows "Dev_ID (PP (user_init (flash_after (take k (save_calls s)) f) gpio4 boot)) = default_id"
proof -
  have c: "save_calls s = [spi_flash_erase_sector 0x7C, spi_flash_write (0x7C * 4096) (config s),
      spi_flash_erase_sector 0x7D, spi_flash_write (0x7D * 4096) (configcmp s)]"
    by (simp add: save_calls_def save_config_def)
  have e: "Dev_id erased ! 0 \<noteq> 72" "Dev_id erased ! Suc 0 \<noteq> 84"
    by (simp_all add: erased_def)
  have t: "take 1 (save_calls s) = [spi_flash_erase_sector 0x7C]"
    "take 2 (save_calls s) = [spi_flash_erase_sector 0x7C, spi_flash_write (0x7C * 4096) (config s)]"
    "take 3 (save_calls s) = [spi_flash_erase_sector 0x7C, spi_flash_write (0x7C * 4096) (config s),
      spi_flash_erase_sector 0x7D]"
    by (simp_all add: c numeral_2_eq_2 numeral_3_eq_3)
  from assms consider (1) "k = 1" | (3) "k = 3"
    | (2) "k = 2" "take 10 (Dev_id (config s)) \<noteq> take 10 (Dev_id (f (0x7D * 4096)))" by blast
  then show ?thesis
    by cases (simp_all only: t, simp_all add: user_init_identity flash_after_def restore_id_def e)
qed

lemma torn_save_loses_identity_witness:
  "Dev_ID (PP (user_init (flash_after (take 3 (save_calls boot)) (\<lambda>_. zero_config)) True boot)) = default_id"
  using torn_save_loses_identity [of 3] by simp

end
